(* ===== verification/Prelude.thy ===== *)
theory Prelude
  imports Main "HOL-Library.Word" "HOL-Library.Char_ord" "HOL-Library.List_Lexorder"
    "HOL-Library.Multiset" "HOL-Library.Signed_Division"
begin

text \<open>
  The vocabulary shared by every component of the model: the machine types of the Go
  program, the conversion between byte slices and strings, the two's complement
  reading of int64 arithmetic, and the generic facts on lists and results that the
  component theories use.

  A Go string is a sequence of bytes; it is modelled as a \<^typ>\<open>string\<close>, whose characters
  are exactly the 256 bytes. Go compares strings bytewise and lexicographically, which is
  the order that the library theories Char_ord and List_Lexorder give to \<^typ>\<open>string\<close>.
\<close>

unbundle bit_operations_syntax

type_synonym u8 = "8 word"
type_synonym u64 = "64 word"
type_synonym bytes = "u8 list"

text \<open>A float64 is kept as its IEEE 754 bit pattern.\<close>

type_synonym f64 = "64 word"

named_theorems wire_simps \<open>evaluation of the wire readers on framed input\<close>
named_theorems progress \<open>a successful reader moves its cursor forward and stays in range\<close>

section \<open>Byte slices and strings\<close>

definition bytes_str :: "bytes \<Rightarrow> string" where
  "bytes_str bs = map (\<lambda>b. char_of (unat b)) bs"

definition str_bytes :: "string \<Rightarrow> bytes" where
  "str_bytes s = map of_char s"

lemma unat_of_char [simp]: "unat (of_char c :: u8) = of_char c"
proof -
  have "(of_char c :: u8) = of_nat (of_char c)"
    by (metis of_nat_of_char)
  moreover have "of_char c < (256 :: nat)"
    by simp
  ultimately show ?thesis
    by (simp add: unat_of_nat)
qed

lemma bytes_str_str_bytes [simp]: "bytes_str (str_bytes s) = s"
  by (simp add: bytes_str_def str_bytes_def comp_def map_idI)

lemma str_bytes_bytes_str [simp]: "str_bytes (bytes_str bs) = bs"
proof -
  have "(of_char (char_of (unat b)) :: u8) = b" for b :: u8
  proof -
    have "(of_char (char_of (unat b)) :: u8) = of_nat (of_char (char_of (unat b)))"
      by (metis of_nat_of_char)
    also have "\<dots> = of_nat (unat b mod 256)"
      by (simp add: of_char_of)
    also have "\<dots> = b"
      using unsigned_less [of b, where ?'a = nat] by simp
    finally show ?thesis .
  qed
  then show ?thesis
    by (simp add: bytes_str_def str_bytes_def comp_def)
qed

lemma length_str_bytes [simp]: "length (str_bytes s) = length s"
  by (simp add: str_bytes_def)

lemma length_bytes_str [simp]: "length (bytes_str bs) = length bs"
  by (simp add: bytes_str_def)

lemma str_bytes_eq_iff [simp]: "str_bytes s = str_bytes t \<longleftrightarrow> s = t"
  by (metis bytes_str_str_bytes)

lemma str_bytes_Nil_iff [simp]: "str_bytes s = [] \<longleftrightarrow> s = []"
  by (simp add: str_bytes_def)

section \<open>Little-endian 64-bit words\<close>

text \<open>binary.LittleEndian.Uint64 and PutUint64.\<close>

definition leUint64 :: "bytes \<Rightarrow> u64" where
  "leUint64 b = ucast (b ! 0) OR push_bit 8 (ucast (b ! 1)) OR push_bit 16 (ucast (b ! 2))
     OR push_bit 24 (ucast (b ! 3)) OR push_bit 32 (ucast (b ! 4)) OR push_bit 40 (ucast (b ! 5))
     OR push_bit 48 (ucast (b ! 6)) OR push_bit 56 (ucast (b ! 7))"

definition putUint64 :: "u64 \<Rightarrow> bytes" where
  "putUint64 v = [ucast v, ucast (drop_bit 8 v), ucast (drop_bit 16 v), ucast (drop_bit 24 v),
     ucast (drop_bit 32 v), ucast (drop_bit 40 v), ucast (drop_bit 48 v), ucast (drop_bit 56 v)]"

lemma length_putUint64 [simp]: "length (putUint64 v) = 8"
  by (simp add: putUint64_def)

text \<open>The byte cut out at offset \<open>k\<close> and shifted back holds the bits \<open>k .. k + 7\<close>.\<close>

lemma byte_of_word:
  "bit (push_bit k (ucast (ucast (drop_bit k v) :: u8)) :: u64) n
     \<longleftrightarrow> k \<le> n \<and> n < k + 8 \<and> n < 64 \<and> bit v n"
  by (auto simp: bit_simps)

lemma byte_of_word0: "bit (ucast (ucast v :: u8) :: u64) n \<longleftrightarrow> n < 8 \<and> bit (v :: u64) n"
  by (auto simp: bit_simps)

lemma leUint64_putUint64 [simp]: "leUint64 (putUint64 v @ rest) = v"
proof (rule bit_word_eqI)
  fix n assume "n < LENGTH(64)"
  then have n: "n < 64" by simp
  then show "bit (leUint64 (putUint64 v @ rest)) n \<longleftrightarrow> bit v n"
    unfolding leUint64_def putUint64_def append.simps nth_Cons_0 nth_Cons_numeral
      nth_Cons_Suc One_nat_def bit_or_iff
    by (cases "bit v n"; simp add: byte_of_word byte_of_word0; presburger)
qed

section \<open>int64 arithmetic\<close>

text \<open>
  An int64 is an \<^typ>\<open>int\<close> in the two's complement range; arithmetic that may leave the
  range is followed by \<open>wrap64\<close>. Go's \<open>%\<close> truncates towards zero, which is \<open>smod\<close>.
\<close>

definition wrap64 :: "int \<Rightarrow> int" where
  "wrap64 x = signed_take_bit 63 x"

definition in_i64 :: "int \<Rightarrow> bool" where
  "in_i64 x \<longleftrightarrow> - (2 ^ 63) \<le> x \<and> x < 2 ^ 63"

lemma wrap64_id [simp]: "in_i64 x \<Longrightarrow> wrap64 x = x"
  by (simp add: in_i64_def wrap64_def signed_take_bit_int_eq_self)

lemma in_i64_wrap64 [simp]: "in_i64 (wrap64 x)"
  using signed_take_bit_int_less_exp [of 63 x] signed_take_bit_int_greater_eq_minus_exp [of 63 x]
  by (simp add: in_i64_def wrap64_def)

lemma in_i64_sint [simp]: "in_i64 (sint (w :: u64))"
  using sint_range_size [of w] by (simp add: in_i64_def word_size)

lemma wrap64_sint_of_int: "sint (of_int x :: u64) = wrap64 x"
  by (simp add: wrap64_def signed_of_int)

section \<open>Lists and cursors\<close>

lemma nth_append_at [simp]: "(pre @ x # post) ! length pre = x"
  by (simp add: nth_append)

lemma drop_append_at [simp]: "drop (length pre) (pre @ post) = post"
  by simp

lemma not_less_length_Nil: "\<not> i < length xs \<Longrightarrow> drop i xs = []"
  by simp

lemma of_int_wrap64: "(of_int (wrap64 x) :: u64) = of_int x"
  unfolding wrap64_sint_of_int [symmetric] of_int_sint by simp

lemma wrap64_add_cancel: "in_i64 t \<Longrightarrow> wrap64 (s + wrap64 (t - s)) = t"
proof -
  assume "in_i64 t"
  moreover have "(of_int (s + wrap64 (t - s)) :: u64) = of_int t"
    unfolding of_int_add of_int_wrap64 by simp
  then have "wrap64 (s + wrap64 (t - s)) = wrap64 t"
    by (metis wrap64_sint_of_int)
  ultimately show ?thesis by simp
qed

section \<open>Strings\<close>

text \<open>strings.HasPrefix, strings.HasSuffix and strings.TrimSuffix.\<close>

definition hasPrefix :: "string \<Rightarrow> string \<Rightarrow> bool" where
  "hasPrefix s p \<longleftrightarrow> take (length p) s = p"

definition hasSuffix :: "string \<Rightarrow> string \<Rightarrow> bool" where
  "hasSuffix s p \<longleftrightarrow> length p \<le> length s \<and> drop (length s - length p) s = p"

definition trimSuffix :: "string \<Rightarrow> string \<Rightarrow> string" where
  "trimSuffix s suf = (if hasSuffix s suf then take (length s - length suf) s else s)"

lemma trimSuffix_append [simp]: "trimSuffix (s @ suf) suf = s"
  by (simp add: trimSuffix_def hasSuffix_def)

end
