(* ===== verification/ProtoWire.thy ===== *)
theory ProtoWire
  imports Prelude
begin

text \<open>
  The protobuf wire reader of the remote-write fast path
  (src/internal/snuffle/remote_fast.go, from readProtoBytes to protoUnsafeString): a cursor
  \<open>i\<close> into the request body, advanced by each read. A reader takes the body and the cursor
  and returns the value with the new cursor, or the error of the code.

  The locale \<open>proto_reader\<close> states what every caller relies on: progress (which makes the
  parse loops terminate) and independence of what lies before the cursor and behind the field.
  \<open>proto_codec\<close> adds an encoder whose output the reader returns; its \<open>read_framed\<close> evaluates a
  read in the middle of a message. Both are interpreted for the varint and the
  length-delimited reader of the code.
\<close>

section \<open>Errors of the remote-write decoder\<close>

datatype rw_error =
    TruncatedVarint
  | VarintOverflow
  | LengthExceeds u64 nat
  | TruncatedFixed64
  | TruncatedFixed32
  | UnsupportedWireType nat
  | SampleTruncatedFixed64
  | InvalidFieldNumber string nat
  | BadWireType string nat
  | EmptyLabelName
  | DuplicateLabel string
  | NoLabels
  | MissingMetricName
  | LabelsNotFound nat
  | AuxLabelEmptyName
  | AuxLabelDuplicate string
  | MarshalFailed

section \<open>The readers\<close>

text \<open>The wire types are the constants protoWireVarint = 0, protoWireFixed64 = 1,
  protoWireBytes = 2 and protoWireFixed32 = 5.\<close>

definition protoWireVarint :: nat where "protoWireVarint = 0"
definition protoWireFixed64 :: nat where "protoWireFixed64 = 1"
definition protoWireBytes :: nat where "protoWireBytes = 2"
definition protoWireFixed32 :: nat where "protoWireFixed32 = 5"

lemmas wire_type_defs =
  protoWireVarint_def protoWireFixed64_def protoWireBytes_def protoWireFixed32_def

function readProtoVarintSlow :: "bytes \<Rightarrow> nat \<Rightarrow> u64 \<Rightarrow> nat \<Rightarrow> rw_error + (u64 \<times> nat)" where
  "readProtoVarintSlow data i value shift =
     (if shift < 64 then
        (if i \<ge> length data then Inl TruncatedVarint
         else
           let b = data ! i;
               value' = value OR push_bit shift (ucast (b AND 0x7f))
           in if b < 0x80 then Inr (value', i + 1)
              else readProtoVarintSlow data (i + 1) value' (shift + 7))
      else Inl VarintOverflow)"
  by pat_completeness auto
termination
  by (relation "measure (\<lambda>(d, i, v, s). 64 - s)") auto

declare readProtoVarintSlow.simps [simp del]

definition readProtoVarint :: "bytes \<Rightarrow> nat \<Rightarrow> rw_error + (u64 \<times> nat)" where
  "readProtoVarint data i =
     (if i \<ge> length data then Inl TruncatedVarint
      else
        let b = data ! i
        in if b < 0x80 then Inr (ucast b, i + 1)
           else readProtoVarintSlow data (i + 1) (ucast (b AND 0x7f)) 7)"

definition readProtoBytes :: "bytes \<Rightarrow> nat \<Rightarrow> rw_error + (bytes \<times> nat)" where
  "readProtoBytes data i =
     (case readProtoVarint data i of
        Inl e \<Rightarrow> Inl e
      | Inr (len, i1) \<Rightarrow>
          if unat len > length data - i1 then Inl (LengthExceeds len (length data - i1))
          else Inr (take (unat len) (drop i1 data), i1 + unat len))"

definition skipProtoField :: "bytes \<Rightarrow> nat \<Rightarrow> nat \<Rightarrow> rw_error + nat" where
  "skipProtoField data i wireType =
     (if wireType = protoWireVarint then
        (case readProtoVarint data i of Inl e \<Rightarrow> Inl e | Inr (_, i1) \<Rightarrow> Inr i1)
      else if wireType = protoWireFixed64 then
        (if length data - i < 8 then Inl TruncatedFixed64 else Inr (i + 8))
      else if wireType = protoWireBytes then
        (case readProtoBytes data i of Inl e \<Rightarrow> Inl e | Inr (_, i1) \<Rightarrow> Inr i1)
      else if wireType = protoWireFixed32 then
        (if length data - i < 4 then Inl TruncatedFixed32 else Inr (i + 4))
      else Inl (UnsupportedWireType wireType))"

definition protoUnsafeString :: "bytes \<Rightarrow> string" where
  "protoUnsafeString data = (if data = [] then '''' else bytes_str data)"

text \<open>The field number and the wire type of a key, as each parse loop computes them.\<close>

definition keyField :: "u64 \<Rightarrow> nat" where
  "keyField key = unat (drop_bit 3 key)"

definition keyWire :: "u64 \<Rightarrow> nat" where
  "keyWire key = unat (key AND 7)"

lemma protoUnsafeString_eq [simp]: "protoUnsafeString data = bytes_str data"
  by (simp add: protoUnsafeString_def bytes_str_def)

section \<open>The contract of a cursor reader\<close>

definition shiftCursor :: "nat \<Rightarrow> rw_error + ('a \<times> nat) \<Rightarrow> rw_error + ('a \<times> nat)" where
  "shiftCursor k r = map_sum id (map_prod id (\<lambda>i. k + i)) r"

lemma shiftCursor_simps [simp]:
  "shiftCursor k (Inl e) = Inl e"
  "shiftCursor k (Inr (x, i)) = Inr (x, k + i)"
  by (simp_all add: shiftCursor_def)

locale proto_reader =
  fixes read :: "bytes \<Rightarrow> nat \<Rightarrow> rw_error + ('a \<times> nat)"
  assumes read_progress: "read d i = Inr (x, j) \<Longrightarrow> i < j \<and> j \<le> length d"
    and read_shift: "read (pre @ d) (length pre + i) = shiftCursor (length pre) (read d i)"
    and read_extend: "read d i = Inr (x, j) \<Longrightarrow> read (d @ post) i = Inr (x, j)"
begin

lemma read_in_range: "read d i = Inr (x, j) \<Longrightarrow> i < length d"
  using read_progress by fastforce

lemma read_at: "read (pre @ d) (length pre) = shiftCursor (length pre) (read d 0)"
  using read_shift [of pre d 0] by simp

end

locale proto_codec = proto_reader read
  for read :: "bytes \<Rightarrow> nat \<Rightarrow> rw_error + ('a \<times> nat)" +
  fixes enc :: "'a \<Rightarrow> bytes"
    and ok :: "'a \<Rightarrow> bool"
  assumes read_enc: "ok x \<Longrightarrow> read (enc x) 0 = Inr (x, length (enc x))"
begin

lemma read_framed:
  assumes "ok x"
  shows "read (pre @ enc x @ post) (length pre) = Inr (x, length pre + length (enc x))"
  using read_extend [OF read_enc [OF assms], of post] by (simp add: read_at)

lemma read_head: "ok x \<Longrightarrow> read (enc x @ post) 0 = Inr (x, length (enc x))"
  using read_framed [of x "[]"] by simp

lemma enc_nonempty: "ok x \<Longrightarrow> 0 < length (enc x)"
  using read_progress [OF read_enc] by blast

lemma enc_prefix_free:
  assumes "ok x" "ok y" "enc x @ xs = enc y @ ys"
  shows "x = y \<and> xs = ys"
proof -
  have "read (enc x @ xs) 0 = Inr (x, length (enc x))"
    by (rule read_head [OF assms(1)])
  moreover have "read (enc x @ xs) 0 = Inr (y, length (enc y))"
    unfolding assms(3) by (rule read_head [OF assms(2)])
  ultimately have "x = y" by simp
  then show ?thesis using assms(3) by simp
qed

end

section \<open>The readers satisfy the contract\<close>

lemma readProtoVarintSlow_progress:
  "readProtoVarintSlow d i v s = Inr (x, j) \<Longrightarrow> i < j \<and> j \<le> length d \<and> 7 * (j - i) < 71 - s"
proof (induction d i v s rule: readProtoVarintSlow.induct)
  case (1 d i v s)
  show ?case
  proof (cases "s < 64 \<and> i < length d \<and> \<not> d ! i < 0x80")
    case True
    then have "readProtoVarintSlow d (i + 1) (v OR push_bit s (ucast (d ! i AND 0x7f))) (s + 7) = Inr (x, j)"
      using "1.prems" by (simp add: readProtoVarintSlow.simps [of d i v s] Let_def)
    from "1.IH" [OF _ _ refl refl _ this] True show ?thesis
      by auto
  next
    case False
    then show ?thesis
      using "1.prems"
      by (auto simp: readProtoVarintSlow.simps [of d i v s] Let_def split: if_splits)
  qed
qed

lemma readProtoVarint_progress [progress]:
  assumes "readProtoVarint d i = Inr (x, j)"
  shows "i < j \<and> j \<le> length d"
  using assms readProtoVarintSlow_progress [of d "i + 1"]
  by (fastforce simp: readProtoVarint_def Let_def split: if_splits)

lemma readProtoVarint_bound:
  assumes "readProtoVarint d i = Inr (x, j)"
  shows "j \<le> i + 10"
proof (cases "d ! i < 0x80")
  case True
  with assms show ?thesis
    by (auto simp: readProtoVarint_def Let_def split: if_splits)
next
  case False
  with assms have "readProtoVarintSlow d (i + 1) (ucast (d ! i AND 0x7f)) 7 = Inr (x, j)"
    by (simp add: readProtoVarint_def Let_def split: if_splits)
  from readProtoVarintSlow_progress [OF this] have "7 * (j - (i + 1)) < 64" "i + 1 < j"
    by auto
  then show ?thesis by linarith
qed

lemma readProtoBytes_progress [progress]:
  assumes "readProtoBytes d i = Inr (x, j)"
  shows "i < j \<and> j \<le> length d"
  using assms readProtoVarint_progress [of d i]
  by (fastforce simp: readProtoBytes_def split: sum.splits if_splits)

lemma readProtoBytes_slice:
  assumes "readProtoBytes d i = Inr (b, j)"
  shows "i + length b < j \<and> j \<le> length d \<and> b = take (length b) (drop (j - length b) d)"
  using assms
  by (auto simp: readProtoBytes_def not_less split: sum.splits if_splits dest!: readProtoVarint_progress)

lemma skipProtoField_progress [progress]:
  assumes "skipProtoField d i w = Inr j" "i \<le> length d"
  shows "i < j \<and> j \<le> length d"
  using assms
  by (auto simp: skipProtoField_def split: sum.splits if_splits
      dest!: readProtoVarint_progress readProtoBytes_progress)

lemma readProtoVarintSlow_shift:
  "readProtoVarintSlow (pre @ d) (length pre + i) v s
     = shiftCursor (length pre) (readProtoVarintSlow d i v s)"
proof (induction d i v s rule: readProtoVarintSlow.induct)
  case (1 d i v s)
  show ?case
  proof (cases "s < 64 \<and> i < length d")
    case True
    then show ?thesis
      using "1.IH" [OF _ _ refl refl]
      by (auto simp: readProtoVarintSlow.simps [of d i v s] Let_def nth_append
          readProtoVarintSlow.simps [of "pre @ d" "length pre + i" v s])
  next
    case False
    then show ?thesis
      by (auto simp: readProtoVarintSlow.simps [of d i v s] Let_def
          readProtoVarintSlow.simps [of "pre @ d" "length pre + i" v s])
  qed
qed

lemma readProtoVarint_shift:
  "readProtoVarint (pre @ d) (length pre + i) = shiftCursor (length pre) (readProtoVarint d i)"
  using readProtoVarintSlow_shift [of pre d "i + 1"]
  by (auto simp: readProtoVarint_def Let_def nth_append)

lemma readProtoVarintSlow_extend:
  "readProtoVarintSlow d i v s = Inr (x, j) \<Longrightarrow> readProtoVarintSlow (d @ post) i v s = Inr (x, j)"
proof (induction d i v s rule: readProtoVarintSlow.induct)
  case (1 d i v s)
  then show ?case
    by (auto simp: readProtoVarintSlow.simps [of d i v s] Let_def nth_append
        readProtoVarintSlow.simps [of "d @ post" i v s] split: if_splits)
qed

lemma readProtoVarint_extend:
  "readProtoVarint d i = Inr (x, j) \<Longrightarrow> readProtoVarint (d @ post) i = Inr (x, j)"
  using readProtoVarintSlow_extend
  by (auto simp: readProtoVarint_def Let_def nth_append split: if_splits)

interpretation varint_reader: proto_reader readProtoVarint
  by unfold_locales
    (auto dest: readProtoVarint_progress readProtoVarint_extend simp: readProtoVarint_shift)

lemma readProtoBytes_shift:
  "readProtoBytes (pre @ d) (length pre + i) = shiftCursor (length pre) (readProtoBytes d i)"
  by (auto simp: readProtoBytes_def varint_reader.read_shift split: sum.splits
      dest: readProtoVarint_progress)

lemma readProtoBytes_extend:
  assumes "readProtoBytes d i = Inr (x, j)"
  shows "readProtoBytes (d @ post) i = Inr (x, j)"
proof -
  from assms obtain len i1 where r: "readProtoVarint d i = Inr (len, i1)"
    and le: "unat len \<le> length d - i1" and x: "x = take (unat len) (drop i1 d)" "j = i1 + unat len"
    by (auto simp: readProtoBytes_def split: sum.splits if_splits)
  then show ?thesis
    using readProtoVarint_progress [OF r]
    by (simp add: readProtoBytes_def varint_reader.read_extend [OF r])
qed

interpretation bytes_reader: proto_reader readProtoBytes
  by unfold_locales
    (auto dest: readProtoBytes_progress readProtoBytes_extend simp: readProtoBytes_shift)

section \<open>The wire format: an encoder and the round trip\<close>

text \<open>The base-128 encoding of protobuf, which the readers are to invert: seven bits a byte,
  least significant first, the high bit set on every byte but the last.\<close>

function encodeVarint :: "u64 \<Rightarrow> bytes" where
  "encodeVarint v = (if v < 128 then [ucast v] else (ucast v OR 0x80) # encodeVarint (drop_bit 7 v))"
  by pat_completeness auto
termination
proof (relation "measure unat")
  fix v :: u64 assume "\<not> v < 128"
  then have "128 \<le> unat v"
    by (simp add: word_less_nat_alt)
  then show "(drop_bit 7 v, v) \<in> measure unat"
    by (simp add: unat_drop_bit_eq flip: drop_bit_eq_div) (simp add: drop_bit_eq_div)
qed simp

declare encodeVarint.simps [simp del]

definition encodeBytes :: "bytes \<Rightarrow> bytes" where
  "encodeBytes b = encodeVarint (of_nat (length b)) @ b"

lemma and_127: "(v :: u64) AND 127 = take_bit 7 v"
  by (simp add: take_bit_eq_mask mask_eq_exp_minus_1)

lemma split7: "take_bit 7 v OR push_bit 7 (drop_bit 7 v) = (v :: u64)"
proof (rule bit_word_eqI)
  fix n assume "n < LENGTH(64)"
  then show "bit (take_bit 7 v OR push_bit 7 (drop_bit 7 v)) n \<longleftrightarrow> bit v n"
    by (cases "n < 7") (auto simp: bit_simps)
qed

lemma bit_127: "bit (127 :: 'a::len word) n \<longleftrightarrow> n < 7 \<and> n < LENGTH('a)"
proof -
  have "(127 :: 'a word) = mask 7"
    by (simp add: mask_eq_exp_minus_1)
  then show ?thesis
    by (simp only: bit_mask_iff) auto
qed

lemma bit_128: "bit (128 :: 'a::len word) n \<longleftrightarrow> n = 7 \<and> n < LENGTH('a)"
proof -
  have "(128 :: 'a word) = 2 ^ 7" by simp
  then show ?thesis
    by (simp only: bit_exp_iff) auto
qed

lemma bit_127_128_int [simp]:
  "bit (127 :: int) n \<longleftrightarrow> n < 7" "bit (128 :: int) n \<longleftrightarrow> n = 7"
proof -
  have "(127 :: int) = mask 7" "(128 :: int) = 2 ^ 7"
    by (simp_all add: mask_eq_exp_minus_1)
  then show "bit (127 :: int) n \<longleftrightarrow> n < 7" "bit (128 :: int) n \<longleftrightarrow> n = 7"
    by (simp_all only: bit_mask_iff bit_exp_iff) auto
qed

lemma take_bit_small: "unat (v :: 'a::len word) < 2 ^ n \<Longrightarrow> take_bit n v = v"
  by (simp add: word_unat_eq_iff unsigned_take_bit_eq take_bit_nat_eq_self)

lemma low_byte: "ucast ((ucast (v :: u64) OR 0x80 :: u8) AND 0x7f) = take_bit 7 v"
  by (rule bit_word_eqI) (auto simp: bit_simps bit_127 bit_128)

lemma last_byte:
  assumes "v < 128"
  shows "ucast ((ucast (v :: u64) :: u8) AND 0x7f) = v"
proof -
  have "ucast ((ucast v :: u8) AND 0x7f) = take_bit 7 v"
    by (rule bit_word_eqI) (auto simp: bit_simps bit_127)
  also have "\<dots> = v"
    using assms by (intro take_bit_small) (simp add: word_less_nat_alt)
  finally show ?thesis .
qed

lemma high_bit: "\<not> (ucast (v :: u64) OR 0x80 :: u8) < 0x80"
  by (simp add: not_less le_word_or1)

lemma small_byte: "v < 128 \<Longrightarrow> (ucast (v :: u64) :: u8) < 0x80"
  by (simp add: word_less_nat_alt unsigned_ucast_eq take_bit_nat_eq_self)

lemma small_ucast: "v < 128 \<Longrightarrow> ucast (ucast (v :: u64) :: u8) = v"
proof -
  assume "v < 128"
  have "ucast (ucast v :: u8) = take_bit 8 v"
    by (rule bit_word_eqI) (auto simp: bit_simps)
  also have "\<dots> = v"
    using \<open>v < 128\<close> by (intro take_bit_small) (simp add: word_less_nat_alt)
  finally show ?thesis .
qed

lemma unat_drop7: "unat (drop_bit 7 (v :: u64)) = unat v div 128"
  by (simp add: drop_bit_eq_div unat_div)

lemma readProtoVarintSlow_encode:
  assumes "unat v < 2 ^ (64 - s)" "s < 64"
  shows "readProtoVarintSlow (pre @ encodeVarint v) (length pre) acc s
     = Inr (acc OR push_bit s v, length pre + length (encodeVarint v))"
  using assms
proof (induction v arbitrary: pre acc s rule: encodeVarint.induct)
  case (1 v)
  show ?case
  proof (cases "v < 128")
    case True
    then show ?thesis
      using "1.prems"
      by (simp add: encodeVarint.simps [of v] readProtoVarintSlow.simps last_byte small_byte)
  next
    case False
    let ?b = "ucast v OR 0x80 :: u8"
    from False have "2 ^ 7 < (2 :: nat) ^ (64 - s)"
      using "1.prems"(1) by (simp add: word_less_nat_alt)
    then have s: "s + 7 < 64"
      using power_less_imp_less_exp [of "2 :: nat" 7 "64 - s"] by simp
    then have "64 - s = 7 + (64 - (s + 7))" by simp
    then have "unat v < 2 ^ 7 * 2 ^ (64 - (s + 7))"
      using "1.prems"(1) by (metis power_add)
    then have "unat (drop_bit 7 v) < 2 ^ (64 - (s + 7))"
      unfolding unat_drop7 by (simp add: less_mult_imp_div_less mult.commute)
    from "1.IH" [OF False this s, of "pre @ [?b]" "acc OR push_bit s (take_bit 7 v)"]
    have IH: "readProtoVarintSlow (pre @ ?b # encodeVarint (drop_bit 7 v)) (Suc (length pre))
        (acc OR push_bit s (take_bit 7 v)) (s + 7)
       = Inr ((acc OR push_bit s (take_bit 7 v)) OR push_bit (s + 7) (drop_bit 7 v),
              Suc (length pre) + length (encodeVarint (drop_bit 7 v)))"
      by simp
    have "push_bit s v = push_bit s (take_bit 7 v) OR push_bit (s + 7) (drop_bit 7 v)"
      by (metis split7 push_bit_or push_bit_push_bit)
    then have eq: "(acc OR push_bit s (take_bit 7 v)) OR push_bit (s + 7) (drop_bit 7 v)
        = acc OR push_bit s v"
      by (simp only: or.assoc)
    have "readProtoVarintSlow (pre @ encodeVarint v) (length pre) acc s
      = readProtoVarintSlow (pre @ ?b # encodeVarint (drop_bit 7 v)) (Suc (length pre))
          (acc OR push_bit s (take_bit 7 v)) (s + 7)"
      using False s
      by (subst readProtoVarintSlow.simps)
        (simp add: encodeVarint.simps [of v] low_byte high_bit)
    then show ?thesis
      unfolding IH eq using False by (simp add: encodeVarint.simps [of v])
  qed
qed

lemma readProtoVarint_encode: "readProtoVarint (encodeVarint v) 0 = Inr (v, length (encodeVarint v))"
proof (cases "v < 128")
  case True
  then show ?thesis
    by (simp add: readProtoVarint_def encodeVarint.simps [of v] small_byte small_ucast)
next
  case False
  let ?b = "ucast v OR 0x80 :: u8"
  have "unat (drop_bit 7 v) < 2 ^ (64 - 7)"
    unfolding unat_drop7 using unsigned_less [of v, where ?'a = nat]
    by (simp add: less_mult_imp_div_less)
  from readProtoVarintSlow_encode [OF this, of "[?b]" "take_bit 7 v"]
  show ?thesis
    using False
    by (simp add: readProtoVarint_def encodeVarint.simps [of v] low_byte high_bit split7)
qed

interpretation varint: proto_codec readProtoVarint encodeVarint "\<lambda>_. True"
  by unfold_locales (rule readProtoVarint_encode)

lemma readProtoBytes_encode:
  assumes "length b < 2 ^ 64"
  shows "readProtoBytes (encodeBytes b) 0 = Inr (b, length (encodeBytes b))"
  using assms
  by (simp add: readProtoBytes_def encodeBytes_def varint.read_head unat_of_nat)

interpretation lenbytes: proto_codec readProtoBytes encodeBytes "\<lambda>b. length b < 2 ^ 64"
  by unfold_locales (rule readProtoBytes_encode)

section \<open>Properties\<close>

text \<open>Round trip: at any place of a message the reader returns the 64-bit value a protobuf
  writer encoded there, with the cursor behind it, whatever precedes and follows; and no encoding is
  a proper prefix of another.\<close>

theorem varint_roundtrip:
  "readProtoVarint (pre @ encodeVarint v @ post) (length pre) = Inr (v, length pre + length (encodeVarint v))
   \<and> (encodeVarint v @ post = encodeVarint v' @ post' \<longleftrightarrow> v = v' \<and> post = post')"
  using varint.read_framed [where x = v] varint.enc_prefix_free [where x = v and y = v'] by blast

text \<open>Round trip of length-delimited fields: at any place of a message the reader returns the
  field's bytes with the cursor behind them.\<close>

theorem bytes_roundtrip:
  assumes "length b < 2 ^ 64"
  shows "readProtoBytes (pre @ encodeBytes b @ post) (length pre) = Inr (b, length pre + length (encodeBytes b))"
  by (rule lenbytes.read_framed [OF assms])

theorem bytes_roundtrip_witness:
  "readProtoBytes ([0] @ encodeBytes [7, 8] @ [9]) (length [0 :: u8]) = Inr ([7, 8], length [0 :: u8] + length (encodeBytes [7, 8]))"
  by (rule bytes_roundtrip) simp

text \<open>Bounds on any input, well-formed or hostile: a successful read moves the cursor forward and
  leaves it inside the body, a varint takes at most ten bytes, a field is exactly the slice of the
  body that ends at the new cursor, and a skip moves forward and stays inside. This is why the
  parse loops end and never index out of range.\<close>

theorem readers_stay_in_bounds:
  "(\<forall>v j. readProtoVarint d i = Inr (v, j) \<longrightarrow> i < j \<and> j \<le> length d \<and> j \<le> i + 10)
   \<and> (\<forall>b j. readProtoBytes d i = Inr (b, j) \<longrightarrow>
        i + length b < j \<and> j \<le> length d \<and> b = take (length b) (drop (j - length b) d))
   \<and> (\<forall>w j. i \<le> length d \<and> skipProtoField d i w = Inr j \<longrightarrow> i < j \<and> j \<le> length d)"
proof (intro conjI allI impI)
  fix v j assume "readProtoVarint d i = Inr (v, j)"
  then show "i < j" "j \<le> length d" "j \<le> i + 10"
    using readProtoVarint_progress readProtoVarint_bound by blast+
next
  fix b j assume "readProtoBytes d i = Inr (b, j)"
  then show "i + length b < j" "j \<le> length d" "b = take (length b) (drop (j - length b) d)"
    using readProtoBytes_slice by blast+
next
  fix w j assume "i \<le> length d \<and> skipProtoField d i w = Inr j"
  then show "i < j" "j \<le> length d"
    using skipProtoField_progress by blast+
qed

theorem readers_stay_in_bounds_witness:
  "[7 :: u8] = take (length [7 :: u8]) (drop (3 - length [7 :: u8]) [9, 1, 7 :: u8])"
proof -
  have "readProtoBytes [9, 1, 7] 1 = Inr ([7], 3)"
    by (simp add: readProtoBytes_def readProtoVarint_def Let_def)
  then show ?thesis
    using readers_stay_in_bounds [of "[9, 1, 7]" 1] by blast
qed

end
