(* ===== verification/FastIndex.thy ===== *)
theory FastIndex
  imports Prelude
begin

text \<open>
  The series index of the remote-write fast path: remoteWriteFastSeriesIndex in
  src/internal/snuffle/remote_fast.go, an open-addressing hash table from series ids to row
  numbers with linear probing. Key 0 marks an empty slot and is kept in separate fields.

  The probe loops run until they meet the key or an empty slot. They are partial: \<open>None\<close>
  stands for a loop that never returns (a full table) or an index out of range, and \<open>grow\<close>
  calls \<open>set\<close> again, so \<open>set\<close> carries the depth of nested growths it may still do.
  Under the invariant \<open>idx_inv\<close> every operation returns and one growth is enough.

  The locale \<open>series_index\<close> is the interface that the series rows of a batch are built on; it
  is interpreted here for the hash table and for the Go map of the slow path.
\<close>

section \<open>State and operations\<close>

record remoteWriteFastSeriesIndex =
  idxKeys :: "u64 list"
  idxValues :: "nat list"
  idxCount :: nat
  idxZeroValue :: nat
  idxZeroUsed :: bool
  idxMask :: u64

text \<open>The sizes tried by the constructor: 16, doubled while below twice the hint.\<close>

function indexSize :: "nat \<Rightarrow> nat \<Rightarrow> nat" where
  "indexSize capHint sz = (if 0 < sz \<and> sz < capHint * 2 then indexSize capHint (sz * 2) else sz)"
  by pat_completeness auto
termination
  by (relation "measure (\<lambda>(c, s). c * 2 - s)") auto

declare indexSize.simps [simp del]

definition newRemoteWriteFastSeriesIndex :: "nat \<Rightarrow> remoteWriteFastSeriesIndex" where
  "newRemoteWriteFastSeriesIndex capHint =
     (let sz = indexSize capHint 16
      in \<lparr>idxKeys = replicate sz 0, idxValues = replicate sz 0, idxCount = 0,
          idxZeroValue = 0, idxZeroUsed = False, idxMask = of_nat (sz - 1)\<rparr>)"

partial_function (option) getLoop :: "remoteWriteFastSeriesIndex \<Rightarrow> u64 \<Rightarrow> u64 \<Rightarrow> (nat \<times> bool) option" where
  "getLoop m key slot =
     (if length (idxKeys m) \<le> unat slot then None
      else if idxKeys m ! unat slot = 0 then Some (0, False)
      else if idxKeys m ! unat slot = key then Some (idxValues m ! unat slot, True)
      else getLoop m key ((slot + 1) AND idxMask m))"

definition idxGet :: "remoteWriteFastSeriesIndex \<Rightarrow> u64 \<Rightarrow> (nat \<times> bool) option" where
  "idxGet m key =
     (if key = 0 then Some (idxZeroValue m, idxZeroUsed m)
      else getLoop m key (key AND idxMask m))"

partial_function (option) setLoop ::
  "remoteWriteFastSeriesIndex \<Rightarrow> u64 \<Rightarrow> nat \<Rightarrow> u64 \<Rightarrow> remoteWriteFastSeriesIndex option" where
  "setLoop m key value slot =
     (if length (idxKeys m) \<le> unat slot then None
      else if idxKeys m ! unat slot = 0 then
        Some (m\<lparr>idxKeys := (idxKeys m)[unat slot := key],
                idxValues := (idxValues m)[unat slot := value],
                idxCount := idxCount m + 1\<rparr>)
      else if idxKeys m ! unat slot = key then
        Some (m\<lparr>idxValues := (idxValues m)[unat slot := value]\<rparr>)
      else setLoop m key value ((slot + 1) AND idxMask m))"

text \<open>\<open>grow\<close> resets the table to twice its size and re-inserts the old entries with \<open>set\<close>;
  \<open>idxReset\<close> is its first half, \<open>idxRefill\<close> its loop.\<close>

definition idxReset :: "remoteWriteFastSeriesIndex \<Rightarrow> remoteWriteFastSeriesIndex" where
  "idxReset m =
     (let sz = length (idxKeys m) * 2
      in m\<lparr>idxKeys := replicate sz 0, idxValues := replicate sz 0,
           idxCount := (if idxZeroUsed m then 1 else 0), idxMask := of_nat (sz - 1)\<rparr>)"

fun idxRefill ::
  "(remoteWriteFastSeriesIndex \<Rightarrow> u64 \<Rightarrow> nat \<Rightarrow> remoteWriteFastSeriesIndex option)
     \<Rightarrow> (u64 \<times> nat) list \<Rightarrow> remoteWriteFastSeriesIndex \<Rightarrow> remoteWriteFastSeriesIndex option" where
  "idxRefill st [] m = Some m"
| "idxRefill st ((key, value) # rest) m =
     (if key \<noteq> 0 then (case st m key value of None \<Rightarrow> None | Some m' \<Rightarrow> idxRefill st rest m')
      else idxRefill st rest m)"

definition idxGrow ::
  "(remoteWriteFastSeriesIndex \<Rightarrow> u64 \<Rightarrow> nat \<Rightarrow> remoteWriteFastSeriesIndex option)
     \<Rightarrow> remoteWriteFastSeriesIndex \<Rightarrow> remoteWriteFastSeriesIndex option" where
  "idxGrow st m = idxRefill st (zip (idxKeys m) (idxValues m)) (idxReset m)"

fun idxSetDepth :: "nat \<Rightarrow> remoteWriteFastSeriesIndex \<Rightarrow> u64 \<Rightarrow> nat \<Rightarrow> remoteWriteFastSeriesIndex option" where
  "idxSetDepth 0 m key value = None"
| "idxSetDepth (Suc depth) m key value =
     (if key = 0 then
        Some (m\<lparr>idxCount := (if idxZeroUsed m then idxCount m else idxCount m + 1),
                idxZeroUsed := True, idxZeroValue := value\<rparr>)
      else
        (case (if (idxCount m + 1) * 10 \<ge> length (idxKeys m) * 7
               then idxGrow (idxSetDepth depth) m else Some m) of
           None \<Rightarrow> None
         | Some m' \<Rightarrow> setLoop m' key value (key AND idxMask m')))"

definition idxSet :: "remoteWriteFastSeriesIndex \<Rightarrow> u64 \<Rightarrow> nat \<Rightarrow> remoteWriteFastSeriesIndex option" where
  "idxSet m key value = idxSetDepth 2 m key value"

section \<open>The interface\<close>

text \<open>
  An index answers lookups from a finite map \<open>abs\<close>. A lookup returns the value and whether the
  key is present, in Go's comma-ok form; a store may be relied on as long as the map holds
  fewer than \<open>2 ^ 40\<close> entries.
\<close>

definition commaOk :: "nat option \<Rightarrow> nat \<times> bool" where
  "commaOk r = (case r of None \<Rightarrow> (0, False) | Some v \<Rightarrow> (v, True))"

lemma commaOk_simps [simp]: "commaOk None = (0, False)" "commaOk (Some v) = (v, True)"
  by (simp_all add: commaOk_def)

text \<open>A run of stores, as a batch builder makes them.\<close>

fun setAll :: "('m \<Rightarrow> u64 \<Rightarrow> nat \<Rightarrow> 'm option) \<Rightarrow> 'm \<Rightarrow> (u64 \<times> nat) list \<Rightarrow> 'm option" where
  "setAll st m [] = Some m"
| "setAll st m ((k, v) # ps) = (case st m k v of None \<Rightarrow> None | Some m' \<Rightarrow> setAll st m' ps)"

locale series_index =
  fixes get :: "'m \<Rightarrow> u64 \<Rightarrow> (nat \<times> bool) option"
    and set :: "'m \<Rightarrow> u64 \<Rightarrow> nat \<Rightarrow> 'm option"
    and inv :: "'m \<Rightarrow> bool"
    and abs :: "'m \<Rightarrow> u64 \<rightharpoonup> nat"
  assumes get_abs: "inv m \<Longrightarrow> \<exists>v. get m k = Some v \<and> (snd v \<longleftrightarrow> abs m k \<noteq> None) \<and> (abs m k \<noteq> None \<longrightarrow> abs m k = Some (fst v))"
    and finite_abs: "inv m \<Longrightarrow> finite (dom (abs m))"
    and set_abs: "inv m \<Longrightarrow> card (dom (abs m)) < 2 ^ 40 \<Longrightarrow>
      \<exists>m'. set m k v = Some m' \<and> inv m' \<and> abs m' = (abs m)(k \<mapsto> v)"
begin

lemma get_None: "inv m \<Longrightarrow> abs m k = None \<Longrightarrow> \<exists>v. get m k = Some (v, False)"
  using get_abs [of m k] by force

lemma get_Some: "inv m \<Longrightarrow> abs m k = Some v \<Longrightarrow> get m k = Some (v, True)"
  using get_abs [of m k] by force

lemma get_total: "inv m \<Longrightarrow> get m k \<noteq> None"
  using get_abs [of m k] by force

lemma get_set:
  assumes "inv m" "card (dom (abs m)) < 2 ^ 40" "set m k v = Some m'"
  shows "get m' k = Some (v, True)"
proof -
  from set_abs [OF assms(1,2), of k v] assms(3) have "inv m'" "abs m' k = Some v"
    by auto
  then show ?thesis by (rule get_Some)
qed

lemma setAll_abs:
  assumes "inv m" "card (dom (abs m)) + length ps \<le> 2 ^ 40"
  shows "\<exists>m'. setAll set m ps = Some m' \<and> inv m' \<and> abs m' = abs m ++ map_of (rev ps)"
  using assms
proof (induction ps arbitrary: m)
  case (Cons p ps)
  obtain k v where p: "p = (k, v)" by (cases p)
  from Cons.prems obtain m1 where m1: "set m k v = Some m1" "inv m1" "abs m1 = (abs m)(k \<mapsto> v)"
    using set_abs [of m k v] by auto
  have "card (dom (abs m1)) \<le> Suc (card (dom (abs m)))"
    unfolding m1(3) by (simp add: card_insert_if finite_abs [OF Cons.prems(1)])
  with Cons.prems(2) have "card (dom (abs m1)) + length ps \<le> 2 ^ 40" by simp
  from Cons.IH [OF m1(2) this] show ?case
    by (simp add: p m1 del: fun_upd_apply)
qed simp

lemma setAll_get:
  assumes "inv m" "abs m = Map.empty" "length ps \<le> 2 ^ 40"
  shows "\<exists>m'. setAll set m ps = Some m'
     \<and> (\<forall>k. \<exists>v. get m' k = Some (v, k \<in> fst ` List.set ps) \<and> (k \<in> fst ` List.set ps \<longrightarrow> map_of (rev ps) k = Some v))"
proof -
  from setAll_abs [of m ps] assms obtain m' where
    m': "setAll set m ps = Some m'" "inv m'" "abs m' = map_of (rev ps)" by auto
  have "\<exists>v. get m' k = Some (v, k \<in> fst ` List.set ps) \<and> (k \<in> fst ` List.set ps \<longrightarrow> map_of (rev ps) k = Some v)" for k
    using get_abs [OF m'(2), of k] map_of_eq_None_iff [of "rev ps" k] unfolding m'(3) by force
  with m'(1) show ?thesis by blast
qed

end

section \<open>Probe sequences\<close>

text \<open>In a table of \<open>2 ^ p\<close> slots the loops visit \<open>probe p key 0, probe p key 1, \<dots>\<close>\<close>

definition probe :: "nat \<Rightarrow> u64 \<Rightarrow> nat \<Rightarrow> nat" where
  "probe p key d = (unat key + d) mod 2 ^ p"

lemma probe_less [simp]: "probe p key d < 2 ^ p"
  by (simp add: probe_def)

lemma not_le_probe [simp]: "\<not> 2 ^ p \<le> probe p key d"
  by (simp add: not_le)

lemma probe_home: "key AND mask p = of_nat (probe p key 0)"
proof -
  have "key AND mask p = take_bit p (of_nat (unat key))"
    by (simp add: take_bit_eq_mask)
  then show ?thesis
    by (simp only: take_bit_of_nat probe_def take_bit_nat_def add_0_right)
qed

lemma probe_next: "(of_nat (probe p key d) + 1) AND mask p = (of_nat (probe p key (Suc d)) :: u64)"
proof -
  have "(of_nat (probe p key d) + 1) AND mask p = take_bit p (of_nat (probe p key d + 1) :: u64)"
    by (simp add: take_bit_eq_mask add.commute)
  also have "\<dots> = of_nat ((probe p key d + 1) mod 2 ^ p)"
    by (simp only: take_bit_of_nat take_bit_nat_def)
  also have "(probe p key d + 1) mod 2 ^ p = probe p key (Suc d)"
    by (simp add: probe_def mod_Suc_eq)
  finally show ?thesis .
qed

lemma unat_probe [simp]:
  assumes "p \<le> 60"
  shows "unat (of_nat (probe p key d) :: u64) = probe p key d"
proof -
  have "probe p key d < 2 ^ p" by simp
  also have "(2 :: nat) ^ p \<le> 2 ^ 60"
    using assms by (intro power_increasing) auto
  finally show ?thesis
    by (simp add: unat_of_nat)
qed

lemma probe_surj:
  assumes "s < 2 ^ p"
  shows "\<exists>d < 2 ^ p. probe p key d = s"
proof -
  let ?n = "2 ^ p :: nat"
  let ?h = "unat key mod ?n"
  have h: "?h < ?n" by simp
  have "(unat key + (s + ?n - ?h) mod ?n) mod ?n = (?h + (s + ?n - ?h)) mod ?n"
    by (simp only: mod_add_left_eq mod_add_right_eq)
  also have "?h + (s + ?n - ?h) = s + ?n"
    using h by linarith
  also have "(s + ?n) mod ?n = s"
    using assms by simp
  finally have "probe p key ((s + ?n - ?h) mod ?n) = s"
    by (simp add: probe_def)
  then show ?thesis
    by (intro exI [of _ "(s + ?n - ?h) mod ?n"]) simp
qed

section \<open>The invariant and the abstraction\<close>

definition nonzero :: "u64 list \<Rightarrow> nat" where
  "nonzero ks = length (filter (\<lambda>k. k \<noteq> 0) ks)"

definition chained :: "nat \<Rightarrow> u64 list \<Rightarrow> bool" where
  "chained p ks \<longleftrightarrow> (\<forall>s < 2 ^ p. ks ! s \<noteq> 0 \<longrightarrow>
     (\<exists>d. s = probe p (ks ! s) d \<and> (\<forall>e < d. ks ! probe p (ks ! s) e \<noteq> 0)))"

definition unique_keys :: "u64 list \<Rightarrow> bool" where
  "unique_keys ks \<longleftrightarrow>
     (\<forall>i < length ks. \<forall>j < length ks. ks ! i = ks ! j \<longrightarrow> ks ! i \<noteq> 0 \<longrightarrow> i = j)"

definition table_ok :: "nat \<Rightarrow> u64 list \<Rightarrow> bool" where
  "table_ok p ks \<longleftrightarrow> length ks = 2 ^ p \<and> chained p ks \<and> unique_keys ks \<and> nonzero ks < 2 ^ p"

definition idx_shape :: "nat \<Rightarrow> remoteWriteFastSeriesIndex \<Rightarrow> bool" where
  "idx_shape p m \<longleftrightarrow> 4 \<le> p \<and> p \<le> 60 \<and> length (idxValues m) = 2 ^ p \<and> idxMask m = mask p
     \<and> table_ok p (idxKeys m)
     \<and> idxCount m = nonzero (idxKeys m) + (if idxZeroUsed m then 1 else 0)"

definition idx_inv :: "remoteWriteFastSeriesIndex \<Rightarrow> bool" where
  "idx_inv m \<longleftrightarrow> (\<exists>p. idx_shape p m \<and> nonzero (idxKeys m) * 10 < 2 ^ p * 7)"

definition idx_abs :: "remoteWriteFastSeriesIndex \<Rightarrow> u64 \<rightharpoonup> nat" where
  "idx_abs m k =
     (if k = 0 then (if idxZeroUsed m then Some (idxZeroValue m) else None)
      else map_of (zip (idxKeys m) (idxValues m)) k)"

lemma table_empty_slot:
  assumes "table_ok p ks"
  shows "\<exists>s < 2 ^ p. ks ! s = 0"
proof (rule ccontr)
  assume "\<not> ?thesis"
  then have "filter (\<lambda>k. k \<noteq> 0) ks = ks"
    using assms by (auto simp: table_ok_def filter_id_conv in_set_conv_nth)
  then show False
    using assms by (auto simp: table_ok_def nonzero_def)
qed

text \<open>The first stop of the probe sequence: the least distance at which a loop for \<open>key\<close> ends.\<close>

definition stop :: "nat \<Rightarrow> u64 list \<Rightarrow> u64 \<Rightarrow> nat" where
  "stop p ks key = (LEAST d. ks ! probe p key d = 0 \<or> ks ! probe p key d = key)"

lemma stop_hit:
  assumes "table_ok p ks"
  shows "ks ! probe p key (stop p ks key) = 0 \<or> ks ! probe p key (stop p ks key) = key"
proof -
  from table_empty_slot [OF assms] obtain s where "s < 2 ^ p" "ks ! s = 0" by blast
  moreover from probe_surj [OF this(1)] obtain d where "probe p key d = s" by blast
  ultimately have "ks ! probe p key d = 0 \<or> ks ! probe p key d = key" by simp
  then show ?thesis
    unfolding stop_def by (rule LeastI)
qed

lemma stop_before: "d < stop p ks key \<Longrightarrow> ks ! probe p key d \<noteq> 0 \<and> ks ! probe p key d \<noteq> key"
  unfolding stop_def by (drule not_less_Least) simp

lemma stop_least: "ks ! probe p key d = 0 \<or> ks ! probe p key d = key \<Longrightarrow> stop p ks key \<le> d"
  unfolding stop_def by (rule Least_le)

lemma stop_absent:
  assumes "table_ok p ks" "key \<noteq> 0" "ks ! probe p key (stop p ks key) = 0"
  shows "key \<notin> set ks"
proof
  assume "key \<in> set ks"
  then obtain s where s: "s < 2 ^ p" "ks ! s = key"
    using assms(1) by (auto simp: in_set_conv_nth table_ok_def)
  then obtain d where d: "s = probe p key d" "\<forall>e < d. ks ! probe p key e \<noteq> 0"
    using assms(1,2) unfolding table_ok_def chained_def by blast
  then have "stop p ks key \<le> d"
    using s(2) by (intro stop_least) simp
  moreover have "stop p ks key \<noteq> d"
    using d(1) s(2) assms(2,3) by metis
  ultimately show False
    using d(2) assms(3) by simp
qed

lemma map_of_zip_nth:
  assumes "unique_keys ks" "length vs = length ks" "i < length ks" "ks ! i = k" "k \<noteq> 0"
  shows "map_of (zip ks vs) k = Some (vs ! i)"
proof -
  have "k \<in> set ks" using assms(3,4) by auto
  then obtain v where v: "map_of (zip ks vs) k = Some v"
    using assms(2) by (metis map_of_zip_is_Some)
  then have "(k, v) \<in> set (zip ks vs)"
    by (rule map_of_SomeD)
  then obtain j where "j < length ks" "ks ! j = k" "vs ! j = v"
    using assms(2) by (auto simp: set_zip)
  then show ?thesis
    using v assms unfolding unique_keys_def by metis
qed

lemma map_of_zip_absent: "length vs = length ks \<Longrightarrow> k \<notin> set ks \<Longrightarrow> map_of (zip ks vs) k = None"
  by (simp add: map_of_zip_is_None)

section \<open>Lookups\<close>

lemma getLoop_walk:
  assumes "idx_shape p m" "D \<le> stop p (idxKeys m) key"
  shows "getLoop m key (key AND idxMask m) = getLoop m key (of_nat (probe p key D))"
  using assms(2)
proof (induction D)
  case 0
  then show ?case
    using assms(1) by (simp add: idx_shape_def probe_home)
next
  case (Suc D)
  have "length (idxKeys m) = 2 ^ p" "idxMask m = mask p" "p \<le> 60"
    using assms(1) by (auto simp: idx_shape_def table_ok_def)
  moreover have "idxKeys m ! probe p key D \<noteq> 0 \<and> idxKeys m ! probe p key D \<noteq> key"
    using Suc.prems by (intro stop_before) simp
  ultimately have "getLoop m key (of_nat (probe p key D)) = getLoop m key (of_nat (probe p key (Suc D)))"
    by (subst getLoop.simps) (simp add: probe_next not_le)
  then show ?case
    using Suc by simp
qed

lemma idxGet_abs:
  assumes "idx_shape p m" "key \<noteq> 0"
  shows "idxGet m key = Some (commaOk (idx_abs m key))"
proof -
  let ?ks = "idxKeys m" and ?D = "stop p (idxKeys m) key"
  have sh: "length ?ks = 2 ^ p" "length (idxValues m) = 2 ^ p" "p \<le> 60" "table_ok p ?ks"
    "unique_keys ?ks"
    using assms(1) by (auto simp: idx_shape_def table_ok_def)
  have g: "idxGet m key = getLoop m key (of_nat (probe p key ?D))"
    using getLoop_walk [OF assms(1) order.refl] assms(2) by (simp add: idxGet_def)
  show ?thesis
  proof (cases "?ks ! probe p key ?D = 0")
    case True
    then have "idx_abs m key = None"
      using stop_absent [OF sh(4) assms(2)] assms(2) sh(1,2)
      by (simp add: idx_abs_def map_of_zip_absent)
    then show ?thesis
      unfolding g by (subst getLoop.simps) (simp add: sh True not_le)
  next
    case False
    then have k: "?ks ! probe p key ?D = key"
      using stop_hit [OF sh(4)] by blast
    then have "idx_abs m key = Some (idxValues m ! probe p key ?D)"
      using map_of_zip_nth [OF sh(5) _ _ k assms(2), of "idxValues m"] sh(1,2) assms(2)
      by (simp add: idx_abs_def)
    then show ?thesis
      unfolding g by (subst getLoop.simps) (simp add: sh k assms(2) not_le)
  qed
qed

section \<open>Stores\<close>

lemma nonzero_update:
  assumes "s < length ks" "ks ! s = 0" "key \<noteq> 0"
  shows "nonzero (ks[s := key]) = Suc (nonzero ks)"
proof -
  have "ks = take s ks @ ks ! s # drop (Suc s) ks"
    using assms(1) by (rule id_take_nth_drop)
  then have "filter (\<lambda>k. k \<noteq> 0) ks
      = filter (\<lambda>k. k \<noteq> 0) (take s ks) @ filter (\<lambda>k. k \<noteq> 0) (drop (Suc s) ks)"
    using assms(2) by (metis (mono_tags, lifting) filter.simps(2) filter_append)
  then show ?thesis
    using assms by (simp add: nonzero_def upd_conv_take_nth_drop)
qed

lemma chained_update:
  assumes "length ks = 2 ^ p" "chained p ks" "key \<noteq> 0"
    and "ks ! probe p key D = 0" "\<forall>e < D. ks ! probe p key e \<noteq> 0"
  shows "chained p (ks[probe p key D := key])"
  unfolding chained_def
proof (intro allI impI)
  fix s assume s: "s < 2 ^ p" "ks[probe p key D := key] ! s \<noteq> 0"
  let ?t = "probe p key D"
  show "\<exists>d. s = probe p (ks[?t := key] ! s) d
      \<and> (\<forall>e < d. ks[?t := key] ! probe p (ks[?t := key] ! s) e \<noteq> 0)"
  proof (cases "s = ?t")
    case True
    then show ?thesis
      using assms by (intro exI [of _ D]) (auto simp: nth_list_update)
  next
    case False
    then have "ks ! s \<noteq> 0" using s by simp
    then obtain d where "s = probe p (ks ! s) d" "\<forall>e < d. ks ! probe p (ks ! s) e \<noteq> 0"
      using assms(2) s(1) unfolding chained_def by blast
    then show ?thesis
      using False assms(1,3) by (intro exI [of _ d]) (auto simp: nth_list_update)
  qed
qed

lemma unique_keys_update:
  assumes "unique_keys ks" "key \<notin> set ks" "t < length ks"
  shows "unique_keys (ks[t := key])"
  unfolding unique_keys_def
  using assms by (auto simp: unique_keys_def nth_list_update in_set_conv_nth)

lemma table_ok_insert:
  assumes "table_ok p ks" "key \<noteq> 0" "ks ! probe p key (stop p ks key) = 0"
    and "Suc (nonzero ks) < 2 ^ p"
  shows "table_ok p (ks[probe p key (stop p ks key) := key])"
proof -
  let ?t = "probe p key (stop p ks key)"
  have l: "length ks = 2 ^ p" using assms(1) by (simp add: table_ok_def)
  have "\<forall>e < stop p ks key. ks ! probe p key e \<noteq> 0"
    using stop_before by blast
  then have "chained p (ks[?t := key])"
    using assms l by (intro chained_update) (auto simp: table_ok_def)
  moreover have "unique_keys (ks[?t := key])"
    using assms l stop_absent [OF assms(1-3)]
    by (intro unique_keys_update) (auto simp: table_ok_def)
  ultimately show ?thesis
    using assms l by (simp add: table_ok_def nonzero_update)
qed

lemma map_of_zip_update:
  assumes u: "unique_keys ks" and u': "unique_keys (ks[t := key])"
    and l: "length vs = length ks" "t < length ks"
    and t: "ks ! t = 0 \<or> ks ! t = key" and k: "key \<noteq> 0" "k \<noteq> 0"
  shows "map_of (zip (ks[t := key]) (vs[t := v])) k = ((map_of (zip ks vs))(key \<mapsto> v)) k"
proof -
  consider "k = key" | "k \<noteq> key" "k \<in> set ks" | "k \<noteq> key" "k \<notin> set ks" by blast
  then show ?thesis
  proof cases
    case 1
    then show ?thesis
      using map_of_zip_nth [OF u', of "vs[t := v]" t k] l k by simp
  next
    case 2
    then obtain j where j: "j < length ks" "ks ! j = k" by (auto simp: in_set_conv_nth)
    then have "j \<noteq> t" using t k(2) 2 by auto
    then show ?thesis
      using map_of_zip_nth [OF u' _ _ _ k(2), of "vs[t := v]" j]
        map_of_zip_nth [OF u _ _ _ k(2), of vs j] j l 2 by simp
  next
    case 3
    then have "k \<notin> set (ks[t := key])"
      using set_update_subset_insert [of ks t key] by blast
    then show ?thesis
      using 3 l by (simp add: map_of_zip_absent)
  qed
qed

lemma setLoop_walk:
  assumes "idx_shape p m" "D \<le> stop p (idxKeys m) key"
  shows "setLoop m key v (key AND idxMask m) = setLoop m key v (of_nat (probe p key D))"
  using assms(2)
proof (induction D)
  case 0
  then show ?case
    using assms(1) by (simp add: idx_shape_def probe_home)
next
  case (Suc D)
  have "length (idxKeys m) = 2 ^ p" "idxMask m = mask p" "p \<le> 60"
    using assms(1) by (auto simp: idx_shape_def table_ok_def)
  moreover have "idxKeys m ! probe p key D \<noteq> 0 \<and> idxKeys m ! probe p key D \<noteq> key"
    using Suc.prems by (intro stop_before) simp
  ultimately have "setLoop m key v (of_nat (probe p key D)) = setLoop m key v (of_nat (probe p key (Suc D)))"
    by (subst setLoop.simps) (simp add: probe_next not_le)
  then show ?case
    using Suc by simp
qed

lemma setLoop_abs:
  assumes m: "idx_shape p m" and key: "key \<noteq> 0" and room: "Suc (nonzero (idxKeys m)) < 2 ^ p"
  obtains m' where "setLoop m key v (key AND idxMask m) = Some m'" "idx_shape p m'"
    "idx_abs m' = (idx_abs m)(key \<mapsto> v)" "idxZeroUsed m' = idxZeroUsed m"
    "nonzero (idxKeys m') = nonzero (idxKeys m) + (if key \<in> set (idxKeys m) then 0 else 1)"
proof -
  let ?ks = "idxKeys m" and ?t = "probe p key (stop p (idxKeys m) key)"
  have sh: "length ?ks = 2 ^ p" "length (idxValues m) = 2 ^ p" "p \<le> 60" "table_ok p ?ks"
    "unique_keys ?ks"
    using m by (auto simp: idx_shape_def table_ok_def)
  have w: "setLoop m key v (key AND idxMask m) = setLoop m key v (of_nat ?t)"
    by (rule setLoop_walk [OF m order.refl])
  let ?m' = "m\<lparr>idxKeys := ?ks[?t := key], idxValues := (idxValues m)[?t := v],
    idxCount := nonzero (?ks[?t := key]) + (if idxZeroUsed m then 1 else 0)\<rparr>"
  have abs: "idx_abs ?m' = (idx_abs m)(key \<mapsto> v)"
    if "?ks ! ?t = 0 \<or> ?ks ! ?t = key" "unique_keys (?ks[?t := key])"
    using map_of_zip_update [OF sh(5) that(2) _ _ that(1) key, of "idxValues m"] sh(1,2) key
    by (auto simp: idx_abs_def fun_eq_iff)
  show thesis
  proof (cases "?ks ! ?t = 0")
    case True
    have ok: "table_ok p (?ks[?t := key])"
      by (rule table_ok_insert [OF sh(4) key True room])
    have "setLoop m key v (key AND idxMask m) = Some ?m'"
      unfolding w using m True sh key
      by (subst setLoop.simps) (simp add: idx_shape_def nonzero_update)
    moreover have "idx_shape p ?m'"
      using m ok sh by (simp add: idx_shape_def)
    moreover have "idx_abs ?m' = (idx_abs m)(key \<mapsto> v)"
      using True ok by (intro abs) (auto simp: table_ok_def)
    moreover have "key \<notin> set ?ks"
      by (rule stop_absent [OF sh(4) key True])
    ultimately show thesis
      using that sh(1) True key by (simp add: nonzero_update)
  next
    case False
    then have t: "?ks ! ?t = key"
      using stop_hit [OF sh(4)] by blast
    then have same: "?ks[?t := key] = ?ks"
      by (metis list_update_id)
    have "setLoop m key v (key AND idxMask m) = Some ?m'"
      unfolding w using m False sh t same
      by (subst setLoop.simps) (simp add: idx_shape_def)
    moreover have "idx_shape p ?m'"
      using m sh by (simp add: idx_shape_def same)
    moreover have "idx_abs ?m' = (idx_abs m)(key \<mapsto> v)"
      using t sh(5) by (intro abs) (simp_all add: same)
    moreover have "key \<in> set ?ks"
      using t sh(1) by (metis nth_mem probe_less)
    ultimately show thesis
      using that by (simp add: same)
  qed
qed

lemma setLoop_ex:
  assumes "idx_shape p m" "key \<noteq> 0" "Suc (nonzero (idxKeys m)) < 2 ^ p"
  shows "\<exists>m'. setLoop m key v (key AND idxMask m) = Some m' \<and> idx_shape p m'
     \<and> idx_abs m' = (idx_abs m)(key \<mapsto> v) \<and> nonzero (idxKeys m') \<le> Suc (nonzero (idxKeys m))"
  by (rule setLoop_abs [OF assms, of v]) auto

lemma nonzero_replicate [simp]: "nonzero (replicate n 0) = 0"
  by (simp add: nonzero_def)

lemma table_ok_empty: "table_ok p (replicate (2 ^ p) 0)"
  by (simp add: table_ok_def chained_def unique_keys_def)

lemma map_of_replicate_zero: "k \<noteq> 0 \<Longrightarrow> map_of (replicate n (0 :: u64, z)) k = None"
  by (induction n) auto

lemma of_nat_mask: "p \<le> 60 \<Longrightarrow> (of_nat (2 ^ p - 1) :: u64) = mask p"
  by (simp add: mask_eq_exp_minus_1)

lemma idx_shape_reset:
  assumes "idx_shape p m" "p < 60"
  shows "idx_shape (Suc p) (idxReset m)"
proof -
  have "length (idxKeys m) * 2 = 2 ^ Suc p"
    using assms(1) by (simp add: idx_shape_def table_ok_def)
  then show ?thesis
    using assms of_nat_mask [of "Suc p"] table_ok_empty [of "Suc p"]
    by (simp add: idx_shape_def idxReset_def Let_def mult.commute)
qed

lemma idx_abs_reset: "idx_abs (idxReset m) k = (if k = 0 then idx_abs m 0 else None)"
  by (simp add: idx_abs_def idxReset_def Let_def map_of_replicate_zero)

section \<open>Growing and the interface laws\<close>

lemma idxSetDepth_no_grow:
  assumes "idx_shape p m" "key \<noteq> 0" "(idxCount m + 1) * 10 < 2 ^ p * 7"
  shows "idxSetDepth (Suc d) m key v = setLoop m key v (key AND idxMask m)"
  using assms by (simp add: idx_shape_def table_ok_def)

definition entries :: "(u64 \<times> nat) list \<Rightarrow> (u64 \<times> nat) list" where
  "entries es = filter (\<lambda>e. fst e \<noteq> 0) es"

lemma idxRefill_abs:
  assumes "idx_shape p m" "(idxCount m + length (entries es)) * 10 < 2 ^ p * 7"
  shows "\<exists>m'. idxRefill (idxSetDepth (Suc d)) es m = Some m' \<and> idx_shape p m'
     \<and> idx_abs m' = idx_abs m ++ map_of (rev (entries es))
     \<and> idxZeroUsed m' = idxZeroUsed m
     \<and> nonzero (idxKeys m') \<le> nonzero (idxKeys m) + length (entries es)"
  using assms
proof (induction es arbitrary: m)
  case Nil
  then show ?case by (simp add: entries_def)
next
  case (Cons e es)
  obtain k v where e: "e = (k, v)" by (cases e)
  show ?case
  proof (cases "k = 0")
    case True
    then show ?thesis
      using Cons e by (simp add: entries_def)
  next
    case False
    have count: "idxCount m = nonzero (idxKeys m) + (if idxZeroUsed m then 1 else 0)"
      using Cons.prems(1) by (simp add: idx_shape_def)
    have len: "length (entries (e # es)) = Suc (length (entries es))"
      using False e by (simp add: entries_def)
    have "Suc (nonzero (idxKeys m)) < 2 ^ p"
      using Cons.prems(2) count len by simp
    then obtain m1 where m1: "setLoop m k v (k AND idxMask m) = Some m1" "idx_shape p m1"
      "idx_abs m1 = (idx_abs m)(k \<mapsto> v)" "idxZeroUsed m1 = idxZeroUsed m"
      "nonzero (idxKeys m1) = nonzero (idxKeys m) + (if k \<in> set (idxKeys m) then 0 else 1)"
      using setLoop_abs [OF Cons.prems(1) False, of v] by metis
    have step: "idxSetDepth (Suc d) m k v = Some m1"
      using idxSetDepth_no_grow [OF Cons.prems(1) False, of d v] Cons.prems(2) len m1(1)
      by (simp del: idxSetDepth.simps)
    have "idxCount m1 \<le> Suc (idxCount m)"
      using m1(2,4,5) count by (simp add: idx_shape_def)
    then have "(idxCount m1 + length (entries es)) * 10 < 2 ^ p * 7"
      using Cons.prems(2) len by simp
    from Cons.IH [OF m1(2) this] obtain m' where
      m': "idxRefill (idxSetDepth (Suc d)) es m1 = Some m'" "idx_shape p m'"
        "idx_abs m' = idx_abs m1 ++ map_of (rev (entries es))" "idxZeroUsed m' = idxZeroUsed m1"
        "nonzero (idxKeys m') \<le> nonzero (idxKeys m1) + length (entries es)" by blast
    have "entries (e # es) = (k, v) # entries es"
      using False e by (simp add: entries_def)
    then have "idx_abs m' = idx_abs m ++ map_of (rev (entries (e # es)))"
      using m'(3) m1(3) by simp
    moreover have "nonzero (idxKeys m1) \<le> Suc (nonzero (idxKeys m))"
      using m1(5) by simp
    ultimately show ?thesis
      using step m1(4) m' len e False by (intro exI [of _ m']) (simp del: idxSetDepth.simps)
  qed
qed

lemma entries_zip: "length vs = length ks \<Longrightarrow> map fst (entries (zip ks vs)) = filter (\<lambda>k. k \<noteq> 0) ks"
  by (induction vs ks rule: list_induct2) (auto simp: entries_def)

lemma unique_keys_Cons:
  assumes "unique_keys (k # ks)"
  shows "unique_keys ks \<and> (k \<noteq> 0 \<longrightarrow> k \<notin> set ks)"
proof (intro conjI impI)
  show "unique_keys ks"
    using assms by (fastforce simp: unique_keys_def)
  show "k \<notin> set ks" if "k \<noteq> 0"
  proof
    assume "k \<in> set ks"
    then obtain i where "i < length ks" "ks ! i = k" by (auto simp: in_set_conv_nth)
    then have "Suc i = 0"
      using assms that unfolding unique_keys_def
      by (metis Suc_less_eq length_Cons nth_Cons_0 nth_Cons_Suc zero_less_Suc)
    then show False by simp
  qed
qed

lemma unique_keys_distinct: "unique_keys ks \<Longrightarrow> distinct (filter (\<lambda>k. k \<noteq> 0) ks)"
  by (induction ks) (auto dest: unique_keys_Cons)

lemma map_of_entries: "k \<noteq> 0 \<Longrightarrow> map_of (entries es) k = map_of es k"
  by (induction es) (auto simp: entries_def)

lemma map_of_rev_distinct: "distinct (map fst es) \<Longrightarrow> map_of (rev es) = map_of es"
  by (rule map_of_inject_set [THEN iffD2]) (auto simp: rev_map [symmetric])

lemma idx_abs_regrown:
  assumes "idx_shape p m"
  shows "idx_abs (idxReset m) ++ map_of (rev (entries (zip (idxKeys m) (idxValues m)))) = idx_abs m"
proof
  fix k
  let ?es = "zip (idxKeys m) (idxValues m)"
  have sh: "length (idxValues m) = length (idxKeys m)" "unique_keys (idxKeys m)"
    using assms by (auto simp: idx_shape_def table_ok_def)
  have rv: "map_of (rev (entries ?es)) = map_of (entries ?es)"
    using sh by (intro map_of_rev_distinct) (simp add: entries_zip unique_keys_distinct)
  show "(idx_abs (idxReset m) ++ map_of (rev (entries ?es))) k = idx_abs m k"
  proof (cases "k = 0")
    case True
    have "map_of (entries ?es) 0 = None"
      by (auto simp: map_of_eq_None_iff entries_def)
    then show ?thesis
      using True by (simp add: rv map_add_def idx_abs_reset)
  next
    case False
    then have "idx_abs (idxReset m) k = None" "idx_abs m k = map_of ?es k"
      by (simp_all add: idx_abs_reset) (simp add: idx_abs_def)
    then show ?thesis
      using False by (simp add: rv map_add_def map_of_entries split: option.split)
  qed
qed

lemma idx_dom:
  assumes "idx_shape p m"
  shows "finite (dom (idx_abs m))" "nonzero (idxKeys m) \<le> card (dom (idx_abs m))"
proof -
  let ?ks = "idxKeys m"
  have sh: "length (idxValues m) = length ?ks" "unique_keys ?ks"
    using assms by (auto simp: idx_shape_def table_ok_def)
  have sub: "dom (idx_abs m) \<subseteq> insert 0 (set ?ks)"
    using sh by (auto simp: idx_abs_def map_of_zip_absent split: if_splits)
  then show fin: "finite (dom (idx_abs m))"
    by (rule finite_subset) simp
  have "set (filter (\<lambda>k. k \<noteq> 0) ?ks) \<subseteq> dom (idx_abs m)"
    using sh by (auto simp: idx_abs_def simp flip: map_of_zip_is_Some)
  then have "card (set (filter (\<lambda>k. k \<noteq> 0) ?ks)) \<le> card (dom (idx_abs m))"
    using fin by (intro card_mono)
  then show "nonzero ?ks \<le> card (dom (idx_abs m))"
    unfolding nonzero_def distinct_card [OF unique_keys_distinct [OF sh(2)]] .
qed

lemma idx_count_card:
  assumes "idx_inv m"
  shows "idxCount m = card (dom (idx_abs m))"
proof -
  let ?ks = "idxKeys m"
  obtain p where "idx_shape p m" using assms by (auto simp: idx_inv_def)
  then have sh: "length (idxValues m) = length ?ks" "unique_keys ?ks"
    "idxCount m = nonzero ?ks + (if idxZeroUsed m then 1 else 0)"
    by (auto simp: idx_shape_def table_ok_def)
  have "dom (idx_abs m) = set (filter (\<lambda>k. k \<noteq> 0) ?ks) \<union> (if idxZeroUsed m then {0} else {})"
    using sh(1) map_of_zip_is_Some [OF sh(1) [symmetric]] by (auto simp: idx_abs_def split: if_splits)
  moreover have "card (set (filter (\<lambda>k. k \<noteq> 0) ?ks)) = nonzero ?ks"
    using unique_keys_distinct [OF sh(2)] by (simp only: distinct_card nonzero_def)
  ultimately show ?thesis
    using sh(3) by (auto simp: card_insert_if)
qed

lemma idxSet_zero:
  assumes "idx_shape p m"
  shows "\<exists>m'. idxSetDepth (Suc d) m 0 v = Some m' \<and> idx_shape p m'
     \<and> idx_abs m' = (idx_abs m)(0 \<mapsto> v) \<and> idxKeys m' = idxKeys m"
  using assms by (auto simp: idx_shape_def idx_abs_def fun_eq_iff)

lemma idxGrow_abs:
  assumes "idx_shape p m" "p < 60" "nonzero (idxKeys m) * 10 < 2 ^ p * 7"
  shows "\<exists>m'. idxGrow (idxSetDepth (Suc d)) m = Some m' \<and> idx_shape (Suc p) m'
     \<and> idx_abs m' = idx_abs m \<and> nonzero (idxKeys m') \<le> nonzero (idxKeys m)"
proof -
  let ?es = "zip (idxKeys m) (idxValues m)"
  have len: "length (idxKeys m) = 2 ^ p" "length (idxValues m) = 2 ^ p" "4 \<le> p"
    using assms(1) by (auto simp: idx_shape_def table_ok_def)
  have "length (entries ?es) = nonzero (idxKeys m)"
    using entries_zip [of "idxValues m" "idxKeys m"] len
    by (metis length_map nonzero_def)
  moreover have "(16 :: nat) \<le> 2 ^ p"
    using len(3) power_increasing [of 4 p "2 :: nat"] by simp
  moreover have "idxCount (idxReset m) \<le> 1" "nonzero (idxKeys (idxReset m)) = 0"
    by (simp_all add: idxReset_def Let_def)
  ultimately show ?thesis
    using idxRefill_abs [OF idx_shape_reset [OF assms(1,2)], of ?es d] assms(3)
      idx_abs_regrown [OF assms(1)]
    unfolding idxGrow_def by auto
qed

lemma idxSet_grow:
  assumes "k \<noteq> 0" "length (idxKeys m) * 7 \<le> (idxCount m + 1) * 10"
    and "idxGrow (idxSetDepth 1) m = Some m1"
  shows "idxSet m k v = setLoop m1 k v (k AND idxMask m1)"
  using assms unfolding idxSet_def numeral_2_eq_2 by simp

lemma idxSet_abs:
  assumes inv: "idx_inv m" and room: "card (dom (idx_abs m)) < 2 ^ 40"
  shows "\<exists>m'. idxSet m k v = Some m' \<and> idx_inv m' \<and> idx_abs m' = (idx_abs m)(k \<mapsto> v)"
proof -
  obtain p where p: "idx_shape p m" "nonzero (idxKeys m) * 10 < 2 ^ p * 7"
    using inv by (auto simp: idx_inv_def)
  have sh: "length (idxKeys m) = 2 ^ p" "4 \<le> p" "p \<le> 60"
    "idxCount m = nonzero (idxKeys m) + (if idxZeroUsed m then 1 else 0)"
    using p(1) by (auto simp: idx_shape_def table_ok_def)
  have p16: "(16 :: nat) \<le> 2 ^ p"
    using sh(2) power_increasing [of 4 p "2 :: nat"] by simp
  consider "k = 0" | "k \<noteq> 0" "(idxCount m + 1) * 10 < 2 ^ p * 7"
    | "k \<noteq> 0" "2 ^ p * 7 \<le> (idxCount m + 1) * 10" by linarith
  then show ?thesis
  proof cases
    case 1
    then show ?thesis
      using idxSet_zero [OF p(1), of 1 v] p(2) unfolding idxSet_def idx_inv_def numeral_2_eq_2
      by (metis One_nat_def)
  next
    case 2
    have "Suc (nonzero (idxKeys m)) < 2 ^ p"
      using 2(2) sh(4) by simp
    then obtain m' where "setLoop m k v (k AND idxMask m) = Some m'" "idx_shape p m'"
      "idx_abs m' = (idx_abs m)(k \<mapsto> v)" "nonzero (idxKeys m') \<le> Suc (nonzero (idxKeys m))"
      using setLoop_ex [OF p(1) 2(1)] by blast
    moreover have "nonzero (idxKeys m') * 10 < 2 ^ p * 7"
      using calculation(4) 2(2) sh(4) by simp
    moreover have "idxSet m k v = setLoop m k v (k AND idxMask m)"
      unfolding idxSet_def numeral_2_eq_2 by (rule idxSetDepth_no_grow [OF p(1) 2])
    ultimately show ?thesis
      unfolding idx_inv_def by metis
  next
    case 3
    have "idxCount m \<le> nonzero (idxKeys m) + 1"
      using sh(4) by simp
    then have "2 ^ p * 7 \<le> (2 ^ 40 + 1) * (10 :: nat)"
      using 3(2) idx_dom(2) [OF p(1)] room by simp
    then have "(2 :: nat) ^ p < 2 ^ 60" by simp
    then have "p < 60"
      by (rule power_less_imp_less_exp [rotated]) simp
    from idxGrow_abs [OF p(1) this p(2), of 0] obtain m1 where
      g: "idxGrow (idxSetDepth 1) m = Some m1" "idx_shape (Suc p) m1" "idx_abs m1 = idx_abs m"
        "nonzero (idxKeys m1) \<le> nonzero (idxKeys m)"
      unfolding One_nat_def by blast
    have "Suc (nonzero (idxKeys m1)) < 2 ^ Suc p"
      using g(4) p(2) p16 by simp
    then obtain m' where "setLoop m1 k v (k AND idxMask m1) = Some m'" "idx_shape (Suc p) m'"
      "idx_abs m' = (idx_abs m1)(k \<mapsto> v)" "nonzero (idxKeys m') \<le> Suc (nonzero (idxKeys m1))"
      using setLoop_ex [OF g(2) 3(1)] by blast
    moreover have "nonzero (idxKeys m') * 10 < 2 ^ Suc p * 7"
      using calculation(4) g(4) p(2) p16 by simp
    ultimately show ?thesis
      using idxSet_grow [OF 3(1) _ g(1), of v] g(3) 3(2) sh(1) unfolding idx_inv_def by metis
  qed
qed

lemma idxGet_inv:
  assumes "idx_inv m"
  shows "\<exists>v. idxGet m k = Some v \<and> (snd v \<longleftrightarrow> idx_abs m k \<noteq> None)
     \<and> (idx_abs m k \<noteq> None \<longrightarrow> idx_abs m k = Some (fst v))"
proof (cases "k = 0")
  case True
  then show ?thesis
    by (simp add: idxGet_def idx_abs_def)
next
  case False
  then show ?thesis
    using assms idxGet_abs by (fastforce simp: idx_inv_def commaOk_def split: option.splits)
qed

interpretation hash_index: series_index idxGet idxSet idx_inv idx_abs
  by unfold_locales (use idxGet_inv idxSet_abs idx_dom(1) in \<open>auto simp: idx_inv_def\<close>)

section \<open>The constructor\<close>

lemma indexSize_pow:
  assumes "sz = 2 ^ q" "4 \<le> q" "sz \<le> 2 ^ 60" "capHint < 2 ^ 59"
  shows "\<exists>p. indexSize capHint sz = 2 ^ p \<and> 4 \<le> p \<and> p \<le> 60 \<and> capHint * 2 \<le> 2 ^ p"
  using assms
proof (induction capHint sz arbitrary: q rule: indexSize.induct)
  case (1 c sz)
  show ?case
  proof (cases "0 < sz \<and> sz < c * 2")
    case True
    then have "(2 :: nat) ^ q < 2 ^ 60"
      using "1.prems" by simp
    then have "q < 60"
      by (rule power_less_imp_less_exp [rotated]) simp
    then have "sz * 2 \<le> 2 ^ 60"
      using "1.prems"(1) power_increasing [of "Suc q" 60 "2 :: nat"] by simp
    moreover have "indexSize c sz = indexSize c (sz * 2)"
      using True by (subst indexSize.simps) simp
    ultimately show ?thesis
      using "1.IH" [OF True, of "Suc q"] "1.prems" by simp
  next
    case False
    have "q \<le> 60"
      using "1.prems"(1,3) by (metis power_le_imp_le_exp one_less_numeral_iff semiring_norm(76))
    moreover have "indexSize c sz = sz"
      using False by (subst indexSize.simps) auto
    ultimately show ?thesis
      using "1.prems" False by (intro exI [of _ q]) auto
  qed
qed

lemma idx_inv_new:
  assumes "capHint < 2 ^ 59"
  shows "idx_inv (newRemoteWriteFastSeriesIndex capHint)"
    and "idx_abs (newRemoteWriteFastSeriesIndex capHint) = Map.empty"
proof -
  obtain p where p: "indexSize capHint 16 = 2 ^ p" "4 \<le> p" "p \<le> 60"
    using indexSize_pow [of 16 4 capHint] assms by auto
  then show "idx_inv (newRemoteWriteFastSeriesIndex capHint)"
    using of_nat_mask [OF p(3)] table_ok_empty [of p]
    by (auto simp: idx_inv_def idx_shape_def newRemoteWriteFastSeriesIndex_def Let_def)
  show "idx_abs (newRemoteWriteFastSeriesIndex capHint) = Map.empty"
    by (auto simp: idx_abs_def newRemoteWriteFastSeriesIndex_def Let_def map_of_replicate_zero)
qed

section \<open>The Go map of the slow path\<close>

text \<open>The slow path keeps the same rows in a \<open>map[uint64]int\<close>.\<close>

definition mapGet :: "(u64 \<rightharpoonup> nat) \<Rightarrow> u64 \<Rightarrow> (nat \<times> bool) option" where
  "mapGet m k = Some (commaOk (m k))"

definition mapSet :: "(u64 \<rightharpoonup> nat) \<Rightarrow> u64 \<Rightarrow> nat \<Rightarrow> (u64 \<rightharpoonup> nat) option" where
  "mapSet m k v = Some (m(k \<mapsto> v))"

interpretation go_map: series_index mapGet mapSet "\<lambda>m. finite (dom m)" "\<lambda>m. m"
  by unfold_locales (auto simp: mapGet_def mapSet_def commaOk_def split: option.splits)

section \<open>Properties\<close>

text \<open>C8. The open-addressing table of the fast path is a finite map: from a new index of any capacity
  hint, every sequence of stores (with the growing and rehashing they cause) terminates and succeeds,
  and a lookup then finds exactly the stored keys, with the value stored last. In particular the key
  0, which marks an empty slot, is an ordinary key.\<close>

theorem index_is_a_map:
  assumes "capHint < 2 ^ 59" "length ps \<le> 2 ^ 40"
  shows "\<exists>m. setAll idxSet (newRemoteWriteFastSeriesIndex capHint) ps = Some m
     \<and> (\<forall>k. \<exists>v. idxGet m k = Some (v, k \<in> fst ` set ps)
            \<and> (k \<in> fst ` set ps \<longrightarrow> map_of (rev ps) k = Some v))"
  by (rule hash_index.setAll_get) (use assms idx_inv_new in auto)

theorem index_is_a_map_witness:
  "\<exists>m. setAll idxSet (newRemoteWriteFastSeriesIndex 3) [(0, 1), (16, 2), (0, 7)] = Some m
     \<and> idxGet m 0 = Some (7, True)"
proof -
  let ?ps = "[(0, 1), (16, 2), (0, 7)] :: (u64 \<times> nat) list"
  have "\<exists>m. setAll idxSet (newRemoteWriteFastSeriesIndex 3) ?ps = Some m
     \<and> (\<forall>k. \<exists>v. idxGet m k = Some (v, k \<in> fst ` set ?ps)
            \<and> (k \<in> fst ` set ?ps \<longrightarrow> map_of (rev ?ps) k = Some v))"
    by (rule index_is_a_map) simp_all
  then obtain m v where "setAll idxSet (newRemoteWriteFastSeriesIndex 3) ?ps = Some m"
    "idxGet m 0 = Some (v, 0 \<in> fst ` set ?ps)"
    "0 \<in> fst ` set ?ps \<longrightarrow> map_of (rev ?ps) 0 = Some v" by blast
  then show ?thesis by simp
qed

text \<open>A store keeps the invariant of the table: a power of two of slots between 16 and 2^60 with
  the mask to match, a load below 70 percent (so a probe always meets an empty slot), every key
  reachable from its home slot and stored once, and a count that is the number of keys. The stored
  map changes at the stored key only.\<close>

theorem index_store_invariant:
  assumes "idx_inv m" "card (dom (idx_abs m)) < 2 ^ 40"
  shows "\<exists>m'. idxSet m k v = Some m' \<and> idx_inv m' \<and> idxCount m' = card (dom (idx_abs m'))
     \<and> idx_abs m' = (idx_abs m)(k \<mapsto> v)"
  using idxSet_abs [OF assms, of k v] idx_count_card by blast

theorem index_store_invariant_witness:
  "\<exists>m'. idxSet (newRemoteWriteFastSeriesIndex 0) 5 1 = Some m' \<and> idx_abs m' = [5 \<mapsto> 1]"
  using index_store_invariant [OF idx_inv_new(1) [of 0], of 5 1] by (auto simp: idx_inv_new(2))

end
