(* ===== verification/RemoteIdentity.thy ===== *)
theory RemoteIdentity
  imports ProtoWire
begin

text \<open>
  The identity of a remote-write time series: the 64-bit series id and the metric name, computed
  from its labels. The slow path (remoteWriteSeriesIdentityLabels and its helpers in
  src/internal/snuffle/remote.go) sorts the labels and hashes them; the fast path
  (remoteWriteFastIdentity in src/internal/snuffle/remote_fast.go) hashes them as they arrive and
  gives up when they are not in order.

  xxhash is not part of the repository: it is the parameter \<open>h\<close>, a record of the one-shot hash
  and of the streaming digest. \<open>xxhash_ok\<close> is the documented property that the code relies on:
  a digest fed in pieces ends in the hash of the concatenation.
\<close>

section \<open>Labels and the hash parameter\<close>

record remoteWriteLabel =
  lblName :: string
  lblValue :: string

record 'd xxhash =
  xxReset :: 'd
  xxWrite :: "'d \<Rightarrow> bytes \<Rightarrow> 'd"
  xxSum :: "'d \<Rightarrow> u64"
  xxSum64 :: "bytes \<Rightarrow> u64"

definition xxhash_ok :: "'d xxhash \<Rightarrow> bool" where
  "xxhash_ok h \<longleftrightarrow> (\<forall>chunks. xxSum h (foldl (xxWrite h) (xxReset h) chunks) = xxSum64 h (concat chunks))"

definition metricNameLabel :: string where
  "metricNameLabel = ''__name__''"

section \<open>The slow path\<close>

definition remoteWriteLabelsSorted :: "remoteWriteLabel list \<Rightarrow> bool" where
  "remoteWriteLabelsSorted input = list_all (\<lambda>i. \<not> lblName (input ! (i - 1)) > lblName (input ! i)) [1..<length input]"

text \<open>The inner loop of the insertion sort: \<open>Suc j\<close> is the hole that moves left.\<close>

fun sortShift :: "remoteWriteLabel list \<Rightarrow> remoteWriteLabel \<Rightarrow> nat \<Rightarrow> remoteWriteLabel list" where
  "sortShift input label 0 = input[0 := label]"
| "sortShift input label (Suc j) =
     (if lblName (input ! j) > lblName label then sortShift (input[Suc j := input ! j]) label j
      else input[Suc j := label])"

lemma length_sortShift [simp]: "length (sortShift input label j) = length input"
  by (induction input label j rule: sortShift.induct) auto

function sortLoop :: "remoteWriteLabel list \<Rightarrow> nat \<Rightarrow> remoteWriteLabel list" where
  "sortLoop input i =
     (if i < length input then sortLoop (sortShift input (input ! i) i) (i + 1) else input)"
  by pat_completeness auto
termination
  by (relation "measure (\<lambda>(xs, i). length xs - i)") auto

declare sortLoop.simps [simp del]

definition sortRemoteWriteLabelsByName :: "remoteWriteLabel list \<Rightarrow> remoteWriteLabel list" where
  "sortRemoteWriteLabelsByName input = sortLoop input 1"

text \<open>The bytes hashed for one label, as both paths write them.\<close>

definition lengthBytes :: "string \<Rightarrow> bytes" where
  "lengthBytes s = putUint64 (of_nat (length s))"

definition labelChunks :: "remoteWriteLabel \<Rightarrow> bytes list" where
  "labelChunks label = [lengthBytes (lblName label), str_bytes (lblName label),
     lengthBytes (lblValue label), str_bytes (lblValue label)]"

definition stackCap :: nat where "stackCap = 512"

definition remoteWriteSeriesDigestHash :: "'d xxhash \<Rightarrow> remoteWriteLabel list \<Rightarrow> u64" where
  "remoteWriteSeriesDigestHash h input =
     xxSum h (foldl (\<lambda>d label. foldl (xxWrite h) d (labelChunks label)) (xxReset h) input)"

text \<open>stableSeriesID hashes a sorted label set of the Prometheus library in the same way; the
  label set is given here by the list its Range visits.\<close>

definition stableSeriesID :: "'d xxhash \<Rightarrow> remoteWriteLabel list \<Rightarrow> u64" where
  "stableSeriesID h lbls =
     xxSum h (foldl (\<lambda>d label. foldl (xxWrite h) d (labelChunks label)) (xxReset h) lbls)"

text \<open>The loop of remoteWriteSeriesIdentityLabels; \<open>first\<close> is the test \<open>i == 0\<close>.\<close>

fun identityLoop ::
  "remoteWriteLabel list \<Rightarrow> bool \<Rightarrow> string \<Rightarrow> string \<Rightarrow> bytes \<Rightarrow> bool
     \<Rightarrow> rw_error + (string \<times> bytes \<times> bool)" where
  "identityLoop [] first previous metricName encoded useStackHash = Inr (metricName, encoded, useStackHash)"
| "identityLoop (label # rest) first previous metricName encoded useStackHash =
     (if lblName label = '''' then Inl EmptyLabelName
      else if \<not> first \<and> lblName label = previous then Inl (DuplicateLabel (lblName label))
      else
        let metricName' = (if lblName label = metricNameLabel then lblValue label else metricName);
            needed = 16 + length (lblName label) + length (lblValue label);
            fits = (length encoded + needed \<le> stackCap)
        in identityLoop rest False (lblName label) metricName'
             (if useStackHash \<and> fits then encoded @ concat (labelChunks label) else encoded)
             (useStackHash \<and> fits))"

text \<open>The sort is in place, so the caller's labels are sorted afterwards: the second component.\<close>

definition remoteWriteSeriesIdentityLabels ::
  "'d xxhash \<Rightarrow> remoteWriteLabel list \<Rightarrow> (rw_error + (u64 \<times> string)) \<times> remoteWriteLabel list" where
  "remoteWriteSeriesIdentityLabels h input =
     (if input = [] then (Inl NoLabels, input)
      else
        let lbls = (if remoteWriteLabelsSorted input then input else sortRemoteWriteLabelsByName input)
        in (case identityLoop lbls True '''' '''' [] True of
              Inl e \<Rightarrow> Inl e
            | Inr (metricName, encoded, useStackHash) \<Rightarrow>
                if metricName = '''' then Inl MissingMetricName
                else if useStackHash then Inr (xxSum64 h encoded, metricName)
                else Inr (remoteWriteSeriesDigestHash h lbls, metricName), lbls))"

section \<open>The fast path\<close>

record 'd remoteWriteFastIdentity =
  fiHash :: 'd
  fiEncoded :: bytes
  fiPrevious :: string
  fiMetricName :: string
  fiUseStack :: bool
  fiLabelCount :: nat

definition fiReset :: "'d xxhash \<Rightarrow> 'd remoteWriteFastIdentity" where
  "fiReset h = \<lparr>fiHash = xxReset h, fiEncoded = [], fiPrevious = '''', fiMetricName = '''',
     fiUseStack = True, fiLabelCount = 0\<rparr>"

text \<open>The result is Go's \<open>(bool, error)\<close> with the updated state; \<open>False\<close> asks for the slow path.\<close>

definition fiAddParts ::
  "'d xxhash \<Rightarrow> 'd remoteWriteFastIdentity \<Rightarrow> string \<Rightarrow> string
     \<Rightarrow> rw_error + (bool \<times> 'd remoteWriteFastIdentity)" where
  "fiAddParts h s name value =
     (if name = '''' then Inl EmptyLabelName
      else if 0 < fiLabelCount s \<and> name \<le> fiPrevious s then
        (if name = fiPrevious s then Inl (DuplicateLabel name) else Inr (False, s))
      else
        let s1 = s\<lparr>fiPrevious := name, fiLabelCount := fiLabelCount s + 1,
                   fiMetricName := (if name = metricNameLabel then value else fiMetricName s)\<rparr>;
            needed = 16 + length name + length value;
            chunks = [lengthBytes name, str_bytes name, lengthBytes value, str_bytes value]
        in if fiUseStack s1 \<and> length (fiEncoded s1) + needed \<le> stackCap then
             Inr (True, s1\<lparr>fiEncoded := fiEncoded s1 @ concat chunks\<rparr>)
           else
             let s2 = (if fiUseStack s1
                       then s1\<lparr>fiUseStack := False, fiHash := xxWrite h (fiHash s1) (fiEncoded s1),
                               fiEncoded := []\<rparr>
                       else s1)
             in Inr (True, s2\<lparr>fiHash := foldl (xxWrite h) (fiHash s2) chunks\<rparr>))"

definition fiAdd ::
  "'d xxhash \<Rightarrow> 'd remoteWriteFastIdentity \<Rightarrow> remoteWriteLabel
     \<Rightarrow> rw_error + (bool \<times> 'd remoteWriteFastIdentity)" where
  "fiAdd h s label = fiAddParts h s (lblName label) (lblValue label)"

definition fiFinish :: "'d xxhash \<Rightarrow> 'd remoteWriteFastIdentity \<Rightarrow> rw_error + (u64 \<times> string)" where
  "fiFinish h s =
     (if fiLabelCount s = 0 then Inl NoLabels
      else if fiMetricName s = '''' then Inl MissingMetricName
      else if fiUseStack s then Inr (xxSum64 h (fiEncoded s), fiMetricName s)
      else Inr (xxSum h (fiHash s), fiMetricName s))"

text \<open>A run of the fast path over the labels of one series, as parseFastTimeSeries drives it:
  it stops at the first error and at the first label that is out of order.\<close>

fun fiAddAll ::
  "'d xxhash \<Rightarrow> 'd remoteWriteFastIdentity \<Rightarrow> remoteWriteLabel list
     \<Rightarrow> rw_error + (bool \<times> 'd remoteWriteFastIdentity)" where
  "fiAddAll h s [] = Inr (True, s)"
| "fiAddAll h s (label # rest) =
     (case fiAdd h s label of
        Inl e \<Rightarrow> Inl e
      | Inr (ok, s') \<Rightarrow> if ok then fiAddAll h s' rest else Inr (False, s'))"

section \<open>The insertion sort\<close>

abbreviation names :: "remoteWriteLabel list \<Rightarrow> string list" where
  "names ls \<equiv> map lblName ls"

lemma remoteWriteLabelsSorted_iff: "remoteWriteLabelsSorted input \<longleftrightarrow> sorted (names input)"
proof
  assume "remoteWriteLabelsSorted input"
  then have "\<And>j. j \<in> {1..<length input} \<Longrightarrow> lblName (input ! (j - 1)) \<le> lblName (input ! j)"
    by (auto simp: remoteWriteLabelsSorted_def list_all_iff not_less)
  from this [of "Suc _"] have "\<forall>i. Suc i < length input \<longrightarrow> lblName (input ! i) \<le> lblName (input ! Suc i)"
    by auto
  then show "sorted (names input)"
    by (simp add: sorted_iff_nth_Suc)
next
  assume "sorted (names input)"
  then show "remoteWriteLabelsSorted input"
    by (auto simp: remoteWriteLabelsSorted_def list_all_iff not_less sorted_iff_nth_mono)
qed

lemma sortShift_insert:
  assumes "sorted (names xs)"
  shows "sortShift (xs @ x # ys) label (length xs)
     = takeWhile (\<lambda>l. lblName l \<le> lblName label) xs @ label # dropWhile (\<lambda>l. lblName l \<le> lblName label) xs @ ys"
  using assms
proof (induction xs arbitrary: x ys rule: rev_induct)
  case Nil
  then show ?case by simp
next
  case (snoc z zs)
  have zs: "sorted (names zs)" "\<And>l. l \<in> set zs \<Longrightarrow> lblName l \<le> lblName z"
    using snoc.prems by (auto simp: sorted_append)
  show ?case
  proof (cases "lblName z > lblName label")
    case True
    then have "sortShift ((zs @ [z]) @ x # ys) label (length (zs @ [z]))
        = sortShift (zs @ z # (z # ys)) label (length zs)"
      by (simp add: nth_append list_update_append)
    moreover have "\<not> lblName z \<le> lblName label"
      using True by simp
    ultimately show ?thesis
      using snoc.IH [OF zs(1)] by (simp add: takeWhile_tail dropWhile_append)
  next
    case False
    then have "lblName z \<le> lblName label" by simp
    then have "\<forall>l \<in> set (zs @ [z]). lblName l \<le> lblName label"
      using zs(2) order_trans by auto
    then have "takeWhile (\<lambda>l. lblName l \<le> lblName label) (zs @ [z]) = zs @ [z]"
      "dropWhile (\<lambda>l. lblName l \<le> lblName label) (zs @ [z]) = []"
      by (auto simp only: takeWhile_eq_all_conv dropWhile_eq_Nil_conv)
    then show ?thesis
      using False by (simp add: nth_append list_update_append)
  qed
qed

lemma insert_sorted:
  assumes "sorted (names xs)"
  shows "sorted (names (takeWhile (\<lambda>l. lblName l \<le> lblName label) xs @ label
     # dropWhile (\<lambda>l. lblName l \<le> lblName label) xs))"
proof -
  let ?P = "\<lambda>l. lblName l \<le> lblName label"
  define ts ds where "ts = takeWhile ?P xs" and "ds = dropWhile ?P xs"
  then have "xs = ts @ ds" by simp
  then have s: "sorted (names ts)" "sorted (names ds)"
    and lt: "\<forall>x \<in> set ts. \<forall>y \<in> set ds. lblName x \<le> lblName y"
    using assms by (auto simp: sorted_append)
  have "\<forall>x \<in> set ts. lblName x \<le> lblName label"
    unfolding ts_def by (auto dest: set_takeWhileD)
  moreover have "\<forall>y \<in> set ds. lblName label \<le> lblName y"
  proof (cases ds)
    case (Cons d ds')
    then have "lblName label \<le> lblName d"
      using hd_dropWhile [of ?P xs] unfolding ds_def by simp
    moreover have "\<forall>y \<in> set ds'. lblName d \<le> lblName y"
      using s(2) Cons by simp
    ultimately show ?thesis
      using Cons order_trans by auto
  qed simp
  ultimately have "sorted (names (ts @ label # ds))"
    using s lt by (simp add: sorted_append)
  then show ?thesis
    by (simp add: ts_def ds_def)
qed

lemma insert_mset:
  "mset (takeWhile P xs @ label # dropWhile P xs) = add_mset label (mset xs)"
  by (metis mset_append takeWhile_dropWhile_id mset.simps(2) union_mset_add_mset_right)

lemma sortLoop_prefix:
  assumes "sorted (names xs)"
  shows "sorted (names (sortLoop (xs @ ys) (length xs))) \<and> mset (sortLoop (xs @ ys) (length xs)) = mset xs + mset ys"
  using assms
proof (induction ys arbitrary: xs)
  case Nil
  then show ?case by (simp add: sortLoop.simps)
next
  case (Cons y ys)
  let ?P = "\<lambda>l. lblName l \<le> lblName y"
  let ?xs = "takeWhile ?P xs @ y # dropWhile ?P xs"
  have "length (takeWhile ?P xs) + length (dropWhile ?P xs) = length xs"
    by (metis length_append takeWhile_dropWhile_id)
  then have len: "length ?xs = Suc (length xs)" by simp
  have "sortLoop (xs @ y # ys) (length xs) = sortLoop (?xs @ ys) (Suc (length xs))"
    using sortShift_insert [OF Cons.prems, of y ys y] by (subst sortLoop.simps) simp
  then show ?case
    using Cons.IH [OF insert_sorted [OF Cons.prems, of y]] insert_mset [of ?P xs y] len by simp
qed

lemma sort_sorted: "sorted (names (sortRemoteWriteLabelsByName input))"
  and sort_mset: "mset (sortRemoteWriteLabelsByName input) = mset input"
proof -
  have "sorted (names (sortRemoteWriteLabelsByName input)) \<and> mset (sortRemoteWriteLabelsByName input) = mset input"
  proof (cases input)
    case Nil
    then show ?thesis by (simp add: sortRemoteWriteLabelsByName_def sortLoop.simps)
  next
    case (Cons x xs)
    then show ?thesis
      using sortLoop_prefix [of "[x]" xs] by (simp add: sortRemoteWriteLabelsByName_def)
  qed
  then show "sorted (names (sortRemoteWriteLabelsByName input))"
    and "mset (sortRemoteWriteLabelsByName input) = mset input" by simp_all
qed

lemma sort_set: "set (sortRemoteWriteLabelsByName input) = set input"
  by (metis set_mset_mset sort_mset)

lemma sort_length: "length (sortRemoteWriteLabelsByName input) = length input"
  by (metis size_mset sort_mset)

text \<open>Sorting by distinct names has one result.\<close>

lemma sorted_names_unique:
  assumes "mset xs = mset ys" "sorted (names xs)" "sorted (names ys)" "distinct (names xs)"
  shows "xs = ys"
proof -
  have "inj_on lblName (set xs)"
    using assms(4) by (simp add: distinct_map)
  moreover have "set ys = set xs" "distinct (names ys)"
    using assms(1,4) by (metis set_mset_mset) (metis assms(1,4) mset_map mset_eq_imp_distinct_iff)
  moreover have "names xs = names ys"
    using assms by (metis mset_map properties_for_sort sorted_sort_id)
  ultimately show ?thesis
    by (metis map_inj_on Un_absorb)
qed

section \<open>The slow path hashes the canonical encoding\<close>

text \<open>The canonical encoding of a label list: what both paths feed to the hash.\<close>

definition seriesEncoding :: "remoteWriteLabel list \<Rightarrow> bytes" where
  "seriesEncoding ls = concat (concat (map labelChunks ls))"

lemma seriesEncoding_simps [simp]:
  "seriesEncoding [] = []"
  "seriesEncoding (l # ls) = concat (labelChunks l) @ seriesEncoding ls"
  "seriesEncoding (xs @ ys) = seriesEncoding xs @ seriesEncoding ys"
  by (simp_all add: seriesEncoding_def)

lemma foldl_labelChunks:
  "foldl (\<lambda>d label. foldl f d (labelChunks label)) d ls = foldl f d (concat (map labelChunks ls))"
  by (induction ls arbitrary: d) simp_all

lemma digest_hash:
  assumes "xxhash_ok h"
  shows "remoteWriteSeriesDigestHash h ls = xxSum64 h (seriesEncoding ls)"
  using assms by (simp add: remoteWriteSeriesDigestHash_def foldl_labelChunks xxhash_ok_def seriesEncoding_def)

definition lookupMetric :: "string \<Rightarrow> remoteWriteLabel list \<Rightarrow> string" where
  "lookupMetric d ls = foldl (\<lambda>m l. if lblName l = metricNameLabel then lblValue l else m) d ls"

lemma lookupMetric_simps [simp]:
  "lookupMetric d [] = d"
  "lookupMetric d (l # ls) = lookupMetric (if lblName l = metricNameLabel then lblValue l else d) ls"
  "lookupMetric d (xs @ ys) = lookupMetric (lookupMetric d xs) ys"
  by (simp_all add: lookupMetric_def)

text \<open>The names are acceptable from \<open>previous\<close> on: none is empty, no two neighbours agree.\<close>

fun namesOk :: "bool \<Rightarrow> string \<Rightarrow> remoteWriteLabel list \<Rightarrow> bool" where
  "namesOk first previous [] = True"
| "namesOk first previous (l # ls) =
     (lblName l \<noteq> '''' \<and> (first \<or> lblName l \<noteq> previous) \<and> namesOk False (lblName l) ls)"

lemma identityLoop_ok:
  assumes "namesOk first previous ls"
  shows "\<exists>enc st. identityLoop ls first previous m acc use = Inr (lookupMetric m ls, enc, st)
     \<and> (st \<longrightarrow> use \<and> enc = acc @ seriesEncoding ls)"
  using assms
proof (induction ls arbitrary: first previous m acc use)
  case Nil
  then show ?case by simp
next
  case (Cons l ls)
  let ?m = "if lblName l = metricNameLabel then lblValue l else m"
  let ?fits = "length acc + (16 + length (lblName l) + length (lblValue l)) \<le> stackCap"
  have "namesOk False (lblName l) ls"
    using Cons.prems by simp
  from Cons.IH [OF this, of ?m "if use \<and> ?fits then acc @ concat (labelChunks l) else acc" "use \<and> ?fits"]
  show ?case
    using Cons.prems by (auto simp: Let_def)
qed

lemma identityLoop_error:
  "\<not> namesOk first previous ls \<Longrightarrow> \<exists>e. identityLoop ls first previous m acc use = Inl e"
  by (induction ls arbitrary: first previous m acc use) (auto simp: Let_def)

lemma namesOk_sorted:
  "sorted (names ls) \<Longrightarrow> namesOk first previous ls \<Longrightarrow>
     (first \<or> (\<forall>l \<in> set ls. previous \<le> lblName l)) \<Longrightarrow>
     distinct (names ls) \<and> '''' \<notin> set (names ls) \<and> (first \<or> previous \<notin> set (names ls))"
proof (induction ls arbitrary: first previous)
  case Nil
  then show ?case by simp
next
  case (Cons l ls)
  from Cons.IH [of False "lblName l"] Cons.prems
  have IH: "distinct (names ls)" "'''' \<notin> set (names ls)" "lblName l \<notin> set (names ls)"
    by auto
  moreover have "first \<or> previous \<notin> set (names (l # ls))"
  proof (cases first)
    case False
    then have "previous < lblName l"
      using Cons.prems by auto
    moreover have "\<forall>x \<in> set ls. lblName l \<le> lblName x"
      using Cons.prems(1) by simp
    ultimately show ?thesis
      by (auto dest: bspec leD)
  qed simp
  ultimately show ?case
    using Cons.prems(2) by auto
qed

lemma namesOk_distinct:
  "distinct (names ls) \<Longrightarrow> '''' \<notin> set (names ls) \<Longrightarrow> first \<or> previous \<notin> set (names ls)
     \<Longrightarrow> namesOk first previous ls"
  by (induction ls arbitrary: first previous) auto

text \<open>The labels a valid series may have, whatever their order.\<close>

definition labels_valid :: "remoteWriteLabel list \<Rightarrow> bool" where
  "labels_valid ls \<longleftrightarrow> distinct (names ls) \<and> '''' \<notin> set (names ls)
     \<and> (\<exists>l \<in> set ls. lblName l = metricNameLabel \<and> lblValue l \<noteq> '''')"

definition sortedLabels :: "remoteWriteLabel list \<Rightarrow> remoteWriteLabel list" where
  "sortedLabels ls = (if remoteWriteLabelsSorted ls then ls else sortRemoteWriteLabelsByName ls)"

lemma sortedLabels_props [simp]:
  "sorted (names (sortedLabels ls))" "mset (sortedLabels ls) = mset ls"
  "set (sortedLabels ls) = set ls"
  using sort_sorted by (simp_all add: sortedLabels_def sort_mset sort_set remoteWriteLabelsSorted_iff)

lemma sortedLabels_distinct [simp]: "distinct (names (sortedLabels ls)) \<longleftrightarrow> distinct (names ls)"
  by (metis mset_eq_imp_distinct_iff mset_map sortedLabels_props(2))

lemma lookupMetric_absent: "metricNameLabel \<notin> set (names ls) \<Longrightarrow> lookupMetric d ls = d"
  by (induction ls arbitrary: d) auto

lemma lookupMetric_in:
  "distinct (names ls) \<Longrightarrow> l \<in> set ls \<Longrightarrow> lblName l = metricNameLabel \<Longrightarrow> lookupMetric d ls = lblValue l"
proof (induction ls arbitrary: d)
  case (Cons x xs)
  then show ?case
    by (cases "x = l") (auto simp: lookupMetric_absent rev_image_eqI)
qed simp

lemma lookupMetric_cases: "lookupMetric '''' ls = '''' \<or>
    (\<exists>l \<in> set ls. lblName l = metricNameLabel \<and> lblValue l = lookupMetric '''' ls)"
  by (induction ls rule: rev_induct) auto

lemma slow_identity_valid:
  assumes "xxhash_ok h" "labels_valid ls"
  shows "remoteWriteSeriesIdentityLabels h ls
     = (Inr (xxSum64 h (seriesEncoding (sortedLabels ls)), lookupMetric '''' (sortedLabels ls)),
        sortedLabels ls)"
proof -
  obtain l where l: "l \<in> set ls" "lblName l = metricNameLabel" "lblValue l \<noteq> ''''"
    and d: "distinct (names ls)" "'''' \<notin> set (names ls)"
    using assms(2) by (auto simp: labels_valid_def)
  have "namesOk True '''' (sortedLabels ls)"
    using d by (intro namesOk_distinct) auto
  from identityLoop_ok [OF this, of "''''" "[]" True] obtain enc st where
    "identityLoop (sortedLabels ls) True '''' '''' [] True = Inr (lookupMetric '''' (sortedLabels ls), enc, st)"
    "st \<longrightarrow> enc = seriesEncoding (sortedLabels ls)"
    by auto
  moreover have "lookupMetric '''' (sortedLabels ls) = lblValue l"
    using d l by (intro lookupMetric_in) auto
  ultimately show ?thesis
    using l assms(1) unfolding remoteWriteSeriesIdentityLabels_def sortedLabels_def [symmetric]
    by (auto simp: Let_def digest_hash)
qed

lemma slow_identity_invalid:
  assumes "\<not> labels_valid ls"
  shows "\<exists>e. fst (remoteWriteSeriesIdentityLabels h ls) = Inl e"
proof (cases "namesOk True '''' (sortedLabels ls)")
  case False
  from identityLoop_error [OF this, of "''''" "[]" True] show ?thesis
    unfolding remoteWriteSeriesIdentityLabels_def sortedLabels_def [symmetric] by auto
next
  case True
  then have "distinct (names ls)" "'''' \<notin> set (names ls)"
    using namesOk_sorted [of "sortedLabels ls" True "''''"] by auto
  then have "lookupMetric '''' (sortedLabels ls) = ''''"
    using assms lookupMetric_cases [of "sortedLabels ls"] by (auto simp: labels_valid_def)
  moreover obtain enc st where
    "identityLoop (sortedLabels ls) True '''' '''' [] True = Inr (lookupMetric '''' (sortedLabels ls), enc, st)"
    using identityLoop_ok [OF True, of "''''" "[]" True] by auto
  ultimately show ?thesis
    unfolding remoteWriteSeriesIdentityLabels_def sortedLabels_def [symmetric] by (simp add: Let_def)
qed

section \<open>The fast path agrees with the slow path\<close>

definition fi_rep :: "'d xxhash \<Rightarrow> 'd remoteWriteFastIdentity \<Rightarrow> remoteWriteLabel list \<Rightarrow> bool" where
  "fi_rep h s ls \<longleftrightarrow> fiLabelCount s = length ls
     \<and> fiPrevious s = (if ls = [] then '''' else lblName (last ls))
     \<and> fiMetricName s = lookupMetric '''' ls
     \<and> (if fiUseStack s then fiEncoded s = seriesEncoding ls \<and> fiHash s = xxReset h
        else \<exists>chunks. fiHash s = foldl (xxWrite h) (xxReset h) chunks \<and> concat chunks = seriesEncoding ls)"

lemma fi_rep_reset: "fi_rep h (fiReset h) []"
  by (simp add: fi_rep_def fiReset_def)

lemma fi_rep_add:
  assumes rep: "fi_rep h s ls" and name: "lblName l \<noteq> ''''"
    and inc: "ls = [] \<or> lblName (last ls) < lblName l"
  shows "\<exists>s'. fiAdd h s l = Inr (True, s') \<and> fi_rep h s' (ls @ [l])"
proof -
  have guard: "\<not> (0 < fiLabelCount s \<and> lblName l \<le> fiPrevious s)"
    using rep inc by (auto simp: fi_rep_def)
  have chunks: "[lengthBytes (lblName l), str_bytes (lblName l), lengthBytes (lblValue l), str_bytes (lblValue l)]
      = labelChunks l"
    by (simp add: labelChunks_def)
  note go = fiAdd_def fiAddParts_def Let_def if_not_P [OF name] if_not_P [OF guard] chunks
  consider (stack) "fiUseStack s" "length (fiEncoded s) + (16 + length (lblName l) + length (lblValue l)) \<le> stackCap"
    | (switch) "fiUseStack s" "\<not> length (fiEncoded s) + (16 + length (lblName l) + length (lblValue l)) \<le> stackCap"
    | (digest) "\<not> fiUseStack s" by blast
  then show ?thesis
  proof cases
    case stack
    then show ?thesis
      unfolding go using rep by (auto simp: fi_rep_def)
  next
    case switch
    have "\<exists>c. foldl (xxWrite h) (xxWrite h (xxReset h) (seriesEncoding ls)) (labelChunks l)
        = foldl (xxWrite h) (xxReset h) c \<and> concat c = seriesEncoding (ls @ [l])"
      by (rule exI [of _ "seriesEncoding ls # labelChunks l"]) simp
    then show ?thesis
      unfolding go using rep switch by (auto simp: fi_rep_def)
  next
    case digest
    then obtain c where "fiHash s = foldl (xxWrite h) (xxReset h) c" "concat c = seriesEncoding ls"
      using rep by (auto simp: fi_rep_def)
    then have "\<exists>c'. foldl (xxWrite h) (fiHash s) (labelChunks l) = foldl (xxWrite h) (xxReset h) c'
        \<and> concat c' = seriesEncoding (ls @ [l])"
      by (intro exI [of _ "c @ labelChunks l"]) simp
    then show ?thesis
      unfolding go using rep digest by (auto simp: fi_rep_def)
  qed
qed

definition increasing :: "remoteWriteLabel list \<Rightarrow> bool" where
  "increasing ls \<longleftrightarrow> sorted_wrt (<) (names ls) \<and> '''' \<notin> set (names ls)"

lemma increasing_append1:
  "increasing (ls @ [l]) \<longleftrightarrow> increasing ls \<and> lblName l \<noteq> '''' \<and> (ls = [] \<or> lblName (last ls) < lblName l)"
proof (cases ls rule: rev_cases)
  case (snoc xs x)
  then show ?thesis
    by (auto simp: increasing_def sorted_wrt_append dest: less_trans)
qed (auto simp: increasing_def)

lemma fiAdd_stops:
  assumes "fi_rep h s ls" "increasing ls" "\<not> increasing (ls @ [l])"
  shows "fiAdd h s l = Inl EmptyLabelName \<and> lblName l = ''''
    \<or> fiAdd h s l = Inl (DuplicateLabel (lblName l)) \<and> ls \<noteq> [] \<and> lblName l = lblName (last ls)
    \<or> fiAdd h s l = Inr (False, s) \<and> ls \<noteq> [] \<and> lblName l < lblName (last ls)"
  using assms by (auto simp: increasing_append1 fi_rep_def fiAdd_def fiAddParts_def)

lemma fiAddAll_run:
  assumes "fi_rep h s ls" "increasing ls"
  shows "(increasing (ls @ rest) \<longrightarrow> (\<exists>s'. fiAddAll h s rest = Inr (True, s') \<and> fi_rep h s' (ls @ rest)))
     \<and> (\<forall>s'. fiAddAll h s rest = Inr (True, s') \<longrightarrow> increasing (ls @ rest))
     \<and> (\<forall>s'. fiAddAll h s rest = Inr (False, s') \<longrightarrow> \<not> sorted (names (ls @ rest)))
     \<and> (\<forall>e. fiAddAll h s rest = Inl e \<longrightarrow> \<not> labels_valid (ls @ rest))"
  using assms
proof (induction rest arbitrary: s ls)
  case Nil
  then show ?case by auto
next
  case (Cons l rest)
  show ?case
  proof (cases "increasing (ls @ [l])")
    case True
    then obtain s1 where s1: "fiAdd h s l = Inr (True, s1)" "fi_rep h s1 (ls @ [l])"
      using fi_rep_add [OF Cons.prems(1), of l] by (auto simp: increasing_append1)
    from Cons.IH [OF s1(2) True] show ?thesis
      using s1(1) by simp
  next
    case False
    then have n: "\<not> increasing (ls @ l # rest)"
      by (auto simp: increasing_def sorted_wrt_append)
    from fiAdd_stops [OF Cons.prems False] consider
      "fiAdd h s l = Inl EmptyLabelName" "lblName l = ''''"
      | "fiAdd h s l = Inl (DuplicateLabel (lblName l))" "ls \<noteq> []" "lblName l = lblName (last ls)"
      | "fiAdd h s l = Inr (False, s)" "ls \<noteq> []" "lblName l < lblName (last ls)" by blast
    then show ?thesis
    proof cases
      case 1
      then show ?thesis using n by (simp add: labels_valid_def)
    next
      case 2
      then have "\<not> distinct (names (ls @ l # rest))"
        by (auto simp: rev_image_eqI)
      then show ?thesis using n 2 by (simp add: labels_valid_def)
    next
      case 3
      then have "\<not> sorted (names (ls @ l # rest))"
        by (cases ls rule: rev_cases) (auto simp: sorted_append)
      then show ?thesis using n 3 by simp
    qed
  qed
qed

lemma increasing_sortedLabels: "increasing ls \<Longrightarrow> sortedLabels ls = ls"
  by (simp add: increasing_def sortedLabels_def remoteWriteLabelsSorted_iff strict_sorted_imp_sorted)

lemma increasing_namesOk: "increasing ls \<Longrightarrow> distinct (names ls) \<and> '''' \<notin> set (names ls)"
  by (simp add: increasing_def strict_sorted_iff)

text \<open>A series whose labels the fast path accepts has the identity, or the error, that the slow
  path computes, and the slow path leaves its labels as they are.\<close>

lemma fast_identity_eq:
  assumes h: "xxhash_ok h" and run: "fiAddAll h (fiReset h) ls = Inr (True, s)"
  shows "remoteWriteSeriesIdentityLabels h ls = (fiFinish h s, ls)"
proof -
  have nil: "increasing []" by (simp add: increasing_def)
  note R = fiAddAll_run [OF fi_rep_reset nil, of ls h, unfolded append_Nil]
  have inc: "increasing ls" using R run by blast
  then have rep: "fi_rep h s ls" using R run by (metis Inr_inject prod.inject)
  have sl: "sortedLabels ls = ls" by (rule increasing_sortedLabels [OF inc])
  have ok: "namesOk True '''' ls"
    using increasing_namesOk [OF inc] by (intro namesOk_distinct) auto
  from identityLoop_ok [OF this, of "''''" "[]" True] obtain enc st where
    loop: "identityLoop ls True '''' '''' [] True = Inr (lookupMetric '''' ls, enc, st)"
    "st \<longrightarrow> enc = seriesEncoding ls"
    by auto
  have "fiFinish h s = (if ls = [] then Inl NoLabels
      else if lookupMetric '''' ls = '''' then Inl MissingMetricName
      else Inr (xxSum64 h (seriesEncoding ls), lookupMetric '''' ls))"
    using rep h by (auto simp: fiFinish_def fi_rep_def xxhash_ok_def)
  then show ?thesis
    using loop h sl unfolding remoteWriteSeriesIdentityLabels_def sortedLabels_def [symmetric]
    by (auto simp: Let_def digest_hash)
qed

section \<open>The encoding is injective, the identity does not depend on the order\<close>

definition short_label :: "remoteWriteLabel \<Rightarrow> bool" where
  "short_label l \<longleftrightarrow> length (lblName l) < 2 ^ 64 \<and> length (lblValue l) < 2 ^ 64"

lemma lengthBytes_inject:
  assumes "lengthBytes s @ xs = lengthBytes t @ ys" "length s < 2 ^ 64" "length t < 2 ^ 64"
  shows "length s = length t \<and> xs = ys"
proof -
  have eq: "putUint64 (of_nat (length s)) = putUint64 (of_nat (length t))" "xs = ys"
    using assms(1) by (simp_all add: lengthBytes_def)
  then have "(of_nat (length s) :: u64) = of_nat (length t)"
    by (metis leUint64_putUint64 append_Nil2)
  then have "unat (of_nat (length s) :: u64) = unat (of_nat (length t) :: u64)"
    by simp
  then show ?thesis
    using eq(2) assms(2,3) by (simp add: unat_of_nat)
qed

lemma labelChunks_inject:
  assumes "concat (labelChunks k) @ xs = concat (labelChunks l) @ ys" "short_label k" "short_label l"
  shows "k = l \<and> xs = ys"
proof -
  let ?rest = "\<lambda>l zs. str_bytes (lblName l) @ lengthBytes (lblValue l) @ str_bytes (lblValue l) @ zs"
  have "lengthBytes (lblName k) @ ?rest k xs = lengthBytes (lblName l) @ ?rest l ys"
    using assms(1) by (simp add: labelChunks_def)
  from lengthBytes_inject [OF this] assms(2,3)
  have n: "length (lblName k) = length (lblName l)" "?rest k xs = ?rest l ys"
    by (auto simp: short_label_def)
  then have m: "lblName k = lblName l"
    "lengthBytes (lblValue k) @ str_bytes (lblValue k) @ xs = lengthBytes (lblValue l) @ str_bytes (lblValue l) @ ys"
    by simp_all
  from lengthBytes_inject [OF m(2)] assms(2,3)
  have "length (lblValue k) = length (lblValue l)" "str_bytes (lblValue k) @ xs = str_bytes (lblValue l) @ ys"
    by (auto simp: short_label_def)
  then show ?thesis
    using m(1) by simp
qed

lemma seriesEncoding_inject:
  assumes "\<forall>l \<in> set ks \<union> set ls. short_label l" "seriesEncoding ks = seriesEncoding ls"
  shows "ks = ls"
  using assms
proof (induction ks arbitrary: ls)
  case Nil
  then show ?case
    by (cases ls) (auto simp: labelChunks_def lengthBytes_def putUint64_def)
next
  case (Cons k ks)
  show ?case
  proof (cases ls)
    case Nil
    then show ?thesis
      using Cons.prems(2) by (simp add: labelChunks_def lengthBytes_def putUint64_def)
  next
    case l: (Cons l ls')
    then have "k = l \<and> seriesEncoding ks = seriesEncoding ls'"
      using Cons.prems by (intro labelChunks_inject) auto
    then show ?thesis
      using Cons.IH [of ls'] Cons.prems(1) l by simp
  qed
qed

lemma sortedLabels_mset:
  assumes "mset xs = mset ys" "distinct (names xs)"
  shows "sortedLabels xs = sortedLabels ys"
  by (rule sorted_names_unique) (use assms in simp_all)

lemma labels_valid_mset: "mset xs = mset ys \<Longrightarrow> labels_valid xs \<longleftrightarrow> labels_valid ys"
  unfolding labels_valid_def
  by (metis list.set_map mset_eq_imp_distinct_iff mset_eq_setD mset_map)

section \<open>Properties\<close>

text \<open>The slow path accepts a series exactly when its label names are distinct and non-empty
  and it has a non-empty __name__; the id is then the xxhash of the canonical encoding of the
  labels sorted by name, however long that encoding is (buffered or streamed), and the metric name
  is the value of __name__.\<close>

theorem slow_identity_spec:
  assumes "xxhash_ok h"
  shows "fst (remoteWriteSeriesIdentityLabels h ls) = Inr (sid, metric) \<longleftrightarrow>
     labels_valid ls \<and> sid = xxSum64 h (seriesEncoding (sortedLabels ls))
     \<and> \<lparr>lblName = ''__name__'', lblValue = metric\<rparr> \<in> set ls"
proof (cases "labels_valid ls")
  case True
  then obtain l where l: "l \<in> set ls" "lblName l = metricNameLabel" "distinct (names ls)"
    by (auto simp: labels_valid_def)
  have "lookupMetric '''' (sortedLabels ls) = lblValue l"
    using l by (intro lookupMetric_in) auto
  moreover have "\<lparr>lblName = ''__name__'', lblValue = metric\<rparr> \<in> set ls \<longleftrightarrow> metric = lblValue l"
  proof
    assume "\<lparr>lblName = ''__name__'', lblValue = metric\<rparr> \<in> set ls"
    then have "\<lparr>lblName = ''__name__'', lblValue = metric\<rparr> = l"
      using l by (auto simp: distinct_map inj_on_def metricNameLabel_def)
    then show "metric = lblValue l" by auto
  next
    assume "metric = lblValue l"
    then have "\<lparr>lblName = ''__name__'', lblValue = metric\<rparr> = l"
      using l(2) by (simp add: metricNameLabel_def)
    then show "\<lparr>lblName = ''__name__'', lblValue = metric\<rparr> \<in> set ls"
      using l(1) by simp
  qed
  ultimately show ?thesis
    using slow_identity_valid [OF assms True] True by auto
next
  case False
  then show ?thesis
    using slow_identity_invalid [OF False, of h] by auto
qed

definition sumHash :: "bytes xxhash" where
  "sumHash = \<lparr>xxReset = [], xxWrite = (\<lambda>d b. d @ b),
     xxSum = (\<lambda>d. foldl (\<lambda>a b. a * 31 + ucast b) 7 d), xxSum64 = (\<lambda>d. foldl (\<lambda>a b. a * 31 + ucast b) 7 d)\<rparr>"

lemma foldl_append_chunks: "foldl (\<lambda>d b. d @ b) acc chunks = acc @ concat chunks"
  by (induction chunks arbitrary: acc) simp_all

lemma sumHash_ok: "xxhash_ok sumHash"
  by (simp add: xxhash_ok_def sumHash_def foldl_append_chunks)

theorem slow_identity_spec_witness:
  "fst (remoteWriteSeriesIdentityLabels sumHash
     [\<lparr>lblName = ''job'', lblValue = ''a''\<rparr>, \<lparr>lblName = ''__name__'', lblValue = ''up''\<rparr>])
   = Inr (xxSum64 sumHash (seriesEncoding (sortedLabels
       [\<lparr>lblName = ''job'', lblValue = ''a''\<rparr>, \<lparr>lblName = ''__name__'', lblValue = ''up''\<rparr>])), ''up'')"
  by (simp add: slow_identity_spec [OF sumHash_ok] labels_valid_def metricNameLabel_def)

text \<open>C7. Optimised against reference: whenever the incremental identity of the fast path accepts
  the labels of a series, its result, id and metric name or error, is the one of the slow path,
  which moreover leaves these labels in their order.\<close>

theorem fast_identity_refines_slow:
  assumes "xxhash_ok h" "fiAddAll h (fiReset h) ls = Inr (True, s)"
  shows "remoteWriteSeriesIdentityLabels h ls = (fiFinish h s, ls)"
  by (rule fast_identity_eq [OF assms])

theorem fast_identity_refines_slow_witness:
  "\<exists>s. fiAddAll sumHash (fiReset sumHash) [\<lparr>lblName = ''__name__'', lblValue = ''up''\<rparr>] = Inr (True, s)
     \<and> remoteWriteSeriesIdentityLabels sumHash [\<lparr>lblName = ''__name__'', lblValue = ''up''\<rparr>]
       = (fiFinish sumHash s, [\<lparr>lblName = ''__name__'', lblValue = ''up''\<rparr>])"
proof -
  have "\<exists>s. fiAddAll sumHash (fiReset sumHash) [\<lparr>lblName = ''__name__'', lblValue = ''up''\<rparr>] = Inr (True, s)"
    by (auto simp: fiReset_def fiAdd_def fiAddParts_def Let_def)
  then show ?thesis
    using fast_identity_refines_slow [OF sumHash_ok] by blast
qed

lemma slow_identity_ok_valid:
  assumes "fst (remoteWriteSeriesIdentityLabels h ls) = Inr r"
  shows "labels_valid ls"
proof (rule ccontr)
  assume "\<not> labels_valid ls"
  from slow_identity_invalid [OF this, of h] assms show False by auto
qed

lemma slow_identity_sid:
  assumes "xxhash_ok h" "fst (remoteWriteSeriesIdentityLabels h ls) = Inr (sid, m)"
  shows "sid = xxSum64 h (seriesEncoding (sortedLabels ls))"
  using slow_identity_valid [OF assms(1) slow_identity_ok_valid [OF assms(2)]] assms(2)
  by (simp only: fst_conv sum.inject prod.inject)

lemma inj_on_pair: "f a \<noteq> f b \<Longrightarrow> inj_on f {a, b}"
  by (auto simp: inj_on_def)

lemma fiAddAll_reset_cases:
  "(\<forall>e. fiAddAll h (fiReset h) ls = Inl e \<longrightarrow> (\<exists>e'. fst (remoteWriteSeriesIdentityLabels h ls) = Inl e'))
   \<and> (\<forall>s. fiAddAll h (fiReset h) ls = Inr (False, s) \<longrightarrow> \<not> remoteWriteLabelsSorted ls)"
proof -
  have nil: "increasing []" by (simp add: increasing_def)
  note R = fiAddAll_run [OF fi_rep_reset nil, of ls h, unfolded append_Nil]
  show ?thesis
    using R slow_identity_invalid [of ls h] by (auto simp: remoteWriteLabelsSorted_iff)
qed

text \<open>The fast path gives up rightly: it reports a label error only for labels the slow path
  rejects too, and it asks for the slow path only when the labels are not sorted by name.\<close>

theorem fast_identity_gives_up:
  "(\<forall>e. fiAddAll h (fiReset h) ls = Inl e \<longrightarrow> (\<exists>e'. fst (remoteWriteSeriesIdentityLabels h ls) = Inl e'))
   \<and> (\<forall>s. fiAddAll h (fiReset h) ls = Inr (False, s) \<longrightarrow> \<not> remoteWriteLabelsSorted ls)"
  by (rule fiAddAll_reset_cases)

theorem fast_identity_gives_up_witness:
  "\<exists>e'. fst (remoteWriteSeriesIdentityLabels sumHash
     [\<lparr>lblName = ''a'', lblValue = ''1''\<rparr>, \<lparr>lblName = ''a'', lblValue = ''2''\<rparr>]) = Inl e'"
proof -
  have "fiAddAll sumHash (fiReset sumHash)
     [\<lparr>lblName = ''a'', lblValue = ''1''\<rparr>, \<lparr>lblName = ''a'', lblValue = ''2''\<rparr>] = Inl (DuplicateLabel ''a'')"
    by (simp add: fiReset_def fiAdd_def fiAddParts_def Let_def stackCap_def)
  then show ?thesis
    using fast_identity_gives_up [of sumHash
      "[\<lparr>lblName = ''a'', lblValue = ''1''\<rparr>, \<lparr>lblName = ''a'', lblValue = ''2''\<rparr>]"] by blast
qed

text \<open>The in-place insertion sort sorts: its result is a permutation of the labels, sorted by
  name, and for valid labels it is the only such list, so the identity of a series and the label
  order it leaves behind do not depend on the order in which a client sends its labels.\<close>

theorem identity_order_independent:
  assumes "mset ls = mset ls'" "labels_valid ls"
  shows "remoteWriteSeriesIdentityLabels h ls = remoteWriteSeriesIdentityLabels h ls'
     \<and> sorted (map lblName (sortRemoteWriteLabelsByName ls'))
     \<and> mset (sortRemoteWriteLabelsByName ls') = mset ls"
proof -
  have "ls \<noteq> []" "ls' \<noteq> []"
    using assms by (auto simp: labels_valid_def)
  moreover have "sortedLabels ls = sortedLabels ls'"
    using assms by (intro sortedLabels_mset) (auto simp: labels_valid_def)
  ultimately have "remoteWriteSeriesIdentityLabels h ls = remoteWriteSeriesIdentityLabels h ls'"
    unfolding remoteWriteSeriesIdentityLabels_def sortedLabels_def [symmetric] by simp
  then show ?thesis
    using assms(1) sort_sorted sort_mset by auto
qed

theorem identity_order_independent_witness:
  "remoteWriteSeriesIdentityLabels sumHash
     [\<lparr>lblName = ''job'', lblValue = ''a''\<rparr>, \<lparr>lblName = ''__name__'', lblValue = ''up''\<rparr>]
   = remoteWriteSeriesIdentityLabels sumHash
     [\<lparr>lblName = ''__name__'', lblValue = ''up''\<rparr>, \<lparr>lblName = ''job'', lblValue = ''a''\<rparr>]"
  by (rule identity_order_independent [THEN conjunct1]) (simp_all add: labels_valid_def metricNameLabel_def)

text \<open>C6. For two series with valid labels the ids agree exactly when the series are the same up to
  the order of their labels, as long as xxhash does not collide on the two canonical encodings: the
  length prefixes make the encoding injective, so no choice of names and values can make two
  different series hash the same bytes.\<close>

theorem same_id_same_series:
  assumes "xxhash_ok h"
    and "inj_on (xxSum64 h) {seriesEncoding (sortedLabels ls), seriesEncoding (sortedLabels ls')}"
    and "fst (remoteWriteSeriesIdentityLabels h ls) = Inr (sid, m)"
    and "fst (remoteWriteSeriesIdentityLabels h ls') = Inr (sid', m')"
    and "\<forall>l \<in> set ls \<union> set ls'. short_label l"
  shows "sid = sid' \<longleftrightarrow> mset ls = mset ls'"
proof -
  have v: "labels_valid ls" "labels_valid ls'"
    by (rule slow_identity_ok_valid [OF assms(3)], rule slow_identity_ok_valid [OF assms(4)])
  have sid: "sid = xxSum64 h (seriesEncoding (sortedLabels ls))"
    "sid' = xxSum64 h (seriesEncoding (sortedLabels ls'))"
    by (rule slow_identity_sid [OF assms(1,3)], rule slow_identity_sid [OF assms(1,4)])
  show ?thesis
  proof
    assume "sid = sid'"
    then have "seriesEncoding (sortedLabels ls) = seriesEncoding (sortedLabels ls')"
      unfolding sid by (rule inj_onD [OF assms(2)]) simp_all
    then have "sortedLabels ls = sortedLabels ls'"
      by (rule seriesEncoding_inject [rotated]) (unfold sortedLabels_props(3), rule assms(5))
    then show "mset ls = mset ls'"
      using sortedLabels_props(2) [of ls] sortedLabels_props(2) [of ls'] by (simp only:)
  next
    assume m: "mset ls = mset ls'"
    have "distinct (names ls)" using v(1) by (simp add: labels_valid_def)
    with m have "sortedLabels ls = sortedLabels ls'"
      by (intro sortedLabels_mset)
    then show "sid = sid'"
      unfolding sid by (simp only:)
  qed
qed

theorem same_id_same_series_witness:
  "\<exists>sid sid'.
     fst (remoteWriteSeriesIdentityLabels sumHash [\<lparr>lblName = ''__name__'', lblValue = ''up''\<rparr>]) = Inr (sid, ''up'')
   \<and> fst (remoteWriteSeriesIdentityLabels sumHash [\<lparr>lblName = ''__name__'', lblValue = ''ut''\<rparr>]) = Inr (sid', ''ut'')
   \<and> sid \<noteq> sid'"
proof -
  let ?l = "[\<lparr>lblName = ''__name__'', lblValue = ''up''\<rparr>]"
  let ?l' = "[\<lparr>lblName = ''__name__'', lblValue = ''ut''\<rparr>]"
  have v: "labels_valid ?l" "labels_valid ?l'"
    by (simp_all add: labels_valid_def metricNameLabel_def)
  have s: "sortedLabels ?l = ?l" "sortedLabels ?l' = ?l'"
    by (simp_all add: sortedLabels_def remoteWriteLabelsSorted_def)
  have "xxSum64 sumHash (seriesEncoding ?l) \<noteq> xxSum64 sumHash (seriesEncoding ?l')"
    by (simp add: sumHash_def labelChunks_def lengthBytes_def putUint64_def str_bytes_def)
  then have inj: "inj_on (xxSum64 sumHash) {seriesEncoding (sortedLabels ?l), seriesEncoding (sortedLabels ?l')}"
    unfolding s by (rule inj_on_pair)
  obtain sid sid' where r:
    "fst (remoteWriteSeriesIdentityLabels sumHash ?l) = Inr (sid, ''up'')"
    "fst (remoteWriteSeriesIdentityLabels sumHash ?l') = Inr (sid', ''ut'')"
    using slow_identity_valid [OF sumHash_ok v(1)] slow_identity_valid [OF sumHash_ok v(2)]
    by (simp add: s metricNameLabel_def)
  have "mset ?l \<noteq> mset ?l'" by simp
  moreover have "\<forall>l \<in> set ?l \<union> set ?l'. short_label l"
    by (simp add: short_label_def)
  ultimately have "sid \<noteq> sid'"
    using same_id_same_series [OF sumHash_ok inj r] by blast
  then show ?thesis using r by blast
qed

end
