(* ===== verification/FastDecode.thy ===== *)
theory FastDecode
  imports RemoteIdentity
begin

text \<open>
  The label and sample decoders of the remote-write fast path (parseFastLabel, parseFastSample and
  remoteWriteFastIdentity.addProtoLabel in src/internal/snuffle/remote_fast.go). Each has a
  shortcut for the byte layout that Prometheus writes and a loop over the fields of the message
  for everything else.

  The specification side is the protobuf wire format: a message is a list of fields, in any order,
  with repeated and unknown fields. The lemmas show that the shortcuts never change a result and
  that the loops compute what the wire format says of a message: unknown fields are skipped and
  of a repeated field the last one counts.
\<close>

section \<open>The decoders\<close>

record remoteWriteFastSample =
  smpTimestamp :: int
  smpValue :: f64

definition emptyLabel :: remoteWriteLabel where
  "emptyLabel = \<lparr>lblName = '''', lblValue = ''''\<rparr>"

definition emptySample :: remoteWriteFastSample where
  "emptySample = \<lparr>smpTimestamp = 0, smpValue = 0\<rparr>"

function labelLoop :: "bytes \<Rightarrow> nat \<Rightarrow> remoteWriteLabel \<Rightarrow> rw_error + remoteWriteLabel" where
  "labelLoop data i label =
     (if i < length data then
        (case readProtoVarint data i of
           Inl e \<Rightarrow> Inl e
         | Inr (key, i1) \<Rightarrow>
             let fieldNum = keyField key; wireType = keyWire key in
             if fieldNum = 1 then
               (if wireType \<noteq> protoWireBytes then Inl (BadWireType ''name'' wireType)
                else case readProtoBytes data i1 of
                       Inl e \<Rightarrow> Inl e
                     | Inr (v, i2) \<Rightarrow> labelLoop data i2 (label\<lparr>lblName := protoUnsafeString v\<rparr>))
             else if fieldNum = 2 then
               (if wireType \<noteq> protoWireBytes then Inl (BadWireType ''value'' wireType)
                else case readProtoBytes data i1 of
                       Inl e \<Rightarrow> Inl e
                     | Inr (v, i2) \<Rightarrow> labelLoop data i2 (label\<lparr>lblValue := protoUnsafeString v\<rparr>))
             else
               (case skipProtoField data i1 wireType of
                  Inl e \<Rightarrow> Inl e
                | Inr i2 \<Rightarrow> labelLoop data i2 label))
      else Inr label)"
  by pat_completeness auto
termination
  by (relation "measure (\<lambda>(d, i, _). length d - i)")
    (auto dest!: readProtoVarint_progress readProtoBytes_progress skipProtoField_progress)

declare labelLoop.simps [simp del]

definition parseFastLabel :: "bytes \<Rightarrow> rw_error + remoteWriteLabel" where
  "parseFastLabel data =
     (if length data > 0 \<and> data ! 0 = 0x0a then
        (case readProtoBytes data 1 of
           Inl e \<Rightarrow> Inl e
         | Inr (name, i) \<Rightarrow>
             if i < length data \<and> data ! i = 0x12 then
               (case readProtoBytes data (i + 1) of
                  Inl e \<Rightarrow> Inl e
                | Inr (value, j) \<Rightarrow>
                    if j = length data
                    then Inr \<lparr>lblName = protoUnsafeString name, lblValue = protoUnsafeString value\<rparr>
                    else labelLoop data 0 emptyLabel)
             else labelLoop data 0 emptyLabel)
      else labelLoop data 0 emptyLabel)"

definition addProtoLabel ::
  "'d xxhash \<Rightarrow> 'd remoteWriteFastIdentity \<Rightarrow> bytes \<Rightarrow> rw_error + (bool \<times> 'd remoteWriteFastIdentity)" where
  "addProtoLabel h s data =
     (let general = (case parseFastLabel data of Inl e \<Rightarrow> Inl e | Inr label \<Rightarrow> fiAdd h s label) in
      if length data > 0 \<and> data ! 0 = 0x0a then
        (case readProtoBytes data 1 of
           Inl e \<Rightarrow> Inl e
         | Inr (name, i) \<Rightarrow>
             if i < length data \<and> data ! i = 0x12 then
               (case readProtoBytes data (i + 1) of
                  Inl e \<Rightarrow> Inl e
                | Inr (value, j) \<Rightarrow>
                    if j = length data
                    then fiAddParts h s (protoUnsafeString name) (protoUnsafeString value)
                    else general)
             else general)
      else general)"

function sampleLoop :: "bytes \<Rightarrow> nat \<Rightarrow> remoteWriteFastSample \<Rightarrow> rw_error + remoteWriteFastSample" where
  "sampleLoop data i sample =
     (if i < length data then
        (case readProtoVarint data i of
           Inl e \<Rightarrow> Inl e
         | Inr (key, i1) \<Rightarrow>
             let fieldNum = keyField key; wireType = keyWire key in
             if fieldNum = 1 then
               (if wireType \<noteq> protoWireFixed64 then Inl (BadWireType ''sample value'' wireType)
                else if length data - i1 < 8 then Inl SampleTruncatedFixed64
                else sampleLoop data (i1 + 8) (sample\<lparr>smpValue := leUint64 (drop i1 data)\<rparr>))
             else if fieldNum = 2 then
               (if wireType \<noteq> protoWireVarint then Inl (BadWireType ''sample timestamp'' wireType)
                else case readProtoVarint data i1 of
                       Inl e \<Rightarrow> Inl e
                     | Inr (v, i2) \<Rightarrow> sampleLoop data i2 (sample\<lparr>smpTimestamp := sint v\<rparr>))
             else
               (case skipProtoField data i1 wireType of
                  Inl e \<Rightarrow> Inl e
                | Inr i2 \<Rightarrow> sampleLoop data i2 sample))
      else Inr sample)"
  by pat_completeness auto
termination
  by (relation "measure (\<lambda>(d, i, _). length d - i)")
    (auto dest!: readProtoVarint_progress readProtoBytes_progress skipProtoField_progress)

declare sampleLoop.simps [simp del]

definition parseFastSample :: "bytes \<Rightarrow> rw_error + remoteWriteFastSample" where
  "parseFastSample data =
     (if length data \<ge> 10 \<and> data ! 0 = 0x09 \<and> data ! 9 = 0x10 then
        (case readProtoVarint data 10 of
           Inl e \<Rightarrow> Inl e
         | Inr (timestamp, i) \<Rightarrow>
             if i = length data
             then Inr \<lparr>smpTimestamp = sint timestamp, smpValue = leUint64 (drop 1 data)\<rparr>
             else sampleLoop data 0 emptySample)
      else sampleLoop data 0 emptySample)"

section \<open>The shortcuts change nothing\<close>

lemma key_byte:
  assumes "i < length data" "data ! i < 0x80"
  shows "readProtoVarint data i = Inr (ucast (data ! i), i + 1)"
  using assms by (simp add: readProtoVarint_def)

lemma key_bytes:
  "keyField 10 = 1" "keyWire 10 = 2" "keyField 18 = 2" "keyWire 18 = 2"
  "keyField 9 = 1" "keyWire 9 = 1" "keyField 16 = 2" "keyWire 16 = 0"
  by (simp_all add: keyField_def keyWire_def drop_bit_eq_div)

lemma parseFastLabel_loop: "parseFastLabel data = labelLoop data 0 emptyLabel"
proof (cases "0 < length data \<and> data ! 0 = 0x0a")
  case True
  have "labelLoop data 0 emptyLabel = (case readProtoBytes data 1 of Inl e \<Rightarrow> Inl e
      | Inr (v, i) \<Rightarrow> labelLoop data i (emptyLabel\<lparr>lblName := protoUnsafeString v\<rparr>))"
    using True key_byte [of 0 data]
    by (subst labelLoop.simps) (simp add: key_bytes Let_def wire_type_defs)
  moreover have "labelLoop data i l = (case readProtoBytes data (i + 1) of Inl e \<Rightarrow> Inl e
      | Inr (v, j) \<Rightarrow> labelLoop data j (l\<lparr>lblValue := protoUnsafeString v\<rparr>))"
    if "i < length data" "data ! i = 0x12" for i l
    using that key_byte [of i data]
    by (subst labelLoop.simps) (simp add: key_bytes Let_def wire_type_defs)
  moreover have "labelLoop data (length data) l = Inr l" for l
    by (simp add: labelLoop.simps)
  ultimately show ?thesis
    using True by (auto simp: parseFastLabel_def emptyLabel_def split: sum.splits)
qed (auto simp: parseFastLabel_def)

lemma addProtoLabel_parse:
  "addProtoLabel h s data = (case parseFastLabel data of Inl e \<Rightarrow> Inl e | Inr label \<Rightarrow> fiAdd h s label)"
  by (auto simp: addProtoLabel_def parseFastLabel_def fiAdd_def Let_def split: sum.splits)

lemma parseFastSample_loop: "parseFastSample data = sampleLoop data 0 emptySample"
proof (cases "10 \<le> length data \<and> data ! 0 = 0x09 \<and> data ! 9 = 0x10")
  case True
  have "sampleLoop data 0 emptySample = sampleLoop data 9 (emptySample\<lparr>smpValue := leUint64 (drop 1 data)\<rparr>)"
  proof -
    have "0 < length data" "\<not> length data - 1 < 8" using True by linarith+
    then show ?thesis
      using True key_byte [of 0 data]
      by (subst sampleLoop.simps) (simp add: key_bytes Let_def wire_type_defs)
  qed
  moreover have "sampleLoop data 9 s = (case readProtoVarint data 10 of Inl e \<Rightarrow> Inl e
      | Inr (v, j) \<Rightarrow> sampleLoop data j (s\<lparr>smpTimestamp := sint v\<rparr>))" for s
    using True key_byte [of 9 data]
    by (subst sampleLoop.simps) (simp add: key_bytes Let_def wire_type_defs)
  moreover have "sampleLoop data (length data) l = Inr l" for l
    by (simp add: sampleLoop.simps)
  ultimately show ?thesis
    using True by (auto simp: parseFastSample_def emptySample_def split: sum.splits)
qed (auto simp: parseFastSample_def)

section \<open>The wire format\<close>

text \<open>A field of a message: its number and its payload, by wire type. A message is a list of fields;
  field numbers are below \<open>2 ^ 29\<close>, a length-delimited payload is shorter than \<open>2 ^ 64\<close>.\<close>

datatype payload = WVarint u64 | WFixed64 u64 | WBytes bytes | WFixed32 "32 word"

type_synonym field = "nat \<times> payload"

fun payloadWire :: "payload \<Rightarrow> nat" where
  "payloadWire (WVarint _) = protoWireVarint"
| "payloadWire (WFixed64 _) = protoWireFixed64"
| "payloadWire (WBytes _) = protoWireBytes"
| "payloadWire (WFixed32 _) = protoWireFixed32"

fun encodePayload :: "payload \<Rightarrow> bytes" where
  "encodePayload (WVarint v) = encodeVarint v"
| "encodePayload (WFixed64 v) = putUint64 v"
| "encodePayload (WBytes b) = encodeBytes b"
| "encodePayload (WFixed32 v) = take 4 (putUint64 (ucast v))"

definition fieldKey :: "field \<Rightarrow> u64" where
  "fieldKey f = of_nat (fst f * 8 + payloadWire (snd f))"

definition encodeField :: "field \<Rightarrow> bytes" where
  "encodeField f = encodeVarint (fieldKey f) @ encodePayload (snd f)"

definition encodeFields :: "field list \<Rightarrow> bytes" where
  "encodeFields fs = concat (map encodeField fs)"

fun payload_ok :: "payload \<Rightarrow> bool" where
  "payload_ok (WBytes b) \<longleftrightarrow> length b < 2 ^ 64"
| "payload_ok _ \<longleftrightarrow> True"

definition field_ok :: "field \<Rightarrow> bool" where
  "field_ok f \<longleftrightarrow> 0 < fst f \<and> fst f < 2 ^ 29 \<and> payload_ok (snd f)"

lemma encodeFields_simps [simp]:
  "encodeFields [] = []"
  "encodeFields (f # fs) = encodeField f @ encodeFields fs"
  "encodeFields (fs @ gs) = encodeFields fs @ encodeFields gs"
  by (simp_all add: encodeFields_def)

lemma payloadWire_less: "payloadWire p < 8"
  by (cases p) (simp_all add: wire_type_defs)

lemma fieldKey_parts:
  assumes "field_ok f"
  shows "keyField (fieldKey f) = fst f" "keyWire (fieldKey f) = payloadWire (snd f)"
proof -
  let ?n = "fst f * 8 + payloadWire (snd f)"
  have b: "payloadWire (snd f) < 8" "?n < 2 ^ 32"
    using payloadWire_less [of "snd f"] assms by (simp_all add: field_ok_def)
  then have u: "unat (of_nat ?n :: u64) = ?n"
    by (simp only: unat_of_nat) simp
  show "keyField (fieldKey f) = fst f"
    unfolding keyField_def fieldKey_def unat_drop_bit_eq u using b(1) by (simp add: drop_bit_eq_div)
  have and7: "(w :: u64) AND 7 = take_bit 3 w" for w
    by (simp add: take_bit_eq_mask mask_eq_exp_minus_1)
  show "keyWire (fieldKey f) = payloadWire (snd f)"
    unfolding keyWire_def fieldKey_def and7 unsigned_take_bit_eq u
    using b(1) by (simp add: take_bit_eq_mod)
qed

text \<open>Reading a field in the middle of a message: the key, then the payload, by wire type.\<close>

lemma read_key:
  "readProtoVarint (pre @ encodeField f @ post) (length pre)
   = Inr (fieldKey f, length (pre @ encodeVarint (fieldKey f)))"
  using varint.read_framed [of pre "fieldKey f" "encodePayload (snd f) @ post"]
  by (simp add: encodeField_def)

lemma encodeField_pos: "0 < length (encodeField f)"
  using varint.enc_nonempty [of "fieldKey f"] by (simp add: encodeField_def)

lemma length_fixed32 [simp]: "length (take 4 (putUint64 v)) = 4"
  by simp

lemma skip_payload:
  assumes "payload_ok p"
  shows "skipProtoField (pre @ encodePayload p @ post) (length pre) (payloadWire p)
   = Inr (length pre + length (encodePayload p))"
proof (cases p)
  case (WVarint v)
  then show ?thesis
    using varint.read_framed [of pre v post] by (simp add: skipProtoField_def)
next
  case (WBytes b)
  then show ?thesis
    using assms lenbytes.read_framed [of b pre post] by (simp add: skipProtoField_def wire_type_defs)
qed (simp_all add: skipProtoField_def wire_type_defs)

lemma skip_field:
  assumes "field_ok f"
  shows "skipProtoField (pre @ encodeField f @ post) (length (pre @ encodeVarint (fieldKey f)))
     (payloadWire (snd f)) = Inr (length (pre @ encodeField f))"
  using skip_payload [of "snd f" "pre @ encodeVarint (fieldKey f)" post] assms
  by (simp add: encodeField_def field_ok_def add.assoc)

lemma bytes_field:
  assumes "length b < 2 ^ 64"
  shows "readProtoBytes (pre @ encodeField (n, WBytes b) @ post)
     (length (pre @ encodeVarint (fieldKey (n, WBytes b)))) = Inr (b, length (pre @ encodeField (n, WBytes b)))"
  using lenbytes.read_framed [OF assms, of "pre @ encodeVarint (fieldKey (n, WBytes b))" post]
  by (simp add: encodeField_def add.assoc)

lemma varint_field:
  "readProtoVarint (pre @ encodeField (n, WVarint v) @ post)
     (length (pre @ encodeVarint (fieldKey (n, WVarint v)))) = Inr (v, length (pre @ encodeField (n, WVarint v)))"
  using varint.read_framed [of "pre @ encodeVarint (fieldKey (n, WVarint v))" v post]
  by (simp add: encodeField_def add.assoc)

lemma fixed64_field:
  "drop (length (pre @ encodeVarint (fieldKey (n, WFixed64 v)))) (pre @ encodeField (n, WFixed64 v) @ post)
   = putUint64 v @ post"
  by (simp add: encodeField_def)

section \<open>What the wire format says of a label and of a sample\<close>

text \<open>Fields of the declared number and wire type set the attribute, the last one wins, unknown fields
  are ignored.\<close>

fun labelField :: "remoteWriteLabel \<Rightarrow> field \<Rightarrow> remoteWriteLabel" where
  "labelField l (n, WBytes b) =
     (if n = 1 then l\<lparr>lblName := bytes_str b\<rparr> else if n = 2 then l\<lparr>lblValue := bytes_str b\<rparr> else l)"
| "labelField l _ = l"

definition labelOf :: "field list \<Rightarrow> remoteWriteLabel" where
  "labelOf fs = foldl labelField emptyLabel fs"

definition label_field_ok :: "field \<Rightarrow> bool" where
  "label_field_ok f \<longleftrightarrow> field_ok f \<and> (fst f \<in> {1, 2} \<longrightarrow> payloadWire (snd f) = protoWireBytes)"

fun sampleField :: "remoteWriteFastSample \<Rightarrow> field \<Rightarrow> remoteWriteFastSample" where
  "sampleField s (n, WFixed64 v) = (if n = 1 then s\<lparr>smpValue := v\<rparr> else s)"
| "sampleField s (n, WVarint v) = (if n = 2 then s\<lparr>smpTimestamp := sint v\<rparr> else s)"
| "sampleField s _ = s"

definition sampleOf :: "field list \<Rightarrow> remoteWriteFastSample" where
  "sampleOf fs = foldl sampleField emptySample fs"

definition sample_field_ok :: "field \<Rightarrow> bool" where
  "sample_field_ok f \<longleftrightarrow> field_ok f
     \<and> (fst f = 1 \<longrightarrow> payloadWire (snd f) = protoWireFixed64)
     \<and> (fst f = 2 \<longrightarrow> payloadWire (snd f) = protoWireVarint)"

lemma payloadWire_eq:
  "payloadWire p = protoWireBytes \<longleftrightarrow> (\<exists>b. p = WBytes b)"
  "payloadWire p = protoWireFixed64 \<longleftrightarrow> (\<exists>v. p = WFixed64 v)"
  "payloadWire p = protoWireVarint \<longleftrightarrow> (\<exists>v. p = WVarint v)"
  by (cases p; simp add: wire_type_defs)+

lemma labelLoop_field:
  assumes "label_field_ok f"
  shows "labelLoop (pre @ encodeField f @ post) (length pre) l
     = labelLoop (pre @ encodeField f @ post) (length (pre @ encodeField f)) (labelField l f)"
proof -
  have ok: "field_ok f" using assms by (simp add: label_field_ok_def)
  obtain n p where f: "f = (n, p)" by (cases f)
  have lt: "length pre < length (pre @ encodeField f @ post)"
    using encodeField_pos [of f] by simp
  note unroll = labelLoop.simps [of "pre @ encodeField f @ post" "length pre" l]
  show ?thesis
  proof (cases "n = 1 \<or> n = 2")
    case True
    then obtain b where p: "p = WBytes b"
      using assms by (auto simp: label_field_ok_def f payloadWire_eq)
    then have "length b < 2 ^ 64" using ok by (simp add: f field_ok_def)
    then show ?thesis
      using True lt fieldKey_parts [OF ok] bytes_field [of b pre n post] unfolding unroll
      by (auto simp: read_key Let_def f p wire_type_defs simp del: length_append)
  next
    case False
    then have "labelField l f = l" by (cases p) (simp_all add: f)
    then show ?thesis
      using False lt fieldKey_parts [OF ok] skip_field [OF ok, of pre post] unfolding unroll
      by (simp add: read_key Let_def f del: length_append)
  qed
qed

lemma sampleLoop_field:
  assumes "sample_field_ok f"
  shows "sampleLoop (pre @ encodeField f @ post) (length pre) s
     = sampleLoop (pre @ encodeField f @ post) (length (pre @ encodeField f)) (sampleField s f)"
proof -
  have ok: "field_ok f" using assms by (simp add: sample_field_ok_def)
  obtain n p where f: "f = (n, p)" by (cases f)
  have lt: "length pre < length (pre @ encodeField f @ post)"
    using encodeField_pos [of f] by simp
  note unroll = sampleLoop.simps [of "pre @ encodeField f @ post" "length pre" s]
  consider "n = 1" | "n = 2" | "n \<noteq> 1" "n \<noteq> 2" by blast
  then show ?thesis
  proof cases
    case 1
    then obtain v where p: "p = WFixed64 v"
      using assms by (auto simp: sample_field_ok_def f payloadWire_eq)
    then show ?thesis
      using 1 lt fieldKey_parts [OF ok] fixed64_field [of pre n v post] unfolding unroll
      by (simp add: read_key Let_def f) (simp add: encodeField_def wire_type_defs add.assoc)
  next
    case 2
    then obtain v where p: "p = WVarint v"
      using assms by (auto simp: sample_field_ok_def f payloadWire_eq)
    then show ?thesis
      using 2 lt fieldKey_parts [OF ok] varint_field [of pre n v post] unfolding unroll
      by (simp add: read_key Let_def f del: length_append)
  next
    case 3
    then have "sampleField s f = s" by (cases p) (simp_all add: f)
    then show ?thesis
      using 3 lt fieldKey_parts [OF ok] skip_field [OF ok, of pre post] unfolding unroll
      by (simp add: read_key Let_def f del: length_append)
  qed
qed

lemma labelLoop_fields:
  assumes "list_all label_field_ok fs"
  shows "labelLoop (pre @ encodeFields fs) (length pre) l = Inr (foldl labelField l fs)"
  using assms
proof (induction fs arbitrary: pre l)
  case (Cons f fs)
  then show ?case
    using labelLoop_field [of f pre "encodeFields fs" l] Cons.IH [of "pre @ encodeField f"]
    by simp
qed (simp add: labelLoop.simps)

lemma sampleLoop_fields:
  assumes "list_all sample_field_ok fs"
  shows "sampleLoop (pre @ encodeFields fs) (length pre) l = Inr (foldl sampleField l fs)"
  using assms
proof (induction fs arbitrary: pre l)
  case (Cons f fs)
  then show ?case
    using sampleLoop_field [of f pre "encodeFields fs" l] Cons.IH [of "pre @ encodeField f"]
    by simp
qed (simp add: sampleLoop.simps)

lemma parseFastLabel_fields:
  "list_all label_field_ok fs \<Longrightarrow> parseFastLabel (encodeFields fs) = Inr (labelOf fs)"
  using labelLoop_fields [of fs "[]"] by (simp add: parseFastLabel_loop labelOf_def)

lemma parseFastSample_fields:
  "list_all sample_field_ok fs \<Longrightarrow> parseFastSample (encodeFields fs) = Inr (sampleOf fs)"
  using sampleLoop_fields [of fs "[]"] by (simp add: parseFastSample_loop sampleOf_def)

section \<open>Properties\<close>

text \<open>Optimised against reference, on every input: the byte-layout shortcuts of the label and
  sample decoders return what the plain loop over the fields returns, errors included, and adding
  an encoded label to an identity is decoding it and adding the label.\<close>

theorem shortcuts_agree_with_loops:
  "parseFastLabel data = labelLoop data 0 emptyLabel
   \<and> parseFastSample data = sampleLoop data 0 emptySample
   \<and> addProtoLabel h s data
     = (case labelLoop data 0 emptyLabel of Inl e \<Rightarrow> Inl e | Inr label \<Rightarrow> fiAdd h s label)"
  by (simp add: parseFastLabel_loop parseFastSample_loop addProtoLabel_parse)

text \<open>C9. The decoders compute what the protobuf wire format says of a message: for any list of
  well-typed fields, in any order, with unknown fields between and repeated ones, the label or
  sample decoded from its encoding is the one in which the last occurrence of each attribute
  counts; no such message is rejected.\<close>

theorem fast_decoders_wire_format:
  assumes "list_all label_field_ok ls" "list_all sample_field_ok ss"
  shows "parseFastLabel (encodeFields ls) = Inr (labelOf ls)
     \<and> parseFastSample (encodeFields ss) = Inr (sampleOf ss)"
  using assms by (simp add: parseFastLabel_fields parseFastSample_fields)

theorem fast_decoders_wire_format_witness:
  "parseFastLabel (encodeFields [(2, WBytes [0x31]), (7, WVarint 5), (1, WBytes [0x61]), (2, WBytes [0x32])])
     = Inr \<lparr>lblName = ''a'', lblValue = ''2''\<rparr>
   \<and> parseFastSample (encodeFields [(2, WVarint (-1)), (1, WFixed64 3)])
     = Inr \<lparr>smpTimestamp = -1, smpValue = 3\<rparr>"
proof -
  let ?ls = "[(2, WBytes [0x31]), (7, WVarint 5), (1, WBytes [0x61]), (2, WBytes [0x32])]"
  let ?ss = "[(2, WVarint (-1)), (1, WFixed64 3)]"
  have "list_all label_field_ok ?ls" "list_all sample_field_ok ?ss"
    by (simp_all add: label_field_ok_def sample_field_ok_def field_ok_def wire_type_defs)
  from fast_decoders_wire_format [OF this] show ?thesis
    by (simp add: labelOf_def sampleOf_def emptyLabel_def emptySample_def bytes_str_def char_of_def bit_0)
qed

end
