(* ===== verification/GoText.thy ===== *)
theory GoText
  imports Prelude
begin

text \<open>
  Text as the Go code handles it: UTF-8 decoding as in package unicode/utf8, the quoting of
  strconv.AppendQuote and the string escaping of encoding/json (the parts of the standard library
  that the writers rely on), and the repository's own JSON writers: appendJSONString and
  logStreamResult.MarshalJSON (src/internal/snuffle/logql.go).

  The table behind strconv.IsPrint above U+00FF is the parameter \<open>isPrint\<close>.
  A reader of JSON strings (RFC 8259) is the specification: what is written is read back.
\<close>

section \<open>UTF-8\<close>

abbreviation code :: "char \<Rightarrow> nat" where
  "code c \<equiv> of_char c"

definition runeError :: nat where "runeError = 0xFFFD"

definition cont :: "char \<Rightarrow> bool" where
  "cont c \<longleftrightarrow> 0x80 \<le> code c \<and> code c \<le> 0xBF"

text \<open>utf8.DecodeRuneInString: the rune and its width; an invalid encoding is \<open>(runeError, 1)\<close>.\<close>

definition decode2 :: "nat \<Rightarrow> string \<Rightarrow> nat \<times> nat" where
  "decode2 b cs = (case cs of
     c1 # _ \<Rightarrow> if cont c1 then ((b - 0xC0) * 64 + (code c1 - 0x80), 2) else (runeError, 1)
   | _ \<Rightarrow> (runeError, 1))"

definition decode3 :: "nat \<Rightarrow> string \<Rightarrow> nat \<times> nat" where
  "decode3 b cs = (case cs of
     c1 # c2 # _ \<Rightarrow>
       if cont c1 \<and> cont c2 \<and> (b = 0xE0 \<longrightarrow> 0xA0 \<le> code c1) \<and> (b = 0xED \<longrightarrow> code c1 \<le> 0x9F)
       then ((b - 0xE0) * 4096 + (code c1 - 0x80) * 64 + (code c2 - 0x80), 3) else (runeError, 1)
   | _ \<Rightarrow> (runeError, 1))"

definition decode4 :: "nat \<Rightarrow> string \<Rightarrow> nat \<times> nat" where
  "decode4 b cs = (case cs of
     c1 # c2 # c3 # _ \<Rightarrow>
       if cont c1 \<and> cont c2 \<and> cont c3 \<and> (b = 0xF0 \<longrightarrow> 0x90 \<le> code c1) \<and> (b = 0xF4 \<longrightarrow> code c1 \<le> 0x8F)
       then ((b - 0xF0) * 262144 + (code c1 - 0x80) * 4096 + (code c2 - 0x80) * 64 + (code c3 - 0x80), 4)
       else (runeError, 1)
   | _ \<Rightarrow> (runeError, 1))"

definition decodeRune :: "string \<Rightarrow> nat \<times> nat" where
  "decodeRune s = (case s of
     [] \<Rightarrow> (runeError, 0)
   | c # cs \<Rightarrow>
       let b = code c in
       if b < 0x80 then (b, 1)
       else if b < 0xC2 then (runeError, 1)
       else if b < 0xE0 then decode2 b cs
       else if b < 0xF0 then decode3 b cs
       else if b < 0xF5 then decode4 b cs
       else (runeError, 1))"

text \<open>utf8.AppendRune, for a valid code point.\<close>

definition encodeRune :: "nat \<Rightarrow> string" where
  "encodeRune r =
     (if r < 0x80 then [char_of r]
      else if r < 0x800 then [char_of (0xC0 + r div 64), char_of (0x80 + r mod 64)]
      else if r < 0x10000 then
        [char_of (0xE0 + r div 4096), char_of (0x80 + r div 64 mod 64), char_of (0x80 + r mod 64)]
      else
        [char_of (0xF0 + r div 262144), char_of (0x80 + r div 4096 mod 64),
         char_of (0x80 + r div 64 mod 64), char_of (0x80 + r mod 64)])"

definition surrogate :: "nat \<Rightarrow> bool" where
  "surrogate r \<longleftrightarrow> 0xD800 \<le> r \<and> r < 0xE000"

lemma code_less [simp]: "code c < 256"
  by simp

lemma decodeRune_width:
  assumes "s \<noteq> []" "decodeRune s = (r, n)"
  shows "0 < n \<and> n \<le> length s \<and> n \<le> 4"
  using assms
  by (auto simp: decodeRune_def decode2_def decode3_def decode4_def Let_def split: list.splits if_splits)

lemma cont_val: "cont c \<Longrightarrow> \<exists>v < 64. code c = 0x80 + v"
  by (rule exI [of _ "code c - 0x80"]) (auto simp: cont_def)

lemma char_of_code_eq: "n = code c \<Longrightarrow> char_of n = c"
  by simp

text \<open>A valid decoding loses nothing: encoding the rune gives back the bytes, and the rune is a scalar
  value, below \<open>0x80\<close> exactly when it is a single byte.\<close>

lemma decodeRune_valid:
  assumes "s \<noteq> []" "decodeRune s = (r, n)" "\<not> (r = runeError \<and> n = 1)"
  shows "encodeRune r = take n s \<and> r < 0x110000 \<and> \<not> surrogate r \<and> (r < 0x80 \<longleftrightarrow> n = 1)"
proof -
  obtain c cs where s: "s = c # cs" using assms(1) by (cases s) auto
  consider "code c < 0x80" | "0xC2 \<le> code c" "code c < 0xE0" | "0xE0 \<le> code c" "code c < 0xF0"
    | "0xF0 \<le> code c" "code c < 0xF5"
    using assms(2,3) by (auto simp: s decodeRune_def Let_def split: if_splits)
  then show ?thesis
  proof cases
    case 1
    then have "r = code c" "n = 1"
      using assms(2) by (auto simp: s decodeRune_def)
    then show ?thesis
      using 1 by (simp add: encodeRune_def s surrogate_def)
  next
    case 2
    then have d: "decode2 (code c) cs = (r, n)"
      using assms(2) by (simp add: s decodeRune_def)
    then obtain c1 cs1 where c1: "cs = c1 # cs1" "cont c1"
      using assms(3) by (auto simp: decode2_def split: list.splits if_splits)
    obtain v where v: "v < 64" "code c1 = 0x80 + v" using cont_val [OF c1(2)] by blast
    have r: "r = (code c - 0xC0) * 64 + v" "n = 2"
      using d c1 v by (auto simp: decode2_def)
    have "0x80 \<le> r" "r < 0x800" using 2 v r by linarith+
    moreover have "0xC0 + r div 64 = code c" "0x80 + r mod 64 = code c1"
      using 2 v r by (simp_all add: div_mult_self3)
    ultimately show ?thesis
      using r(2) c1(1) by (simp add: encodeRune_def s surrogate_def del: of_char_of)
  next
    case 3
    then have d: "decode3 (code c) cs = (r, n)"
      using assms(2) by (simp add: s decodeRune_def)
    then obtain c1 c2 cs2 where c1: "cs = c1 # c2 # cs2" "cont c1" "cont c2"
      and lim: "code c = 0xE0 \<longrightarrow> 0xA0 \<le> code c1" "code c = 0xED \<longrightarrow> code c1 \<le> 0x9F"
      using assms(3) by (auto simp: decode3_def split: list.splits if_splits)
    obtain v w where v: "v < 64" "code c1 = 0x80 + v" and w: "w < 64" "code c2 = 0x80 + w"
      using cont_val [OF c1(2)] cont_val [OF c1(3)] by blast
    have r: "r = (code c - 0xE0) * 4096 + v * 64 + w" "n = 3"
      using d c1 lim v w by (auto simp: decode3_def)
    have "0x800 \<le> r"
      using 3 v w r lim(1) by (cases "code c = 0xE0") linarith+
    moreover have "r < 0x10000" using 3 v w r by linarith
    moreover have "r < 0xD800 \<or> 0xE000 \<le> r"
      using 3 v w r lim(2) by (cases "code c = 0xED") linarith+
    moreover have "0xE0 + r div 4096 = code c" "0x80 + r div 64 mod 64 = code c1" "0x80 + r mod 64 = code c2"
    proof -
      have q: "r = 4096 * (code c - 0xE0) + (v * 64 + w)" "r = 64 * ((code c - 0xE0) * 64 + v) + w"
        using r by simp_all
      have "r div 4096 = code c - 0xE0" unfolding q(1) using v w by simp
      moreover have "r div 64 = (code c - 0xE0) * 64 + v" "r mod 64 = w"
        unfolding q(2) using v w by (simp_all only: div_mult_self4 mod_mult_self4) simp_all
      ultimately show "0xE0 + r div 4096 = code c" "0x80 + r div 64 mod 64 = code c1" "0x80 + r mod 64 = code c2"
        using 3 v w by simp_all
    qed
    ultimately show ?thesis
      using r(2) c1(1) by (auto simp add: encodeRune_def s surrogate_def)
  next
    case 4
    then have d: "decode4 (code c) cs = (r, n)"
      using assms(2) by (simp add: s decodeRune_def)
    then obtain c1 c2 c3 cs3 where c1: "cs = c1 # c2 # c3 # cs3" "cont c1" "cont c2" "cont c3"
      and lim: "code c = 0xF0 \<longrightarrow> 0x90 \<le> code c1" "code c = 0xF4 \<longrightarrow> code c1 \<le> 0x8F"
      using assms(3) by (auto simp: decode4_def split: list.splits if_splits)
    obtain v w x where v: "v < 64" "code c1 = 0x80 + v" and w: "w < 64" "code c2 = 0x80 + w"
      and x: "x < 64" "code c3 = 0x80 + x"
      using cont_val [OF c1(2)] cont_val [OF c1(3)] cont_val [OF c1(4)] by blast
    have r: "r = (code c - 0xF0) * 262144 + v * 4096 + w * 64 + x" "n = 4"
      using d c1 lim v w x by (auto simp: decode4_def)
    have "0x10000 \<le> r"
      using 4 v w x r lim(1) by (cases "code c = 0xF0") linarith+
    moreover have "r < 0x110000"
      using 4 v w x r lim(2) by (cases "code c = 0xF4") linarith+
    moreover have "0xF0 + r div 262144 = code c" "0x80 + r div 4096 mod 64 = code c1"
      "0x80 + r div 64 mod 64 = code c2" "0x80 + r mod 64 = code c3"
    proof -
      have q: "r = 262144 * (code c - 0xF0) + (v * 4096 + w * 64 + x)"
        "r = 4096 * ((code c - 0xF0) * 64 + v) + (w * 64 + x)"
        "r = 64 * ((code c - 0xF0) * 4096 + v * 64 + w) + x"
        using r by simp_all
      have "r div 262144 = code c - 0xF0" unfolding q(1) using v w x by simp
      moreover have "r div 4096 = (code c - 0xF0) * 64 + v" unfolding q(2) using v w x by simp
      moreover have "r div 64 = ((code c - 0xF0) * 64 + v) * 64 + w" "r mod 64 = x"
        unfolding q(3) using v w x by (simp_all only: div_mult_self4 mod_mult_self4) simp_all
      then have "r div 4096 mod 64 = v" "r div 64 mod 64 = w" "r mod 64 = x"
        using v w calculation(2) by (simp_all only: mod_mult_self3 mod_less)
      ultimately show "0xF0 + r div 262144 = code c" "0x80 + r div 4096 mod 64 = code c1"
        "0x80 + r div 64 mod 64 = code c2" "0x80 + r mod 64 = code c3"
        using 4 v w x by (simp_all only:) simp_all
    qed
    ultimately show ?thesis
      using r(2) c1(1) by (auto simp add: encodeRune_def s surrogate_def)
  qed
qed

text \<open>The runes of a string with the bytes of each, as a \<open>range\<close> over the string meets them.\<close>

function runes :: "string \<Rightarrow> (nat \<times> string) list" where
  "runes s = (if s = [] then [] else
     let (r, n) = decodeRune s in (r, take n s) # runes (drop n s))"
  by pat_completeness auto
termination
  by (relation "measure length") (auto dest: decodeRune_width [OF _ sym])

declare runes.simps [simp del]

definition invalidRune :: "nat \<times> string \<Rightarrow> bool" where
  "invalidRune x \<longleftrightarrow> fst x = runeError \<and> length (snd x) = 1"

lemma runes_Nil [simp]: "runes [] = []"
  by (simp add: runes.simps)

lemma runes_bytes: "concat (map snd (runes s)) = s"
proof (induction s rule: runes.induct)
  case (1 s)
  show ?case
  proof (cases "s = []")
    case False
    obtain r n where d: "decodeRune s = (r, n)" by (cases "decodeRune s")
    then show ?thesis
      using "1.IH" [OF False d [symmetric] refl] False by (subst runes.simps) simp
  qed simp
qed

text \<open>An ASCII string is its own runes, one byte each.\<close>

lemma runes_ascii: "list_all (\<lambda>c. code c < 0x80) s \<Longrightarrow> runes s = map (\<lambda>c. (code c, [c])) s"
proof (induction s)
  case (Cons c s)
  then show ?case
    by (subst runes.simps) (simp add: decodeRune_def)
qed simp

definition rune_ok :: "nat \<times> string \<Rightarrow> bool" where
  "rune_ok x \<longleftrightarrow> (if invalidRune x then 0x80 \<le> code (hd (snd x)) else
     encodeRune (fst x) = snd x \<and> fst x < 0x110000 \<and> \<not> surrogate (fst x))"

lemma decodeRune_invalid:
  assumes "s \<noteq> []" "decodeRune s = (runeError, 1)"
  shows "0x80 \<le> code (hd s)"
  using assms
  by (auto simp: decodeRune_def decode2_def decode3_def decode4_def runeError_def Let_def split: list.splits if_splits)

lemma runes_ok: "x \<in> set (runes s) \<Longrightarrow> rune_ok x"
proof (induction s rule: runes.induct)
  case (1 s)
  show ?case
  proof (cases "s = []")
    case False
    obtain r n where d: "decodeRune s = (r, n)" by (cases "decodeRune s")
    have w: "0 < n" "n \<le> length s" using decodeRune_width [OF False d] by auto
    have "rune_ok (r, take n s)"
      using decodeRune_valid [OF False d] decodeRune_invalid [OF False] d w False
      by (cases s) (auto simp: rune_ok_def invalidRune_def)
    then show ?thesis
      using "1.IH" [OF False d [symmetric] refl] "1.prems" False d
      by (subst (asm) runes.simps) auto
  next
    case True
    then show ?thesis using "1.prems" by simp
  qed
qed

section \<open>Writers\<close>

abbreviation dquote :: char where "dquote \<equiv> CHR 0x22"
abbreviation bslash :: char where "bslash \<equiv> CHR 0x5C"

definition jsonHexDigits :: string where
  "jsonHexDigits = ''0123456789abcdef''"

definition hexDigit :: "nat \<Rightarrow> char" where
  "hexDigit n = jsonHexDigits ! n"

definition subString :: "string \<Rightarrow> nat \<Rightarrow> nat \<Rightarrow> string" where
  "subString s i j = take (j - i) (drop i s)"

subsection \<open>appendJSONString\<close>

definition jsonPlain :: "nat \<Rightarrow> bool" where
  "jsonPlain b \<longleftrightarrow> 0x20 \<le> b \<and> b \<noteq> 0x22 \<and> b \<noteq> 0x5C \<and> b \<noteq> 0x3C \<and> b \<noteq> 0x3E \<and> b \<noteq> 0x26"

definition jsonEscape :: "nat \<Rightarrow> string" where
  "jsonEscape b =
     (if b = 0x5C \<or> b = 0x22 then [bslash, char_of b]
      else if b = 10 then [bslash, CHR ''n'']
      else if b = 13 then [bslash, CHR ''r'']
      else if b = 9 then [bslash, CHR ''t'']
      else [bslash, CHR ''u'', CHR ''0'', CHR ''0'', hexDigit (b div 16), hexDigit (b mod 16)])"

definition jsonInvalid :: string where
  "jsonInvalid = bslash # ''ufffd''"

lemma decodeRune_step:
  assumes "i < length s" "(c, w) = decodeRune (drop i s)"
  shows "0 < w \<and> i + w \<le> length s"
  using decodeRune_width [OF _ assms(2) [symmetric]] assms(1) by (simp add: le_diff_conv2 add.commute)

function jsonStringLoop :: "string \<Rightarrow> nat \<Rightarrow> nat \<Rightarrow> string \<Rightarrow> string" where
  "jsonStringLoop s start i buf =
     (if i < length s then
        (let b = code (s ! i) in
         if b < 0x80 then
           (if jsonPlain b then jsonStringLoop s start (i + 1) buf
            else jsonStringLoop s (i + 1) (i + 1) (buf @ subString s start i @ jsonEscape b))
         else
           (let (c, w) = decodeRune (drop i s) in
            if c = runeError \<and> w = 1 then
              jsonStringLoop s (i + w) (i + w) (buf @ subString s start i @ jsonInvalid)
            else if c = 0x2028 \<or> c = 0x2029 then
              jsonStringLoop s (i + w) (i + w)
                (buf @ subString s start i @ bslash # ''u202'' @ [hexDigit (c mod 16)])
            else jsonStringLoop s start (i + w) buf))
      else buf @ drop start s @ [dquote])"
  by pat_completeness auto
termination
  by (relation "measure (\<lambda>(s, start, i, buf). length s - i)") (auto dest: decodeRune_step)

declare jsonStringLoop.simps [simp del]

definition appendJSONString :: "string \<Rightarrow> string \<Rightarrow> string" where
  "appendJSONString buf s = jsonStringLoop s 0 0 (buf @ [dquote])"

subsection \<open>logStreamResult.MarshalJSON\<close>

text \<open>A Go map is an association list with distinct keys; no writer depends on its order. A nil map or
  slice is \<open>None\<close>.\<close>

type_synonym gomap = "(string \<times> string) list"

record logStreamResult =
  lsrStream :: "gomap option"
  lsrValues :: "string list option list option"

definition appendSortedMapKeys :: "gomap \<Rightarrow> string list" where
  "appendSortedMapKeys m = sort (map fst m)"

fun jsonItems :: "string \<Rightarrow> string list \<Rightarrow> string" where
  "jsonItems buf [] = buf"
| "jsonItems buf [item] = appendJSONString buf item"
| "jsonItems buf (item # items) = jsonItems (appendJSONString buf item @ '','') items"

fun jsonPairs :: "string \<Rightarrow> string list option list \<Rightarrow> string" where
  "jsonPairs buf [] = buf"
| "jsonPairs buf (pair # pairs) =
     (let buf1 = (case pair of None \<Rightarrow> buf @ ''null'' | Some items \<Rightarrow> jsonItems (buf @ ''['') items @ '']'')
      in if pairs = [] then buf1 else jsonPairs (buf1 @ '','') pairs)"

fun jsonMembers :: "string \<Rightarrow> gomap \<Rightarrow> string list \<Rightarrow> string" where
  "jsonMembers buf m [] = buf"
| "jsonMembers buf m (k # ks) =
     (let buf1 = appendJSONString (appendJSONString buf k @ '':'') (case map_of m k of None \<Rightarrow> '''' | Some v \<Rightarrow> v)
      in if ks = [] then buf1 else jsonMembers (buf1 @ '','') m ks)"

definition marshalLogStreamResult :: "logStreamResult \<Rightarrow> string" where
  "marshalLogStreamResult r =
     (let buf = CHR ''{'' # dquote # ''stream'' @ [dquote] @ '':'';
          buf = (case lsrStream r of
                   None \<Rightarrow> buf @ ''null''
                 | Some m \<Rightarrow> jsonMembers (buf @ ''{'') m (appendSortedMapKeys m) @ ''}'');
          buf = buf @ '','' @ [dquote] @ ''values'' @ [dquote] @ '':''
      in case lsrValues r of
           None \<Rightarrow> buf @ ''null}''
         | Some pairs \<Rightarrow> jsonPairs (buf @ ''['') pairs @ '']}'')"

subsection \<open>The standard library: encoding/json on strings, strconv.AppendQuote\<close>

definition stdJSONRune :: "nat \<times> string \<Rightarrow> string" where
  "stdJSONRune x =
     (if invalidRune x then jsonInvalid
      else if fst x < 0x80 then
        (if jsonPlain (fst x) then snd x
         else if fst x = 8 then [bslash, CHR ''b'']
         else if fst x = 12 then [bslash, CHR ''f'']
         else jsonEscape (fst x))
      else if fst x = 0x2028 \<or> fst x = 0x2029 then bslash # ''u202'' @ [hexDigit (fst x mod 16)]
      else snd x)"

definition jsonMarshalString :: "string \<Rightarrow> string" where
  "jsonMarshalString s = dquote # concat (map stdJSONRune (runes s)) @ [dquote]"

text \<open>json.Marshal of a map[string]string: the keys in order.\<close>

fun joinComma :: "string list \<Rightarrow> string" where
  "joinComma [] = ''''"
| "joinComma [x] = x"
| "joinComma (x # xs) = x @ '','' @ joinComma xs"

definition jsonMarshalMap :: "gomap \<Rightarrow> string" where
  "jsonMarshalMap m =
     ''{'' @ joinComma (map (\<lambda>(k, v). jsonMarshalString k @ '':'' @ jsonMarshalString v) (sort_key fst m)) @ ''}''"

definition hexString :: "nat \<Rightarrow> nat \<Rightarrow> string" where
  "hexString n r = map (\<lambda>i. hexDigit (r div 16 ^ i mod 16)) (rev [0..<n])"

definition isPrintRune :: "(nat \<Rightarrow> bool) \<Rightarrow> nat \<Rightarrow> bool" where
  "isPrintRune isPrint r =
     (if r \<le> 0xFF then 0x20 \<le> r \<and> r < 0x7F \<or> 0xA1 \<le> r \<and> r \<noteq> 0xAD else isPrint r)"

definition quoteRune :: "(nat \<Rightarrow> bool) \<Rightarrow> nat \<times> string \<Rightarrow> string" where
  "quoteRune isPrint x =
     (let r = fst x in
      if invalidRune x then bslash # ''x'' @ hexString 2 (code (hd (snd x)))
      else if r = 0x22 \<or> r = 0x5C then [bslash, char_of r]
      else if isPrintRune isPrint r then encodeRune r
      else if r = 7 then [bslash, CHR ''a'']
      else if r = 8 then [bslash, CHR ''b'']
      else if r = 12 then [bslash, CHR ''f'']
      else if r = 10 then [bslash, CHR ''n'']
      else if r = 13 then [bslash, CHR ''r'']
      else if r = 9 then [bslash, CHR ''t'']
      else if r = 11 then [bslash, CHR ''v'']
      else if r < 0x20 \<or> r = 0x7F then bslash # ''x'' @ hexString 2 r
      else if r < 0x10000 then bslash # ''u'' @ hexString 4 r
      else bslash # ''U'' @ hexString 8 r)"

definition appendQuote :: "(nat \<Rightarrow> bool) \<Rightarrow> string \<Rightarrow> string \<Rightarrow> string" where
  "appendQuote isPrint buf s = buf @ dquote # concat (map (quoteRune isPrint) (runes s)) @ [dquote]"

section \<open>A reader of JSON strings\<close>

text \<open>The grammar of RFC 8259: after the opening quote, characters other than the quote, the backslash
  and controls stand for themselves, a backslash starts one of nine escapes. A pair of surrogate
  escapes, which no writer here produces, is not accepted.\<close>

definition hexVal :: "char \<Rightarrow> nat option" where
  "hexVal c =
     (let b = code c in
      if 0x30 \<le> b \<and> b \<le> 0x39 then Some (b - 0x30)
      else if 0x61 \<le> b \<and> b \<le> 0x66 then Some (b - 0x61 + 10)
      else if 0x41 \<le> b \<and> b \<le> 0x46 then Some (b - 0x41 + 10)
      else None)"

definition hex4 :: "string \<Rightarrow> (nat \<times> string) option" where
  "hex4 s = (case s of
     a # b # c # d # rest \<Rightarrow>
       (case (hexVal a, hexVal b, hexVal c, hexVal d) of
          (Some w, Some x, Some y, Some z) \<Rightarrow> Some (w * 4096 + x * 256 + y * 16 + z, rest)
        | _ \<Rightarrow> None)
   | _ \<Rightarrow> None)"

definition jsonEscapeChar :: "char \<Rightarrow> char option" where
  "jsonEscapeChar c =
     map_of [(dquote, dquote), (bslash, bslash), (CHR ''/'', CHR ''/''), (CHR ''b'', CHR 0x08),
       (CHR ''f'', CHR 0x0C), (CHR ''n'', CHR 0x0A), (CHR ''r'', CHR 0x0D), (CHR ''t'', CHR 0x09)] c"

definition prepend :: "string \<Rightarrow> (string \<times> string) option \<Rightarrow> (string \<times> string) option" where
  "prepend xs r = map_option (\<lambda>(s, rest). (xs @ s, rest)) r"

lemma hex4_shorter: "hex4 s = Some (r, rest) \<Longrightarrow> length rest < length s"
  by (auto simp: hex4_def split: list.splits option.splits)

function jsonChars :: "string \<Rightarrow> (string \<times> string) option" where
  "jsonChars s =
     (case s of
        [] \<Rightarrow> None
      | c # cs \<Rightarrow>
          if c = dquote then Some ([], cs)
          else if c = bslash then
            (case cs of
               [] \<Rightarrow> None
             | e # es \<Rightarrow>
                 if e = CHR ''u'' then
                   (case hex4 es of
                      None \<Rightarrow> None
                    | Some (r, rest) \<Rightarrow> if surrogate r then None else prepend (encodeRune r) (jsonChars rest))
                 else (case jsonEscapeChar e of None \<Rightarrow> None | Some x \<Rightarrow> prepend [x] (jsonChars es)))
          else if code c < 0x20 then None
          else prepend [c] (jsonChars cs))"
  by pat_completeness auto
termination
  by (relation "measure length") (auto dest: hex4_shorter)

declare jsonChars.simps [simp del]

section \<open>What the writers write is read back\<close>

lemma hexVal_digit [simp]: "n < 16 \<Longrightarrow> hexVal (hexDigit n) = Some n"
proof -
  have "list_all (\<lambda>n. hexVal (hexDigit n) = Some n) [0..<16]"
    by code_simp
  then show "n < 16 \<Longrightarrow> ?thesis"
    by (simp add: list_all_iff)
qed

lemma hex4_digits:
  assumes "a < 16" "b < 16" "c < 16" "d < 16"
  shows "hex4 (hexDigit a # hexDigit b # hexDigit c # hexDigit d # rest)
    = Some (a * 4096 + b * 256 + c * 16 + d, rest)"
  using assms by (simp add: hex4_def)

lemma hexString_4: "hexString 4 r = [hexDigit (r div 4096 mod 16), hexDigit (r div 256 mod 16),
    hexDigit (r div 16 mod 16), hexDigit (r mod 16)]"
  by (simp add: hexString_def upt_rec)

lemma hex4_hexString: "r < 0x10000 \<Longrightarrow> hex4 (hexString 4 r @ rest) = Some (r, rest)"
proof -
  assume r: "r < 0x10000"
  have "r div 4096 mod 16 * 4096 + r div 256 mod 16 * 256 + r div 16 mod 16 * 16 + r mod 16 = r"
  proof -
    have q: "r div 256 = r div 16 div 16" "r div 4096 = r div 16 div 16 div 16"
      by (simp_all flip: div_mult2_eq)
    have "r div 4096 < 16" using r by simp
    then have "r div 4096 mod 16 = r div 4096" by simp
    moreover have "r div 16 div 16 div 16 * 16 + r div 16 div 16 mod 16 = r div 16 div 16"
      "r div 16 div 16 * 16 + r div 16 mod 16 = r div 16" "r div 16 * 16 + r mod 16 = r"
      by (rule div_mult_mod_eq)+
    ultimately show ?thesis unfolding q by linarith
  qed
  then show ?thesis
    unfolding hexString_4 by (simp only: append_Cons append_Nil hex4_digits mod_less_divisor zero_less_numeral)
qed

lemma prepend_simps [simp]:
  "prepend xs None = None" "prepend xs (Some (s, rest)) = Some (xs @ s, rest)"
  "prepend xs (prepend ys r) = prepend (xs @ ys) r" "prepend [] r = r"
  by (cases r; simp add: prepend_def; auto)+

lemma jsonChars_quote [simp]: "jsonChars (dquote # rest) = Some ([], rest)"
  by (simp add: jsonChars.simps)

lemma jsonChars_plain:
  assumes "0x20 \<le> code c" "c \<noteq> dquote" "c \<noteq> bslash"
  shows "jsonChars (c # rest) = prepend [c] (jsonChars rest)"
  using assms by (subst jsonChars.simps) simp

lemma jsonChars_escape:
  assumes "e \<noteq> CHR ''u''"
  shows "jsonChars (bslash # e # rest)
    = (case jsonEscapeChar e of None \<Rightarrow> None | Some x \<Rightarrow> prepend [x] (jsonChars rest))"
  using assms by (subst jsonChars.simps) simp

lemma jsonChars_u:
  "jsonChars (bslash # CHR ''u'' # s) = (case hex4 s of None \<Rightarrow> None
     | Some (r, rest) \<Rightarrow> if surrogate r then None else prepend (encodeRune r) (jsonChars rest))"
  by (subst jsonChars.simps) simp

lemma high_char: "0x80 \<le> code c \<Longrightarrow> c \<noteq> dquote \<and> c \<noteq> bslash"
  by (auto simp: of_char_def)

lemma jsonChars_high:
  assumes "\<forall>c \<in> set xs. 0x80 \<le> code c"
  shows "jsonChars (xs @ rest) = prepend xs (jsonChars rest)"
  using assms
proof (induction xs)
  case (Cons c xs)
  then show ?case
    using high_char [of c] jsonChars_plain [of c "xs @ rest"] by simp
qed simp

lemma encodeRune_high:
  assumes "0x80 \<le> r" "r < 0x110000"
  shows "\<forall>c \<in> set (encodeRune r). 0x80 \<le> code c"
proof -
  have "r div 64 < 64" if "r < 0x800" using that by simp
  moreover have "r div 262144 < 16" using assms by simp
  ultimately show ?thesis
    using assms by (auto simp: encodeRune_def)
qed

lemma rune_low:
  assumes "rune_ok x" "\<not> invalidRune x" "fst x < 0x80"
  shows "snd x = [char_of (fst x)]"
  using assms by (simp add: rune_ok_def encodeRune_def split: if_splits)

lemma rune_high:
  assumes "rune_ok x" "\<not> invalidRune x" "0x80 \<le> fst x"
  shows "jsonChars (snd x @ rest) = prepend (snd x) (jsonChars rest)"
  using assms jsonChars_high [of "snd x" rest] encodeRune_high [of "fst x"]
  by (simp add: rune_ok_def)

text \<open>Invalid bytes are written, and read back, as U+FFFD.\<close>

definition replaceRune :: "nat \<times> string \<Rightarrow> string" where
  "replaceRune x = (if invalidRune x then encodeRune runeError else snd x)"

definition validUTF8 :: "string \<Rightarrow> bool" where
  "validUTF8 s \<longleftrightarrow> list_all (\<lambda>x. \<not> invalidRune x) (runes s)"

definition toValidUTF8 :: "string \<Rightarrow> string" where
  "toValidUTF8 s = concat (map replaceRune (runes s))"

lemma toValidUTF8_valid [simp]: "validUTF8 s \<Longrightarrow> toValidUTF8 s = s"
proof -
  assume "validUTF8 s"
  then have "map replaceRune (runes s) = map snd (runes s)"
    by (auto simp: validUTF8_def replaceRune_def list_all_iff)
  then show ?thesis
    unfolding toValidUTF8_def by (simp only: runes_bytes)
qed

definition jsonRune :: "nat \<times> string \<Rightarrow> string" where
  "jsonRune x =
     (if invalidRune x then jsonInvalid
      else if fst x < 0x80 then (if jsonPlain (fst x) then snd x else jsonEscape (fst x))
      else if fst x = 0x2028 \<or> fst x = 0x2029 then bslash # ''u202'' @ [hexDigit (fst x mod 16)]
      else snd x)"

definition the_default :: "'a \<Rightarrow> 'a option \<Rightarrow> 'a" where
  "the_default d x = (case x of None \<Rightarrow> d | Some y \<Rightarrow> y)"

lemma char_code_eq: "c = d \<longleftrightarrow> code c = code d"
  by (metis char_of_code_eq)

lemma jsonChars_jsonEscape:
  assumes "b < 0x80" "\<not> jsonPlain b"
  shows "jsonChars (jsonEscape b @ rest) = prepend [char_of b] (jsonChars rest)"
proof -
  consider "b = 0x5C" | "b = 0x22" | "b = 10" | "b = 13" | "b = 9"
    | "b < 0x40" "b \<noteq> 0x5C" "b \<noteq> 0x22" "b \<noteq> 10" "b \<noteq> 13" "b \<noteq> 9"
    using assms unfolding jsonPlain_def by force
  then show ?thesis
  proof cases
    case 6
    have h: "hexVal CHR ''0'' = Some 0" by (simp add: hexVal_def of_char_def)
    have "hex4 (CHR ''0'' # CHR ''0'' # hexDigit (b div 16) # hexDigit (b mod 16) # rest) = Some (b, rest)"
      using assms(1) 6(1) by (simp add: hex4_def h)
    then show ?thesis
      using 6 by (simp add: jsonEscape_def jsonChars_u surrogate_def encodeRune_def)
  qed (simp_all add: jsonEscape_def jsonChars_escape jsonEscapeChar_def char_of_def bit_0 bit_Suc)
qed

lemma hex4_invalid: "hex4 (CHR ''f'' # CHR ''f'' # CHR ''f'' # CHR ''d'' # rest) = Some (runeError, rest)"
  by (simp add: hex4_def hexVal_def of_char_def runeError_def)

lemma hex4_line:
  assumes "r = 0x2028 \<or> r = 0x2029"
  shows "hex4 (CHR ''2'' # CHR ''0'' # CHR ''2'' # hexDigit (r mod 16) # rest) = Some (r, rest)"
  using assms by (auto simp: hex4_def hexVal_def [of "CHR ''0''"] hexVal_def [of "CHR ''2''"] of_char_def)

lemma jsonChars_plain_code:
  assumes "jsonPlain r" "r < 0x80"
  shows "jsonChars (char_of r # rest) = prepend [char_of r] (jsonChars rest)"
proof (rule jsonChars_plain)
  have c: "code (char_of r) = r" using assms(2) by simp
  show "0x20 \<le> code (char_of r)" using assms unfolding c by (simp add: jsonPlain_def)
  show "char_of r \<noteq> dquote" "char_of r \<noteq> bslash"
    using assms unfolding char_code_eq [of "char_of r"] c by (auto simp: jsonPlain_def of_char_def)
qed

lemma jsonChars_jsonRune:
  assumes "rune_ok x"
  shows "jsonChars (jsonRune x @ rest) = prepend (replaceRune x) (jsonChars rest)"
proof -
  consider "invalidRune x" | "\<not> invalidRune x" "fst x < 0x80"
    | "\<not> invalidRune x" "fst x = 0x2028 \<or> fst x = 0x2029"
    | "\<not> invalidRune x" "0x80 \<le> fst x" "fst x \<noteq> 0x2028" "fst x \<noteq> 0x2029" by linarith
  then show ?thesis
  proof cases
    case 1
    then show ?thesis
      by (simp add: jsonRune_def replaceRune_def jsonInvalid_def jsonChars_u hex4_invalid surrogate_def runeError_def)
  next
    case 2
    with rune_low [OF assms] show ?thesis
      by (simp add: jsonRune_def replaceRune_def jsonChars_plain_code jsonChars_jsonEscape)
  next
    case 3
    moreover have "encodeRune (fst x) = snd x" using assms 3 by (simp add: rune_ok_def)
    ultimately show ?thesis
      using hex4_line [OF 3(2), of rest]
      by (auto simp: jsonRune_def replaceRune_def jsonChars_u surrogate_def)
  next
    case 4
    then show ?thesis
      using rune_high [OF assms] by (simp add: jsonRune_def replaceRune_def)
  qed
qed

lemma jsonChars_runes:
  assumes "list_all rune_ok xs"
  shows "jsonChars (concat (map jsonRune xs) @ dquote # rest) = Some (concat (map replaceRune xs), rest)"
  using assms by (induction xs) (simp_all add: jsonChars_jsonRune)

text \<open>The span bookkeeping of the loop writes the runes one by one.\<close>

lemma runes_at:
  assumes "i < length s" "decodeRune (drop i s) = (c, w)"
  shows "runes (drop i s) = (c, subString s i (i + w)) # runes (drop (i + w) s)"
  using assms by (subst runes.simps) (simp add: subString_def add.commute)

lemma slice_extend:
  assumes "start \<le> i" "i + w \<le> length s"
  shows "subString s start (i + w) = subString s start i @ subString s i (i + w)"
proof -
  have "take (i + w - start) (drop start s) = take (i - start) (drop start s) @ take w (drop (i - start) (drop start s))"
    using assms by (simp only: take_add [symmetric] Nat.add_diff_assoc2)
  then show ?thesis
    using assms by (simp add: subString_def)
qed

lemma slice_empty [simp]: "subString s i i = []"
  by (simp add: subString_def)

lemma decodeRune_ascii:
  "i < length s \<Longrightarrow> code (s ! i) < 0x80 \<Longrightarrow> decodeRune (drop i s) = (code (s ! i), 1)"
  by (simp add: decodeRune_def Cons_nth_drop_Suc [symmetric])

lemma slice_one: "i < length s \<Longrightarrow> subString s i (i + 1) = [s ! i]"
  by (simp add: subString_def take_Suc_conv_app_nth [where i = 0] Cons_nth_drop_Suc [symmetric])

lemma decodeRune_multi:
  assumes "i < length s" "\<not> code (s ! i) < 0x80" "decodeRune (drop i s) = (c, w)"
  shows "c = runeError \<and> w = 1 \<or> 0x80 \<le> c"
proof -
  have ne: "drop i s \<noteq> []" using assms(1) by simp
  have "w = 1 \<Longrightarrow> c < 0x80 \<Longrightarrow> False"
    using assms
    by (auto simp: decodeRune_def decode2_def decode3_def decode4_def runeError_def Let_def
        Cons_nth_drop_Suc [symmetric] split: list.splits if_splits)
  then show ?thesis
    using decodeRune_valid [OF ne assms(3)] by force
qed

lemma jsonStringLoop_runes:
  assumes "start \<le> i" "i \<le> length s"
  shows "jsonStringLoop s start i buf
     = buf @ subString s start i @ concat (map jsonRune (runes (drop i s))) @ [dquote]"
  using assms
proof (induction s start i buf rule: jsonStringLoop.induct)
  case (1 s start i buf)
  note IH = "1.IH"
  show ?case
  proof (cases "i < length s")
    case False
    then show ?thesis
      using "1.prems" by (simp add: jsonStringLoop.simps subString_def)
  next
    case True
    obtain c w where d: "decodeRune (drop i s) = (c, w)" by (cases "decodeRune (drop i s)")
    have w: "0 < w" "i + w \<le> length s"
      using decodeRune_step [OF True d [symmetric]] by auto
    have lw: "length (subString s i (i + w)) = w"
      using w by (simp add: subString_def)
    note ext = slice_extend [OF "1.prems"(1) w(2)] and rs = runes_at [OF True d]
    show ?thesis
    proof (cases "code (s ! i) < 0x80")
      case low: True
      then have cw: "c = code (s ! i)" "w = 1"
        using decodeRune_ascii [OF True low] d by auto
      have ni: "\<not> invalidRune (c, [s ! i])"
        using low cw by (simp add: invalidRune_def runeError_def)
      show ?thesis
      proof (cases "jsonPlain c")
        case pl: True
        then have "jsonStringLoop s start i buf = jsonStringLoop s start (i + 1) buf"
          using True low cw by (subst jsonStringLoop.simps) simp
        also have "\<dots> = buf @ subString s start (i + 1) @ concat (map jsonRune (runes (drop (i + 1) s))) @ [dquote]"
          by (rule IH(1)) (use True low pl cw w "1.prems" in auto)
        finally show ?thesis
          using rs ext ni pl low unfolding cw(2) slice_one [OF True]
            by (simp add: jsonRune_def [where x = "(code (s ! i), [s ! i])"] cw(1))
      next
        case np: False
        then have "jsonStringLoop s start i buf
            = jsonStringLoop s (i + 1) (i + 1) (buf @ subString s start i @ jsonEscape c)"
          using True low cw by (subst jsonStringLoop.simps) simp
        also have "\<dots> = (buf @ subString s start i @ jsonEscape c) @ subString s (i + 1) (i + 1)
            @ concat (map jsonRune (runes (drop (i + 1) s))) @ [dquote]"
          unfolding cw(1) by (rule IH(2)) (use True low np cw w "1.prems" in auto)
        finally show ?thesis
          using rs ext ni np low unfolding cw(2) slice_one [OF True]
            by (simp add: jsonRune_def [where x = "(code (s ! i), [s ! i])"] cw(1))
      qed
    next
      case high: False
      note hi = decodeRune_multi [OF True high d]
      consider "c = runeError" "w = 1" | "\<not> (c = runeError \<and> w = 1)" "c = 0x2028 \<or> c = 0x2029"
        | "\<not> (c = runeError \<and> w = 1)" "\<not> (c = 0x2028 \<or> c = 0x2029)" by blast
      then show ?thesis
      proof cases
        case a: 1
        have "jsonStringLoop s start i buf
            = jsonStringLoop s (i + w) (i + w) (buf @ subString s start i @ jsonInvalid)"
          using True high d a by (subst jsonStringLoop.simps) simp
        also have "\<dots> = (buf @ subString s start i @ jsonInvalid) @ subString s (i + w) (i + w)
            @ concat (map jsonRune (runes (drop (i + w) s))) @ [dquote]"
          by (rule IH(3) [OF True refl high d [symmetric] refl]) (use a w in auto)
        finally show ?thesis
          using rs lw a by (simp add: jsonRune_def [where x = "(runeError, subString s i (Suc i))"] invalidRune_def)
      next
        case b: 2
        have "jsonStringLoop s start i buf
            = jsonStringLoop s (i + w) (i + w) (buf @ subString s start i @ bslash # ''u202'' @ [hexDigit (c mod 16)])"
          using True high d b by (subst jsonStringLoop.simps) auto
        also have "\<dots> = (buf @ subString s start i @ bslash # ''u202'' @ [hexDigit (c mod 16)]) @ subString s (i + w) (i + w)
            @ concat (map jsonRune (runes (drop (i + w) s))) @ [dquote]"
          by (rule IH(4) [OF True refl high d [symmetric] refl b]) (use w in auto)
        finally show ?thesis
          using rs lw b
          by (auto simp: jsonRune_def [where x = "(c, subString s i (i + w))"]
              jsonRune_def [where x = "(0x2028, subString s i (i + w))"] jsonRune_def [where x = "(0x2029, subString s i (i + w))"]
              invalidRune_def)
      next
        case e: 3
        have "jsonStringLoop s start i buf = jsonStringLoop s start (i + w) buf"
          using True high d e by (subst jsonStringLoop.simps) auto
        also have "\<dots> = buf @ subString s start (i + w) @ concat (map jsonRune (runes (drop (i + w) s))) @ [dquote]"
          by (rule IH(5) [OF True refl high d [symmetric] refl e]) (use w "1.prems" in auto)
        finally show ?thesis
          using rs lw e hi ext
          by (auto simp: jsonRune_def [where x = "(c, subString s i (i + w))"] invalidRune_def)
      qed
    qed
  qed
qed

lemma appendJSONString_runes:
  "appendJSONString buf s = buf @ dquote # concat (map jsonRune (runes s)) @ [dquote]"
  using jsonStringLoop_runes [of 0 0 s "buf @ [dquote]"]
  by (simp add: appendJSONString_def)

lemma runes_all_ok: "list_all rune_ok (runes s)"
  using runes_ok by (auto simp: list_all_iff)

lemma appendJSONString_read:
  "\<exists>body. appendJSONString buf s = buf @ dquote # body \<and> jsonChars (body @ rest) = Some (toValidUTF8 s, rest)"
  using jsonChars_runes [OF runes_all_ok, of s rest]
  by (auto simp: appendJSONString_runes toValidUTF8_def)

text \<open>strconv.AppendQuote writes Go syntax. It is read as JSON exactly when every rune is one that the
  two syntaxes share: valid UTF-8, printable or one of the five short escapes, or escaped as
  four hex digits.\<close>

definition jsonSafeRune :: "(nat \<Rightarrow> bool) \<Rightarrow> nat \<times> string \<Rightarrow> bool" where
  "jsonSafeRune isPrint x \<longleftrightarrow> \<not> invalidRune x
     \<and> (isPrintRune isPrint (fst x) \<or> fst x \<in> {8, 9, 10, 12, 13} \<or> 0x80 \<le> fst x \<and> fst x < 0x10000)"

definition jsonSafe :: "(nat \<Rightarrow> bool) \<Rightarrow> string \<Rightarrow> bool" where
  "jsonSafe isPrint s \<longleftrightarrow> list_all (jsonSafeRune isPrint) (runes s)"

lemma jsonEscapeChar_values [simp]:
  "jsonEscapeChar dquote = Some dquote" "jsonEscapeChar bslash = Some bslash"
  "jsonEscapeChar CHR ''b'' = Some CHR 0x08" "jsonEscapeChar CHR ''f'' = Some CHR 0x0C"
  "jsonEscapeChar CHR ''n'' = Some CHR 0x0A" "jsonEscapeChar CHR ''r'' = Some CHR 0x0D"
  "jsonEscapeChar CHR ''t'' = Some CHR 0x09" "jsonEscapeChar CHR ''a'' = None"
  "jsonEscapeChar CHR ''v'' = None" "jsonEscapeChar CHR ''x'' = None" "jsonEscapeChar CHR ''U'' = None"
  by (simp_all add: jsonEscapeChar_def)

lemma char_of_values [simp]:
  "char_of (8 :: nat) = CHR 0x08" "char_of (9 :: nat) = CHR 0x09" "char_of (10 :: nat) = CHR 0x0A"
  "char_of (12 :: nat) = CHR 0x0C" "char_of (13 :: nat) = CHR 0x0D"
  "char_of (0x22 :: nat) = dquote" "char_of (0x5C :: nat) = bslash"
  by (simp_all add: char_of_def bit_0 bit_Suc)

lemma jsonChars_quoteRune:
  assumes "rune_ok x"
  shows "jsonChars (quoteRune isPrint x @ rest)
     = (if jsonSafeRune isPrint x then prepend (snd x) (jsonChars rest) else None)"
proof (cases "invalidRune x")
  case True
  then show ?thesis
    by (simp add: quoteRune_def jsonSafeRune_def jsonChars_escape)
next
  case False
  let ?r = "fst x"
  have enc: "encodeRune ?r = snd x" "\<not> surrogate ?r"
    using assms False by (simp_all add: rune_ok_def)
  note low = rune_low [OF assms False] and high = rune_high [OF assms False, of rest]
  consider "?r = 0x22 \<or> ?r = 0x5C" | "\<not> (?r = 0x22 \<or> ?r = 0x5C)" "isPrintRune isPrint ?r"
    | "?r \<in> {8, 12, 10, 13, 9}" | "?r < 0x20" "?r \<notin> {8, 12, 10, 13, 9}" | "?r = 0x7F"
    | "\<not> isPrintRune isPrint ?r" "0x80 \<le> ?r"
  proof (cases "isPrintRune isPrint ?r")
    case False
    then have "?r < 0x20 \<or> ?r = 0x7F \<or> 0x80 \<le> ?r"
      unfolding isPrintRune_def by (simp split: if_splits) linarith+
    with False that show ?thesis by blast
  qed (use that in blast)
  then show ?thesis
  proof cases
    case 1
    then have "isPrintRune isPrint ?r" by (auto simp: isPrintRune_def)
    then show ?thesis
      using 1 False low by (auto simp: quoteRune_def jsonSafeRune_def jsonChars_escape)
  next
    case 2
    have "jsonChars (snd x @ rest) = prepend (snd x) (jsonChars rest)"
    proof (cases "?r < 0x80")
      case lo: True
      with 2 have "0x20 \<le> code (char_of ?r)" "char_of ?r \<noteq> dquote" "char_of ?r \<noteq> bslash"
        by (auto simp: isPrintRune_def char_code_eq [of "char_of _"] of_char_def [of dquote] of_char_def [of bslash])
      then show ?thesis
        using jsonChars_plain [of "char_of ?r" rest] low [OF lo] by simp
    qed (use high in simp)
    then show ?thesis
      using 2 False enc by (simp add: quoteRune_def jsonSafeRune_def)
  next
    case 3
    then have np: "\<not> isPrintRune isPrint ?r" by (auto simp: isPrintRune_def)
    have "jsonChars (quoteRune isPrint x @ rest) = prepend [char_of ?r] (jsonChars rest)"
      using 3 by (elim insertE emptyE; simp add: quoteRune_def False np [simplified] jsonChars_escape isPrintRune_def)
    with 3 False low show ?thesis
      by (auto simp: jsonSafeRune_def)
  next
    case 4
    then have "\<not> isPrintRune isPrint ?r" by (auto simp: isPrintRune_def)
    moreover have "?r \<noteq> 0x22" "?r \<noteq> 0x5C" "?r \<noteq> 8" "?r \<noteq> 12" "?r \<noteq> 10" "?r \<noteq> 13" "?r \<noteq> 9"
      using 4 by auto
    ultimately have "quoteRune isPrint x \<in> {[bslash, CHR ''a''], [bslash, CHR ''v''], bslash # ''x'' @ hexString 2 ?r}"
      unfolding quoteRune_def Let_def using 4(1) False by simp
    then have "jsonChars (quoteRune isPrint x @ rest) = None"
      by (auto simp: jsonChars_escape)
    with \<open>\<not> isPrintRune isPrint ?r\<close> 4 False show ?thesis
      by (simp add: jsonSafeRune_def)
  next
    case 5
    then have "\<not> isPrintRune isPrint ?r" by (auto simp: isPrintRune_def)
    with 5 False show ?thesis
      by (auto simp: quoteRune_def jsonSafeRune_def jsonChars_escape)
  next
    case 6
    show ?thesis
    proof (cases "?r < 0x10000")
      case True
      then show ?thesis
        using 6 False enc hex4_hexString [OF True, of rest]
        by (simp add: quoteRune_def jsonSafeRune_def jsonChars_u)
    next
      case False
      then show ?thesis
        using 6 \<open>\<not> invalidRune x\<close> by (simp add: quoteRune_def jsonSafeRune_def jsonChars_escape)
    qed
  qed
qed

lemma jsonChars_quoteRunes:
  assumes "list_all rune_ok xs"
  shows "jsonChars (concat (map (quoteRune isPrint) xs) @ dquote # rest)
    = (if list_all (jsonSafeRune isPrint) xs then Some (concat (map snd xs), rest) else None)"
  using assms by (induction xs) (simp_all add: jsonChars_quoteRune)

lemma jsonChars_appendQuote:
  "\<exists>body. appendQuote isPrint buf s = buf @ dquote # body
     \<and> jsonChars (body @ rest) = (if jsonSafe isPrint s then Some (s, rest) else None)"
  using jsonChars_quoteRunes [OF runes_all_ok, of isPrint s rest]
  by (auto simp: appendQuote_def jsonSafe_def runes_bytes)

section \<open>A reader of JSON objects and arrays\<close>

definition readString :: "string \<Rightarrow> (string \<times> string) option" where
  "readString s = (case s of c # cs \<Rightarrow> if c = dquote then jsonChars cs else None | [] \<Rightarrow> None)"

definition readPair :: "string \<Rightarrow> ((string \<times> string) \<times> string) option" where
  "readPair s = (case readString s of
     Some (k, c # s1) \<Rightarrow>
       if c = CHR '':'' then (case readString s1 of Some (v, s2) \<Rightarrow> Some ((k, v), s2) | None \<Rightarrow> None) else None
   | _ \<Rightarrow> None)"

text \<open>Elements separated by commas up to the closing bracket; at most \<open>n\<close> of them.\<close>

fun readElems :: "nat \<Rightarrow> (string \<Rightarrow> ('a \<times> string) option) \<Rightarrow> char \<Rightarrow> string \<Rightarrow> ('a list \<times> string) option" where
  "readElems 0 rd close s = None"
| "readElems (Suc n) rd close s =
     (case rd s of
        Some (x, c # s1) \<Rightarrow>
          if c = close then Some ([x], s1)
          else if c = CHR '','' then
            (case readElems n rd close s1 of Some (xs, s2) \<Rightarrow> Some (x # xs, s2) | None \<Rightarrow> None)
          else None
      | _ \<Rightarrow> None)"

definition readSeq :: "(string \<Rightarrow> ('a \<times> string) option) \<Rightarrow> char \<Rightarrow> char \<Rightarrow> string \<Rightarrow> ('a list \<times> string) option" where
  "readSeq rd opn close s = (case s of
     [] \<Rightarrow> None
   | c # s1 \<Rightarrow>
       if c \<noteq> opn then None
       else if s1 \<noteq> [] \<and> hd s1 = close then Some ([], tl s1)
       else readElems (length s) rd close s1)"

definition readObject :: "string \<Rightarrow> (gomap \<times> string) option" where
  "readObject = readSeq readPair CHR ''{'' CHR ''}''"

definition readNullable :: "(string \<Rightarrow> ('a \<times> string) option) \<Rightarrow> string \<Rightarrow> ('a option \<times> string) option" where
  "readNullable rd s =
     (if take 4 s = ''null'' then Some (None, drop 4 s) else map_option (map_prod Some id) (rd s))"

definition readConst :: "string \<Rightarrow> string \<Rightarrow> string option" where
  "readConst k s = (if take (length k) s = k then Some (drop (length k) s) else None)"

definition readLogStreamResult :: "string \<Rightarrow> logStreamResult option" where
  "readLogStreamResult s =
     Option.bind (readConst (''{'' @ dquote # ''stream'' @ [dquote] @ '':'') s) (\<lambda>s.
     Option.bind (readNullable readObject s) (\<lambda>(m, s).
     Option.bind (readConst ('','' @ dquote # ''values'' @ [dquote] @ '':'') s) (\<lambda>s.
     Option.bind (readNullable (readSeq (readNullable (readSeq readString CHR ''['' CHR '']'')) CHR ''['' CHR '']'') s) (\<lambda>(v, s).
     if s = ''}'' then Some \<lparr>lsrStream = m, lsrValues = v\<rparr> else None))))"

lemma joinComma_Cons: "xs \<noteq> [] \<Longrightarrow> joinComma (x # xs) = x @ '','' @ joinComma xs"
  by (cases xs) simp_all

lemma length_joinComma: "\<forall>x \<in> set xs. x \<noteq> [] \<Longrightarrow> length xs \<le> length (joinComma xs)"
  by (induction xs rule: joinComma.induct) (auto simp: Suc_le_eq)

lemma readElems_join:
  assumes "\<forall>x \<in> set xs. \<forall>r. rd (w x @ r) = Some (v x, r)" "xs \<noteq> []" "length xs \<le> n" "close \<noteq> CHR '',''"
  shows "readElems n rd close (joinComma (map w xs) @ close # rest) = Some (map v xs, rest)"
  using assms
proof (induction xs arbitrary: n)
  case (Cons x xs)
  obtain k where n: "n = Suc k" using Cons.prems(3) by (cases n) auto
  show ?case
  proof (cases "xs = []")
    case True
    then show ?thesis using Cons.prems(1) n by simp
  next
    case False
    then have "readElems k rd close (joinComma (map w xs) @ close # rest) = Some (map v xs, rest)"
      using Cons.prems n by (intro Cons.IH) auto
    moreover have "rd (joinComma (map w (x # xs)) @ close # rest)
        = Some (v x, CHR '','' # joinComma (map w xs) @ close # rest)"
      using Cons.prems(1) False by (simp add: joinComma_Cons)
    ultimately show ?thesis
      using n Cons.prems(4) by simp
  qed
qed simp

lemma readSeq_join:
  assumes "\<forall>x \<in> set xs. \<forall>r. rd (w x @ r) = Some (v x, r)" "close \<noteq> CHR '',''"
    and "\<forall>x \<in> set xs. w x \<noteq> [] \<and> hd (w x) \<noteq> close"
  shows "readSeq rd opn close (opn # joinComma (map w xs) @ close # rest) = Some (map v xs, rest)"
proof (cases "xs = []")
  case False
  have "length (map w xs) \<le> length (joinComma (map w xs))"
    using assms(3) by (intro length_joinComma) auto
  then have len: "length xs \<le> length (opn # joinComma (map w xs) @ close # rest)" by simp
  have "hd (joinComma (map w xs) @ close # rest) \<noteq> close" "joinComma (map w xs) \<noteq> []"
    using False assms(3) by (cases xs; cases "tl xs"; simp add: joinComma_Cons)+
  then show ?thesis
    using readElems_join [OF assms(1) False len assms(2), of rest] by (simp add: readSeq_def)
qed (simp add: readSeq_def)

definition quoted :: "string \<Rightarrow> string" where
  "quoted s = dquote # concat (map jsonRune (runes s)) @ [dquote]"

lemma appendJSONString_quoted: "appendJSONString buf s = buf @ quoted s"
  by (simp add: appendJSONString_runes quoted_def)

lemma readString_quoted: "readString (quoted s @ rest) = Some (toValidUTF8 s, rest)"
  using jsonChars_runes [OF runes_all_ok, of s rest] by (simp add: readString_def quoted_def toValidUTF8_def)

lemma quoted_hd [simp]: "quoted s \<noteq> []" "hd (quoted s) = dquote"
  by (simp_all add: quoted_def)

lemma jsonItems_join: "jsonItems buf xs = buf @ joinComma (map quoted xs)"
  by (induction buf xs rule: jsonItems.induct) (simp_all add: appendJSONString_quoted)

definition quotedItems :: "string list option \<Rightarrow> string" where
  "quotedItems p = (case p of None \<Rightarrow> ''null'' | Some xs \<Rightarrow> ''['' @ joinComma (map quoted xs) @ '']'')"

lemma jsonPairs_join: "jsonPairs buf ps = buf @ joinComma (map quotedItems ps)"
  by (induction buf ps rule: jsonPairs.induct)
    (simp_all add: jsonItems_join quotedItems_def joinComma_Cons Let_def split: option.splits)

definition quotedMember :: "gomap \<Rightarrow> string \<Rightarrow> string" where
  "quotedMember m k = quoted k @ '':'' @ quoted (case map_of m k of None \<Rightarrow> '''' | Some v \<Rightarrow> v)"

lemma jsonMembers_join: "jsonMembers buf m ks = buf @ joinComma (map (quotedMember m) ks)"
  by (induction buf m ks rule: jsonMembers.induct)
    (simp_all add: appendJSONString_quoted quotedMember_def joinComma_Cons Let_def)

lemma readNullable_null [simp]: "readNullable rd (''null'' @ rest) = Some (None, rest)"
  by (simp add: readNullable_def)

lemma readNullable_some:
  "c \<noteq> CHR ''n'' \<Longrightarrow> readNullable rd (c # s) = map_option (map_prod Some id) (rd (c # s))"
  by (simp add: readNullable_def)

lemma readItems_quoted:
  "readNullable (readSeq readString CHR ''['' CHR '']'') (quotedItems p @ rest)
   = Some (map_option (map toValidUTF8) p, rest)"
proof (cases p)
  case None
  then show ?thesis
    using readNullable_null [of _ rest] by (simp add: quotedItems_def)
next
  case (Some xs)
  have "readSeq readString CHR ''['' CHR '']'' (CHR ''['' # joinComma (map quoted xs) @ CHR '']'' # rest)
      = Some (map toValidUTF8 xs, rest)"
    by (rule readSeq_join) (simp_all add: readString_quoted)
  then show ?thesis
    using Some by (simp add: quotedItems_def readNullable_some)
qed

definition sanitizedStream :: "gomap \<Rightarrow> gomap" where
  "sanitizedStream m = map (\<lambda>k. (toValidUTF8 k, toValidUTF8 (case map_of m k of None \<Rightarrow> '''' | Some v \<Rightarrow> v)))
     (sort (map fst m))"

lemma readPair_quoted:
  "readPair (quotedMember m k @ rest)
   = Some ((toValidUTF8 k, toValidUTF8 (case map_of m k of None \<Rightarrow> '''' | Some v \<Rightarrow> v)), rest)"
  by (simp add: readPair_def quotedMember_def readString_quoted)

lemma readObject_quoted:
  "readObject (CHR ''{'' # joinComma (map (quotedMember m) (sort (map fst m))) @ CHR ''}'' # rest)
   = Some (sanitizedStream m, rest)"
  unfolding readObject_def sanitizedStream_def
  by (rule readSeq_join) (simp_all add: readPair_quoted, simp_all add: quotedMember_def)

lemma readValues_quoted:
  "readSeq (readNullable (readSeq readString CHR ''['' CHR '']'')) CHR ''['' CHR '']''
     (CHR ''['' # joinComma (map quotedItems ps) @ CHR '']'' # rest)
   = Some (map (map_option (map toValidUTF8)) ps, rest)"
  by (rule readSeq_join) (simp_all add: readItems_quoted, simp add: quotedItems_def split: option.splits)

lemma readConst_append [simp]: "readConst k (k @ s) = Some s"
  by (simp add: readConst_def)

lemma readNullable_cases:
  assumes "m = None \<longrightarrow> t = ''null''" "\<forall>x. m = Some x \<longrightarrow> t \<noteq> [] \<and> hd t \<noteq> CHR ''n'' \<and> rd (t @ rest) = Some (f x, rest)"
  shows "readNullable rd (t @ rest) = Some (map_option f m, rest)"
proof (cases m)
  case None
  then show ?thesis using assms readNullable_null [of rd rest] by simp
next
  case (Some x)
  then obtain c t' where "t = c # t'" "c \<noteq> CHR ''n''" using assms(2) by (cases t) auto
  then show ?thesis using assms(2) Some readNullable_some [of c rd "t' @ rest"] by simp
qed

definition streamText :: "gomap option \<Rightarrow> string" where
  "streamText m = (case m of None \<Rightarrow> ''null''
     | Some m \<Rightarrow> CHR ''{'' # joinComma (map (quotedMember m) (sort (map fst m))) @ ''}'')"

definition valuesText :: "string list option list option \<Rightarrow> string" where
  "valuesText v = (case v of None \<Rightarrow> ''null'' | Some ps \<Rightarrow> CHR ''['' # joinComma (map quotedItems ps) @ '']'')"

lemma marshal_text:
  "marshalLogStreamResult r
   = (''{'' @ dquote # ''stream'' @ [dquote] @ '':'') @ streamText (lsrStream r)
     @ ('','' @ dquote # ''values'' @ [dquote] @ '':'') @ valuesText (lsrValues r) @ ''}''"
  by (cases "lsrStream r"; cases "lsrValues r")
    (simp_all add: marshalLogStreamResult_def streamText_def valuesText_def jsonMembers_join
      jsonPairs_join appendSortedMapKeys_def Let_def)

lemma read_marshal:
  "readLogStreamResult (marshalLogStreamResult r)
   = Some \<lparr>lsrStream = map_option sanitizedStream (lsrStream r),
           lsrValues = map_option (map (map_option (map toValidUTF8))) (lsrValues r)\<rparr>"
proof -
  have "readNullable readObject (streamText (lsrStream r) @ rest) = Some (map_option sanitizedStream (lsrStream r), rest)"
    for rest
    by (rule readNullable_cases) (auto simp: streamText_def readObject_quoted)
  moreover have "readNullable (readSeq (readNullable (readSeq readString CHR ''['' CHR '']'')) CHR ''['' CHR '']'')
      (valuesText (lsrValues r) @ rest) = Some (map_option (map (map_option (map toValidUTF8))) (lsrValues r), rest)"
    for rest
    by (rule readNullable_cases) (auto simp: valuesText_def readValues_quoted)
  ultimately show ?thesis
    unfolding marshal_text readLogStreamResult_def
    by (simp only: readConst_append Option.bind.bind_lunit prod.case) simp
qed

section \<open>Properties\<close>

text \<open>C10. Round trip of a log stream result: whatever bytes the labels and the log lines hold (quotes,
  controls, angle brackets, invalid UTF-8), the hand-written JSON is well formed and reading it
  gives back the streams and the values, nil distinguished from empty, the labels in key order,
  every invalid byte read as U+FFFD and every valid string exactly as it was.\<close>

theorem stream_result_roundtrip:
  "readLogStreamResult (marshalLogStreamResult r)
   = Some \<lparr>lsrStream = map_option (\<lambda>m. map (\<lambda>k. (toValidUTF8 k, toValidUTF8 (the_default '''' (map_of m k))))
             (sort (map fst m))) (lsrStream r),
           lsrValues = map_option (map (map_option (map toValidUTF8))) (lsrValues r)\<rparr>"
  by (simp add: read_marshal sanitizedStream_def [abs_def] the_default_def)

text \<open>Round trip of appendJSONString inside any document: the string read back after the opening
  quote is the one written, up to invalid UTF-8, and reading stops at its closing quote.\<close>

theorem json_string_roundtrip:
  "\<exists>body. appendJSONString buf s = buf @ dquote # body
     \<and> jsonChars (body @ rest) = Some (toValidUTF8 s, rest) \<and> (validUTF8 s \<longrightarrow> toValidUTF8 s = s)"
  using appendJSONString_read [of buf s rest] by auto

theorem json_string_roundtrip_witness: "validUTF8 ''a'' \<and> toValidUTF8 ''a'' = ''a''"
proof -
  have "runes ''a'' = [(97, ''a'')]"
    by (simp add: runes.simps [of "''a''"] decodeRune_def of_char_def)
  then have "validUTF8 ''a''"
    by (simp add: validUTF8_def invalidRune_def runeError_def)
  with json_string_roundtrip [of "[]" "''a''" "[]"] show ?thesis by blast
qed

lemma stdJSONRune_eq: "fst x \<noteq> 8 \<Longrightarrow> fst x \<noteq> 12 \<Longrightarrow> stdJSONRune x = jsonRune x"
  by (simp add: stdJSONRune_def jsonRune_def)

lemma stdJSONRune_shorter: "fst x = 8 \<or> fst x = 12 \<Longrightarrow> length (stdJSONRune x) < length (jsonRune x)"
  by (auto simp: stdJSONRune_def jsonRune_def invalidRune_def runeError_def jsonPlain_def jsonEscape_def)

lemma stdJSONRune_length: "length (concat (map stdJSONRune xs)) \<le> length (concat (map jsonRune xs))"
proof (induction xs)
  case (Cons x xs)
  have "length (stdJSONRune x) \<le> length (jsonRune x)"
    using stdJSONRune_eq [of x] stdJSONRune_shorter [of x] by (cases "fst x = 8 \<or> fst x = 12") auto
  with Cons show ?case by simp
qed simp

lemma stdJSON_differs:
  "concat (map stdJSONRune xs) = concat (map jsonRune xs) \<longleftrightarrow> (\<forall>x \<in> set xs. fst x \<noteq> 8 \<and> fst x \<noteq> 12)"
proof (induction xs)
  case (Cons x xs)
  show ?case
  proof (cases "fst x = 8 \<or> fst x = 12")
    case True
    have "length (concat (map stdJSONRune (x # xs))) < length (concat (map jsonRune (x # xs)))"
      using stdJSONRune_shorter [OF True] stdJSONRune_length [of xs] by simp
    then have "concat (map stdJSONRune (x # xs)) \<noteq> concat (map jsonRune (x # xs))"
      by (metis less_irrefl)
    with True show ?thesis by auto
  next
    case False
    with Cons show ?thesis by (simp add: stdJSONRune_eq)
  qed
qed simp

text \<open>The hand-written escaping against encoding/json: the two produce the same bytes exactly for the
  strings without a backspace and without a form feed, which encoding/json shortens to two
  characters and appendJSONString writes as a six-character escape.\<close>

theorem json_string_vs_encoding_json:
  "appendJSONString '''' s = jsonMarshalString s \<longleftrightarrow> (\<forall>x \<in> set (runes s). fst x \<noteq> 8 \<and> fst x \<noteq> 12)"
proof -
  have "appendJSONString '''' s = jsonMarshalString s
      \<longleftrightarrow> concat (map stdJSONRune (runes s)) = concat (map jsonRune (runes s))"
    by (auto simp: appendJSONString_runes jsonMarshalString_def)
  then show ?thesis
    by (simp only: stdJSON_differs)
qed

theorem json_string_vs_encoding_json_witness:
  "appendJSONString '''' [CHR 0x08] \<noteq> jsonMarshalString [CHR 0x08]"
proof -
  have "runes [CHR 0x08] = [(8, [CHR 0x08])]"
    by (simp add: runes.simps [of "[CHR 0x08]"] decodeRune_def of_char_def)
  then show ?thesis
    using json_string_vs_encoding_json [of "[CHR 0x08]"] by simp
qed

end
