(* ===== verification/RemoteBatch.thy ===== *)
theory RemoteBatch
  imports FastDecode FastIndex GoText "HOL-Library.AList"
begin

text \<open>
  The batch that a remote-write request turns into, and the reference builder of it
  (src/internal/snuffle/remote.go from the row types to prompbLabelMap, and the stale-marker test of
  src/internal/snuffle/staleness.go): metadata rows, samples bucketed by the configured interval with
  consecutive ones of a series and bucket collapsed into the last, histograms, exemplars, and one
  series record for each id with the time range of its data.

  Parameters: xxhash \<open>h\<close>, the protobuf encoder of histograms \<open>marshal\<close> (prompb), the current time
  \<open>now\<close>, and the Unicode table behind strconv.IsPrint. Every operation that can panic returns an
  option, \<open>None\<close> being the panic; the locale \<open>series_index\<close> carries the record bookkeeping for the
  Go map of this builder and for the hash table of the fast one.
\<close>

section \<open>Values\<close>

text \<open>A float64 is its bit pattern. promvalue.StaleNaN is the pattern \<open>0x7ff0000000000002\<close>.\<close>

definition nanBits :: "f64 \<Rightarrow> bool" where
  "nanBits v \<longleftrightarrow> take_bit 11 (drop_bit 52 v) = 0x7FF \<and> take_bit 52 v \<noteq> 0"

definition staleNaN :: f64 where
  "staleNaN = 0x7ff0000000000002"

definition isStaleNaN :: "f64 \<Rightarrow> bool" where
  "isStaleNaN v \<longleftrightarrow> v = staleNaN"

definition isRemoteWriteSampleDroppable :: "f64 \<Rightarrow> bool" where
  "isRemoteWriteSampleDroppable v \<longleftrightarrow> nanBits v \<and> \<not> isStaleNaN v"

definition isStaleSampleValue :: "f64 \<Rightarrow> bool" where
  "isStaleSampleValue v \<longleftrightarrow> isStaleNaN v"

text \<open>time.Duration is a count of nanoseconds; Milliseconds truncates.\<close>

definition durationMilliseconds :: "int \<Rightarrow> int" where
  "durationMilliseconds d = d sdiv 1000000"

definition bucketTimestampForStepMS :: "int \<Rightarrow> int \<Rightarrow> int" where
  "bucketTimestampForStepMS timestamp step =
     (if step \<le> 0 then timestamp
      else
        let remainder = timestamp smod step;
            remainder = (if remainder < 0 then wrap64 (remainder + step) else remainder)
        in wrap64 (timestamp - remainder))"

definition remoteWriteVersion :: "int \<Rightarrow> u64" where
  "remoteWriteVersion timestamp = (if timestamp < 0 then 0 else of_int timestamp)"

section \<open>The decoded request (prompb)\<close>

record prompbLabel =
  pbName :: string
  pbValue :: string

record prompbSample =
  pbTimestamp :: int
  pbSampleValue :: f64

record 'h prompbHistogram =
  histTimestamp :: int
  histBody :: 'h

record prompbExemplar =
  exLabels :: "prompbLabel list"
  exValue :: f64
  exTimestamp :: int

record 'h prompbTimeSeries =
  tsLabels :: "prompbLabel list"
  tsSamples :: "prompbSample list"
  tsHistograms :: "'h prompbHistogram list"
  tsExemplars :: "prompbExemplar list"

record prompbMetadata =
  mdFamilyName :: string
  mdType :: int
  mdUnit :: string
  mdHelp :: string

record 'h prompbWriteRequest =
  rqTimeseries :: "'h prompbTimeSeries list"
  rqMetadata :: "prompbMetadata list"

section \<open>The batch\<close>

record remoteWriteSeriesRow =
  srTeamID :: u64
  srID :: u64
  srMetricName :: string
  srLabelsJSON :: string
  srLabels :: "remoteWriteLabel list"
  srMinMS :: int
  srMaxMS :: int

record remoteWriteSampleRow =
  smTeamID :: u64
  smMetricName :: string
  smTimestampMS :: int
  smID :: u64
  smValue :: f64
  smServiceName :: string
  smAttributes :: gomap

record remoteWriteSampleColumns =
  colTeamIDs :: "u64 list"
  colMetricNames :: "string list"
  colTimestamps :: "int list"
  colIDs :: "u64 list"
  colValues :: "f64 list"
  colServiceNames :: "string list"
  colAttributes :: "gomap list"

record remoteWriteHistogramRow =
  hrTeamID :: u64
  hrMetricName :: string
  hrTimestampMS :: int
  hrID :: u64
  hrHistogram :: bytes
  hrVersion :: u64

record remoteWriteExemplarRow =
  exrTeamID :: u64
  exrTimestampMS :: int
  exrID :: u64
  exrValue :: f64
  exrLabelsJSON :: string

record remoteWriteMetadataRow =
  mrTeamID :: u64
  mrMetricFamilyName :: string
  mrType :: string
  mrUnit :: string
  mrHelp :: string
  mrUpdatedAtMS :: int

record remoteWriteBatch =
  sampleRows :: "remoteWriteSampleRow list"
  sampleColumns :: remoteWriteSampleColumns
  histogramRows :: "remoteWriteHistogramRow list"
  exemplarRows :: "remoteWriteExemplarRow list"
  metadataRows :: "remoteWriteMetadataRow list"
  seriesRecords :: "remoteWriteSeriesRow list"
  fastProto :: bytes
  seriesCount :: nat
  sampleCount :: nat
  histogramCount :: nat
  exemplarCount :: nat
  metadataCount :: nat

definition columnsCount :: "remoteWriteSampleColumns \<Rightarrow> nat" where
  "columnsCount c = length (colIDs c)"

definition emptyColumns :: remoteWriteSampleColumns where
  "emptyColumns = \<lparr>colTeamIDs = [], colMetricNames = [], colTimestamps = [], colIDs = [],
     colValues = [], colServiceNames = [], colAttributes = []\<rparr>"

definition emptyBatch :: "bytes \<Rightarrow> remoteWriteBatch" where
  "emptyBatch data = \<lparr>sampleRows = [], sampleColumns = emptyColumns, histogramRows = [], exemplarRows = [],
     metadataRows = [], seriesRecords = [], fastProto = data, seriesCount = 0, sampleCount = 0,
     histogramCount = 0, exemplarCount = 0, metadataCount = 0\<rparr>"

section \<open>Labels\<close>

definition remoteWriteLabelsFromPrompb :: "prompbLabel list \<Rightarrow> remoteWriteLabel list" where
  "remoteWriteLabelsFromPrompb input = map (\<lambda>l. \<lparr>lblName = pbName l, lblValue = pbValue l\<rparr>) input"

definition remoteWriteSeriesIdentity ::
  "'d xxhash \<Rightarrow> prompbLabel list \<Rightarrow> rw_error + (u64 \<times> string)" where
  "remoteWriteSeriesIdentity h input = fst (remoteWriteSeriesIdentityLabels h (remoteWriteLabelsFromPrompb input))"

fun labelsJSONLoop :: "(nat \<Rightarrow> bool) \<Rightarrow> string \<Rightarrow> bool \<Rightarrow> remoteWriteLabel list \<Rightarrow> rw_error + string" where
  "labelsJSONLoop isPrint buf first [] = Inr (buf @ ''}'')"
| "labelsJSONLoop isPrint buf first (label # rest) =
     (if lblName label = metricNameLabel then labelsJSONLoop isPrint buf first rest
      else if lblName label = '''' then Inl EmptyLabelName
      else
        let buf = (if first then buf else buf @ '','');
            buf = appendQuote isPrint buf (lblName label) @ '':'';
            buf = appendQuote isPrint buf (lblValue label)
        in labelsJSONLoop isPrint buf False rest)"

definition labelsJSONFromRemoteWriteLabels ::
  "(nat \<Rightarrow> bool) \<Rightarrow> remoteWriteLabel list \<Rightarrow> rw_error + string" where
  "labelsJSONFromRemoteWriteLabels isPrint input =
     (if input = [] then Inr ''{}'' else labelsJSONLoop isPrint ''{'' True input)"

definition sampleAttributesFromRemoteWriteLabels :: "remoteWriteLabel list \<Rightarrow> gomap" where
  "sampleAttributesFromRemoteWriteLabels input =
     foldl (\<lambda>attributes label.
        if lblName label = metricNameLabel \<or> lblName label = '''' then attributes
        else AList.update (lblName label @ ''__str'') (lblValue label) attributes) [] input"

fun serviceNameFromRemoteWriteLabels :: "remoteWriteLabel list \<Rightarrow> string" where
  "serviceNameFromRemoteWriteLabels [] = ''''"
| "serviceNameFromRemoteWriteLabels (label # rest) =
     (if lblName label = ''service.name'' \<or> lblName label = ''service_name'' then lblValue label
      else serviceNameFromRemoteWriteLabels rest)"

fun prompbLabelMapLoop :: "gomap \<Rightarrow> prompbLabel list \<Rightarrow> rw_error + gomap" where
  "prompbLabelMapLoop labelMap [] = Inr labelMap"
| "prompbLabelMapLoop labelMap (label # rest) =
     (if pbName label = '''' then Inl AuxLabelEmptyName
      else if map_of labelMap (pbName label) \<noteq> None then Inl (AuxLabelDuplicate (pbName label))
      else prompbLabelMapLoop (AList.update (pbName label) (pbValue label) labelMap) rest)"

definition remoteWriteAuxLabelMap :: "prompbLabel list \<Rightarrow> rw_error + gomap" where
  "remoteWriteAuxLabelMap input = prompbLabelMapLoop [] input"

text \<open>The values of the prompb enumeration MetricMetadata_MetricType.\<close>

definition remoteMetadataType :: "int \<Rightarrow> string" where
  "remoteMetadataType input =
     (if input = 1 then ''counter''
      else if input = 2 then ''gauge''
      else if input = 3 then ''histogram''
      else if input = 4 then ''gaugehistogram''
      else if input = 5 then ''summary''
      else if input = 6 then ''info''
      else if input = 7 then ''stateset''
      else ''unknown'')"

section \<open>Series records\<close>

text \<open>The body that addRemoteWriteSeriesRecord and addFastSeriesRecord share, over the index they are
  given. \<open>None\<close>: the index panics or the position it returns is out of range.\<close>

definition widen :: "remoteWriteSeriesRow \<Rightarrow> int \<Rightarrow> int \<Rightarrow> remoteWriteSeriesRow" where
  "widen existing minMS maxMS =
     (let existing = (if minMS < srMinMS existing then existing\<lparr>srMinMS := minMS\<rparr> else existing)
      in if maxMS > srMaxMS existing then existing\<lparr>srMaxMS := maxMS\<rparr> else existing)"

definition addSeriesRecord ::
  "('m \<Rightarrow> u64 \<Rightarrow> (nat \<times> bool) option) \<Rightarrow> ('m \<Rightarrow> u64 \<Rightarrow> nat \<Rightarrow> 'm option)
   \<Rightarrow> remoteWriteSeriesRow list \<times> 'm \<Rightarrow> remoteWriteSeriesRow \<Rightarrow> (remoteWriteSeriesRow list \<times> 'm) option" where
  "addSeriesRecord lookup store st row =
     (let (records, m) = st in
      case lookup m (srID row) of
        None \<Rightarrow> None
      | Some (index, ok) \<Rightarrow>
          if ok then
            (if index < length records
             then Some (records[index := widen (records ! index) (srMinMS row) (srMaxMS row)], m) else None)
          else (case store m (srID row) (length records) of
                  None \<Rightarrow> None
                | Some m' \<Rightarrow> Some (records @ [row], m')))"

definition addRemoteWriteSeriesRecord ::
  "remoteWriteSeriesRow list \<times> (u64 \<rightharpoonup> nat) \<Rightarrow> remoteWriteSeriesRow
   \<Rightarrow> (remoteWriteSeriesRow list \<times> (u64 \<rightharpoonup> nat)) option" where
  "addRemoteWriteSeriesRecord = addSeriesRecord mapGet mapSet"

definition addFastSeriesRecord ::
  "remoteWriteSeriesRow list \<times> remoteWriteFastSeriesIndex \<Rightarrow> u64 \<Rightarrow> u64 \<Rightarrow> string \<Rightarrow> int \<Rightarrow> int
   \<Rightarrow> (remoteWriteSeriesRow list \<times> remoteWriteFastSeriesIndex) option" where
  "addFastSeriesRecord st sid teamID metricName minMS maxMS =
     addSeriesRecord idxGet idxSet st
       \<lparr>srTeamID = teamID, srID = sid, srMetricName = metricName, srLabelsJSON = '''', srLabels = [],
        srMinMS = minMS, srMaxMS = maxMS\<rparr>"

section \<open>The reference builder\<close>

definition observeTime :: "(int \<times> int) option \<Rightarrow> int \<Rightarrow> (int \<times> int) option" where
  "observeTime span timestamp = (case span of
     None \<Rightarrow> Some (timestamp, timestamp)
   | Some (minMS, maxMS) \<Rightarrow>
       Some (if timestamp < minMS then timestamp else minMS, if timestamp > maxMS then timestamp else maxMS))"

definition appendSampleRow :: "remoteWriteSampleRow list \<Rightarrow> remoteWriteSampleRow \<Rightarrow> remoteWriteSampleRow list" where
  "appendSampleRow rows row =
     (if rows \<noteq> [] \<and> smID (last rows) = smID row \<and> smTimestampMS (last rows) = smTimestampMS row
      then rows[length rows - 1 := (last rows)\<lparr>smValue := smValue row\<rparr>]
      else rows @ [row])"

text \<open>What the rows of one time series have in common: team, metric name, id, service name and
  attributes.\<close>

record seriesContext =
  ctxTeamID :: u64
  ctxMetricName :: string
  ctxID :: u64
  ctxServiceName :: string
  ctxAttributes :: gomap

fun sampleRowsLoop ::
  "seriesContext \<Rightarrow> int \<Rightarrow> prompbSample list \<Rightarrow> (int \<times> int) option \<times> remoteWriteSampleRow list
   \<Rightarrow> (int \<times> int) option \<times> remoteWriteSampleRow list" where
  "sampleRowsLoop ctx step [] st = st"
| "sampleRowsLoop ctx step (sample # samples) (span, rows) =
     (if isRemoteWriteSampleDroppable (pbSampleValue sample) then sampleRowsLoop ctx step samples (span, rows)
      else
        let bucketMS = bucketTimestampForStepMS (pbTimestamp sample) step
        in sampleRowsLoop ctx step samples
             (observeTime span bucketMS,
              appendSampleRow rows
                \<lparr>smTeamID = ctxTeamID ctx, smMetricName = ctxMetricName ctx, smTimestampMS = bucketMS,
                 smID = ctxID ctx, smValue = pbSampleValue sample, smServiceName = ctxServiceName ctx,
                 smAttributes = ctxAttributes ctx\<rparr>))"

fun histogramRowsLoop ::
  "('h prompbHistogram \<Rightarrow> rw_error + bytes) \<Rightarrow> seriesContext \<Rightarrow> int \<Rightarrow> 'h prompbHistogram list
   \<Rightarrow> (int \<times> int) option \<times> remoteWriteHistogramRow list
   \<Rightarrow> rw_error + ((int \<times> int) option \<times> remoteWriteHistogramRow list)" where
  "histogramRowsLoop marshal ctx step [] st = Inr st"
| "histogramRowsLoop marshal ctx step (histogram # histograms) (span, rows) =
     (let originalTimestamp = histTimestamp histogram;
          bucketMS = bucketTimestampForStepMS originalTimestamp step
      in case marshal (histogram\<lparr>histTimestamp := bucketMS\<rparr>) of
           Inl e \<Rightarrow> Inl e
         | Inr payload \<Rightarrow>
             histogramRowsLoop marshal ctx step histograms
               (observeTime span bucketMS,
                rows @ [\<lparr>hrTeamID = ctxTeamID ctx, hrMetricName = ctxMetricName ctx, hrTimestampMS = bucketMS,
                         hrID = ctxID ctx, hrHistogram = payload,
                         hrVersion = remoteWriteVersion originalTimestamp\<rparr>]))"

fun exemplarRowsLoop ::
  "seriesContext \<Rightarrow> prompbExemplar list \<Rightarrow> (int \<times> int) option \<times> remoteWriteExemplarRow list
   \<Rightarrow> rw_error + ((int \<times> int) option \<times> remoteWriteExemplarRow list)" where
  "exemplarRowsLoop ctx [] st = Inr st"
| "exemplarRowsLoop ctx (exemplar # exemplars) (span, rows) =
     (if nanBits (exValue exemplar) then exemplarRowsLoop ctx exemplars (span, rows)
      else
        case remoteWriteAuxLabelMap (exLabels exemplar) of
          Inl e \<Rightarrow> Inl e
        | Inr exemplarLabels \<Rightarrow>
            exemplarRowsLoop ctx exemplars
              (observeTime span (exTimestamp exemplar),
               rows @ [\<lparr>exrTeamID = ctxTeamID ctx, exrTimestampMS = exTimestamp exemplar, exrID = ctxID ctx,
                        exrValue = exValue exemplar, exrLabelsJSON = jsonMarshalMap exemplarLabels\<rparr>]))"

definition metadataRowsOf :: "u64 \<Rightarrow> int \<Rightarrow> prompbMetadata list \<Rightarrow> remoteWriteMetadataRow list" where
  "metadataRowsOf teamID now metadata =
     map (\<lambda>md. \<lparr>mrTeamID = teamID, mrMetricFamilyName = mdFamilyName md, mrType = remoteMetadataType (mdType md),
                 mrUnit = mdUnit md, mrHelp = mdHelp md, mrUpdatedAtMS = now\<rparr>)
       (filter (\<lambda>md. mdFamilyName md \<noteq> '''') metadata)"

definition buildTimeSeries ::
  "'d xxhash \<Rightarrow> ('h prompbHistogram \<Rightarrow> rw_error + bytes) \<Rightarrow> int \<Rightarrow> u64 \<Rightarrow> bool
   \<Rightarrow> remoteWriteBatch \<times> (u64 \<rightharpoonup> nat) \<Rightarrow> 'h prompbTimeSeries
   \<Rightarrow> (rw_error + (remoteWriteBatch \<times> (u64 \<rightharpoonup> nat))) option" where
  "buildTimeSeries h marshal step teamID includeSampleAttributes st ts =
     (let (batch, index) = st in
      if tsSamples ts = [] \<and> tsHistograms ts = [] \<and> tsExemplars ts = [] then Some (Inr (batch, index))
      else
        case remoteWriteSeriesIdentityLabels h (remoteWriteLabelsFromPrompb (tsLabels ts)) of
          (Inl e, _) \<Rightarrow> Some (Inl e)
        | (Inr (sid, metricName), rowLabels) \<Rightarrow>
            let ctx = \<lparr>ctxTeamID = teamID, ctxMetricName = metricName, ctxID = sid,
                       ctxServiceName =
                         (if includeSampleAttributes then serviceNameFromRemoteWriteLabels rowLabels else ''''),
                       ctxAttributes =
                         (if includeSampleAttributes then sampleAttributesFromRemoteWriteLabels rowLabels else [])\<rparr>;
                (span, samples) = sampleRowsLoop ctx step (tsSamples ts) (None, sampleRows batch)
            in case histogramRowsLoop marshal ctx step (tsHistograms ts) (span, histogramRows batch) of
                 Inl e \<Rightarrow> Some (Inl e)
               | Inr (span, histograms) \<Rightarrow>
                   (case exemplarRowsLoop ctx (tsExemplars ts) (span, exemplarRows batch) of
                      Inl e \<Rightarrow> Some (Inl e)
                    | Inr (span, exemplars) \<Rightarrow>
                        let batch = batch\<lparr>sampleRows := samples, histogramRows := histograms,
                                          exemplarRows := exemplars\<rparr>
                        in case span of
                             None \<Rightarrow> Some (Inr (batch, index))
                           | Some (minMS, maxMS) \<Rightarrow>
                               (case addRemoteWriteSeriesRecord (seriesRecords batch, index)
                                       \<lparr>srTeamID = teamID, srID = sid, srMetricName = metricName,
                                        srLabelsJSON = '''', srLabels = rowLabels, srMinMS = minMS, srMaxMS = maxMS\<rparr> of
                                  None \<Rightarrow> None
                                | Some (records, index) \<Rightarrow> Some (Inr (batch\<lparr>seriesRecords := records\<rparr>, index)))))"

fun buildTimeSeriesLoop ::
  "'d xxhash \<Rightarrow> ('h prompbHistogram \<Rightarrow> rw_error + bytes) \<Rightarrow> int \<Rightarrow> u64 \<Rightarrow> bool
   \<Rightarrow> remoteWriteBatch \<times> (u64 \<rightharpoonup> nat) \<Rightarrow> 'h prompbTimeSeries list
   \<Rightarrow> (rw_error + (remoteWriteBatch \<times> (u64 \<rightharpoonup> nat))) option" where
  "buildTimeSeriesLoop h marshal step teamID attrs st [] = Some (Inr st)"
| "buildTimeSeriesLoop h marshal step teamID attrs st (ts # rest) =
     (case buildTimeSeries h marshal step teamID attrs st ts of
        None \<Rightarrow> None
      | Some (Inl e) \<Rightarrow> Some (Inl e)
      | Some (Inr st') \<Rightarrow> buildTimeSeriesLoop h marshal step teamID attrs st' rest)"

definition buildRemoteWriteBatch ::
  "'d xxhash \<Rightarrow> ('h prompbHistogram \<Rightarrow> rw_error + bytes) \<Rightarrow> int \<Rightarrow> 'h prompbWriteRequest \<Rightarrow> int \<Rightarrow> u64 \<Rightarrow> bool
   \<Rightarrow> (rw_error + remoteWriteBatch) option" where
  "buildRemoteWriteBatch h marshal now req sampleInterval teamID includeSampleAttributes =
     (let step = durationMilliseconds sampleInterval;
          batch = (emptyBatch [])\<lparr>metadataRows := metadataRowsOf teamID now (rqMetadata req)\<rparr>
      in case buildTimeSeriesLoop h marshal step teamID includeSampleAttributes (batch, Map.empty) (rqTimeseries req) of
           None \<Rightarrow> None
         | Some (Inl e) \<Rightarrow> Some (Inl e)
         | Some (Inr (batch, _)) \<Rightarrow>
             Some (Inr (batch\<lparr>seriesCount := length (seriesRecords batch), sampleCount := length (sampleRows batch),
                              histogramCount := length (histogramRows batch),
                              exemplarCount := length (exemplarRows batch),
                              metadataCount := length (metadataRows batch)\<rparr>)))"

section \<open>Buckets\<close>

lemma smod_floor:
  fixes t step :: int
  assumes "0 < step"
  shows "(let r = t smod step in if r < 0 then r + step else r) = t mod step"
proof (cases "0 \<le> t")
  case True
  then show ?thesis
    using assms pos_mod_sign [OF assms, of t]
    by (auto simp: signed_modulo_int_def signed_divide_int_def sgn_if minus_mult_div_eq_mod Let_def not_less)
next
  case False
  then have r: "t smod step = - ((- t) mod step)"
    using assms by (simp add: signed_modulo_int_def signed_divide_int_def sgn_if minus_mult_div_eq_mod [symmetric])
  have "t mod step = (if (- t) mod step = 0 then 0 else step - (- t) mod step)"
    using zmod_zminus1_eq_if [of "- t" step] by simp
  moreover have "0 \<le> (- t) mod step" using assms by simp
  ultimately show ?thesis
    unfolding r Let_def by (simp split: if_splits)
qed

lemma bucket_mod:
  assumes "0 < step" "in_i64 step" "in_i64 t"
  shows "bucketTimestampForStepMS t step = wrap64 (t - t mod step)"
proof -
  let ?r = "t smod step"
  have "0 \<le> t mod step" "t mod step < step" using assms(1) by simp_all
  moreover have "?r < 0 \<longrightarrow> ?r + step = t mod step"
    using smod_floor [OF assms(1), of t] by (simp add: Let_def split: if_splits)
  ultimately have "?r < 0 \<longrightarrow> in_i64 (?r + step)"
    using assms(1,2) by (auto simp: in_i64_def intro: order_trans [of _ 0])
  then show ?thesis
    using smod_floor [OF assms(1), of t] assms(1)
    by (auto simp: bucketTimestampForStepMS_def Let_def split: if_splits)
qed

lemma bucket_floor:
  assumes "0 < step" "in_i64 step" "in_i64 t" "- (2 ^ 63) \<le> t - t mod step"
  shows "bucketTimestampForStepMS t step = t - t mod step"
proof -
  have "t - t mod step \<le> t" using assms(1) by simp
  then have "in_i64 (t - t mod step)" using assms(3,4) by (auto simp: in_i64_def)
  then show ?thesis using bucket_mod [OF assms(1-3)] by simp
qed

section \<open>Series records, over any index\<close>

definition mergeRow :: "remoteWriteSeriesRow list \<Rightarrow> remoteWriteSeriesRow \<Rightarrow> remoteWriteSeriesRow list" where
  "mergeRow records row =
     (if srID row \<in> srID ` set records
      then map (\<lambda>r. if srID r = srID row then widen r (srMinMS row) (srMaxMS row) else r) records
      else records @ [row])"

definition positions :: "remoteWriteSeriesRow list \<Rightarrow> u64 \<rightharpoonup> nat" where
  "positions records = map_of (zip (map srID records) [0..<length records])"

lemma widen_simps [simp]:
  "srID (widen r a b) = srID r" "srTeamID (widen r a b) = srTeamID r"
  "srMetricName (widen r a b) = srMetricName r" "srLabels (widen r a b) = srLabels r"
  "srLabelsJSON (widen r a b) = srLabelsJSON r"
  "srMinMS (widen r a b) = min a (srMinMS r)" "srMaxMS (widen r a b) = max b (srMaxMS r)"
  by (simp_all add: widen_def Let_def)

lemma mergeRow_ids [simp]:
  "map srID (mergeRow records row)
   = (if srID row \<in> srID ` set records then map srID records else map srID records @ [srID row])"
  by (simp add: mergeRow_def comp_def if_distrib cong: if_cong)

lemma length_mergeRow: "length (mergeRow records row) \<le> Suc (length records)"
  by (simp add: mergeRow_def)

lemma distinct_mergeRow: "distinct (map srID records) \<Longrightarrow> distinct (map srID (mergeRow records row))"
  by auto

lemma positions_Some:
  assumes "distinct (map srID records)"
  shows "positions records k = Some i \<longleftrightarrow> i < length records \<and> srID (records ! i) = k"
  using assms by (auto simp: positions_def set_zip intro!: exI [of _ i])

lemma positions_None: "positions records k = None \<longleftrightarrow> k \<notin> srID ` set records"
  by (simp add: positions_def map_of_zip_is_None)

lemma positions_snoc:
  assumes "srID row \<notin> srID ` set records"
  shows "positions (records @ [row]) = (positions records)(srID row \<mapsto> length records)"
proof
  fix k
  have "positions (records @ [row]) = [srID row \<mapsto> length records] ++ positions records"
    by (simp add: positions_def)
  moreover have "positions records (srID row) = None"
    using assms by (simp add: positions_None)
  ultimately show "positions (records @ [row]) k = ((positions records)(srID row \<mapsto> length records)) k"
    by (auto simp: map_add_def split: option.split)
qed

lemma positions_mergeRow_old: "srID row \<in> srID ` set records \<Longrightarrow> positions (mergeRow records row) = positions records"
  using mergeRow_ids [of records row] by (simp add: positions_def) (metis length_map mergeRow_ids)

text \<open>The list and its index agree: the index maps each id to its position.\<close>

definition records_ok ::
  "('m \<Rightarrow> bool) \<Rightarrow> ('m \<Rightarrow> u64 \<rightharpoonup> nat) \<Rightarrow> remoteWriteSeriesRow list \<times> 'm \<Rightarrow> bool" where
  "records_ok iv ab st \<longleftrightarrow> iv (snd st) \<and> ab (snd st) = positions (fst st) \<and> distinct (map srID (fst st))"

context series_index
begin

text \<open>Adding a record merges it into the list, whatever the index.\<close>

lemma addSeriesRecord_merge:
  assumes ok: "records_ok inv abs (records, m)" and room: "length records < 2 ^ 40"
  shows "\<exists>m'. addSeriesRecord get set (records, m) row = Some (mergeRow records row, m')
     \<and> records_ok inv abs (mergeRow records row, m')"
proof -
  have m: "inv m" "abs m = positions records" "distinct (map srID records)"
    using ok by (simp_all add: records_ok_def)
  show ?thesis
  proof (cases "srID row \<in> srID ` List.set records")
    case True
    then obtain i where "positions records (srID row) = Some i"
      using positions_None [of records "srID row"] by blast
    then have i: "i < length records" "srID (records ! i) = srID row" and g: "get m (srID row) = Some (i, True)"
      using positions_Some [OF m(3)] get_Some [OF m(1), of "srID row" i] m(2) by simp_all
    have "records[i := widen (records ! i) (srMinMS row) (srMaxMS row)] = mergeRow records row"
    proof (rule nth_equalityI)
      fix j assume "j < length (records[i := widen (records ! i) (srMinMS row) (srMaxMS row)])"
      then show "records[i := widen (records ! i) (srMinMS row) (srMaxMS row)] ! j = mergeRow records row ! j"
        using True i m(3) nth_eq_iff_index_eq [of "map srID records" i j]
        by (auto simp: mergeRow_def nth_list_update)
    qed (simp add: mergeRow_def True)
    then show ?thesis
      using g i(1) m True positions_mergeRow_old [OF True] distinct_mergeRow [OF m(3), of row]
      by (simp add: addSeriesRecord_def records_ok_def)
  next
    case False
    then obtain v where g: "get m (srID row) = Some (v, False)"
      using get_None [OF m(1)] m(2) positions_None [of records "srID row"] by auto
    have "dom (abs m) = srID ` List.set records"
      using m(2) positions_None by (auto simp: dom_def)
    then have "card (dom (abs m)) \<le> length records"
      by (metis card_image_le card_length finite_set le_trans)
    then obtain m' where m': "set m (srID row) (length records) = Some m'" "inv m'"
      "abs m' = (abs m)(srID row \<mapsto> length records)"
      using set_abs [OF m(1), of "srID row" "length records"] room by auto
    have "mergeRow records row = records @ [row]" using False by (simp add: mergeRow_def)
    then show ?thesis
      using g m' m False positions_snoc [OF False]
      by (auto simp: addSeriesRecord_def records_ok_def)
  qed
qed

end

section \<open>What one time series adds\<close>

definition keptSamples :: "prompbSample list \<Rightarrow> prompbSample list" where
  "keptSamples = filter (\<lambda>s. \<not> isRemoteWriteSampleDroppable (pbSampleValue s))"

definition sampleRowOf :: "seriesContext \<Rightarrow> int \<Rightarrow> prompbSample \<Rightarrow> remoteWriteSampleRow" where
  "sampleRowOf ctx step s =
     \<lparr>smTeamID = ctxTeamID ctx, smMetricName = ctxMetricName ctx,
      smTimestampMS = bucketTimestampForStepMS (pbTimestamp s) step, smID = ctxID ctx,
      smValue = pbSampleValue s, smServiceName = ctxServiceName ctx, smAttributes = ctxAttributes ctx\<rparr>"

definition sampleTimes :: "int \<Rightarrow> prompbSample list \<Rightarrow> int list" where
  "sampleTimes step ss = map (\<lambda>s. bucketTimestampForStepMS (pbTimestamp s) step) (keptSamples ss)"

definition histogramTimes :: "int \<Rightarrow> 'h prompbHistogram list \<Rightarrow> int list" where
  "histogramTimes step hs = map (\<lambda>hg. bucketTimestampForStepMS (histTimestamp hg) step) hs"

definition exemplarTimes :: "prompbExemplar list \<Rightarrow> int list" where
  "exemplarTimes es = map exTimestamp (filter (\<lambda>e. \<not> nanBits (exValue e)) es)"

lemma sampleRowsLoop_fold:
  "sampleRowsLoop ctx step ss (span, rows)
   = (foldl observeTime span (sampleTimes step ss),
      foldl appendSampleRow rows (map (sampleRowOf ctx step) (keptSamples ss)))"
  by (induction ss arbitrary: span rows)
    (simp_all add: keptSamples_def sampleTimes_def sampleRowOf_def Let_def)

lemma histogramRowsLoop_ok:
  assumes "histogramRowsLoop marshal ctx step hs (span, rows) = Inr (span', rows')"
  shows "span' = foldl observeTime span (histogramTimes step hs)
     \<and> map (\<lambda>r. (hrID r, hrTimestampMS r)) rows'
       = map (\<lambda>r. (hrID r, hrTimestampMS r)) rows @ map (\<lambda>t. (ctxID ctx, t)) (histogramTimes step hs)"
  using assms
  by (induction hs arbitrary: span rows) (auto simp: histogramTimes_def Let_def split: sum.splits)

lemma histogramRowsLoop_error:
  "(\<exists>e. histogramRowsLoop marshal ctx step hs st = Inl e)
   \<longleftrightarrow> (\<exists>hg \<in> set hs. \<exists>e. marshal (hg\<lparr>histTimestamp := bucketTimestampForStepMS (histTimestamp hg) step\<rparr>) = Inl e)"
proof (induction hs arbitrary: st)
  case (Cons hg hs)
  then show ?case
    by (cases st; cases "marshal (hg\<lparr>histTimestamp := bucketTimestampForStepMS (histTimestamp hg) step\<rparr>)")
      (simp_all add: Let_def)
qed simp

lemma exemplarRowsLoop_ok:
  assumes "exemplarRowsLoop ctx es (span, rows) = Inr (span', rows')"
  shows "span' = foldl observeTime span (exemplarTimes es)
     \<and> map (\<lambda>r. (exrID r, exrTimestampMS r)) rows'
       = map (\<lambda>r. (exrID r, exrTimestampMS r)) rows @ map (\<lambda>t. (ctxID ctx, t)) (exemplarTimes es)"
  using assms
  by (induction es arbitrary: span rows) (auto simp: exemplarTimes_def split: sum.splits if_splits)

definition aux_labels_valid :: "prompbLabel list \<Rightarrow> bool" where
  "aux_labels_valid ls \<longleftrightarrow> distinct (map pbName ls) \<and> '''' \<notin> set (map pbName ls)"

lemma prompbLabelMapLoop_iff:
  "(\<exists>m'. prompbLabelMapLoop m ls = Inr m')
   \<longleftrightarrow> aux_labels_valid ls \<and> fst ` set m \<inter> pbName ` set ls = {}"
proof (induction ls arbitrary: m)
  case (Cons l ls)
  have d: "fst ` set (AList.update (pbName l) (pbValue l) m) = insert (pbName l) (fst ` set m)"
    using dom_update [of "pbName l" "pbValue l" m] by (simp add: dom_map_of_conv_image_fst)
  show ?case
    using Cons [of "AList.update (pbName l) (pbValue l) m"] unfolding d
    by (auto simp: aux_labels_valid_def map_of_eq_None_iff)
qed (auto simp: aux_labels_valid_def)

lemma prompbLabelMapLoop_lookup:
  assumes "prompbLabelMapLoop m ls = Inr m'"
  shows "map_of m' = map_of m ++ map_of (map (\<lambda>l. (pbName l, pbValue l)) ls)"
  using assms
proof (induction ls arbitrary: m)
  case (Cons l ls)
  then have run: "prompbLabelMapLoop (AList.update (pbName l) (pbValue l) m) ls = Inr m'"
    by (simp split: if_splits)
  then have "pbName l \<notin> pbName ` set ls"
    using prompbLabelMapLoop_iff [of "AList.update (pbName l) (pbValue l) m" ls]
      dom_update [of "pbName l" "pbValue l" m]
    by (auto simp: dom_map_of_conv_image_fst)
  then have n: "map_of (map (\<lambda>l. (pbName l, pbValue l)) ls) (pbName l) = None"
    by (auto simp: map_of_eq_None_iff)
  show ?case
    unfolding Cons.IH [OF run] update_conv'
    by (rule ext) (use n in \<open>auto simp: map_add_def split: option.splits\<close>)
qed simp

lemma exemplarRowsLoop_error:
  "(\<exists>e. exemplarRowsLoop ctx es st = Inl e)
   \<longleftrightarrow> (\<exists>ex \<in> set es. \<not> nanBits (exValue ex) \<and> \<not> aux_labels_valid (exLabels ex))"
proof (induction es arbitrary: st)
  case (Cons ex es)
  show ?case
    using Cons prompbLabelMapLoop_iff [of "[]" "exLabels ex"]
    by (cases st) (auto simp: remoteWriteAuxLabelMap_def split: sum.splits)
qed simp

section \<open>The time range of a list of observations\<close>

lemma observeTime_some [simp]: "observeTime (Some (a, b)) t = Some (min t a, max t b)"
  by (simp add: observeTime_def min_def max_def)

lemma observe_some: "foldl observeTime (Some (a, b)) ts = Some (Min (insert a (set ts)), Max (insert b (set ts)))"
proof (induction ts arbitrary: a b)
  case (Cons t ts)
  have "Min (insert (min t a) (set ts)) = Min (insert a (insert t (set ts)))"
    "Max (insert (max t b) (set ts)) = Max (insert b (insert t (set ts)))"
    by (cases "ts = []"; simp add: min.commute max.commute min.left_commute max.left_commute)+
  with Cons show ?case by simp
qed simp

lemma observe_none:
  "foldl observeTime None ts = (if ts = [] then None else Some (Min (set ts), Max (set ts)))"
  by (cases ts) (simp_all add: observe_some observeTime_def [of None])

section \<open>The invariant of a batch\<close>

text \<open>\<open>envelope records D\<close>: every datum has a series record whose time range holds it, and both ends of
  every range are attained.\<close>

definition envelope :: "remoteWriteSeriesRow list \<Rightarrow> (u64 \<times> int) set \<Rightarrow> bool" where
  "envelope records D \<longleftrightarrow>
     (\<forall>r \<in> set records. (srID r, srMinMS r) \<in> D \<and> (srID r, srMaxMS r) \<in> D)
     \<and> (\<forall>(k, t) \<in> D. \<exists>r \<in> set records. srID r = k \<and> srMinMS r \<le> t \<and> t \<le> srMaxMS r)"

definition sampleKeys :: "remoteWriteSampleRow list \<Rightarrow> (u64 \<times> int) list" where
  "sampleKeys rows = map (\<lambda>r. (smID r, smTimestampMS r)) rows"

definition batchData :: "remoteWriteBatch \<Rightarrow> (u64 \<times> int) set" where
  "batchData b = set (sampleKeys (sampleRows b))
     \<union> (\<lambda>r. (hrID r, hrTimestampMS r)) ` set (histogramRows b)
     \<union> (\<lambda>r. (exrID r, exrTimestampMS r)) ` set (exemplarRows b)"

definition batch_inv :: "remoteWriteBatch \<Rightarrow> bool" where
  "batch_inv b \<longleftrightarrow> distinct (map srID (seriesRecords b)) \<and> envelope (seriesRecords b) (batchData b)"

lemma envelope_mergeRow:
  assumes env: "envelope records D" and T: "finite T" "T \<noteq> {}"
    and row: "srMinMS row = Min T" "srMaxMS row = Max T"
  shows "envelope (mergeRow records row) (D \<union> Pair (srID row) ` T)"
proof -
  have T1: "Min T \<in> T" "Max T \<in> T" "\<And>t. t \<in> T \<Longrightarrow> Min T \<le> t \<and> t \<le> Max T"
    using T by simp_all
  show ?thesis
  proof (cases "srID row \<in> srID ` set records")
    case True
    then obtain r where r: "r \<in> set records" "srID r = srID row" by auto
    let ?f = "\<lambda>r. if srID r = srID row then widen r (srMinMS row) (srMaxMS row) else r"
    have "\<forall>r \<in> set records. (srID (?f r), srMinMS (?f r)) \<in> D \<union> Pair (srID row) ` T
        \<and> (srID (?f r), srMaxMS (?f r)) \<in> D \<union> Pair (srID row) ` T"
      using env T1(1,2) row by (auto simp: envelope_def min_def max_def)
    moreover have "\<exists>r \<in> set records. srID (?f r) = k \<and> srMinMS (?f r) \<le> t \<and> t \<le> srMaxMS (?f r)"
      if kt: "(k, t) \<in> D \<union> Pair (srID row) ` T" for k t
    proof (cases "(k, t) \<in> D")
      case True
      then obtain r' where "r' \<in> set records" "srID r' = k" "srMinMS r' \<le> t" "t \<le> srMaxMS r'"
        using env by (auto simp: envelope_def)
      then show ?thesis by (intro bexI [of _ r']) auto
    next
      case False
      then have "k = srID row" "t \<in> T" using kt by auto
      then show ?thesis
        using r T1(3) [of t] row by (intro bexI [of _ r]) auto
    qed
    moreover have "mergeRow records row = map ?f records"
      using True by (simp only: mergeRow_def if_True)
    ultimately show ?thesis
      unfolding envelope_def by (simp only: set_map ball_simps bex_simps) blast
  next
    case False
    then show ?thesis
      using env T1 row unfolding envelope_def mergeRow_def by fastforce
  qed
qed

lemma appendSampleRow_keys: "set (sampleKeys (appendSampleRow rows row)) = insert (smID row, smTimestampMS row) (set (sampleKeys rows))"
proof (cases "rows \<noteq> [] \<and> smID (last rows) = smID row \<and> smTimestampMS (last rows) = smTimestampMS row")
  case True
  then obtain xs x where rows: "rows = xs @ [x]" by (metis append_butlast_last_id)
  with True show ?thesis by (auto simp: appendSampleRow_def sampleKeys_def)
qed (auto simp: appendSampleRow_def sampleKeys_def)

lemma foldl_appendSampleRow_keys:
  "set (sampleKeys (foldl appendSampleRow rows new)) = set (sampleKeys rows) \<union> set (sampleKeys new)"
  by (induction new arbitrary: rows) (auto simp: appendSampleRow_keys, simp_all add: sampleKeys_def)

section \<open>One step of the builder\<close>

definition hasData :: "'h prompbTimeSeries \<Rightarrow> bool" where
  "hasData ts \<longleftrightarrow> tsSamples ts \<noteq> [] \<or> tsHistograms ts \<noteq> [] \<or> tsExemplars ts \<noteq> []"

abbreviation tsRowLabels :: "'h prompbTimeSeries \<Rightarrow> remoteWriteLabel list" where
  "tsRowLabels ts \<equiv> remoteWriteLabelsFromPrompb (tsLabels ts)"

text \<open>The reasons to reject a time series.\<close>

definition ts_bad :: "('h prompbHistogram \<Rightarrow> rw_error + bytes) \<Rightarrow> int \<Rightarrow> 'h prompbTimeSeries \<Rightarrow> bool" where
  "ts_bad marshal step ts \<longleftrightarrow> hasData ts \<and>
     (\<not> labels_valid (tsRowLabels ts)
      \<or> (\<exists>hg \<in> set (tsHistograms ts). \<exists>e.
           marshal (hg\<lparr>histTimestamp := bucketTimestampForStepMS (histTimestamp hg) step\<rparr>) = Inl e)
      \<or> (\<exists>ex \<in> set (tsExemplars ts). \<not> nanBits (exValue ex) \<and> \<not> aux_labels_valid (exLabels ex)))"

definition seriesContextOf :: "'d xxhash \<Rightarrow> u64 \<Rightarrow> bool \<Rightarrow> 'h prompbTimeSeries \<Rightarrow> seriesContext" where
  "seriesContextOf h teamID attrs ts =
     (case remoteWriteSeriesIdentityLabels h (tsRowLabels ts) of
        (Inr (sid, metricName), rowLabels) \<Rightarrow>
          \<lparr>ctxTeamID = teamID, ctxMetricName = metricName, ctxID = sid,
           ctxServiceName = (if attrs then serviceNameFromRemoteWriteLabels rowLabels else ''''),
           ctxAttributes = (if attrs then sampleAttributesFromRemoteWriteLabels rowLabels else [])\<rparr>
      | _ \<Rightarrow> \<lparr>ctxTeamID = teamID, ctxMetricName = '''', ctxID = 0, ctxServiceName = '''', ctxAttributes = []\<rparr>)"

definition tsSampleRows :: "'d xxhash \<Rightarrow> int \<Rightarrow> u64 \<Rightarrow> bool \<Rightarrow> 'h prompbTimeSeries \<Rightarrow> remoteWriteSampleRow list" where
  "tsSampleRows h step teamID attrs ts =
     map (sampleRowOf (seriesContextOf h teamID attrs ts) step) (keptSamples (tsSamples ts))"

abbreviation go_records_ok :: "remoteWriteBatch \<Rightarrow> (u64 \<rightharpoonup> nat) \<Rightarrow> bool" where
  "go_records_ok b index \<equiv> records_ok (\<lambda>m. finite (dom m)) (\<lambda>m. m) (seriesRecords b, index)"

lemma identity_cases:
  assumes "xxhash_ok h"
  obtains (bad) e ls where "remoteWriteSeriesIdentityLabels h ls0 = (Inl e, ls)" "\<not> labels_valid ls0"
  | (ok) sid m ls where "remoteWriteSeriesIdentityLabels h ls0 = (Inr (sid, m), ls)" "labels_valid ls0"
proof (cases "remoteWriteSeriesIdentityLabels h ls0")
  case (Pair r ls)
  then show ?thesis
  proof (cases r)
    case (Inl e)
    have "\<not> labels_valid ls0"
    proof
      assume v: "labels_valid ls0"
      from slow_identity_valid [OF assms v] Pair Inl show False by simp
    qed
    then show ?thesis using bad Pair Inl by blast
  next
    case (Inr x)
    then show ?thesis
      using ok Pair slow_identity_ok_valid [of h ls0 x] by (cases x) auto
  qed
qed

text \<open>The outcome of a step: rejected for a reason, or the new batch keeps the invariants.\<close>

lemma buildTimeSeries_step:
  assumes hash: "xxhash_ok h"
    and ok: "go_records_ok b index" and room: "length (seriesRecords b) < 2 ^ 40" and inv: "batch_inv b"
  shows "(ts_bad marshal step ts \<and> (\<exists>e. buildTimeSeries h marshal step teamID attrs (b, index) ts = Some (Inl e)))
   \<or> (\<not> ts_bad marshal step ts
      \<and> (\<exists>b' index'. buildTimeSeries h marshal step teamID attrs (b, index) ts = Some (Inr (b', index'))
          \<and> go_records_ok b' index' \<and> batch_inv b' \<and> length (seriesRecords b') \<le> Suc (length (seriesRecords b))
          \<and> sampleRows b' = foldl appendSampleRow (sampleRows b) (tsSampleRows h step teamID attrs ts)))"
proof (cases "hasData ts")
  case False
  then show ?thesis
    using ok inv
    by (auto simp: ts_bad_def hasData_def buildTimeSeries_def tsSampleRows_def keptSamples_def)
next
  case data: True
  let ?ctx = "seriesContextOf h teamID attrs ts"
  from hash show ?thesis
  proof (cases rule: identity_cases [of h "tsRowLabels ts", consumes 1, case_names bad ok])
    case (bad e ls)
    then have "buildTimeSeries h marshal step teamID attrs (b, index) ts = Some (Inl e)"
      using data by (simp add: buildTimeSeries_def hasData_def)
    then show ?thesis using bad data by (auto simp: ts_bad_def)
  next
    case (ok sid m ls)
    have ctxeq: "?ctx = \<lparr>ctxTeamID = teamID, ctxMetricName = m, ctxID = sid,
           ctxServiceName = (if attrs then serviceNameFromRemoteWriteLabels ls else ''''),
           ctxAttributes = (if attrs then sampleAttributesFromRemoteWriteLabels ls else [])\<rparr>"
      by (simp only: seriesContextOf_def ok(1) prod.case sum.case)
    then have ctx: "ctxID ?ctx = sid" by simp
    have nd: "\<not> (tsSamples ts = [] \<and> tsHistograms ts = [] \<and> tsExemplars ts = [])"
      using data by (simp add: hasData_def)
    let ?s1 = "foldl observeTime None (sampleTimes step (tsSamples ts))"
    let ?rows = "foldl appendSampleRow (sampleRows b) (tsSampleRows h step teamID attrs ts)"
    let ?H = "histogramRowsLoop marshal ?ctx step (tsHistograms ts) (?s1, histogramRows b)"
    have run: "buildTimeSeries h marshal step teamID attrs (b, index) ts =
      (case ?H of
         Inl e \<Rightarrow> Some (Inl e)
       | Inr (span, hs) \<Rightarrow>
           (case exemplarRowsLoop ?ctx (tsExemplars ts) (span, exemplarRows b) of
              Inl e \<Rightarrow> Some (Inl e)
            | Inr (span, es) \<Rightarrow>
                let b = b\<lparr>sampleRows := ?rows, histogramRows := hs, exemplarRows := es\<rparr>
                in case span of
                     None \<Rightarrow> Some (Inr (b, index))
                   | Some (mn, mx) \<Rightarrow>
                       (case addRemoteWriteSeriesRecord (seriesRecords b, index)
                               \<lparr>srTeamID = teamID, srID = sid, srMetricName = m, srLabelsJSON = '''',
                                srLabels = ls, srMinMS = mn, srMaxMS = mx\<rparr> of
                          None \<Rightarrow> None
                        | Some (records, index) \<Rightarrow> Some (Inr (b\<lparr>seriesRecords := records\<rparr>, index)))))"
      unfolding buildTimeSeries_def Let_def prod.case if_not_P [OF nd] ok(1) sum.case ctxeq [symmetric]
        sampleRowsLoop_fold tsSampleRows_def
      by (rule refl)
    show ?thesis
    proof (cases ?H)
      case (Inl e)
      then show ?thesis
        using run data histogramRowsLoop_error [of marshal ?ctx step "tsHistograms ts" "(?s1, histogramRows b)"]
        by (auto simp: ts_bad_def)
    next
      case (Inr sh)
      obtain s2 hs where H: "?H = Inr (s2, hs)" using Inr by (cases sh) auto
      let ?E = "exemplarRowsLoop ?ctx (tsExemplars ts) (s2, exemplarRows b)"
      show ?thesis
      proof (cases ?E)
        case (Inl e)
        then show ?thesis
          using run data H exemplarRowsLoop_error [of ?ctx "tsExemplars ts" "(s2, exemplarRows b)"]
          by (auto simp: ts_bad_def)
      next
        case (Inr se)
        obtain s3 es where E: "?E = Inr (s3, es)" using Inr by (cases se) auto
        have good: "\<not> ts_bad marshal step ts"
          using histogramRowsLoop_error [of marshal ?ctx step "tsHistograms ts" "(?s1, histogramRows b)"] H
            exemplarRowsLoop_error [of ?ctx "tsExemplars ts" "(s2, exemplarRows b)"] E ok(2)
          by (auto simp: ts_bad_def)
        let ?b = "b\<lparr>sampleRows := ?rows, histogramRows := hs, exemplarRows := es\<rparr>"
        let ?T = "sampleTimes step (tsSamples ts) @ histogramTimes step (tsHistograms ts) @ exemplarTimes (tsExemplars ts)"
        note h = histogramRowsLoop_ok [OF H] and e = exemplarRowsLoop_ok [OF E]
        have s3: "s3 = (if ?T = [] then None else Some (Min (set ?T), Max (set ?T)))"
          using h e unfolding observe_none [symmetric] foldl_append by simp
        have "set (sampleKeys (tsSampleRows h step teamID attrs ts)) = Pair sid ` set (sampleTimes step (tsSamples ts))"
          by (auto simp: sampleKeys_def tsSampleRows_def sampleTimes_def sampleRowOf_def ctx)
        moreover have "(\<lambda>r. (hrID r, hrTimestampMS r)) ` set hs
            = (\<lambda>r. (hrID r, hrTimestampMS r)) ` set (histogramRows b) \<union> Pair sid ` set (histogramTimes step (tsHistograms ts))"
          using h [THEN conjunct2, THEN arg_cong [where f = set]] by (simp add: ctx)
        moreover have "(\<lambda>r. (exrID r, exrTimestampMS r)) ` set es
            = (\<lambda>r. (exrID r, exrTimestampMS r)) ` set (exemplarRows b) \<union> Pair sid ` set (exemplarTimes (tsExemplars ts))"
          using e [THEN conjunct2, THEN arg_cong [where f = set]] by (simp add: ctx)
        ultimately have D: "batchData ?b = batchData b \<union> Pair sid ` set ?T"
          by (auto simp: batchData_def foldl_appendSampleRow_keys)
        show ?thesis
        proof (cases "?T = []")
          case True
          then have "buildTimeSeries h marshal step teamID attrs (b, index) ts = Some (Inr (?b, index))"
            using run H E s3 by simp
          moreover have "batch_inv ?b"
            using inv D True by (simp add: batch_inv_def)
          ultimately show ?thesis using good assms(2) by simp
        next
          case False
          let ?row = "\<lparr>srTeamID = teamID, srID = sid, srMetricName = m, srLabelsJSON = '''',
             srLabels = ls, srMinMS = Min (set ?T), srMaxMS = Max (set ?T)\<rparr>"
          obtain index' where add: "addRemoteWriteSeriesRecord (seriesRecords b, index) ?row
              = Some (mergeRow (seriesRecords b) ?row, index')"
            and ok': "records_ok (\<lambda>m. finite (dom m)) (\<lambda>m. m) (mergeRow (seriesRecords b) ?row, index')"
            using go_map.addSeriesRecord_merge [OF assms(2) room, of ?row]
            unfolding addRemoteWriteSeriesRecord_def by blast
          let ?b' = "?b\<lparr>seriesRecords := mergeRow (seriesRecords b) ?row\<rparr>"
          have s3': "s3 = Some (Min (set ?T), Max (set ?T))"
            using s3 False by (simp only: if_False)
          have sr: "seriesRecords ?b = seriesRecords b" by simp
          have "buildTimeSeries h marshal step teamID attrs (b, index) ts = Some (Inr (?b', index'))"
            unfolding run H Let_def by (simp only: sum.case prod.case option.case E s3' sr add)
          moreover have "batch_inv ?b'"
          proof -
            have "envelope (mergeRow (seriesRecords b) ?row) (batchData b \<union> Pair (srID ?row) ` set ?T)"
              using inv False by (intro envelope_mergeRow) (simp_all add: batch_inv_def)
            moreover have "batchData ?b' = batchData ?b" by (simp add: batchData_def)
            ultimately show ?thesis
              using inv D distinct_mergeRow [of "seriesRecords b" ?row] by (simp add: batch_inv_def)
          qed
          ultimately show ?thesis
            using good ok' length_mergeRow [of "seriesRecords b" ?row] by simp
        qed
      qed
    qed
  qed
qed

lemma buildTimeSeriesLoop_steps:
  assumes "xxhash_ok h" "go_records_ok b index" "length (seriesRecords b) + length tss \<le> 2 ^ 40" "batch_inv b"
  shows "((\<exists>ts \<in> set tss. ts_bad marshal step ts)
      \<and> (\<exists>e. buildTimeSeriesLoop h marshal step teamID attrs (b, index) tss = Some (Inl e)))
   \<or> (\<not> (\<exists>ts \<in> set tss. ts_bad marshal step ts)
      \<and> (\<exists>b' index'. buildTimeSeriesLoop h marshal step teamID attrs (b, index) tss = Some (Inr (b', index'))
          \<and> batch_inv b'
          \<and> sampleRows b' = foldl appendSampleRow (sampleRows b) (concat (map (tsSampleRows h step teamID attrs) tss))))"
  using assms(2-4)
proof (induction tss arbitrary: b index)
  case (Cons ts tss)
  have "length (seriesRecords b) < 2 ^ 40" using Cons.prems(2) by simp
  from buildTimeSeries_step [OF assms(1) Cons.prems(1) this Cons.prems(3), of marshal step ts teamID attrs]
  show ?case
  proof (elim disjE conjE exE)
    fix e assume "buildTimeSeries h marshal step teamID attrs (b, index) ts = Some (Inl e)" "ts_bad marshal step ts"
    then show ?thesis by simp
  next
    fix b1 index1
    assume s: "\<not> ts_bad marshal step ts"
      "buildTimeSeries h marshal step teamID attrs (b, index) ts = Some (Inr (b1, index1))"
      "go_records_ok b1 index1" "batch_inv b1" "length (seriesRecords b1) \<le> Suc (length (seriesRecords b))"
      "sampleRows b1 = foldl appendSampleRow (sampleRows b) (tsSampleRows h step teamID attrs ts)"
    have "length (seriesRecords b1) + length tss \<le> 2 ^ 40" using s(5) Cons.prems(2) by simp
    from Cons.IH [OF s(3) this s(4)] show ?thesis
      using s(1,2,6) by simp
  qed
qed simp

section \<open>Collapsing consecutive samples\<close>

text \<open>Of each maximal run of rows with the same series and bucket the last one.\<close>

fun lastOfRuns :: "('a \<Rightarrow> 'k) \<Rightarrow> 'a list \<Rightarrow> 'a list" where
  "lastOfRuns key [] = []"
| "lastOfRuns key [x] = [x]"
| "lastOfRuns key (x # y # ys) =
     (if key x = key y then lastOfRuns key (y # ys) else x # lastOfRuns key (y # ys))"

abbreviation point :: "remoteWriteSampleRow \<Rightarrow> (u64 \<times> int) \<times> f64" where
  "point r \<equiv> ((smID r, smTimestampMS r), smValue r)"

lemma lastOfRuns_Nil [simp]: "lastOfRuns key xs = [] \<longleftrightarrow> xs = []"
  by (induction key xs rule: lastOfRuns.induct) simp_all

lemma lastOfRuns_last: "xs \<noteq> [] \<Longrightarrow> last (lastOfRuns key xs) = last xs"
  by (induction key xs rule: lastOfRuns.induct) simp_all

lemma lastOfRuns_snoc:
  "lastOfRuns key (xs @ [x]) =
     (if xs \<noteq> [] \<and> key (last xs) = key x then butlast (lastOfRuns key xs) @ [x] else lastOfRuns key xs @ [x])"
  by (induction key xs rule: lastOfRuns.induct) auto

lemma appendSampleRow_snoc:
  "map point (appendSampleRow rows row) =
     (if rows \<noteq> [] \<and> fst (point (last rows)) = fst (point row)
      then butlast (map point rows) @ [point row] else map point rows @ [point row])"
proof (cases rows rule: rev_cases)
  case (snoc ys y)
  then show ?thesis by (simp add: appendSampleRow_def)
qed (simp add: appendSampleRow_def)

lemma foldl_appendSampleRow:
  "map point (foldl appendSampleRow [] rows) = lastOfRuns fst (map point rows)"
proof (induction rows rule: rev_induct)
  case (snoc row rows)
  let ?acc = "foldl appendSampleRow [] rows"
  have e: "?acc = [] \<longleftrightarrow> rows = []"
    using arg_cong [OF snoc, of "\<lambda>xs. xs = []"] by (simp only: map_is_Nil_conv lastOfRuns_Nil)
  show ?case
  proof (cases "rows = []")
    case True
    then show ?thesis by (simp add: appendSampleRow_def)
  next
    case False
    have "point (last ?acc) = last (map point ?acc)"
      using False e by (simp only: last_map not_False_eq_True)
    also have "\<dots> = point (last rows)"
      unfolding snoc using False by (simp add: lastOfRuns_last last_map)
    finally have l: "point (last ?acc) = point (last rows)" .
    have "map point (foldl appendSampleRow [] (rows @ [row]))
        = (if fst (point (last rows)) = fst (point row)
           then butlast (lastOfRuns fst (map point rows)) @ [point row]
           else lastOfRuns fst (map point rows) @ [point row])"
      unfolding foldl_append foldl.simps appendSampleRow_snoc snoc l using False e by (simp only: simp_thms)
    also have "\<dots> = lastOfRuns fst (map point rows @ [point row])"
      unfolding lastOfRuns_snoc using False by (simp only: map_is_Nil_conv last_map simp_thms)
    finally show ?thesis by simp
  qed
qed simp

text \<open>The samples of a request, before collapsing.\<close>

definition requestPoints :: "'d xxhash \<Rightarrow> int \<Rightarrow> 'h prompbWriteRequest \<Rightarrow> ((u64 \<times> int) \<times> f64) list" where
  "requestPoints h step req =
     concat (map (\<lambda>ts. map (\<lambda>s. ((ctxID (seriesContextOf h 0 False ts),
                                    bucketTimestampForStepMS (pbTimestamp s) step), pbSampleValue s))
                        (keptSamples (tsSamples ts))) (rqTimeseries req))"

lemma ctxID_indep: "ctxID (seriesContextOf h teamID attrs ts) = ctxID (seriesContextOf h 0 False ts)"
  by (auto simp: seriesContextOf_def split: prod.split sum.split)

lemma requestPoints_rows:
  "map point (concat (map (tsSampleRows h step teamID attrs) (rqTimeseries req))) = requestPoints h step req"
  by (simp add: requestPoints_def map_concat comp_def tsSampleRows_def sampleRowOf_def ctxID_indep [of h teamID attrs])

text \<open>The builder, whole.\<close>

lemma batch_inv_empty: "batch_inv ((emptyBatch data)\<lparr>metadataRows := md\<rparr>)"
  by (simp add: batch_inv_def emptyBatch_def envelope_def batchData_def sampleKeys_def)

lemma buildRemoteWriteBatch_run:
  fixes req :: "'h prompbWriteRequest" and interval :: int
    and marshal :: "'h prompbHistogram \<Rightarrow> rw_error + bytes"
  assumes "xxhash_ok h" "length (rqTimeseries req) \<le> 2 ^ 40"
  defines "bad \<equiv> \<exists>ts \<in> set (rqTimeseries req). ts_bad marshal (durationMilliseconds interval) ts"
  shows "(bad \<and> (\<exists>e. buildRemoteWriteBatch h marshal now req interval teamID attrs = Some (Inl e)))
   \<or> (\<not> bad \<and> (\<exists>b. buildRemoteWriteBatch h marshal now req interval teamID attrs = Some (Inr b)
        \<and> batch_inv b \<and> seriesCount b = length (seriesRecords b) \<and> sampleCount b = length (sampleRows b)
        \<and> map point (sampleRows b) = lastOfRuns fst (requestPoints h (durationMilliseconds interval) req)))"
proof -
  let ?step = "durationMilliseconds interval"
  let ?b0 = "(emptyBatch [])\<lparr>metadataRows := metadataRowsOf teamID now (rqMetadata req)\<rparr>"
  have ok: "go_records_ok ?b0 Map.empty"
    by (simp add: records_ok_def emptyBatch_def positions_def)
  have room: "length (seriesRecords ?b0) + length (rqTimeseries req) \<le> 2 ^ 40"
    using assms(2) by (simp add: emptyBatch_def)
  have s0: "sampleRows ?b0 = []" by (simp add: emptyBatch_def)
  let ?res = "buildTimeSeriesLoop h marshal ?step teamID attrs (?b0, Map.empty) (rqTimeseries req)"
  from buildTimeSeriesLoop_steps [OF assms(1) ok room batch_inv_empty, of marshal ?step teamID attrs]
  show ?thesis
  proof (elim disjE conjE exE)
    fix e assume "\<exists>ts \<in> set (rqTimeseries req). ts_bad marshal ?step ts" and r: "?res = Some (Inl e)"
    then have bad unfolding bad_def by blast
    moreover have "buildRemoteWriteBatch h marshal now req interval teamID attrs = Some (Inl e)"
      unfolding buildRemoteWriteBatch_def Let_def r by simp
    ultimately show ?thesis by blast
  next
    fix b index
    assume run: "?res = Some (Inr (b, index))" "\<not> (\<exists>ts \<in> set (rqTimeseries req). ts_bad marshal ?step ts)"
      "batch_inv b"
      "sampleRows b = foldl appendSampleRow (sampleRows ?b0) (concat (map (tsSampleRows h ?step teamID attrs) (rqTimeseries req)))"
    then have "map point (sampleRows b) = lastOfRuns fst (requestPoints h ?step req)"
      unfolding s0 by (simp only: foldl_appendSampleRow requestPoints_rows)
    moreover have "batch_inv (b\<lparr>seriesCount := n, sampleCount := k, histogramCount := x, exemplarCount := y, metadataCount := z\<rparr>)"
      for n k x y z using run(3) by (simp add: batch_inv_def batchData_def)
    moreover have "\<not> bad" using run(2) unfolding bad_def by blast
    ultimately show ?thesis
      unfolding buildRemoteWriteBatch_def Let_def run(1) by simp
  qed
qed

section \<open>The labels of a series as JSON\<close>

definition labelMember :: "(nat \<Rightarrow> bool) \<Rightarrow> remoteWriteLabel \<Rightarrow> string" where
  "labelMember isPrint l = appendQuote isPrint '''' (lblName l) @ '':'' @ appendQuote isPrint '''' (lblValue l)"

definition jsonLabels :: "remoteWriteLabel list \<Rightarrow> remoteWriteLabel list" where
  "jsonLabels = filter (\<lambda>l. lblName l \<noteq> metricNameLabel)"

definition labelSafe :: "(nat \<Rightarrow> bool) \<Rightarrow> remoteWriteLabel \<Rightarrow> bool" where
  "labelSafe isPrint l \<longleftrightarrow> jsonSafe isPrint (lblName l) \<and> jsonSafe isPrint (lblValue l)"

lemma appendQuote_append: "appendQuote isPrint buf s = buf @ appendQuote isPrint '''' s"
  by (simp add: appendQuote_def)

lemma labelsJSONLoop_join:
  assumes "'''' \<notin> set (map lblName ls)"
  shows "labelsJSONLoop isPrint buf first ls
     = Inr (buf @ (if first \<or> jsonLabels ls = [] then '''' else '','')
              @ joinComma (map (labelMember isPrint) (jsonLabels ls)) @ ''}'')"
  using assms
proof (induction ls arbitrary: buf first)
  case (Cons l ls)
  have q: "appendQuote isPrint (appendQuote isPrint b (lblName l) @ '':'') (lblValue l) = b @ labelMember isPrint l" for b
    using appendQuote_append [of isPrint b "lblName l"]
      appendQuote_append [of isPrint "appendQuote isPrint b (lblName l) @ '':''" "lblValue l"]
    by (simp add: labelMember_def)
  show ?case
    using Cons by (auto simp: jsonLabels_def Let_def q joinComma_Cons)
qed (simp add: jsonLabels_def)

lemma readString_appendQuote:
  "readString (appendQuote isPrint '''' s @ rest) = (if jsonSafe isPrint s then Some (s, rest) else None)"
proof -
  obtain body where b: "appendQuote isPrint '''' s = dquote # body"
    "jsonChars (body @ rest) = (if jsonSafe isPrint s then Some (s, rest) else None)"
    using jsonChars_appendQuote [of isPrint "''''" s rest] by auto
  then show ?thesis by (simp add: readString_def)
qed

lemma readPair_labelMember:
  "readPair (labelMember isPrint l @ rest)
   = (if labelSafe isPrint l then Some ((lblName l, lblValue l), rest) else None)"
  by (simp add: readPair_def labelMember_def readString_appendQuote labelSafe_def)

lemma readElems_unsafe:
  assumes "\<forall>x \<in> set xs. \<forall>r. rd (w x @ r) = (if good x then Some (v x, r) else None)"
    and "\<exists>x \<in> set xs. \<not> good x" "close \<noteq> CHR '',''"
  shows "readElems n rd close (joinComma (map w xs) @ close # rest) = None"
  using assms
proof (induction xs arbitrary: n)
  case (Cons x xs)
  have rd: "\<And>r. rd (w x @ r) = (if good x then Some (v x, r) else None)"
    using Cons.prems(1) by simp
  show ?case
  proof (cases n)
    case (Suc k)
    show ?thesis
    proof (cases "good x")
      case True
      then have "\<exists>x \<in> set xs. \<not> good x" "xs \<noteq> []" using Cons.prems(2) by auto
      moreover from this have "readElems k rd close (joinComma (map w xs) @ close # rest) = None"
        using Cons.prems by (intro Cons.IH) auto
      ultimately show ?thesis
        using Suc True rd Cons.prems(3) by (simp add: joinComma_Cons)
    next
      case False
      have "\<exists>t. joinComma (map w (x # xs)) @ close # rest = w x @ t"
        by (cases xs) (auto simp: joinComma_Cons)
      then show ?thesis
        using Suc False rd by (metis (no_types, lifting) option.simps(4) readElems.simps(2))
    qed
  qed simp
qed simp

lemma readObject_labels:
  "readObject (CHR ''{'' # joinComma (map (labelMember isPrint) ls) @ ''}'')
   = (if list_all (labelSafe isPrint) ls then Some (map (\<lambda>l. (lblName l, lblValue l)) ls, '''') else None)"
proof -
  have hd: "\<forall>l \<in> set ls. labelMember isPrint l \<noteq> [] \<and> hd (labelMember isPrint l) \<noteq> CHR ''}''"
    by (simp add: labelMember_def appendQuote_def)
  show ?thesis
  proof (cases "list_all (labelSafe isPrint) ls")
    case True
    have "readSeq readPair CHR ''{'' CHR ''}'' (CHR ''{'' # joinComma (map (labelMember isPrint) ls) @ CHR ''}'' # '''')
        = Some (map (\<lambda>l. (lblName l, lblValue l)) ls, '''')"
      by (rule readSeq_join) (use True hd in \<open>auto simp: readPair_labelMember list_all_iff\<close>)
    then show ?thesis using True by (simp add: readObject_def)
  next
    case False
    then have ne: "ls \<noteq> []" and ex: "\<exists>l \<in> set ls. \<not> labelSafe isPrint l" by (auto simp: list_all_iff)
    have "hd (joinComma (map (labelMember isPrint) ls) @ ''}'') \<noteq> CHR ''}''" "joinComma (map (labelMember isPrint) ls) \<noteq> []"
      using ne hd by (cases ls; cases "tl ls"; simp add: joinComma_Cons)+
    moreover have "readElems n readPair CHR ''}'' (joinComma (map (labelMember isPrint) ls) @ CHR ''}'' # '''') = None" for n
      by (rule readElems_unsafe [where good = "labelSafe isPrint" and v = "\<lambda>l. (lblName l, lblValue l)"])
        (use ex in \<open>simp_all add: readPair_labelMember\<close>)
    ultimately show ?thesis using False by (simp add: readObject_def readSeq_def)
  qed
qed

section \<open>A small request\<close>

definition demoRequest :: "unit prompbWriteRequest" where
  "demoRequest =
     \<lparr>rqTimeseries =
        [\<lparr>tsLabels = [\<lparr>pbName = ''job'', pbValue = ''a''\<rparr>, \<lparr>pbName = ''__name__'', pbValue = ''up''\<rparr>],
           tsSamples = [\<lparr>pbTimestamp = 1500, pbSampleValue = 7\<rparr>, \<lparr>pbTimestamp = 1600, pbSampleValue = 0x7ff8000000000001\<rparr>,
             \<lparr>pbTimestamp = 1700, pbSampleValue = 8\<rparr>],
           tsHistograms = [], tsExemplars = []\<rparr>],
      rqMetadata = []\<rparr>"

lemma demo_good:
  "\<not> (\<exists>ts \<in> set (rqTimeseries demoRequest). ts_bad (\<lambda>_. Inr []) (durationMilliseconds 1000000000) ts)"
  by (simp add: demoRequest_def ts_bad_def remoteWriteLabelsFromPrompb_def labels_valid_def metricNameLabel_def)

lemma demo_small: "length (rqTimeseries demoRequest) \<le> 2 ^ 40"
  by (simp add: demoRequest_def)

lemma demo_builds:
  "\<exists>b. buildRemoteWriteBatch sumHash (\<lambda>_. Inr []) 0 demoRequest 1000000000 1 False = Some (Inr b)"
  using buildRemoteWriteBatch_run [OF sumHash_ok, where req = demoRequest and interval = 1000000000
    and marshal = "\<lambda>_. Inr []" and now = 0 and teamID = 1 and attrs = False] demo_good demo_small
  by blast

lemma demo_points: "requestPoints sumHash 1000 demoRequest
   = [((ctxID (seriesContextOf sumHash 0 False (hd (rqTimeseries demoRequest))), 1000), 7),
      ((ctxID (seriesContextOf sumHash 0 False (hd (rqTimeseries demoRequest))), 1000), 8)]"
proof -
  have "isRemoteWriteSampleDroppable 0x7ff8000000000001" "\<not> isRemoteWriteSampleDroppable 7" "\<not> isRemoteWriteSampleDroppable 8"
    by code_simp+
  moreover have "bucketTimestampForStepMS 1500 1000 = 1000" "bucketTimestampForStepMS 1700 1000 = 1000"
    by code_simp+
  ultimately show ?thesis
    by (simp add: requestPoints_def demoRequest_def keptSamples_def)
qed

section \<open>Properties\<close>

text \<open>A bucket is the start of the interval that holds the timestamp: a multiple of the step, at most
  one step before the timestamp (also for negative timestamps, where Go's remainder is negative),
  and a bucket is its own bucket.\<close>

theorem bucket_is_interval_start:
  assumes "0 < step" "in_i64 step" "in_i64 t" "- (2 ^ 63) \<le> t - t mod step"
  shows "step dvd bucketTimestampForStepMS t step
     \<and> bucketTimestampForStepMS t step \<le> t \<and> t < bucketTimestampForStepMS t step + step
     \<and> bucketTimestampForStepMS (bucketTimestampForStepMS t step) step = bucketTimestampForStepMS t step"
proof -
  let ?b = "t - t mod step"
  have b: "bucketTimestampForStepMS t step = ?b" by (rule bucket_floor [OF assms])
  have d: "step dvd ?b" by (simp add: minus_mod_eq_mult_div)
  have r: "0 \<le> t mod step" "t mod step < step" using assms(1) by simp_all
  then have "in_i64 ?b" using assms(3,4) by (auto simp: in_i64_def)
  moreover have "?b mod step = 0" using d by simp
  ultimately have "bucketTimestampForStepMS ?b step = ?b"
    using bucket_mod [OF assms(1,2), of ?b] by simp
  then show ?thesis using b d r by simp
qed

theorem bucket_is_interval_start_witness: "1000 dvd bucketTimestampForStepMS (-1) 1000"
  by (rule bucket_is_interval_start [THEN conjunct1]) (simp_all add: in_i64_def)

text \<open>The labels column: for labels with non-empty names the writer succeeds, and its text is the
  JSON object of all labels but __name__, in order, exactly when every rune of every name and value
  is valid UTF-8 and printable, one of the five short escapes or escaped as four hex digits;
  otherwise (a control character, an invalid byte, a non-printable rune above U+FFFF) the text is
  not JSON at all, because strconv.AppendQuote writes Go syntax.\<close>

theorem labels_json_iff_safe:
  assumes "ls \<noteq> []" "'''' \<notin> set (map lblName ls)"
  shows "\<exists>text. labelsJSONFromRemoteWriteLabels isPrint ls = Inr text
     \<and> readObject text
       = (if list_all (labelSafe isPrint) (jsonLabels ls)
          then Some (map (\<lambda>l. (lblName l, lblValue l)) (jsonLabels ls), '''') else None)"
  using labelsJSONLoop_join [OF assms(2), of isPrint "''{''" True] assms(1) readObject_labels
  by (simp add: labelsJSONFromRemoteWriteLabels_def)

theorem labels_json_iff_safe_witness:
  "\<exists>text. labelsJSONFromRemoteWriteLabels (\<lambda>_. False) [\<lparr>lblName = ''a'', lblValue = [CHR 0x01]\<rparr>] = Inr text
     \<and> readObject text = None"
proof -
  let ?ls = "[\<lparr>lblName = ''a'', lblValue = [CHR 0x01]\<rparr>]"
  have "runes [CHR 0x01] = [(1, [CHR 0x01])]"
    by (simp add: runes.simps [of "[CHR 0x01]"] decodeRune_def of_char_def)
  then have "\<not> list_all (labelSafe (\<lambda>_. False)) (jsonLabels ?ls)"
    by (simp add: labelSafe_def jsonLabels_def metricNameLabel_def jsonSafe_def jsonSafeRune_def isPrintRune_def)
  with labels_json_iff_safe [of ?ls "\<lambda>_. False"] show ?thesis by simp
qed

text \<open>C5. The reference builder never panics and never loses an error: it rejects a request exactly when
  some series with data has labels that are not valid, a histogram that cannot be encoded or an
  exemplar (other than a NaN one) with an empty or repeated label name. A series without data is
  never a reason.\<close>

theorem builder_rejects_iff:
  assumes "xxhash_ok h" "length (rqTimeseries req) \<le> 2 ^ 40"
  shows "\<exists>r. buildRemoteWriteBatch h marshal now req interval teamID attrs = Some r
     \<and> ((\<exists>e. r = Inl e) \<longleftrightarrow> (\<exists>ts \<in> set (rqTimeseries req). ts_bad marshal (durationMilliseconds interval) ts))"
  using buildRemoteWriteBatch_run [OF assms, of marshal interval now teamID attrs] by auto

theorem builder_rejects_iff_witness:
  "(\<exists>b. buildRemoteWriteBatch sumHash (\<lambda>_. Inr []) 0 demoRequest 1000000000 1 False = Some (Inr b))
   \<and> (\<exists>e. buildRemoteWriteBatch sumHash (\<lambda>_. Inl MarshalFailed) 0
          (demoRequest\<lparr>rqTimeseries := [\<lparr>tsLabels = [], tsSamples = [\<lparr>pbTimestamp = 1, pbSampleValue = 0\<rparr>],
             tsHistograms = [], tsExemplars = []\<rparr>]\<rparr>) 1000000000 1 False = Some (Inl e))"
  (is "?A \<and> ?B")
proof
  obtain r where r: "buildRemoteWriteBatch sumHash (\<lambda>_. Inr []) 0 demoRequest 1000000000 1 False = Some r"
    "(\<exists>e. r = Inl e) \<longleftrightarrow> (\<exists>ts \<in> set (rqTimeseries demoRequest). ts_bad (\<lambda>_. Inr []) (durationMilliseconds 1000000000) ts)"
    using builder_rejects_iff [OF sumHash_ok, of demoRequest "\<lambda>_. Inr []" 0 1000000000 1 False]
    by (auto simp: demoRequest_def)
  show ?A using r demo_good by (cases r) auto
next
  let ?req = "demoRequest\<lparr>rqTimeseries := [\<lparr>tsLabels = [], tsSamples = [\<lparr>pbTimestamp = 1, pbSampleValue = 0\<rparr>],
             tsHistograms = [], tsExemplars = []\<rparr>]\<rparr>"
  have "\<exists>ts \<in> set (rqTimeseries ?req). ts_bad (\<lambda>_. Inl MarshalFailed) (durationMilliseconds 1000000000) ts"
    by (simp add: ts_bad_def hasData_def remoteWriteLabelsFromPrompb_def labels_valid_def)
  then show ?B
    using builder_rejects_iff [OF sumHash_ok, of ?req "\<lambda>_. Inl MarshalFailed" 0 1000000000 1 False] by auto
qed

text \<open>C3. Invariant of every batch: there is one series record for each id, every sample, histogram and
  exemplar row lies in the time range of the record of its id, and both ends of every range are
  times of rows of that id.\<close>

theorem builder_envelope:
  assumes "xxhash_ok h" "length (rqTimeseries req) \<le> 2 ^ 40"
    and "buildRemoteWriteBatch h marshal now req interval teamID attrs = Some (Inr b)"
  shows "distinct (map srID (seriesRecords b)) \<and> envelope (seriesRecords b) (batchData b)"
  using buildRemoteWriteBatch_run [OF assms(1,2), of marshal interval now teamID attrs] assms(3)
  by (auto simp: batch_inv_def)

theorem builder_envelope_witness:
  "\<exists>b. buildRemoteWriteBatch sumHash (\<lambda>_. Inr []) 0 demoRequest 1000000000 1 False = Some (Inr b)
     \<and> envelope (seriesRecords b) (batchData b)"
proof -
  obtain b where b: "buildRemoteWriteBatch sumHash (\<lambda>_. Inr []) 0 demoRequest 1000000000 1 False = Some (Inr b)"
    using demo_builds by blast
  with builder_envelope [OF sumHash_ok demo_small b] show ?thesis by blast
qed

text \<open>C4. The sample rows of a batch are the samples of the request that are not droppable (NaN but not
  the stale marker), in order, with the id of their series and the bucket of their timestamp, and of
  each run of consecutive samples of one series and bucket only the last value; the counts are the
  lengths.\<close>

theorem builder_samples:
  assumes "xxhash_ok h" "length (rqTimeseries req) \<le> 2 ^ 40"
    and "buildRemoteWriteBatch h marshal now req interval teamID attrs = Some (Inr b)"
  shows "map (\<lambda>r. ((smID r, smTimestampMS r), smValue r)) (sampleRows b)
       = lastOfRuns fst (requestPoints h (durationMilliseconds interval) req)
     \<and> sampleCount b = length (sampleRows b) \<and> seriesCount b = length (seriesRecords b)"
  using buildRemoteWriteBatch_run [OF assms(1,2), of marshal interval now teamID attrs] assms(3) by auto

theorem builder_samples_witness:
  "\<exists>b sid. buildRemoteWriteBatch sumHash (\<lambda>_. Inr []) 0 demoRequest 1000000000 1 False = Some (Inr b)
     \<and> map (\<lambda>r. ((smID r, smTimestampMS r), smValue r)) (sampleRows b) = [((sid, 1000), 8)]"
proof -
  obtain b where b: "buildRemoteWriteBatch sumHash (\<lambda>_. Inr []) 0 demoRequest 1000000000 1 False = Some (Inr b)"
    using demo_builds by blast
  have d: "durationMilliseconds 1000000000 = 1000" by code_simp
  from builder_samples [OF sumHash_ok demo_small b] show ?thesis
    using b unfolding d demo_points by auto
qed

end
