(* ===== verification/FastBatch.thy ===== *)
theory FastBatch
  imports RemoteBatch
begin

text \<open>
  The remote-write fast path (buildRemoteWriteBatchFromProto, parseFastTimeSeries, appendFastSample
  and the label lookup populateSeriesLabelsJSONFromProto of src/internal/snuffle/remote_fast.go): it
  builds the batch from the bytes of the request, without the decoder of prompb, and hands the
  request back when it meets something it does not handle.

  The main theorem compares it with the reference builder of \<open>RemoteBatch\<close> on the encoding of any
  well-formed request, with fields in any order, repeated attributes and unknown fields. The results
  that can panic are options, as in \<open>RemoteBatch\<close>.
\<close>

section \<open>The time series parser\<close>

type_synonym 'd tsState = "'d remoteWriteFastIdentity \<times> remoteWriteFastSample list \<times> bool"

function fastSeriesLoop ::
  "'d xxhash \<Rightarrow> bytes \<Rightarrow> nat \<Rightarrow> 'd tsState \<Rightarrow> rw_error + (bool \<times> 'd tsState)" where
  "fastSeriesLoop h data i (identity, samples, sawSample) =
     (if i < length data then
        (case readProtoVarint data i of
           Inl e \<Rightarrow> Inl e
         | Inr (key, i1) \<Rightarrow>
             let fieldNum = keyField key; wireType = keyWire key in
             if fieldNum = 0 then Inl (InvalidFieldNumber ''timeseries'' fieldNum)
             else if fieldNum = 1 then
               (if wireType \<noteq> protoWireBytes then Inl (BadWireType ''label'' wireType)
                else case readProtoBytes data i1 of
                       Inl e \<Rightarrow> Inl e
                     | Inr (message, i2) \<Rightarrow>
                         (case addProtoLabel h identity message of
                            Inl e \<Rightarrow> Inl e
                          | Inr (ok, identity') \<Rightarrow>
                              if ok then fastSeriesLoop h data i2 (identity', samples, sawSample)
                              else Inr (False, identity', samples, sawSample)))
             else if fieldNum = 2 then
               (if wireType \<noteq> protoWireBytes then Inl (BadWireType ''sample'' wireType)
                else case readProtoBytes data i1 of
                       Inl e \<Rightarrow> Inl e
                     | Inr (message, i2) \<Rightarrow>
                         (case parseFastSample message of
                            Inl e \<Rightarrow> Inl e
                          | Inr sample \<Rightarrow>
                              fastSeriesLoop h data i2
                                (identity,
                                 if isRemoteWriteSampleDroppable (smpValue sample) then samples else samples @ [sample],
                                 True)))
             else if fieldNum = 3 \<or> fieldNum = 4 then Inr (False, identity, samples, sawSample)
             else
               (case skipProtoField data i1 wireType of
                  Inl e \<Rightarrow> Inl e
                | Inr i2 \<Rightarrow> fastSeriesLoop h data i2 (identity, samples, sawSample)))
      else Inr (True, identity, samples, sawSample))"
  by pat_completeness auto
termination
  by (relation "measure (\<lambda>(h, d, i, _). length d - i)")
    (auto dest!: readProtoVarint_progress readProtoBytes_progress skipProtoField_progress)

declare fastSeriesLoop.simps [simp del]

definition appendFastSample ::
  "remoteWriteSampleColumns \<Rightarrow> u64 \<Rightarrow> string \<Rightarrow> int \<Rightarrow> u64 \<Rightarrow> f64 \<Rightarrow> remoteWriteSampleColumns" where
  "appendFastSample c teamID metricName timestampMS sid v =
     c\<lparr>colTeamIDs := colTeamIDs c @ [teamID], colMetricNames := colMetricNames c @ [metricName],
       colTimestamps := colTimestamps c @ [timestampMS], colIDs := colIDs c @ [sid],
       colValues := colValues c @ [v]\<rparr>"

fun fastSamplesLoop ::
  "int \<Rightarrow> u64 \<Rightarrow> string \<Rightarrow> u64 \<Rightarrow> remoteWriteFastSample list \<Rightarrow> (int \<times> int) option \<times> remoteWriteSampleColumns
   \<Rightarrow> (int \<times> int) option \<times> remoteWriteSampleColumns" where
  "fastSamplesLoop step teamID metricName sid [] st = st"
| "fastSamplesLoop step teamID metricName sid (sample # samples) (span, c) =
     (let bucketMS = bucketTimestampForStepMS (smpTimestamp sample) step;
          count = columnsCount c;
          c' = (if count > 0 \<and> colIDs c ! (count - 1) = sid \<and> colTimestamps c ! (count - 1) = bucketMS
                then c\<lparr>colValues := (colValues c)[count - 1 := smpValue sample]\<rparr>
                else appendFastSample c teamID metricName bucketMS sid (smpValue sample))
      in fastSamplesLoop step teamID metricName sid samples (observeTime span bucketMS, c'))"

definition parseFastTimeSeries ::
  "'d xxhash \<Rightarrow> bytes \<Rightarrow> remoteWriteBatch \<times> remoteWriteFastSeriesIndex \<Rightarrow> int \<Rightarrow> u64
   \<Rightarrow> (rw_error + (bool \<times> remoteWriteBatch \<times> remoteWriteFastSeriesIndex)) option" where
  "parseFastTimeSeries h data st step teamID =
     (let (batch, index) = st in
      case fastSeriesLoop h data 0 (fiReset h, [], False) of
        Inl e \<Rightarrow> Some (Inl e)
      | Inr (ok, identity, samples, sawSample) \<Rightarrow>
          if \<not> ok then Some (Inr (False, batch, index))
          else if \<not> sawSample then Some (Inr (True, batch, index))
          else
            (case fiFinish h identity of
               Inl e \<Rightarrow> Some (Inl e)
             | Inr (sid, metricName) \<Rightarrow>
                 (case fastSamplesLoop step teamID metricName sid samples (None, sampleColumns batch) of
                    (None, _) \<Rightarrow> Some (Inr (True, batch, index))
                  | (Some (minMS, maxMS), c) \<Rightarrow>
                      (case addFastSeriesRecord (seriesRecords batch, index) sid teamID metricName minMS maxMS of
                         None \<Rightarrow> None
                       | Some (records, index') \<Rightarrow>
                           Some (Inr (True, batch\<lparr>sampleColumns := c, seriesRecords := records\<rparr>, index'))))))"

section \<open>The request parser\<close>

function fastRequestLoop ::
  "'d xxhash \<Rightarrow> bytes \<Rightarrow> nat \<Rightarrow> int \<Rightarrow> u64 \<Rightarrow> remoteWriteBatch \<times> remoteWriteFastSeriesIndex
   \<Rightarrow> (rw_error + (bool \<times> remoteWriteBatch \<times> remoteWriteFastSeriesIndex)) option" where
  "fastRequestLoop h data i step teamID st =
     (if i < length data then
        (case readProtoVarint data i of
           Inl e \<Rightarrow> Some (Inl e)
         | Inr (key, i1) \<Rightarrow>
             let fieldNum = keyField key; wireType = keyWire key in
             if fieldNum = 0 then Some (Inl (InvalidFieldNumber ''request'' fieldNum))
             else if fieldNum = 1 then
               (if wireType \<noteq> protoWireBytes then Some (Inl (BadWireType ''timeseries'' wireType))
                else case readProtoBytes data i1 of
                       Inl e \<Rightarrow> Some (Inl e)
                     | Inr (message, i2) \<Rightarrow>
                         (case parseFastTimeSeries h message st step teamID of
                            None \<Rightarrow> None
                          | Some (Inl e) \<Rightarrow> Some (Inl e)
                          | Some (Inr (ok, st')) \<Rightarrow>
                              if ok then fastRequestLoop h data i2 step teamID st' else Some (Inr (False, st'))))
             else if fieldNum = 3 then Some (Inr (False, st))
             else
               (case skipProtoField data i1 wireType of
                  Inl e \<Rightarrow> Some (Inl e)
                | Inr i2 \<Rightarrow> fastRequestLoop h data i2 step teamID st))
      else Some (Inr (True, st)))"
  by pat_completeness auto
termination
  by (relation "measure (\<lambda>(h, d, i, _). length d - i)")
    (auto dest!: readProtoVarint_progress readProtoBytes_progress skipProtoField_progress)

declare fastRequestLoop.simps [simp del]

definition buildRemoteWriteBatchFromProto ::
  "'d xxhash \<Rightarrow> bytes \<Rightarrow> int \<Rightarrow> u64 \<Rightarrow> (rw_error + (remoteWriteBatch \<times> bool)) option" where
  "buildRemoteWriteBatchFromProto h data sampleInterval teamID =
     (let capHint = length data div 256;
          capHint = (if capHint < 1 then 1 else capHint);
          batch = emptyBatch data;
          seriesIndexByID = newRemoteWriteFastSeriesIndex capHint
      in case fastRequestLoop h data 0 (durationMilliseconds sampleInterval) teamID (batch, seriesIndexByID) of
           None \<Rightarrow> None
         | Some (Inl e) \<Rightarrow> Some (Inl e)
         | Some (Inr (ok, batch, _)) \<Rightarrow>
             if ok then
               Some (Inr (batch\<lparr>seriesCount := length (seriesRecords batch),
                                sampleCount := columnsCount (sampleColumns batch)\<rparr>, True))
             else Some (Inr (emptyBatch [], False)))"

section \<open>Requests on the wire\<close>

datatype tsField = TsLabel "field list" | TsSample "field list" | TsOther field
datatype reqField = ReqSeries "tsField list" | ReqOther field

fun tsFieldWire :: "tsField \<Rightarrow> field" where
  "tsFieldWire (TsLabel fs) = (1, WBytes (encodeFields fs))"
| "tsFieldWire (TsSample fs) = (2, WBytes (encodeFields fs))"
| "tsFieldWire (TsOther f) = f"

fun tsField_ok :: "tsField \<Rightarrow> bool" where
  "tsField_ok (TsLabel fs) \<longleftrightarrow> list_all label_field_ok fs \<and> length (encodeFields fs) < 2 ^ 64"
| "tsField_ok (TsSample fs) \<longleftrightarrow> list_all sample_field_ok fs \<and> length (encodeFields fs) < 2 ^ 64"
| "tsField_ok (TsOther f) \<longleftrightarrow> field_ok f \<and> 4 < fst f"

definition encodeSeries :: "tsField list \<Rightarrow> bytes" where
  "encodeSeries fs = encodeFields (map tsFieldWire fs)"

fun reqFieldWire :: "reqField \<Rightarrow> field" where
  "reqFieldWire (ReqSeries fs) = (1, WBytes (encodeSeries fs))"
| "reqFieldWire (ReqOther f) = f"

fun reqField_ok :: "reqField \<Rightarrow> bool" where
  "reqField_ok (ReqSeries fs) \<longleftrightarrow> list_all tsField_ok fs \<and> length (encodeSeries fs) < 2 ^ 64"
| "reqField_ok (ReqOther f) \<longleftrightarrow> field_ok f \<and> fst f \<notin> {1, 3}"

definition encodeRequest :: "reqField list \<Rightarrow> bytes" where
  "encodeRequest fs = encodeFields (map reqFieldWire fs)"

text \<open>The message that these bytes stand for.\<close>

fun seriesLabels :: "tsField list \<Rightarrow> remoteWriteLabel list" where
  "seriesLabels [] = []"
| "seriesLabels (TsLabel fs # rest) = labelOf fs # seriesLabels rest"
| "seriesLabels (_ # rest) = seriesLabels rest"

fun seriesSamples :: "tsField list \<Rightarrow> remoteWriteFastSample list" where
  "seriesSamples [] = []"
| "seriesSamples (TsSample fs # rest) = sampleOf fs # seriesSamples rest"
| "seriesSamples (_ # rest) = seriesSamples rest"

definition decodeSeries :: "tsField list \<Rightarrow> 'h prompbTimeSeries" where
  "decodeSeries fs =
     \<lparr>tsLabels = map (\<lambda>l. \<lparr>pbName = lblName l, pbValue = lblValue l\<rparr>) (seriesLabels fs),
      tsSamples = map (\<lambda>s. \<lparr>pbTimestamp = smpTimestamp s, pbSampleValue = smpValue s\<rparr>) (seriesSamples fs),
      tsHistograms = [], tsExemplars = []\<rparr>"

fun requestSeries :: "reqField list \<Rightarrow> tsField list list" where
  "requestSeries [] = []"
| "requestSeries (ReqSeries fs # rest) = fs # requestSeries rest"
| "requestSeries (ReqOther _ # rest) = requestSeries rest"

definition decodeRequest :: "reqField list \<Rightarrow> 'h prompbWriteRequest" where
  "decodeRequest fs = \<lparr>rqTimeseries = map decodeSeries (requestSeries fs), rqMetadata = []\<rparr>"

section \<open>The loops over encoded messages\<close>

text \<open>The time series loop field by field, and then as the identity run of \<open>RemoteIdentity\<close>.\<close>

fun tsFieldsRun :: "'d xxhash \<Rightarrow> 'd tsState \<Rightarrow> tsField list \<Rightarrow> rw_error + (bool \<times> 'd tsState)" where
  "tsFieldsRun h st [] = Inr (True, st)"
| "tsFieldsRun h (identity, samples, saw) (TsLabel fs # rest) =
     (case fiAdd h identity (labelOf fs) of
        Inl e \<Rightarrow> Inl e
      | Inr (ok, identity') \<Rightarrow>
          if ok then tsFieldsRun h (identity', samples, saw) rest else Inr (False, identity', samples, saw))"
| "tsFieldsRun h (identity, samples, saw) (TsSample fs # rest) =
     tsFieldsRun h (identity,
       if isRemoteWriteSampleDroppable (smpValue (sampleOf fs)) then samples else samples @ [sampleOf fs], True) rest"
| "tsFieldsRun h st (TsOther f # rest) = tsFieldsRun h st rest"

lemma tsField_wire_ok:
  "tsField_ok f \<Longrightarrow> field_ok (tsFieldWire f)"
  by (cases f) (simp_all add: field_ok_def)

lemma fastSeriesLoop_fields:
  assumes "list_all tsField_ok fs"
  shows "fastSeriesLoop h (pre @ encodeSeries fs) (length pre) st = tsFieldsRun h st fs"
  using assms
proof (induction fs arbitrary: pre st)
  case Nil
  then show ?case by (cases st) (simp add: fastSeriesLoop.simps encodeSeries_def)
next
  case (Cons f fs)
  obtain identity samples saw where st: "st = (identity, samples, saw)" by (cases st)
  let ?w = "tsFieldWire f" and ?post = "encodeSeries fs"
  have f: "tsField_ok f" "field_ok ?w" using Cons.prems tsField_wire_ok by auto
  have data: "pre @ encodeSeries (f # fs) = pre @ encodeField ?w @ ?post"
    by (simp add: encodeSeries_def)
  have IH: "fastSeriesLoop h (pre @ encodeField ?w @ ?post) (length (pre @ encodeField ?w)) st' = tsFieldsRun h st' fs" for st'
    using Cons.IH [of "pre @ encodeField ?w" st'] Cons.prems by simp
  have lt: "length pre < length (pre @ encodeField ?w @ ?post)"
    using encodeField_pos [of ?w] by simp
  note unroll = fastSeriesLoop.simps [of h "pre @ encodeField ?w @ ?post" "length pre" identity samples saw]
  note parts = fieldKey_parts [OF f(2)]
  show ?case
  proof (cases f)
    case (TsLabel ls)
    have b: "length (encodeFields ls) < 2 ^ 64" using f(1) TsLabel by simp
    show ?thesis
      unfolding data st unroll using lt parts f(1) bytes_field [OF b, of pre 1 ?post] IH
      by (simp add: read_key Let_def TsLabel addProtoLabel_parse parseFastLabel_fields wire_type_defs
          del: length_append split: sum.split prod.split)
  next
    case (TsSample ss)
    have b: "length (encodeFields ss) < 2 ^ 64" using f(1) TsSample by simp
    show ?thesis
      unfolding data st unroll using lt parts f(1) bytes_field [OF b, of pre 2 ?post] IH
      by (simp add: read_key Let_def TsSample parseFastSample_fields wire_type_defs del: length_append)
  next
    case (TsOther g)
    then have "4 < fst g" using f(1) by simp
    then show ?thesis
      unfolding data st unroll using lt parts skip_field [OF f(2), of pre ?post] IH
      by (simp add: read_key Let_def TsOther del: length_append)
  qed
qed

definition keptFast :: "remoteWriteFastSample list \<Rightarrow> remoteWriteFastSample list" where
  "keptFast = filter (\<lambda>s. \<not> isRemoteWriteSampleDroppable (smpValue s))"

lemma tsFieldsRun_cases:
  "(\<forall>e. fiAddAll h identity (seriesLabels fs) = Inl e \<longrightarrow> tsFieldsRun h (identity, samples, saw) fs = Inl e)
   \<and> (\<forall>s. fiAddAll h identity (seriesLabels fs) = Inr (False, s) \<longrightarrow>
        (\<exists>st. tsFieldsRun h (identity, samples, saw) fs = Inr (False, st)))
   \<and> (\<forall>s. fiAddAll h identity (seriesLabels fs) = Inr (True, s) \<longrightarrow>
        tsFieldsRun h (identity, samples, saw) fs
        = Inr (True, s, samples @ keptFast (seriesSamples fs), saw \<or> seriesSamples fs \<noteq> []))"
proof (induction fs arbitrary: identity samples saw)
  case (Cons f fs)
  then show ?case
    by (cases f) (auto simp: keptFast_def split: sum.splits prod.splits if_splits)
qed (simp add: keptFast_def)

section \<open>Columns and rows\<close>

definition columnsOf :: "remoteWriteSampleRow list \<Rightarrow> remoteWriteSampleColumns" where
  "columnsOf rows = emptyColumns\<lparr>colTeamIDs := map smTeamID rows, colMetricNames := map smMetricName rows,
     colTimestamps := map smTimestampMS rows, colIDs := map smID rows, colValues := map smValue rows\<rparr>"

definition toPb :: "remoteWriteFastSample \<Rightarrow> prompbSample" where
  "toPb s = \<lparr>pbTimestamp = smpTimestamp s, pbSampleValue = smpValue s\<rparr>"

lemma columnsOf_append:
  "(let c = columnsOf rows; count = columnsCount c in
      if count > 0 \<and> colIDs c ! (count - 1) = smID row \<and> colTimestamps c ! (count - 1) = smTimestampMS row
      then c\<lparr>colValues := (colValues c)[count - 1 := smValue row]\<rparr>
      else appendFastSample c (smTeamID row) (smMetricName row) (smTimestampMS row) (smID row) (smValue row))
   = columnsOf (appendSampleRow rows row)"
proof (cases rows rule: rev_cases)
  case (snoc ys y)
  then show ?thesis
    by (auto simp: columnsOf_def columnsCount_def appendSampleRow_def appendFastSample_def emptyColumns_def
        nth_append list_update_append Let_def)
qed (simp add: columnsOf_def columnsCount_def appendSampleRow_def appendFastSample_def emptyColumns_def)

lemma fastSamplesLoop_rows:
  assumes "ctxTeamID ctx = teamID" "ctxMetricName ctx = metricName" "ctxID ctx = sid"
  shows "fastSamplesLoop step teamID metricName sid ss (span, columnsOf rows)
   = (foldl observeTime span (map (\<lambda>s. bucketTimestampForStepMS (smpTimestamp s) step) ss),
      columnsOf (foldl appendSampleRow rows (map (sampleRowOf ctx step) (map toPb ss))))"
proof (induction ss arbitrary: span rows)
  case (Cons s ss)
  have "columnsOf (appendSampleRow rows (sampleRowOf ctx step (toPb s)))
      = (let c = columnsOf rows; count = columnsCount c; b = bucketTimestampForStepMS (smpTimestamp s) step in
         if count > 0 \<and> colIDs c ! (count - 1) = sid \<and> colTimestamps c ! (count - 1) = b
         then c\<lparr>colValues := (colValues c)[count - 1 := smpValue s]\<rparr>
         else appendFastSample c teamID metricName b sid (smpValue s))"
    unfolding columnsOf_append [symmetric] using assms by (simp add: sampleRowOf_def toPb_def Let_def)
  then have "fastSamplesLoop step teamID metricName sid (s # ss) (span, columnsOf rows)
      = fastSamplesLoop step teamID metricName sid ss
          (observeTime span (bucketTimestampForStepMS (smpTimestamp s) step),
           columnsOf (appendSampleRow rows (sampleRowOf ctx step (toPb s))))"
    by (simp only: fastSamplesLoop.simps Let_def)
  then show ?case
    using Cons by simp
qed simp

section \<open>The simulation\<close>

definition strip :: "remoteWriteSeriesRow \<Rightarrow> remoteWriteSeriesRow" where
  "strip r = r\<lparr>srLabels := []\<rparr>"

text \<open>The fast batch holds the data of the reference batch: the rows as columns, the same series records
  but without their labels, and neither histograms nor exemplars.\<close>

definition same_data :: "remoteWriteBatch \<Rightarrow> remoteWriteBatch \<Rightarrow> bool" where
  "same_data fb sb \<longleftrightarrow> sampleColumns fb = columnsOf (sampleRows sb)
     \<and> seriesRecords fb = map strip (seriesRecords sb)
     \<and> histogramRows sb = [] \<and> exemplarRows sb = [] \<and> histogramRows fb = [] \<and> exemplarRows fb = []
     \<and> metadataRows sb = [] \<and> metadataRows fb = []
     \<and> histogramCount fb = 0 \<and> exemplarCount fb = 0 \<and> metadataCount fb = 0"

lemma strip_simps [simp]:
  "srID (strip r) = srID r" "srMinMS (strip r) = srMinMS r" "srMaxMS (strip r) = srMaxMS r"
  "strip (widen r a b) = widen (strip r) a b"
  by (simp_all add: strip_def widen_def Let_def)

lemma mergeRow_strip: "map strip (mergeRow records row) = mergeRow (map strip records) (strip row)"
  by (auto simp: mergeRow_def image_image)

definition fast_ok :: "remoteWriteBatch \<times> remoteWriteFastSeriesIndex \<Rightarrow> bool" where
  "fast_ok st \<longleftrightarrow> records_ok idx_inv idx_abs (seriesRecords (fst st), snd st)"

definition slow_ok :: "remoteWriteBatch \<times> (u64 \<rightharpoonup> nat) \<Rightarrow> bool" where
  "slow_ok st \<longleftrightarrow> go_records_ok (fst st) (snd st)"

lemma decodeSeries_labels [simp]: "tsRowLabels (decodeSeries fs) = seriesLabels fs"
  by (simp add: decodeSeries_def remoteWriteLabelsFromPrompb_def comp_def map_idI)

lemma decodeSeries_samples [simp]: "tsSamples (decodeSeries fs) = map toPb (seriesSamples fs)"
  by (simp add: decodeSeries_def toPb_def [abs_def])

lemma decodeSeries_rest [simp]: "tsHistograms (decodeSeries fs) = []" "tsExemplars (decodeSeries fs) = []"
  by (simp_all add: decodeSeries_def)

lemma hasData_decode [simp]: "hasData (decodeSeries fs) \<longleftrightarrow> seriesSamples fs \<noteq> []"
  by (simp add: hasData_def)

lemma keptSamples_toPb: "keptSamples (map toPb ss) = map toPb (keptFast ss)"
  by (simp add: keptSamples_def keptFast_def filter_map comp_def toPb_def)

text \<open>What the reference builder does with such a series whose identity is known.\<close>

lemma slow_series:
  fixes sb :: remoteWriteBatch and teamID :: u64
  assumes "remoteWriteSeriesIdentityLabels h (seriesLabels fs) = (Inr (sid, m), ls)" "seriesSamples fs \<noteq> []"
  defines "ctx \<equiv> \<lparr>ctxTeamID = teamID, ctxMetricName = m, ctxID = sid, ctxServiceName = '''', ctxAttributes = []\<rparr>"
  shows "buildTimeSeries h marshal step teamID False (sb, sm) (decodeSeries fs)
   = (let rows = foldl appendSampleRow (sampleRows sb) (map (sampleRowOf ctx step) (map toPb (keptFast (seriesSamples fs))));
          span = foldl observeTime None (map (\<lambda>s. bucketTimestampForStepMS (smpTimestamp s) step) (keptFast (seriesSamples fs)));
          b = sb\<lparr>sampleRows := rows, histogramRows := histogramRows sb, exemplarRows := exemplarRows sb\<rparr>
      in case span of
           None \<Rightarrow> Some (Inr (b, sm))
         | Some (mn, mx) \<Rightarrow>
             (case addRemoteWriteSeriesRecord (seriesRecords b, sm)
                     \<lparr>srTeamID = teamID, srID = sid, srMetricName = m, srLabelsJSON = '''', srLabels = ls,
                      srMinMS = mn, srMaxMS = mx\<rparr> of
                None \<Rightarrow> None
              | Some (records, sm') \<Rightarrow> Some (Inr (b\<lparr>seriesRecords := records\<rparr>, sm'))))"
proof -
  have "\<not> (tsSamples (decodeSeries fs) = [] \<and> tsHistograms (decodeSeries fs) = [] \<and> tsExemplars (decodeSeries fs) = [])"
    using assms(2) by simp
  then show ?thesis
    unfolding buildTimeSeries_def ctx_def
    by (simp only: prod.case if_False Let_def decodeSeries_labels assms(1) sum.case sampleRowsLoop_fold
        decodeSeries_samples decodeSeries_rest keptSamples_toPb histogramRowsLoop.simps exemplarRowsLoop.simps
        sampleTimes_def) (simp add: comp_def toPb_def)
qed

lemma fast_parse:
  assumes "list_all tsField_ok fs"
  shows "fastSeriesLoop h (encodeSeries fs) 0 st = tsFieldsRun h st fs"
  using fastSeriesLoop_fields [OF assms, of h "[]" st] by simp

text \<open>One series through both builders: the same outcome, or the fast one gives the request back, or
  it rejects labels of a series without samples, which the reference builder does not look at.\<close>

definition sim :: "remoteWriteBatch \<times> remoteWriteFastSeriesIndex \<Rightarrow> remoteWriteBatch \<times> (u64 \<rightharpoonup> nat) \<Rightarrow> bool" where
  "sim fst1 sst \<longleftrightarrow> same_data (fst fst1) (fst sst) \<and> fast_ok fst1 \<and> slow_ok sst"

abbreviation newRow :: "u64 \<Rightarrow> u64 \<Rightarrow> string \<Rightarrow> remoteWriteLabel list \<Rightarrow> int \<Rightarrow> int \<Rightarrow> remoteWriteSeriesRow" where
  "newRow teamID sid m ls mn mx \<equiv> \<lparr>srTeamID = teamID, srID = sid, srMetricName = m, srLabelsJSON = '''',
     srLabels = ls, srMinMS = mn, srMaxMS = mx\<rparr>"

lemma series_records_sim:
  fixes sb fb :: remoteWriteBatch
  assumes "sim (fb, fi) (sb, sm)" "length (seriesRecords sb) < 2 ^ 40"
    and row: "row = newRow teamID sid m ls mn mx"
  obtains fi' sm' where
    "addFastSeriesRecord (seriesRecords fb, fi) sid teamID m mn mx
       = Some (map strip (mergeRow (seriesRecords sb) row), fi')"
    "addRemoteWriteSeriesRecord (seriesRecords sb, sm) row = Some (mergeRow (seriesRecords sb) row, sm')"
    "records_ok idx_inv idx_abs (map strip (mergeRow (seriesRecords sb) row), fi')"
    "records_ok (\<lambda>m. finite (dom m)) (\<lambda>m. m) (mergeRow (seriesRecords sb) row, sm')"
proof -
  have f: "records_ok idx_inv idx_abs (seriesRecords fb, fi)" "seriesRecords fb = map strip (seriesRecords sb)"
    and s: "records_ok (\<lambda>m. finite (dom m)) (\<lambda>m. m) (seriesRecords sb, sm)"
    using assms(1) unfolding sim_def fast_ok_def slow_ok_def same_data_def fst_conv snd_conv by blast+
  have r: "length (seriesRecords fb) < 2 ^ 40" using assms(2) f(2) by simp
  have "strip row = \<lparr>srTeamID = teamID, srID = sid, srMetricName = m, srLabelsJSON = '''', srLabels = [],
      srMinMS = mn, srMaxMS = mx\<rparr>"
    by (simp add: row strip_def)
  then show ?thesis
    using that hash_index.addSeriesRecord_merge [OF f(1) r, of "strip row"]
      go_map.addSeriesRecord_merge [OF s assms(2), of row]
    unfolding addFastSeriesRecord_def addRemoteWriteSeriesRecord_def mergeRow_strip f(2) by auto
qed

lemma series_sim:
  fixes sb fb :: remoteWriteBatch and step :: int and teamID :: u64 and fi :: remoteWriteFastSeriesIndex
    and marshal :: "'h prompbHistogram \<Rightarrow> rw_error + bytes" and h :: "'d xxhash"
  assumes "xxhash_ok h" "list_all tsField_ok fs" "sim (fb, fi) (sb, sm)" "length (seriesRecords sb) < 2 ^ 40"
  defines "fast \<equiv> parseFastTimeSeries h (encodeSeries fs) (fb, fi) step teamID"
    and "slow \<equiv> buildTimeSeries h marshal step teamID False (sb, sm) (decodeSeries fs)"
  shows "(\<exists>fst' sst'. fast = Some (Inr (True, fst')) \<and> slow = Some (Inr sst') \<and> sim fst' sst'
            \<and> length (seriesRecords (fst sst')) \<le> Suc (length (seriesRecords sb)))
       \<or> (\<exists>fst'. fast = Some (Inr (False, fst')) \<and> \<not> remoteWriteLabelsSorted (seriesLabels fs))
       \<or> (\<exists>e. fast = Some (Inl e) \<and> ((\<exists>e'. slow = Some (Inl e')) \<or> seriesSamples fs = [] \<and> \<not> labels_valid (seriesLabels fs)))"
proof -
  note T = tsFieldsRun_cases [of h "fiReset h" fs "[]" False]
  have gives_up: "\<And>e. fiAddAll h (fiReset h) (seriesLabels fs) = Inl e \<Longrightarrow>
      \<exists>e'. fst (remoteWriteSeriesIdentityLabels h (seriesLabels fs)) = Inl e'"
    "\<And>s. fiAddAll h (fiReset h) (seriesLabels fs) = Inr (False, s) \<Longrightarrow> \<not> remoteWriteLabelsSorted (seriesLabels fs)"
    using fiAddAll_reset_cases [of h "seriesLabels fs"] by blast+
  consider (err) e where "fiAddAll h (fiReset h) (seriesLabels fs) = Inl e"
    | (hand) s where "fiAddAll h (fiReset h) (seriesLabels fs) = Inr (False, s)"
    | (run) s where "fiAddAll h (fiReset h) (seriesLabels fs) = Inr (True, s)"
    by (cases "fiAddAll h (fiReset h) (seriesLabels fs)") (force, metis (full_types) surj_pair)
  then show ?thesis
  proof cases
    case err
    have f: "fast = Some (Inl e)"
      using T err by (simp add: fast_def parseFastTimeSeries_def fast_parse [OF assms(2)])
    from gives_up(1) [OF err] obtain e' ls where i: "remoteWriteSeriesIdentityLabels h (seriesLabels fs) = (Inl e', ls)"
      by (metis prod.collapse)
    have nv: "\<not> labels_valid (seriesLabels fs)"
      using slow_identity_valid [OF assms(1), of "seriesLabels fs"] i by auto
    show ?thesis
    proof (cases "seriesSamples fs = []")
      case False
      then have "slow = Some (Inl e')"
        using i by (simp add: slow_def buildTimeSeries_def)
      then show ?thesis using f by blast
    qed (use f nv in blast)
  next
    case hand
    then obtain st where "tsFieldsRun h (fiReset h, [], False) fs = Inr (False, st)"
      using T by blast
    then have "fast = Some (Inr (False, fb, fi))"
      by (cases st) (simp add: fast_def parseFastTimeSeries_def fast_parse [OF assms(2)])
    then show ?thesis using gives_up(2) [OF hand] by blast
  next
    case run
    note id = fast_identity_eq [OF assms(1) run]
    have F: "fastSeriesLoop h (encodeSeries fs) 0 (fiReset h, [], False)
        = Inr (True, s, keptFast (seriesSamples fs), seriesSamples fs \<noteq> [])"
      using T run by (simp add: fast_parse [OF assms(2)])
    show ?thesis
    proof (cases "seriesSamples fs = []")
      case True
      have "fast = Some (Inr (True, fb, fi))" "slow = Some (Inr (sb, sm))"
        using F True by (simp_all add: fast_def slow_def parseFastTimeSeries_def buildTimeSeries_def)
      then show ?thesis using assms(3) by auto
    next
      case data: False
      show ?thesis
      proof (cases "fiFinish h s")
        case (Inl e)
        then have "fast = Some (Inl e)" "slow = Some (Inl e)"
          using F data id by (simp_all add: fast_def slow_def parseFastTimeSeries_def buildTimeSeries_def)
        then show ?thesis by blast
      next
        case (Inr p)
        obtain sid m where p: "fiFinish h s = Inr (sid, m)" using Inr by (cases p) auto
        have i: "remoteWriteSeriesIdentityLabels h (seriesLabels fs) = (Inr (sid, m), seriesLabels fs)"
          using id p by simp
        let ?ctx = "\<lparr>ctxTeamID = teamID, ctxMetricName = m, ctxID = sid, ctxServiceName = '''', ctxAttributes = []\<rparr>"
        let ?kept = "keptFast (seriesSamples fs)"
        let ?rows = "foldl appendSampleRow (sampleRows sb) (map (sampleRowOf ?ctx step) (map toPb ?kept))"
        let ?span = "foldl observeTime None (map (\<lambda>s. bucketTimestampForStepMS (smpTimestamp s) step) ?kept)"
        have cols: "sampleColumns fb = columnsOf (sampleRows sb)"
          using assms(3) by (simp add: sim_def same_data_def)
        have FL: "fastSamplesLoop step teamID m sid ?kept (None, sampleColumns fb) = (?span, columnsOf ?rows)"
          unfolding cols by (rule fastSamplesLoop_rows) simp_all
        note SL = slow_series [OF i data, where teamID = teamID and marshal = marshal and step = step and sb = sb and sm = sm,
            folded slow_def]
        show ?thesis
        proof (cases ?span)
          case None
          then have k: "?kept = []"
            unfolding observe_none by (simp split: if_splits)
          then have "slow = Some (Inr (sb, sm))" using SL by simp
          moreover have "fast = Some (Inr (True, fb, fi))"
            using F data p FL None by (simp add: fast_def parseFastTimeSeries_def)
          ultimately show ?thesis using assms(3) by auto
        next
          case (Some r)
          obtain mn mx where sp: "?span = Some (mn, mx)" using Some by (cases r) auto
          let ?records = "mergeRow (seriesRecords sb) (newRow teamID sid m (seriesLabels fs) mn mx)"
          obtain fi' sm' where add:
            "addFastSeriesRecord (seriesRecords fb, fi) sid teamID m mn mx = Some (map strip ?records, fi')"
            "addRemoteWriteSeriesRecord (seriesRecords sb, sm) (newRow teamID sid m (seriesLabels fs) mn mx) = Some (?records, sm')"
            and ok: "records_ok idx_inv idx_abs (map strip ?records, fi')"
              "records_ok (\<lambda>m. finite (dom m)) (\<lambda>m. m) (?records, sm')"
            by (rule series_records_sim [OF assms(3,4) refl])
          have "fast = Some (Inr (True, fb\<lparr>sampleColumns := columnsOf ?rows, seriesRecords := map strip ?records\<rparr>, fi'))"
            using F data p FL sp add(1) by (simp add: fast_def parseFastTimeSeries_def)
          moreover have "slow = Some (Inr (sb\<lparr>sampleRows := ?rows, seriesRecords := ?records\<rparr>, sm'))"
            using SL sp add(2) by (simp add: Let_def)
          moreover have "sim (fb\<lparr>sampleColumns := columnsOf ?rows, seriesRecords := map strip ?records\<rparr>, fi')
              (sb\<lparr>sampleRows := ?rows, seriesRecords := ?records\<rparr>, sm')"
            using assms(3) ok by (simp add: sim_def same_data_def fast_ok_def slow_ok_def)
          ultimately show ?thesis using length_mergeRow by fastforce
        qed
      qed
    qed
  qed
qed

section \<open>The whole request\<close>

fun reqFieldsRun ::
  "'d xxhash \<Rightarrow> int \<Rightarrow> u64 \<Rightarrow> remoteWriteBatch \<times> remoteWriteFastSeriesIndex \<Rightarrow> tsField list list
   \<Rightarrow> (rw_error + (bool \<times> remoteWriteBatch \<times> remoteWriteFastSeriesIndex)) option" where
  "reqFieldsRun h step teamID st [] = Some (Inr (True, st))"
| "reqFieldsRun h step teamID st (fs # rest) =
     (case parseFastTimeSeries h (encodeSeries fs) st step teamID of
        None \<Rightarrow> None
      | Some (Inl e) \<Rightarrow> Some (Inl e)
      | Some (Inr (ok, st')) \<Rightarrow>
          if ok then reqFieldsRun h step teamID st' rest else Some (Inr (False, st')))"

lemma fastRequestLoop_fields:
  assumes "list_all reqField_ok rf"
  shows "fastRequestLoop h (pre @ encodeRequest rf) (length pre) step teamID st
     = reqFieldsRun h step teamID st (requestSeries rf)"
  using assms
proof (induction rf arbitrary: pre st)
  case Nil
  then show ?case by (simp add: fastRequestLoop.simps encodeRequest_def)
next
  case (Cons f rf)
  let ?w = "reqFieldWire f" and ?post = "encodeRequest rf"
  have f: "reqField_ok f" using Cons.prems by simp
  then have w: "field_ok ?w" by (cases f) (simp_all add: field_ok_def)
  have data: "pre @ encodeRequest (f # rf) = pre @ encodeField ?w @ ?post"
    by (simp add: encodeRequest_def)
  have IH: "fastRequestLoop h (pre @ encodeField ?w @ ?post) (length (pre @ encodeField ?w)) step teamID st'
      = reqFieldsRun h step teamID st' (requestSeries rf)" for st'
    using Cons.IH [of "pre @ encodeField ?w" st'] Cons.prems by simp
  have lt: "length pre < length (pre @ encodeField ?w @ ?post)"
    using encodeField_pos [of ?w] by simp
  note unroll = fastRequestLoop.simps [of h "pre @ encodeField ?w @ ?post" "length pre" step teamID st]
  note parts = fieldKey_parts [OF w]
  show ?case
  proof (cases f)
    case (ReqSeries fs)
    have b: "length (encodeSeries fs) < 2 ^ 64" using f ReqSeries by simp
    show ?thesis
      unfolding data unroll using lt parts bytes_field [OF b, of pre 1 ?post] IH
      by (simp add: read_key Let_def ReqSeries wire_type_defs del: length_append
          split: option.split sum.split prod.split)
  next
    case (ReqOther g)
    then have "fst g \<noteq> 0" "fst g \<noteq> 1" "fst g \<noteq> 3" using f w by (auto simp: field_ok_def)
    then show ?thesis
      unfolding data unroll using lt parts skip_field [OF w, of pre ?post] IH
      by (simp add: read_key Let_def ReqOther del: length_append)
  qed
qed

definition outcomes_agree ::
  "(rw_error + (bool \<times> remoteWriteBatch \<times> remoteWriteFastSeriesIndex)) option
   \<Rightarrow> (rw_error + (remoteWriteBatch \<times> (u64 \<rightharpoonup> nat))) option \<Rightarrow> tsField list list \<Rightarrow> bool" where
  "outcomes_agree fast slow series \<longleftrightarrow>
     (\<exists>f s. fast = Some (Inr (True, f)) \<and> slow = Some (Inr s) \<and> sim f s)
   \<or> (\<exists>f. fast = Some (Inr (False, f)) \<and> (\<exists>fs \<in> set series. \<not> remoteWriteLabelsSorted (seriesLabels fs)))
   \<or> (\<exists>e. fast = Some (Inl e) \<and> ((\<exists>e'. slow = Some (Inl e'))
        \<or> (\<exists>fs \<in> set series. seriesSamples fs = [] \<and> \<not> labels_valid (seriesLabels fs))))"

lemma series_list_sim:
  fixes marshal :: "'h prompbHistogram \<Rightarrow> rw_error + bytes"
  assumes "xxhash_ok h" "\<forall>fs \<in> set series. list_all tsField_ok fs" "sim f s"
    and "length (seriesRecords (fst s)) + length series \<le> 2 ^ 40"
  shows "outcomes_agree (reqFieldsRun h step teamID f series)
     (buildTimeSeriesLoop h marshal step teamID False s (map decodeSeries series)) series"
  using assms(2-4)
proof (induction series arbitrary: f s)
  case Nil
  then show ?case by (simp add: outcomes_agree_def)
next
  case (Cons fs series)
  obtain fb fi sb sm where fs: "f = (fb, fi)" "s = (sb, sm)" by (cases f; cases s)
  have ok: "list_all tsField_ok fs" using Cons.prems(1) by simp
  have room: "length (seriesRecords sb) < 2 ^ 40" using Cons.prems(3) fs by simp
  let ?fast = "parseFastTimeSeries h (encodeSeries fs) (fb, fi) step teamID"
  let ?slow = "buildTimeSeries h marshal step teamID False (sb, sm) (decodeSeries fs)"
  from series_sim [OF assms(1) ok Cons.prems(2) [unfolded fs] room, of step teamID marshal]
  show ?case
  proof (elim disjE exE conjE)
    fix f' s'
    assume st: "?fast = Some (Inr (True, f'))" "?slow = Some (Inr s')" "sim f' s'"
      "length (seriesRecords (fst s')) \<le> Suc (length (seriesRecords sb))"
    have "length (seriesRecords (fst s')) + length series \<le> 2 ^ 40"
      using st(4) Cons.prems(3) fs by simp
    with Cons.IH [OF _ st(3) this] Cons.prems(1) st(1,2) show ?thesis
      by (simp add: fs outcomes_agree_def) blast
  next
    fix f' assume "?fast = Some (Inr (False, f'))" "\<not> remoteWriteLabelsSorted (seriesLabels fs)"
    then show ?thesis by (simp add: fs outcomes_agree_def)
  next
    fix e e' assume "?fast = Some (Inl e)" "?slow = Some (Inl e')"
    then show ?thesis by (simp add: fs outcomes_agree_def)
  next
    fix e assume "?fast = Some (Inl e)" "seriesSamples fs = []" "\<not> labels_valid (seriesLabels fs)"
    then show ?thesis by (simp add: fs outcomes_agree_def)
  qed
qed

lemma requestSeries_ok: "list_all reqField_ok rf \<Longrightarrow> \<forall>fs \<in> set (requestSeries rf). list_all tsField_ok fs"
  by (induction rf rule: requestSeries.induct) auto

lemma length_requestSeries: "length (requestSeries rf) \<le> length rf"
  by (induction rf rule: requestSeries.induct) auto

text \<open>The batch that the fast path hands on, compared with the one of the reference builder.\<close>

definition same_batch :: "remoteWriteBatch \<Rightarrow> remoteWriteBatch \<Rightarrow> bool" where
  "same_batch fb sb \<longleftrightarrow> same_data fb sb \<and> metadataRows fb = metadataRows sb
     \<and> seriesCount fb = seriesCount sb \<and> sampleCount fb = sampleCount sb
     \<and> histogramCount fb = histogramCount sb \<and> exemplarCount fb = exemplarCount sb
     \<and> metadataCount fb = metadataCount sb"

lemma sim_start:
  assumes "capHint < 2 ^ 59"
  shows "sim (emptyBatch data, newRemoteWriteFastSeriesIndex capHint)
     ((emptyBatch [])\<lparr>metadataRows := metadataRowsOf teamID now []\<rparr>, Map.empty)"
  using idx_inv_new [OF assms]
  by (auto simp: sim_def same_data_def fast_ok_def slow_ok_def records_ok_def emptyBatch_def columnsOf_def
      emptyColumns_def metadataRowsOf_def positions_def)

lemma fast_path_cases:
  fixes marshal :: "'h prompbHistogram \<Rightarrow> rw_error + bytes" and interval now :: int and teamID :: u64
    and h :: "'d xxhash"
  assumes h: "xxhash_ok h" and rf: "list_all reqField_ok rf"
    and len: "length rf \<le> 2 ^ 40" "length (encodeRequest rf) < 2 ^ 59"
  defines "fast \<equiv> buildRemoteWriteBatchFromProto h (encodeRequest rf) interval teamID"
    and "slow \<equiv> buildRemoteWriteBatch h marshal now (decodeRequest rf) interval teamID False"
  shows "(\<exists>fb sb. fast = Some (Inr (fb, True)) \<and> slow = Some (Inr sb) \<and> same_batch fb sb)
   \<or> (\<exists>fb. fast = Some (Inr (fb, False))
        \<and> (\<exists>fs \<in> set (requestSeries rf). \<not> remoteWriteLabelsSorted (seriesLabels fs)))
   \<or> (\<exists>e. fast = Some (Inl e) \<and> ((\<exists>e'. slow = Some (Inl e'))
        \<or> (\<exists>fs \<in> set (requestSeries rf). seriesSamples fs = [] \<and> \<not> labels_valid (seriesLabels fs))))"
proof -
  let ?n = "length (encodeRequest rf) div 256"
  let ?cap = "if ?n < 1 then 1 else ?n" and ?step = "durationMilliseconds interval"
  let ?f0 = "(emptyBatch (encodeRequest rf), newRemoteWriteFastSeriesIndex ?cap)"
  let ?s0 = "((emptyBatch [])\<lparr>metadataRows := metadataRowsOf teamID now []\<rparr>, Map.empty :: u64 \<rightharpoonup> nat)"
  have "?cap < 2 ^ 59"
    using le_less_trans [OF div_le_dividend [of "length (encodeRequest rf)" 256] len(2)] by simp
  note start = sim_start [OF this, of "encodeRequest rf" teamID now]
  have "length (seriesRecords (fst ?s0)) + length (requestSeries rf) \<le> 2 ^ 40"
    using len(1) length_requestSeries [of rf] by (simp add: emptyBatch_def)
  from series_list_sim [OF h requestSeries_ok [OF rf] start this, of ?step teamID marshal]
  have agree: "outcomes_agree (fastRequestLoop h (encodeRequest rf) 0 ?step teamID ?f0)
      (buildTimeSeriesLoop h marshal ?step teamID False ?s0 (rqTimeseries (decodeRequest rf))) (requestSeries rf)"
    using fastRequestLoop_fields [OF rf, of h "[]" ?step teamID ?f0] by (simp add: decodeRequest_def)
  have md: "rqMetadata (decodeRequest rf :: 'h prompbWriteRequest) = []" by (simp add: decodeRequest_def)
  show ?thesis
    using agree unfolding outcomes_agree_def
  proof (elim disjE exE conjE)
    fix f s
    assume r: "fastRequestLoop h (encodeRequest rf) 0 ?step teamID ?f0 = Some (Inr (True, f))"
      "buildTimeSeriesLoop h marshal ?step teamID False ?s0 (rqTimeseries (decodeRequest rf)) = Some (Inr s)" "sim f s"
    obtain fb fi sb sm where fs: "f = (fb, fi)" "s = (sb, sm)" by (cases f; cases s)
    have "same_data fb sb" using r(3) fs by (simp add: sim_def)
    then show ?thesis
      using r(1,2) unfolding fs fast_def slow_def buildRemoteWriteBatchFromProto_def buildRemoteWriteBatch_def Let_def md
      by (auto simp: same_batch_def same_data_def columnsCount_def columnsOf_def)
  next
    fix f
    assume r: "fastRequestLoop h (encodeRequest rf) 0 ?step teamID ?f0 = Some (Inr (False, f))"
      "\<exists>fs \<in> set (requestSeries rf). \<not> remoteWriteLabelsSorted (seriesLabels fs)"
    then show ?thesis
      unfolding fast_def buildRemoteWriteBatchFromProto_def Let_def by (cases f) auto
  next
    fix e e'
    assume "fastRequestLoop h (encodeRequest rf) 0 ?step teamID ?f0 = Some (Inl e)"
      "buildTimeSeriesLoop h marshal ?step teamID False ?s0 (rqTimeseries (decodeRequest rf)) = Some (Inl e')"
    then show ?thesis
      unfolding fast_def slow_def buildRemoteWriteBatchFromProto_def buildRemoteWriteBatch_def Let_def md by simp
  next
    fix e
    assume "fastRequestLoop h (encodeRequest rf) 0 ?step teamID ?f0 = Some (Inl e)"
      "\<exists>fs \<in> set (requestSeries rf). seriesSamples fs = [] \<and> \<not> labels_valid (seriesLabels fs)"
    then show ?thesis
      unfolding fast_def buildRemoteWriteBatchFromProto_def Let_def by simp
  qed
qed

section \<open>The labels of new series\<close>

function populateLabelsLoop :: "bytes \<Rightarrow> nat \<Rightarrow> remoteWriteLabel list \<Rightarrow> rw_error + remoteWriteLabel list option" where
  "populateLabelsLoop data i labels =
     (if i < length data then
        (case readProtoVarint data i of
           Inl e \<Rightarrow> Inl e
         | Inr (key, i1) \<Rightarrow>
             let fieldNum = keyField key; wireType = keyWire key in
             if fieldNum = 1 then
               (if wireType \<noteq> protoWireBytes then Inl (BadWireType ''label'' wireType)
                else case readProtoBytes data i1 of
                       Inl e \<Rightarrow> Inl e
                     | Inr (message, i2) \<Rightarrow>
                         (case parseFastLabel message of
                            Inl e \<Rightarrow> Inl e
                          | Inr label \<Rightarrow> populateLabelsLoop data i2 (labels @ [label])))
             else if fieldNum = 2 then
               (case readProtoBytes data i1 of
                  Inl e \<Rightarrow> Inl e
                | Inr (_, i2) \<Rightarrow> populateLabelsLoop data i2 labels)
             else if fieldNum = 3 \<or> fieldNum = 4 then Inr None
             else
               (case skipProtoField data i1 wireType of
                  Inl e \<Rightarrow> Inl e
                | Inr i2 \<Rightarrow> populateLabelsLoop data i2 labels))
      else Inr (Some labels))"
  by pat_completeness auto
termination
  by (relation "measure (\<lambda>(d, i, _). length d - i)")
    (auto dest!: readProtoVarint_progress readProtoBytes_progress skipProtoField_progress)

declare populateLabelsLoop.simps [simp del]

type_synonym needed = "(u64 \<times> nat) list"

definition populateSeriesLabelsJSONFromTimeSeriesProto ::
  "'d xxhash \<Rightarrow> (nat \<Rightarrow> bool) \<Rightarrow> bytes \<Rightarrow> remoteWriteSeriesRow list \<times> needed
   \<Rightarrow> (rw_error + (remoteWriteSeriesRow list \<times> needed)) option" where
  "populateSeriesLabelsJSONFromTimeSeriesProto h isPrint data st =
     (let (rows, needed) = st in
      case populateLabelsLoop data 0 [] of
        Inl e \<Rightarrow> Some (Inl e)
      | Inr None \<Rightarrow> Some (Inr (rows, needed))
      | Inr (Some labels) \<Rightarrow>
          (case remoteWriteSeriesIdentityLabels h labels of
             (Inl e, _) \<Rightarrow> Some (Inl e)
           | (Inr (sid, _), labels) \<Rightarrow>
               (case map_of needed sid of
                  None \<Rightarrow> Some (Inr (rows, needed))
                | Some index \<Rightarrow>
                    (case labelsJSONFromRemoteWriteLabels isPrint labels of
                       Inl e \<Rightarrow> Some (Inl e)
                     | Inr labelsJSON \<Rightarrow>
                         if index < length rows then
                           Some (Inr (rows[index := (rows ! index)\<lparr>srLabelsJSON := labelsJSON\<rparr>],
                                      AList.delete sid needed))
                         else None))))"

function populateRequestLoop ::
  "'d xxhash \<Rightarrow> (nat \<Rightarrow> bool) \<Rightarrow> bytes \<Rightarrow> nat \<Rightarrow> remoteWriteSeriesRow list \<times> needed
   \<Rightarrow> (rw_error + (remoteWriteSeriesRow list \<times> needed)) option" where
  "populateRequestLoop h isPrint data i st =
     (if i < length data \<and> snd st \<noteq> [] then
        (case readProtoVarint data i of
           Inl e \<Rightarrow> Some (Inl e)
         | Inr (key, i1) \<Rightarrow>
             let fieldNum = keyField key; wireType = keyWire key in
             if fieldNum = 1 then
               (if wireType \<noteq> protoWireBytes then Some (Inl (BadWireType ''timeseries'' wireType))
                else case readProtoBytes data i1 of
                       Inl e \<Rightarrow> Some (Inl e)
                     | Inr (message, i2) \<Rightarrow>
                         (case populateSeriesLabelsJSONFromTimeSeriesProto h isPrint message st of
                            None \<Rightarrow> None
                          | Some (Inl e) \<Rightarrow> Some (Inl e)
                          | Some (Inr st') \<Rightarrow> populateRequestLoop h isPrint data i2 st'))
             else
               (case skipProtoField data i1 wireType of
                  Inl e \<Rightarrow> Some (Inl e)
                | Inr i2 \<Rightarrow> populateRequestLoop h isPrint data i2 st))
      else Some (Inr st))"
  by pat_completeness auto
termination
  by (relation "measure (\<lambda>(h, p, d, i, _). length d - i)")
    (auto dest!: readProtoVarint_progress readProtoBytes_progress skipProtoField_progress)

declare populateRequestLoop.simps [simp del]

definition neededRows :: "remoteWriteSeriesRow list \<Rightarrow> needed" where
  "neededRows rows = foldl (\<lambda>needed i. if srLabelsJSON (rows ! i) = '''' then AList.update (srID (rows ! i)) i needed
      else needed) [] [0..<length rows]"

definition populateSeriesLabelsJSONFromProto ::
  "'d xxhash \<Rightarrow> (nat \<Rightarrow> bool) \<Rightarrow> bytes \<Rightarrow> remoteWriteSeriesRow list
   \<Rightarrow> (rw_error + remoteWriteSeriesRow list) option" where
  "populateSeriesLabelsJSONFromProto h isPrint data rows =
     (let needed = neededRows rows in
      if needed = [] then Some (Inr rows)
      else
        case populateRequestLoop h isPrint data 0 (rows, needed) of
          None \<Rightarrow> None
        | Some (Inl e) \<Rightarrow> Some (Inl e)
        | Some (Inr (rows', needed')) \<Rightarrow>
            if needed' \<noteq> [] then Some (Inl (LabelsNotFound (length needed'))) else Some (Inr rows'))"

text \<open>The reference of remote.go, which has the labels at hand.\<close>

fun populateSeriesLabelsJSON ::
  "(nat \<Rightarrow> bool) \<Rightarrow> remoteWriteSeriesRow list \<Rightarrow> rw_error + remoteWriteSeriesRow list" where
  "populateSeriesLabelsJSON isPrint [] = Inr []"
| "populateSeriesLabelsJSON isPrint (row # rows) =
     (case (if srLabelsJSON row \<noteq> '''' then Inr row
            else case labelsJSONFromRemoteWriteLabels isPrint (srLabels row) of
                   Inl e \<Rightarrow> Inl e
                 | Inr labelsJSON \<Rightarrow> Inr (row\<lparr>srLabelsJSON := labelsJSON\<rparr>)) of
        Inl e \<Rightarrow> Inl e
      | Inr row' \<Rightarrow>
          (case populateSeriesLabelsJSON isPrint rows of
             Inl e \<Rightarrow> Inl e
           | Inr rows' \<Rightarrow> Inr (row' # rows')))"

section \<open>What the label lookup finds\<close>

lemma populateLabelsLoop_fields:
  assumes "list_all tsField_ok fs"
  shows "populateLabelsLoop (pre @ encodeSeries fs) (length pre) ls = Inr (Some (ls @ seriesLabels fs))"
  using assms
proof (induction fs arbitrary: pre ls)
  case Nil
  then show ?case by (simp add: populateLabelsLoop.simps encodeSeries_def)
next
  case (Cons f fs)
  let ?w = "tsFieldWire f" and ?post = "encodeSeries fs"
  have f: "tsField_ok f" "field_ok ?w" using Cons.prems tsField_wire_ok by auto
  have data: "pre @ encodeSeries (f # fs) = pre @ encodeField ?w @ ?post"
    by (simp add: encodeSeries_def)
  have IH: "populateLabelsLoop (pre @ encodeField ?w @ ?post) (length (pre @ encodeField ?w)) ls'
      = Inr (Some (ls' @ seriesLabels fs))" for ls'
    using Cons.IH [of "pre @ encodeField ?w" ls'] Cons.prems by simp
  have lt: "length pre < length (pre @ encodeField ?w @ ?post)"
    using encodeField_pos [of ?w] by simp
  note unroll = populateLabelsLoop.simps [of "pre @ encodeField ?w @ ?post" "length pre" ls]
  note parts = fieldKey_parts [OF f(2)]
  show ?case
  proof (cases f)
    case (TsLabel ks)
    have b: "length (encodeFields ks) < 2 ^ 64" using f(1) TsLabel by simp
    show ?thesis
      unfolding data unroll using lt parts f(1) bytes_field [OF b, of pre 1 ?post] IH
      by (simp add: read_key Let_def TsLabel parseFastLabel_fields wire_type_defs del: length_append)
  next
    case (TsSample ss)
    have b: "length (encodeFields ss) < 2 ^ 64" using f(1) TsSample by simp
    show ?thesis
      unfolding data unroll using lt parts bytes_field [OF b, of pre 2 ?post] IH
      by (simp add: read_key Let_def TsSample del: length_append)
  next
    case (TsOther g)
    then have "4 < fst g" using f(1) by simp
    then show ?thesis
      unfolding data unroll using lt parts skip_field [OF f(2), of pre ?post] IH
      by (simp add: read_key Let_def TsOther del: length_append)
  qed
qed

text \<open>One series of the request, then all of them.\<close>

definition populateStep ::
  "'d xxhash \<Rightarrow> (nat \<Rightarrow> bool) \<Rightarrow> remoteWriteLabel list \<Rightarrow> remoteWriteSeriesRow list \<times> needed
   \<Rightarrow> (rw_error + (remoteWriteSeriesRow list \<times> needed)) option" where
  "populateStep h isPrint labels st =
     (case remoteWriteSeriesIdentityLabels h labels of
        (Inl e, _) \<Rightarrow> Some (Inl e)
      | (Inr (sid, _), labels) \<Rightarrow>
          (case map_of (snd st) sid of
             None \<Rightarrow> Some (Inr st)
           | Some index \<Rightarrow>
               (case labelsJSONFromRemoteWriteLabels isPrint labels of
                  Inl e \<Rightarrow> Some (Inl e)
                | Inr labelsJSON \<Rightarrow>
                    if index < length (fst st) then
                      Some (Inr ((fst st)[index := (fst st ! index)\<lparr>srLabelsJSON := labelsJSON\<rparr>],
                                 AList.delete sid (snd st)))
                    else None)))"

fun populateRun ::
  "'d xxhash \<Rightarrow> (nat \<Rightarrow> bool) \<Rightarrow> tsField list list \<Rightarrow> remoteWriteSeriesRow list \<times> needed
   \<Rightarrow> (rw_error + (remoteWriteSeriesRow list \<times> needed)) option" where
  "populateRun h isPrint [] st = Some (Inr st)"
| "populateRun h isPrint (fs # rest) st =
     (if snd st = [] then Some (Inr st)
      else case populateStep h isPrint (seriesLabels fs) st of
             None \<Rightarrow> None
           | Some (Inl e) \<Rightarrow> Some (Inl e)
           | Some (Inr st') \<Rightarrow> populateRun h isPrint rest st')"

lemma populateSeries_step:
  assumes "list_all tsField_ok fs"
  shows "populateSeriesLabelsJSONFromTimeSeriesProto h isPrint (encodeSeries fs) st
     = populateStep h isPrint (seriesLabels fs) st"
proof -
  have L: "populateLabelsLoop (encodeSeries fs) 0 [] = Inr (Some (seriesLabels fs))"
    using populateLabelsLoop_fields [OF assms, of "[]" "[]"] by simp
  obtain rows needed where st: "st = (rows, needed)" by (cases st)
  show ?thesis
    unfolding populateSeriesLabelsJSONFromTimeSeriesProto_def populateStep_def Let_def st fst_conv snd_conv
    by (simp only: prod.case L sum.case option.case)
qed

lemma populateRun_done: "snd st = [] \<Longrightarrow> populateRun h isPrint series st = Some (Inr st)"
  by (cases series) simp_all

lemma populateRequestLoop_fields:
  assumes "list_all reqField_ok rf"
  shows "populateRequestLoop h isPrint (pre @ encodeRequest rf) (length pre) st
     = populateRun h isPrint (requestSeries rf) st"
  using assms
proof (induction rf arbitrary: pre st)
  case Nil
  then show ?case by (simp add: populateRequestLoop.simps encodeRequest_def)
next
  case (Cons f rf)
  let ?w = "reqFieldWire f" and ?post = "encodeRequest rf"
  have f: "reqField_ok f" using Cons.prems by simp
  then have w: "field_ok ?w" by (cases f) (simp_all add: field_ok_def)
  have data: "pre @ encodeRequest (f # rf) = pre @ encodeField ?w @ ?post"
    by (simp add: encodeRequest_def)
  have IH: "populateRequestLoop h isPrint (pre @ encodeField ?w @ ?post) (length (pre @ encodeField ?w)) st'
      = populateRun h isPrint (requestSeries rf) st'" for st'
    using Cons.IH [of "pre @ encodeField ?w" st'] Cons.prems by simp
  have lt: "length pre < length (pre @ encodeField ?w @ ?post)"
    using encodeField_pos [of ?w] by simp
  note unroll = populateRequestLoop.simps [of h isPrint "pre @ encodeField ?w @ ?post" "length pre" st]
  note parts = fieldKey_parts [OF w]
  show ?case
  proof (cases "snd st = []")
    case True
    then show ?thesis
      by (simp add: populateRequestLoop.simps [of h isPrint _ _ st] populateRun_done)
  next
    case ne: False
    show ?thesis
    proof (cases f)
      case (ReqSeries fs)
      have b: "length (encodeSeries fs) < 2 ^ 64" and ok: "list_all tsField_ok fs" using f ReqSeries by simp_all
      show ?thesis
        unfolding data unroll using lt ne parts bytes_field [OF b, of pre 1 ?post] IH
        by (simp add: read_key Let_def ReqSeries wire_type_defs populateSeries_step [OF ok] del: length_append
            split: option.split sum.split)
    next
      case (ReqOther g)
      then have "fst g \<noteq> 1" using f by simp
      then show ?thesis
        unfolding data unroll using lt ne parts skip_field [OF w, of pre ?post] IH
        by (simp add: read_key Let_def ReqOther del: length_append)
    qed
  qed
qed

text \<open>The invariant of the run: the rows still needed are untouched and indexed by their id; each other
  row holds the labels of a series of the request that has its id.\<close>

definition labelled :: "'d xxhash \<Rightarrow> (nat \<Rightarrow> bool) \<Rightarrow> tsField list list \<Rightarrow> remoteWriteSeriesRow \<Rightarrow> remoteWriteSeriesRow \<Rightarrow> bool" where
  "labelled h isPrint series row row' \<longleftrightarrow>
     (\<exists>fs \<in> set series. \<exists>m ls text.
        remoteWriteSeriesIdentityLabels h (seriesLabels fs) = (Inr (srID row, m), ls)
      \<and> labelsJSONFromRemoteWriteLabels isPrint ls = Inr text
      \<and> row' = row\<lparr>srLabelsJSON := text\<rparr>)"

definition populate_inv ::
  "'d xxhash \<Rightarrow> (nat \<Rightarrow> bool) \<Rightarrow> tsField list list \<Rightarrow> remoteWriteSeriesRow list
   \<Rightarrow> remoteWriteSeriesRow list \<times> needed \<Rightarrow> bool" where
  "populate_inv h isPrint series rows0 st \<longleftrightarrow>
     (length (fst st) = length rows0)
     \<and> (\<forall>sid i. map_of (snd st) sid = Some i \<longrightarrow> i < length rows0 \<and> srID (rows0 ! i) = sid \<and> fst st ! i = rows0 ! i)
     \<and> (\<forall>i < length rows0. map_of (snd st) (srID (rows0 ! i)) = Some i
           \<or> labelled h isPrint series (rows0 ! i) (fst st ! i))"

lemma populateStep_inv:
  assumes inv: "populate_inv h isPrint series rows0 st" and fs: "fs \<in> set series"
    and d: "distinct (map srID rows0)"
    and step: "populateStep h isPrint (seriesLabels fs) st = Some (Inr st')"
  shows "populate_inv h isPrint series rows0 st'"
proof -
  obtain rows needed where st: "st = (rows, needed)" by (cases st)
  from step obtain sid m ls where i: "remoteWriteSeriesIdentityLabels h (seriesLabels fs) = (Inr (sid, m), ls)"
    by (auto simp: populateStep_def split: prod.splits sum.splits)
  show ?thesis
  proof (cases "map_of needed sid")
    case None
    then show ?thesis using step i inv by (simp add: st populateStep_def)
  next
    case (Some k)
    then obtain js where t: "labelsJSONFromRemoteWriteLabels isPrint ls = Inr js" "k < length rows"
      and st': "st' = (rows[k := (rows ! k)\<lparr>srLabelsJSON := js\<rparr>], AList.delete sid needed)"
      using step i by (auto simp: st populateStep_def split: sum.splits if_splits)
    have k: "k < length rows0" "srID (rows0 ! k) = sid" "rows ! k = rows0 ! k" "length rows = length rows0"
      using inv Some by (auto simp: st populate_inv_def)
    have lab: "labelled h isPrint series (rows0 ! k) ((rows ! k)\<lparr>srLabelsJSON := js\<rparr>)"
      unfolding labelled_def using fs i t(1) k by auto
    have uniq: "i = k" if "srID (rows0 ! i) = sid" "i < length rows0" for i
      using d k that nth_eq_iff_index_eq [of "map srID rows0" i k] by simp
    have del: "map_of (AList.delete sid needed) = (map_of needed)(sid := None)"
      by (rule delete_conv')
    note I = inv [unfolded st populate_inv_def fst_conv snd_conv]
    show ?thesis
      unfolding st' populate_inv_def fst_conv snd_conv del
    proof (intro conjI allI impI)
      fix j i assume j: "((map_of needed)(sid := None)) j = Some i"
      then have "map_of needed j = Some i" "j \<noteq> sid" by (auto split: if_splits)
      then have b: "i < length rows0" "srID (rows0 ! i) = j" "rows ! i = rows0 ! i" "i \<noteq> k" using I k(2) by auto
      then show "i < length rows0" "srID (rows0 ! i) = j"
        "rows[k := (rows ! k)\<lparr>srLabelsJSON := js\<rparr>] ! i = rows0 ! i" by simp_all
    next
      fix i assume i: "i < length rows0"
      show "((map_of needed)(sid := None)) (srID (rows0 ! i)) = Some i
          \<or> labelled h isPrint series (rows0 ! i) (rows[k := (rows ! k)\<lparr>srLabelsJSON := js\<rparr>] ! i)"
      proof (cases "i = k")
        case True
        then show ?thesis using lab t(2) by simp
      next
        case False
        then have "srID (rows0 ! i) \<noteq> sid" using uniq i by blast
        then show ?thesis using I i False by auto
      qed
    qed (use I in simp)
  qed
qed

lemma populateRun_inv:
  assumes "populate_inv h isPrint series rows0 st" "set part \<subseteq> set series" "distinct (map srID rows0)"
    and "populateRun h isPrint part st = Some (Inr st')"
  shows "populate_inv h isPrint series rows0 st'"
  using assms
proof (induction part arbitrary: st)
  case (Cons fs part)
  then show ?case
    using populateStep_inv [OF Cons.prems(1) _ Cons.prems(3), of fs]
    by (auto split: if_splits option.splits sum.splits)
qed simp

lemma neededRows_map:
  assumes "distinct (map srID rows)" "\<forall>r \<in> set rows. srLabelsJSON r = ''''"
  shows "map_of (neededRows rows) k = Some i \<longleftrightarrow> i < length rows \<and> srID (rows ! i) = k"
proof -
  have "n \<le> length rows \<Longrightarrow>
      map_of (foldl (\<lambda>needed i. if srLabelsJSON (rows ! i) = '''' then AList.update (srID (rows ! i)) i needed
        else needed) [] [0..<n]) k = Some i \<longleftrightarrow> i < n \<and> srID (rows ! i) = k" for n
  proof (induction n)
    case (Suc n)
    have "srID (rows ! n) = srID (rows ! i) \<Longrightarrow> i < n \<Longrightarrow> False"
      using assms(1) Suc.prems nth_eq_iff_index_eq [of "map srID rows" n i] by simp
    then show ?case
      using Suc assms(2) by (auto simp: update_conv' less_Suc_eq)
  qed simp
  from this [of "length rows"] show ?thesis
    unfolding neededRows_def by simp
qed

lemma populate_inv_start:
  assumes "distinct (map srID rows)" "\<forall>r \<in> set rows. srLabelsJSON r = ''''"
  shows "populate_inv h isPrint series rows (rows, neededRows rows)"
  using neededRows_map [OF assms] by (simp add: populate_inv_def)

lemma populate_sound:
  assumes rf: "list_all reqField_ok rf" and rows: "distinct (map srID rows)" "\<forall>r \<in> set rows. srLabelsJSON r = ''''"
    and r: "populateSeriesLabelsJSONFromProto h isPrint (encodeRequest rf) rows = Some (Inr rows')"
  shows "length rows' = length rows \<and> (\<forall>i < length rows. labelled h isPrint (requestSeries rf) (rows ! i) (rows' ! i))"
proof (cases "neededRows rows = []")
  case True
  then have "rows = []"
    using neededRows_map [OF rows, of "srID (rows ! 0)" 0] by (cases rows) auto
  then show ?thesis using r True by (simp add: populateSeriesLabelsJSONFromProto_def)
next
  case False
  then have "populateRun h isPrint (requestSeries rf) (rows, neededRows rows) = Some (Inr (rows', []))"
    using r populateRequestLoop_fields [OF rf, of h isPrint "[]" "(rows, neededRows rows)"]
    by (auto simp: populateSeriesLabelsJSONFromProto_def Let_def split: option.splits sum.splits if_splits)
  from populateRun_inv [OF populate_inv_start [OF rows] subset_refl rows(1) this]
  show ?thesis by (simp add: populate_inv_def)
qed

text \<open>With valid labels everywhere the run cannot fail, and it finds every id that the request has.\<close>

lemma valid_json:
  assumes "labels_valid ls"
  shows "\<exists>js. labelsJSONFromRemoteWriteLabels isPrint (sortedLabels ls) = Inr js"
proof -
  have "'''' \<notin> set (map lblName (sortedLabels ls))"
    using assms by (auto simp: labels_valid_def)
  from labelsJSONLoop_join [OF this] show ?thesis
    by (simp add: labelsJSONFromRemoteWriteLabels_def)
qed

definition seriesID :: "'d xxhash \<Rightarrow> tsField list \<Rightarrow> u64" where
  "seriesID h fs = xxSum64 h (seriesEncoding (sortedLabels (seriesLabels fs)))"

lemma populateStep_ok:
  assumes "xxhash_ok h" "labels_valid (seriesLabels fs)" "populate_inv h isPrint series rows0 st"
  shows "\<exists>st'. populateStep h isPrint (seriesLabels fs) st = Some (Inr st')
     \<and> map_of (snd st') = (map_of (snd st))(seriesID h fs := None)"
proof -
  obtain rows needed where st: "st = (rows, needed)" by (cases st)
  note id = slow_identity_valid [OF assms(1,2), folded seriesID_def]
  show ?thesis
  proof (cases "map_of needed (seriesID h fs)")
    case None
    then have "(map_of needed)(seriesID h fs := None) = map_of needed" by auto
    then show ?thesis using None id by (simp add: st populateStep_def)
  next
    case (Some k)
    then have "k < length rows" using assms(3) by (simp add: st populate_inv_def)
    then show ?thesis
      using Some id valid_json [OF assms(2), of isPrint] by (auto simp: st populateStep_def delete_conv')
  qed
qed

lemma populateRun_ok:
  assumes "xxhash_ok h" "\<forall>fs \<in> set part. labels_valid (seriesLabels fs)" "set part \<subseteq> set series"
    and "distinct (map srID rows0)" "populate_inv h isPrint series rows0 st"
    and "dom (map_of (snd st)) \<subseteq> seriesID h ` set part"
  shows "\<exists>rows'. populateRun h isPrint part st = Some (Inr (rows', []))"
  using assms(2-)
proof (induction part arbitrary: st)
  case Nil
  then have "snd st = []" by (simp add: dom_map_of_conv_image_fst)
  then show ?case by (cases st) simp
next
  case (Cons fs part)
  show ?case
  proof (cases "snd st = []")
    case True
    then show ?thesis by (cases st) simp
  next
    case False
    obtain st' where st': "populateStep h isPrint (seriesLabels fs) st = Some (Inr st')"
      "map_of (snd st') = (map_of (snd st))(seriesID h fs := None)"
      using populateStep_ok [OF assms(1) _ Cons.prems(4), of fs] Cons.prems(1) by auto
    have "populate_inv h isPrint series rows0 st'"
      using populateStep_inv [OF Cons.prems(4) _ Cons.prems(3) st'(1)] Cons.prems(2) by auto
    moreover have "dom (map_of (snd st')) \<subseteq> seriesID h ` set part"
      using Cons.prems(5) unfolding st'(2) by auto
    ultimately show ?thesis
      using Cons.IH [of st'] Cons.prems False st'(1) by auto
  qed
qed

lemma populate_complete:
  assumes "xxhash_ok h" "list_all reqField_ok rf" "\<forall>fs \<in> set (requestSeries rf). labels_valid (seriesLabels fs)"
    and rows: "distinct (map srID rows)" "\<forall>r \<in> set rows. srLabelsJSON r = ''''"
    and "srID ` set rows \<subseteq> seriesID h ` set (requestSeries rf)"
  shows "\<exists>rows'. populateSeriesLabelsJSONFromProto h isPrint (encodeRequest rf) rows = Some (Inr rows')"
proof -
  have "dom (map_of (neededRows rows)) \<subseteq> srID ` set rows"
    using neededRows_map [OF rows] by (auto simp: dom_def)
  then have d: "dom (map_of (snd (rows, neededRows rows))) \<subseteq> seriesID h ` set (requestSeries rf)"
    using assms(6) by auto
  from populateRun_ok [OF assms(1,3) subset_refl rows(1) populate_inv_start [OF rows] d]
  obtain rows' where "populateRun h isPrint (requestSeries rf) (rows, neededRows rows) = Some (Inr (rows', []))"
    by blast
  then show ?thesis
    using populateRequestLoop_fields [OF assms(2), of h isPrint "[]" "(rows, neededRows rows)"]
    by (auto simp: populateSeriesLabelsJSONFromProto_def Let_def)
qed

section \<open>The labels of the reference records\<close>

text \<open>Every record of the reference builder keeps the sorted labels of a series of the request.\<close>

definition record_of :: "'d xxhash \<Rightarrow> remoteWriteLabel list set \<Rightarrow> remoteWriteSeriesRow \<Rightarrow> bool" where
  "record_of h L r \<longleftrightarrow> srLabelsJSON r = ''''
     \<and> (\<exists>ls \<in> L. \<exists>m. remoteWriteSeriesIdentityLabels h ls = (Inr (srID r, m), srLabels r))"

lemma addSeriesRecord_keeps:
  assumes "addSeriesRecord g s (records, m) row = Some (records', m')" "\<forall>r \<in> set records. P r" "P row"
    and "\<And>r a b. P r \<Longrightarrow> P (widen r a b)"
  shows "\<forall>r \<in> set records'. P r"
  using assms
  by (auto simp: addSeriesRecord_def split: option.splits prod.splits if_splits dest!: set_update_subset_insert [THEN subsetD])

lemma record_of_widen: "record_of h L r \<Longrightarrow> record_of h L (widen r a b)"
  by (simp add: record_of_def)

lemma buildTimeSeries_adds:
  assumes "buildTimeSeries h marshal step teamID attrs (b, index) ts = Some (Inr (b', index'))"
  shows "seriesRecords b' = seriesRecords b
     \<or> (\<exists>sid m ls mn mx. remoteWriteSeriesIdentityLabels h (tsRowLabels ts) = (Inr (sid, m), ls)
          \<and> addSeriesRecord mapGet mapSet (seriesRecords b, index) (newRow teamID sid m ls mn mx)
            = Some (seriesRecords b', index'))"
  using assms
  by (auto simp: buildTimeSeries_def Let_def addRemoteWriteSeriesRecord_def
      split: if_splits prod.splits sum.splits option.splits)

lemma buildTimeSeries_records:
  assumes "buildTimeSeries h marshal step teamID attrs (b, index) ts = Some (Inr (b', index'))"
    and old: "\<forall>r \<in> set (seriesRecords b). record_of h L r" and "tsRowLabels ts \<in> L"
  shows "\<forall>r \<in> set (seriesRecords b'). record_of h L r"
  using buildTimeSeries_adds [OF assms(1)]
proof (elim disjE exE conjE)
  fix sid m ls mn mx
  assume "remoteWriteSeriesIdentityLabels h (tsRowLabels ts) = (Inr (sid, m), ls)"
    and add: "addSeriesRecord mapGet mapSet (seriesRecords b, index) (newRow teamID sid m ls mn mx)
      = Some (seriesRecords b', index')"
  then have "record_of h L (newRow teamID sid m ls mn mx)"
    using assms(3) by (auto simp: record_of_def)
  then show ?thesis
    by (rule addSeriesRecord_keeps [OF add old]) (rule record_of_widen)
qed (use old in simp)

lemma buildTimeSeriesLoop_records:
  assumes "buildTimeSeriesLoop h marshal step teamID attrs st tss = Some (Inr (b', index'))"
    and "\<forall>r \<in> set (seriesRecords (fst st)). record_of h L r" "tsRowLabels ` set tss \<subseteq> L"
  shows "\<forall>r \<in> set (seriesRecords b'). record_of h L r"
  using assms
proof (induction tss arbitrary: st)
  case (Cons ts tss)
  obtain b index where st: "st = (b, index)" by (cases st)
  from Cons.prems(1) obtain b1 index1 where
    s: "buildTimeSeries h marshal step teamID attrs (b, index) ts = Some (Inr (b1, index1))"
    "buildTimeSeriesLoop h marshal step teamID attrs (b1, index1) tss = Some (Inr (b', index'))"
    by (auto simp: st split: option.splits sum.splits)
  have "\<forall>r \<in> set (seriesRecords b1). record_of h L r"
    using buildTimeSeries_records [OF s(1)] Cons.prems(2,3) by (simp add: st)
  then show ?case
    using Cons.IH [OF s(2)] Cons.prems(3) by simp
qed simp

lemma buildRemoteWriteBatch_records:
  assumes "buildRemoteWriteBatch h marshal now req interval teamID attrs = Some (Inr sb)"
  shows "\<forall>r \<in> set (seriesRecords sb). record_of h (tsRowLabels ` set (rqTimeseries req)) r"
proof -
  from assms obtain b index where
    run: "buildTimeSeriesLoop h marshal (durationMilliseconds interval) teamID attrs
      ((emptyBatch [])\<lparr>metadataRows := metadataRowsOf teamID now (rqMetadata req)\<rparr>, Map.empty) (rqTimeseries req)
      = Some (Inr (b, index))" and sb: "seriesRecords sb = seriesRecords b"
    by (auto simp: buildRemoteWriteBatch_def Let_def split: option.splits sum.splits)
  show ?thesis
    unfolding sb by (rule buildTimeSeriesLoop_records [OF run]) (simp_all add: emptyBatch_def)
qed

text \<open>No collision among the series of a request: xxhash separates their canonical encodings, and the
  labels are of a size a slice can have.\<close>

definition no_collision :: "'d xxhash \<Rightarrow> tsField list list \<Rightarrow> bool" where
  "no_collision h series \<longleftrightarrow>
     inj_on (xxSum64 h) ((\<lambda>fs. seriesEncoding (sortedLabels (seriesLabels fs))) ` set series)
     \<and> (\<forall>fs \<in> set series. \<forall>l \<in> set (seriesLabels fs). short_label l)"

lemma same_id_same_labels:
  assumes "no_collision h series" "fs \<in> set series" "fs' \<in> set series" "seriesID h fs = seriesID h fs'"
  shows "sortedLabels (seriesLabels fs) = sortedLabels (seriesLabels fs')"
proof -
  have "seriesEncoding (sortedLabels (seriesLabels fs)) = seriesEncoding (sortedLabels (seriesLabels fs'))"
    using assms unfolding no_collision_def seriesID_def by (auto dest: inj_onD)
  then show ?thesis
    using assms by (intro seriesEncoding_inject) (auto simp: no_collision_def)
qed

lemma populateSeriesLabelsJSON_all:
  assumes "\<forall>r \<in> set rows. srLabelsJSON r = '''' \<and> (\<exists>js. labelsJSONFromRemoteWriteLabels isPrint (srLabels r) = Inr js)"
  shows "\<exists>rows'. populateSeriesLabelsJSON isPrint rows = Inr rows' \<and> length rows' = length rows
     \<and> (\<forall>i < length rows. \<exists>js. labelsJSONFromRemoteWriteLabels isPrint (srLabels (rows ! i)) = Inr js
          \<and> rows' ! i = (rows ! i)\<lparr>srLabelsJSON := js\<rparr>)"
  using assms
proof (induction rows)
  case (Cons r rows)
  then obtain rows' js where "populateSeriesLabelsJSON isPrint rows = Inr rows'" "length rows' = length rows"
    "\<forall>i < length rows. \<exists>js. labelsJSONFromRemoteWriteLabels isPrint (srLabels (rows ! i)) = Inr js
          \<and> rows' ! i = (rows ! i)\<lparr>srLabelsJSON := js\<rparr>"
    "srLabelsJSON r = ''''" "labelsJSONFromRemoteWriteLabels isPrint (srLabels r) = Inr js" by auto
  then show ?case
    by (simp add: nth_Cons split: nat.split)
qed simp

lemma labels_lookup_refines:
  fixes rows :: "remoteWriteSeriesRow list" and rf :: "reqField list"
  assumes h: "xxhash_ok h" and rf: "list_all reqField_ok rf"
    and valid: "\<forall>fs \<in> set (requestSeries rf). labels_valid (seriesLabels fs)"
    and nc: "no_collision h (requestSeries rf)" and d: "distinct (map srID rows)"
    and rec: "\<forall>r \<in> set rows. record_of h (seriesLabels ` set (requestSeries rf)) r"
  shows "\<exists>rows'. populateSeriesLabelsJSON isPrint rows = Inr rows'
     \<and> populateSeriesLabelsJSONFromProto h isPrint (encodeRequest rf) (map strip rows) = Some (Inr (map strip rows'))"
proof -
  have src: "\<exists>fs \<in> set (requestSeries rf). srID r = seriesID h fs \<and> srLabels r = sortedLabels (seriesLabels fs)"
    and empty: "srLabelsJSON r = ''''" if "r \<in> set rows" for r
    using rec that valid slow_identity_valid [OF h, folded seriesID_def] unfolding record_of_def seriesID_def by force+
  then have "\<forall>r \<in> set rows. srLabelsJSON r = '''' \<and> (\<exists>js. labelsJSONFromRemoteWriteLabels isPrint (srLabels r) = Inr js)"
    using valid valid_json [of _ isPrint] by metis
  from populateSeriesLabelsJSON_all [OF this] obtain rows' where
    slow: "populateSeriesLabelsJSON isPrint rows = Inr rows'" "length rows' = length rows"
    "\<And>i. i < length rows \<Longrightarrow> \<exists>js. labelsJSONFromRemoteWriteLabels isPrint (srLabels (rows ! i)) = Inr js
          \<and> rows' ! i = (rows ! i)\<lparr>srLabelsJSON := js\<rparr>" by blast
  let ?rows = "map strip rows"
  have fr: "distinct (map srID ?rows)" "\<forall>r \<in> set ?rows. srLabelsJSON r = ''''"
    using d empty by (simp_all add: comp_def strip_def)
  have "srID ` set ?rows \<subseteq> seriesID h ` set (requestSeries rf)"
    using src by (auto simp: image_image)
  from populate_complete [OF h rf valid fr this] obtain rows2 where
    fast: "populateSeriesLabelsJSONFromProto h isPrint (encodeRequest rf) ?rows = Some (Inr rows2)" by blast
  note F = populate_sound [OF rf fr fast]
  have "rows2 = map strip rows'"
  proof (rule nth_equalityI)
    show "length rows2 = length (map strip rows')" using F slow(2) by simp
    fix i assume "i < length rows2"
    then have i: "i < length rows" using F by simp
    then have "labelled h isPrint (requestSeries rf) (strip (rows ! i)) (rows2 ! i)"
      using F by simp
    then obtain fs m ls js where fs: "fs \<in> set (requestSeries rf)"
      "remoteWriteSeriesIdentityLabels h (seriesLabels fs) = (Inr (srID (rows ! i), m), ls)"
      "labelsJSONFromRemoteWriteLabels isPrint ls = Inr js" "rows2 ! i = (strip (rows ! i))\<lparr>srLabelsJSON := js\<rparr>"
      unfolding labelled_def by auto
    have id: "srID (rows ! i) = seriesID h fs" "ls = sortedLabels (seriesLabels fs)"
      using fs(1,2) valid slow_identity_valid [OF h, of "seriesLabels fs"] by (auto simp: seriesID_def)
    obtain fs0 where fs0: "fs0 \<in> set (requestSeries rf)" "srID (rows ! i) = seriesID h fs0"
      "srLabels (rows ! i) = sortedLabels (seriesLabels fs0)" using src [of "rows ! i"] i by auto
    have "srLabels (rows ! i) = ls"
      using same_id_same_labels [OF nc fs(1) fs0(1)] id fs0 by simp
    then show "rows2 ! i = map strip rows' ! i"
      using slow(2) slow(3) [OF i] i fs(3,4) by (auto simp: strip_def)
  qed
  then show ?thesis using slow(1) fast by auto
qed

section \<open>A request on the wire\<close>

definition demoWire :: "reqField list" where
  "demoWire =
     [ReqOther (9, WVarint 1),
      ReqSeries
        [TsLabel [(1, WBytes (str_bytes ''__name__'')), (2, WBytes (str_bytes ''up''))],
         TsLabel [(2, WBytes (str_bytes ''a'')), (1, WBytes (str_bytes ''job''))],
         TsSample [(1, WFixed64 7), (2, WVarint 100)]]]"

lemma varint_small: "v < 128 \<Longrightarrow> encodeVarint v = [ucast v]"
  by (simp add: encodeVarint.simps [of v])

lemma demoWire_ok:
  "list_all reqField_ok demoWire" "length demoWire \<le> 2 ^ 40" "length (encodeRequest demoWire) < 2 ^ 59"
  by (simp_all add: demoWire_def label_field_ok_def sample_field_ok_def field_ok_def wire_type_defs
      encodeRequest_def encodeSeries_def encodeField_def fieldKey_def encodeBytes_def varint_small)

lemma demoWire_labels:
  assumes "fs \<in> set (requestSeries demoWire)"
  shows "seriesLabels fs = [\<lparr>lblName = ''__name__'', lblValue = ''up''\<rparr>, \<lparr>lblName = ''job'', lblValue = ''a''\<rparr>]"
  using assms by (simp add: demoWire_def labelOf_def emptyLabel_def)

lemma demoWire_samples: "fs \<in> set (requestSeries demoWire) \<Longrightarrow> seriesSamples fs \<noteq> []"
  by (simp add: demoWire_def)

lemma demoWire_valid:
  assumes "fs \<in> set (requestSeries demoWire)"
  shows "labels_valid (seriesLabels fs)" "remoteWriteLabelsSorted (seriesLabels fs)"
  unfolding demoWire_labels [OF assms]
  by (simp_all add: labels_valid_def metricNameLabel_def remoteWriteLabelsSorted_def upt_rec)

lemma demoWire_good: "\<not> (\<exists>ts \<in> set (rqTimeseries (decodeRequest demoWire)). ts_bad marshal step ts)"
  using demoWire_valid by (auto simp: decodeRequest_def ts_bad_def)

lemma demoWire_slow:
  "\<exists>sb. buildRemoteWriteBatch sumHash marshal 0 (decodeRequest demoWire :: unit prompbWriteRequest) interval 1 False
     = Some (Inr sb)"
proof -
  have "length (rqTimeseries (decodeRequest demoWire :: unit prompbWriteRequest)) \<le> 2 ^ 40"
    by (simp add: decodeRequest_def demoWire_def)
  from buildRemoteWriteBatch_run [OF sumHash_ok this, where marshal = marshal and interval = interval
      and now = 0 and teamID = 1 and attrs = False] demoWire_good [of marshal] show ?thesis by blast
qed

section \<open>Properties\<close>





text \<open>A gap between the two passes: a series without samples whose label names are increasing but
  lack a usable __name__ (or that has no labels at all) is skipped by the first pass, yet when it
  stands before the new series in the request the second pass fails on it, so the accepted request
  ends in an error.\<close>

theorem sampleless_series_blocks_labels:
  assumes "xxhash_ok h" "list_all tsField_ok fs" "length (encodeSeries fs) < 2 ^ 64" "list_all reqField_ok rf"
    and "seriesSamples fs = []" "fiAddAll h (fiReset h) (seriesLabels fs) = Inr (True, s)" "\<not> labels_valid (seriesLabels fs)"
    and "rows \<noteq> []" "distinct (map srID rows)" "\<forall>r \<in> set rows. srLabelsJSON r = ''''"
  shows "parseFastTimeSeries h (encodeSeries fs) st step teamID = Some (Inr (True, st))
     \<and> (\<exists>e. populateSeriesLabelsJSONFromProto h isPrint (encodeRequest (ReqSeries fs # rf)) rows = Some (Inl e))"
proof
  have "fastSeriesLoop h (encodeSeries fs) 0 (fiReset h, [], False) = Inr (True, s, [], False)"
    using tsFieldsRun_cases [of h "fiReset h" fs "[]" False] assms(5,6) by (simp add: fast_parse [OF assms(2)] keptFast_def)
  then show "parseFastTimeSeries h (encodeSeries fs) st step teamID = Some (Inr (True, st))"
    by (cases st) (simp add: parseFastTimeSeries_def)
next
  have ok: "list_all reqField_ok (ReqSeries fs # rf)" using assms(2,3,4) by simp
  have ne: "neededRows rows \<noteq> []"
    using neededRows_map [OF assms(9,10), of "srID (rows ! 0)" 0] assms(8) by auto
  obtain e ls where "remoteWriteSeriesIdentityLabels h (seriesLabels fs) = (Inl e, ls)"
    using slow_identity_invalid [OF assms(7), of h] by (metis prod.collapse)
  then have "populateRun h isPrint (requestSeries (ReqSeries fs # rf)) (rows, neededRows rows) = Some (Inl e)"
    using ne by (simp add: populateStep_def)
  then show "\<exists>e. populateSeriesLabelsJSONFromProto h isPrint (encodeRequest (ReqSeries fs # rf)) rows = Some (Inl e)"
    using populateRequestLoop_fields [OF ok, of h isPrint "[]" "(rows, neededRows rows)"] ne
    by (simp add: populateSeriesLabelsJSONFromProto_def)
qed

theorem sampleless_series_blocks_labels_witness:
  "\<exists>e. populateSeriesLabelsJSONFromProto sumHash (\<lambda>_. True) (encodeRequest (ReqSeries [] # demoWire))
     [newRow 1 5 ''up'' [] 0 0] = Some (Inl e)"
  by (rule sampleless_series_blocks_labels [THEN conjunct2, OF sumHash_ok, of "[]" demoWire _ "[newRow 1 5 ''up'' [] 0 0]"])
    (simp_all add: encodeSeries_def labels_valid_def demoWire_ok)

end
