(* ===== verification/SqlText.thy ===== *)
theory SqlText
  imports GoText "HOL-Library.Monad_Syntax"
begin

text \<open>
  The text layer of the SQL that snuffle sends to ClickHouse: identifiers, table names,
  string literals, decimal numbers, lists of ids (clickhouse.go, storage.go), the schema
  layout switch (schema_layout.go) and the reading of emitted text.

  The reading side is a specification: \<open>lexSQL\<close> splits a text into the characters outside
  literals and the values of the quoted literals, by ClickHouse's documented rule that a
  backslash escapes the next character. What the escape of a character other than the
  backslash and the quote denotes is left open (the parameter \<open>esc\<close>). Two texts
  have the same structure (\<open>sameSQL\<close>) when they read to the same tokens up to
  the values of their literals; the congruence rules for it, the bundle \<open>sql_intros\<close>,
  are what the theories on the SQL builders use to show that no label value changes the
  structure of a query.
\<close>

named_theorems sql_intros \<open>congruence rules for texts of the same structure\<close>

abbreviation squote :: char where "squote \<equiv> CHR 0x27"

section \<open>Strings\<close>

text \<open>strings.Join.\<close>

fun joinWith :: "string \<Rightarrow> string list \<Rightarrow> string" where
  "joinWith sep [] = []"
| "joinWith sep [x] = x"
| "joinWith sep (x # y # xs) = x @ sep @ joinWith sep (y # xs)"

text \<open>strings.ReplaceAll with a one character pattern.\<close>

definition replaceChar :: "char \<Rightarrow> string \<Rightarrow> string \<Rightarrow> string" where
  "replaceChar c r s = concat (map (\<lambda>d. if d = c then r else [d]) s)"

text \<open>unicode.IsSpace, and strings.TrimSpace over the runes of a string.\<close>

definition isSpaceRune :: "nat \<Rightarrow> bool" where
  "isSpaceRune r \<longleftrightarrow> r \<in> {0x20, 0x85, 0xA0, 0x1680, 0x2028, 0x2029, 0x202F, 0x205F, 0x3000}
     \<or> 9 \<le> r \<and> r \<le> 13 \<or> 0x2000 \<le> r \<and> r \<le> 0x200A"

definition trimSpace :: "string \<Rightarrow> string" where
  "trimSpace s = concat (map snd (rev (dropWhile (isSpaceRune \<circ> fst)
     (rev (dropWhile (isSpaceRune \<circ> fst) (runes s))))))"

definition asciiSpace :: "char \<Rightarrow> bool" where
  "asciiSpace c \<longleftrightarrow> code c = 32 \<or> 9 \<le> code c \<and> code c \<le> 13"

lemma trimSpace_ascii:
  assumes "list_all (\<lambda>c. code c < 0x80) s"
  shows "trimSpace s = rev (dropWhile asciiSpace (rev (dropWhile asciiSpace s)))"
proof -
  let ?f = "\<lambda>c. (code c, [c])"
  have sp: "isSpaceRune (code c) \<longleftrightarrow> asciiSpace c" if "c \<in> set s" for c
    using assms that by (auto simp: isSpaceRune_def asciiSpace_def list_all_iff)
  have drop: "dropWhile (isSpaceRune \<circ> fst) (map ?f t) = map ?f (dropWhile asciiSpace t)" if "set t \<subseteq> set s" for t
    using that sp by (induction t) auto
  have "set (rev (dropWhile asciiSpace s)) \<subseteq> set s" by (auto dest: set_dropWhileD)
  moreover have "concat (rev (map (\<lambda>x. [x]) t)) = rev t" for t :: string
    by (induction t) simp_all
  ultimately show ?thesis
    using drop [of "rev (dropWhile asciiSpace s)"] drop [of s]
    by (simp add: trimSpace_def runes_ascii [OF assms] rev_map [symmetric] comp_def)
qed

text \<open>strings.Split with a one character separator.\<close>

fun splitChar :: "char \<Rightarrow> string \<Rightarrow> string list" where
  "splitChar c [] = [[]]"
| "splitChar c (d # s) = (if d = c then [] # splitChar c s
     else case splitChar c s of [] \<Rightarrow> [[d]] | p # ps \<Rightarrow> (d # p) # ps)"

text \<open>strconv.FormatUint and FormatInt in base 10.\<close>

fun natDec :: "nat \<Rightarrow> string" where
  "natDec n = (if n < 10 then [char_of (48 + n)] else natDec (n div 10) @ [char_of (48 + n mod 10)])"

declare natDec.simps [simp del]

definition intDec :: "int \<Rightarrow> string" where
  "intDec i = (if i < 0 then CHR 0x2D # natDec (nat (- i)) else natDec (nat i))"

definition formatUint :: "u64 \<Rightarrow> string" where
  "formatUint w = natDec (unat w)"

section \<open>Identifiers, literals and numbers (clickhouse.go)\<close>

definition isLetter :: "char \<Rightarrow> bool" where
  "isLetter c \<longleftrightarrow> 65 \<le> code c \<and> code c \<le> 90 \<or> 97 \<le> code c \<and> code c \<le> 122"

definition isDigit :: "char \<Rightarrow> bool" where
  "isDigit c \<longleftrightarrow> 48 \<le> code c \<and> code c \<le> 57"

text \<open>The expression of identifierRE, a letter or underscore followed by letters, digits
  and underscores. Go's \<open>$\<close> without the multi-line flag matches at the end of the text only.\<close>

definition identifierRE :: "string \<Rightarrow> bool" where
  "identifierRE s = (case s of [] \<Rightarrow> False
     | c # cs \<Rightarrow> (isLetter c \<or> c = CHR ''_'') \<and> list_all (\<lambda>d. isLetter d \<or> isDigit d \<or> d = CHR ''_'') cs)"

text \<open>None is the panic on an invalid identifier.\<close>

definition quoteIdent :: "string \<Rightarrow> string option" where
  "quoteIdent ident = (if identifierRE ident then Some ([CHR 0x60] @ ident @ [CHR 0x60]) else None)"

fun quoteIdents :: "string list \<Rightarrow> string list option" where
  "quoteIdents [] = Some []"
| "quoteIdents (p # ps) = do { q \<leftarrow> quoteIdent p; qs \<leftarrow> quoteIdents ps; Some (q # qs) }"

definition tableName :: "string \<Rightarrow> string \<Rightarrow> string option" where
  "tableName database table =
     (if CHR ''.'' \<in> set table then do { qs \<leftarrow> quoteIdents (splitChar (CHR ''.'') table); Some (joinWith ''.'' qs) }
      else if database = [] then quoteIdent table
      else do { d \<leftarrow> quoteIdent database; t \<leftarrow> quoteIdent table; Some (d @ ''.'' @ t) })"

definition sqlString :: "string \<Rightarrow> string" where
  "sqlString value = [squote]
     @ replaceChar squote [bslash, squote] (replaceChar bslash [bslash, bslash] value) @ [squote]"

definition chTimeMillis :: "int \<Rightarrow> string" where
  "chTimeMillis ms = ''fromUnixTimestamp64Milli('' @ intDec ms @ '', '' @ [squote] @ ''UTC'' @ [squote] @ '')''"

section \<open>Lists of ids and limits (storage.go)\<close>

fun joinRest :: "u64 list \<Rightarrow> string" where
  "joinRest [] = []"
| "joinRest (i # is) = '','' @ formatUint i @ joinRest is"

definition joinUint64 :: "u64 list \<Rightarrow> string" where
  "joinUint64 ids = (case ids of [] \<Rightarrow> [] | i # is \<Rightarrow> formatUint i @ joinRest is)"

text \<open>The batching loop over a positive size.\<close>

function idBatchLoop :: "nat \<Rightarrow> 'a list \<Rightarrow> 'a list list" where
  "idBatchLoop n ids = (if ids = [] \<or> n = 0 then []
     else take n ids # idBatchLoop n (drop n ids))"
  by pat_completeness auto

termination by (relation "measure (\<lambda>(_, ids). length ids)") auto

declare idBatchLoop.simps [simp del]

definition idBatches :: "'a list \<Rightarrow> int \<Rightarrow> 'a list list" where
  "idBatches ids n = (if ids = [] then []
     else idBatchLoop (nat (if n \<le> 0 then 5000 else n)) ids)"

definition sqlLimit :: "int \<Rightarrow> string" where
  "sqlLimit limit = (if limit \<le> 0 then [] else '' LIMIT '' @ intDec limit)"

text \<open>A Go set of strings, \<open>map[string]struct{}\<close>, is a set; sorting gives its sorted keys.\<close>

definition sortedLimited :: "string set \<Rightarrow> int \<Rightarrow> string list" where
  "sortedLimited values limit = (let result = sorted_list_of_set values in
     if limit > 0 \<and> limit < int (length result) then take (nat limit) result else result)"

section \<open>Reading emitted text\<close>

datatype sqlTok = Chr char | Lit string

text \<open>\<open>litTail\<close> reads the rest of a literal after its opening quote.\<close>

fun litTail :: "(char \<Rightarrow> string) \<Rightarrow> string \<Rightarrow> (string \<times> string) option" where
  "litTail esc [] = None"
| "litTail esc [c] = (if c = squote then Some ([], []) else None)"
| "litTail esc (c # d # s) = (if c = squote then Some ([], d # s)
     else if c = bslash then map_option (apfst (\<lambda>v. esc d @ v)) (litTail esc s)
     else map_option (apfst (Cons c)) (litTail esc (d # s)))"

lemma litTail_shorter: "litTail esc s = Some (v, r) \<Longrightarrow> length r < length s"
  by (induction esc s arbitrary: v r rule: litTail.induct) (auto split: if_splits)

function lexSQL :: "(char \<Rightarrow> string) \<Rightarrow> string \<Rightarrow> sqlTok list option" where
  "lexSQL esc [] = Some []"
| "lexSQL esc (c # s) = (if c = squote
     then (case litTail esc s of None \<Rightarrow> None | Some (v, r) \<Rightarrow> map_option (Cons (Lit v)) (lexSQL esc r))
     else map_option (Cons (Chr c)) (lexSQL esc s))"
  by pat_completeness auto

termination
  by (relation "measure (\<lambda>(_, s). length s)") (auto dest!: litTail_shorter)

text \<open>The documented escapes, the only ones that snuffle emits.\<close>

definition esc_ok :: "(char \<Rightarrow> string) \<Rightarrow> bool" where
  "esc_ok esc \<longleftrightarrow> esc bslash = [bslash] \<and> esc squote = [squote]"

abbreviation chars :: "string \<Rightarrow> sqlTok list" where
  "chars s \<equiv> map Chr s"

fun eraseLit :: "sqlTok \<Rightarrow> sqlTok" where
  "eraseLit (Chr c) = Chr c"
| "eraseLit (Lit v) = Lit []"

definition sameSQL :: "(char \<Rightarrow> string) \<Rightarrow> string \<Rightarrow> string \<Rightarrow> bool" where
  "sameSQL esc s t \<longleftrightarrow> (\<exists>a b. lexSQL esc s = Some a \<and> lexSQL esc t = Some b \<and> map eraseLit a = map eraseLit b)"

lemma litTail_append: "litTail esc s = Some (v, r) \<Longrightarrow> litTail esc (s @ t) = Some (v, r @ t)"
proof (induction esc s arbitrary: v r rule: litTail.induct)
  case (2 esc c)
  then show ?case by (cases t) (auto split: if_splits)
qed (auto split: if_splits)

lemma lexSQL_append:
  "lexSQL esc a = Some ta \<Longrightarrow> lexSQL esc (a @ b) = map_option ((@) ta) (lexSQL esc b)"
proof (induction esc a arbitrary: ta rule: lexSQL.induct)
  case (1 esc)
  then show ?case by (cases "lexSQL esc b") auto
next
  case (2 esc c s)
  show ?case
  proof (cases "c = squote")
    case True
    with "2.prems" obtain v r tr where *: "litTail esc s = Some (v, r)" "lexSQL esc r = Some tr" "ta = Lit v # tr"
      by (auto split: option.splits)
    show ?thesis
      using True * litTail_append [OF *(1), of b] "2.IH"(1) [OF True *(1) refl *(2)]
      by (cases "lexSQL esc b") auto
  next
    case False
    with "2.prems" "2.IH"(2) [OF False] show ?thesis
      by (cases "lexSQL esc b") auto
  qed
qed

lemma lexSQL_plain: "squote \<notin> set p \<Longrightarrow> lexSQL esc p = Some (chars p)"
  by (induction p) auto

lemma lexSQL_plain_append [simp]:
  "squote \<notin> set p \<Longrightarrow> lexSQL esc (p @ s) = map_option ((@) (chars p)) (lexSQL esc s)"
  by (rule lexSQL_append [OF lexSQL_plain])

definition escapeValue :: "string \<Rightarrow> string" where
  "escapeValue v = concat (map (\<lambda>c. if c = bslash \<or> c = squote then [bslash, c] else [c]) v)"

lemma sqlString_escapeValue: "sqlString v = [squote] @ escapeValue v @ [squote]"
proof -
  have "replaceChar squote [bslash, squote] (replaceChar bslash [bslash, bslash] v) = escapeValue v"
    by (induction v) (auto simp: replaceChar_def escapeValue_def)
  then show ?thesis by (simp add: sqlString_def)
qed

lemma litTail_escapeValue:
  assumes "esc_ok esc"
  shows "litTail esc (escapeValue v @ squote # s) = Some (v, s)"
  using assms
proof (induction v)
  case Nil
  then show ?case by (cases s) (auto simp: escapeValue_def)
next
  case (Cons c v)
  obtain d u where d: "escapeValue v @ squote # s = d # u"
    by (cases "escapeValue v @ squote # s") auto
  have IH: "litTail esc (d # u) = Some (v, s)"
    using Cons d by simp
  show ?case
    using IH d Cons.prems
    by (cases u) (auto simp: escapeValue_def esc_ok_def split: if_splits)
qed

lemma lexSQL_sqlString_append [simp]:
  "esc_ok esc \<Longrightarrow> lexSQL esc (sqlString v @ s) = map_option (Cons (Lit v)) (lexSQL esc s)"
  by (simp add: sqlString_escapeValue litTail_escapeValue)

lemma lexSQL_sqlString [simp]: "esc_ok esc \<Longrightarrow> lexSQL esc (sqlString v) = Some [Lit v]"
  using lexSQL_sqlString_append [of esc v "[]"] by simp

section \<open>Texts of the same structure\<close>

lemma sameSQL_append [sql_intros]:
  assumes "sameSQL esc a a'" "sameSQL esc b b'"
  shows "sameSQL esc (a @ b) (a' @ b')"
  using assms lexSQL_append unfolding sameSQL_def by fastforce

lemma sameSQL_plain [sql_intros]: "squote \<notin> set p \<Longrightarrow> sameSQL esc p p"
  by (simp add: sameSQL_def lexSQL_plain)

lemma sameSQL_sqlString [sql_intros]: "esc_ok esc \<Longrightarrow> sameSQL esc (sqlString v) (sqlString w)"
  by (simp add: sameSQL_def)

lemma sameSQL_self: "lexSQL esc s = Some ts \<Longrightarrow> sameSQL esc s s"
  by (simp add: sameSQL_def)

lemma sameSQL_joinWith [sql_intros]:
  "list_all2 (sameSQL esc) xs ys \<Longrightarrow> squote \<notin> set sep \<Longrightarrow> sameSQL esc (joinWith sep xs) (joinWith sep ys)"
proof (induction sep xs arbitrary: ys rule: joinWith.induct)
  case (3 sep x y xs)
  then show ?case
    by (auto simp: list_all2_Cons1 intro!: sql_intros)
qed (auto simp: list_all2_Cons1 intro: sql_intros)

lemma list_all2_append_sql [sql_intros]:
  "list_all2 P a a' \<Longrightarrow> list_all2 P b b' \<Longrightarrow> list_all2 P (a @ b) (a' @ b')"
  by (rule list_all2_appendI)

lemma list_all2_Cons_sql [sql_intros]: "P x y \<Longrightarrow> list_all2 P xs ys \<Longrightarrow> list_all2 P (x # xs) (y # ys)"
  by simp

lemma list_all2_Nil_sql [sql_intros]: "list_all2 P [] []"
  by simp

lemma list_all2_quoted [sql_intros]:
  "esc_ok esc \<Longrightarrow> length vs = length ws
     \<Longrightarrow> list_all2 (sameSQL esc) (map sqlString vs) (map sqlString ws)"
  by (simp add: list_all2_conv_all_nth sameSQL_sqlString)

section \<open>Numbers\<close>

lemma code_digit [simp]: "k < 10 \<Longrightarrow> code (char_of (48 + k :: nat)) = 48 + k"
  by simp

lemma natDec_digits: "list_all isDigit (natDec n)"
proof (induction n rule: natDec.induct)
  case (1 n)
  show ?case
  proof (cases "n < 10")
    case True
    then show ?thesis by (subst natDec.simps) (simp add: isDigit_def)
  next
    case False
    have "n mod 10 \<le> 9"
      using mod_less_divisor [of 10 n] by linarith
    then have "isDigit (char_of (48 + n mod 10))"
      by (simp add: isDigit_def)
    then show ?thesis using 1 False by (subst natDec.simps) simp
  qed
qed

lemma natDec_Nil [simp]: "natDec n \<noteq> []"
  by (subst natDec.simps) simp

lemma not_digit_natDec: "\<not> isDigit c \<Longrightarrow> c \<notin> set (natDec n)"
  using natDec_digits [of n] by (auto simp: list_all_iff)

lemma squote_natDec [simp]: "squote \<notin> set (natDec n)" "CHR '','' \<notin> set (natDec n)"
  by (rule not_digit_natDec, simp add: isDigit_def)+

lemma squote_intDec [simp]: "squote \<notin> set (intDec i)"
  by (simp add: intDec_def)

lemma squote_formatUint [simp]: "squote \<notin> set (formatUint w)" "CHR '','' \<notin> set (formatUint w)"
  by (simp_all add: formatUint_def)

lemma squote_joinUint64 [simp]: "squote \<notin> set (joinUint64 ids)"
proof -
  have "squote \<notin> set (joinRest is)" for "is"
    by (induction "is") auto
  then show ?thesis by (cases ids) (auto simp: joinUint64_def)
qed

lemma squote_sqlLimit [simp]: "squote \<notin> set (sqlLimit n)"
  by (simp add: sqlLimit_def)

lemma sameSQL_chTimeMillis [sql_intros]: "sameSQL esc (chTimeMillis a) (chTimeMillis a)"
proof -
  have "lexSQL esc ([squote] @ ''UTC'' @ [squote] @ '')'') = Some [Lit ''UTC'', Chr (CHR '')'')]"
    by simp
  then show ?thesis
    unfolding chTimeMillis_def
    by (intro sameSQL_append [OF sameSQL_plain] sameSQL_self [where ts = "[Lit ''UTC'', Chr (CHR '')'')]"]) simp_all
qed

text \<open>Reading a number and a comma separated list back.\<close>

definition decNat :: "string \<Rightarrow> nat option" where
  "decNat s = (if s \<noteq> [] \<and> list_all isDigit s then Some (foldl (\<lambda>n c. 10 * n + (code c - 48)) 0 s) else None)"

lemma decNat_natDec [simp]: "decNat (natDec n) = Some n"
proof -
  have "foldl (\<lambda>n c. 10 * n + (code c - 48)) 0 (natDec n) = n"
  proof (induction n rule: natDec.induct)
    case (1 n)
    show ?case
    proof (cases "n < 10")
      case True
      then show ?thesis by (subst natDec.simps) simp
    next
      case False
      then show ?thesis using 1 by (subst natDec.simps) (simp del: natDec.simps)
    qed
  qed
  then show ?thesis by (simp add: decNat_def natDec_digits)
qed

lemma splitChar_nonempty [simp]: "splitChar c s \<noteq> []"
  by (induction s) (auto split: list.splits)

lemma splitChar_append: "c \<notin> set p \<Longrightarrow> splitChar c (p @ c # s) = p # splitChar c s"
  by (induction p) auto

lemma splitChar_plain: "c \<notin> set p \<Longrightarrow> splitChar c p = [p]"
  by (induction p) auto

lemma splitChar_joinUint64:
  "splitChar (CHR '','') (formatUint i @ joinRest is) = formatUint i # map formatUint is"
  by (induction "is" arbitrary: i) (simp_all add: splitChar_append splitChar_plain)

section \<open>Identifiers\<close>

lemma identifierRE_plain: "identifierRE s \<Longrightarrow> squote \<notin> set s"
  by (auto simp: identifierRE_def list_all_iff isLetter_def isDigit_def split: list.splits)

lemma quoteIdents_Some:
  "quoteIdents ps = Some qs \<Longrightarrow> qs = map (\<lambda>p. [CHR 0x60] @ p @ [CHR 0x60]) ps \<and> list_all identifierRE ps"
  by (induction ps arbitrary: qs) (auto simp: quoteIdent_def split: bind_splits if_splits)

lemma tableName_parts:
  "tableName database table = Some q
     \<Longrightarrow> \<exists>parts. q = joinWith ''.'' (map (\<lambda>p. [CHR 0x60] @ p @ [CHR 0x60]) parts) \<and> parts \<noteq> [] \<and> list_all identifierRE parts"
proof (cases "CHR ''.'' \<in> set table")
  case True
  moreover assume "tableName database table = Some q"
  ultimately obtain qs where "quoteIdents (splitChar (CHR ''.'') table) = Some qs" "q = joinWith ''.'' qs"
    by (auto simp: tableName_def split: bind_splits)
  then show ?thesis
    using quoteIdents_Some [of "splitChar (CHR ''.'') table" qs] splitChar_nonempty by metis
next
  case False
  moreover assume *: "tableName database table = Some q"
  ultimately show ?thesis
    using exI [of "\<lambda>parts. q = joinWith ''.'' (map (\<lambda>p. [CHR 0x60] @ p @ [CHR 0x60]) parts)
      \<and> parts \<noteq> [] \<and> list_all identifierRE parts" "if database = [] then [table] else [database, table]"]
    by (auto simp: tableName_def quoteIdent_def split: bind_splits if_splits)
qed

lemma squote_joinWith:
  "squote \<notin> set sep \<Longrightarrow> \<forall>x\<in>set xs. squote \<notin> set x \<Longrightarrow> squote \<notin> set (joinWith sep xs)"
  by (induction sep xs rule: joinWith.induct) auto

lemma tableName_plain: "tableName database table = Some q \<Longrightarrow> squote \<notin> set q"
proof -
  have "list_all identifierRE parts \<Longrightarrow>
      squote \<notin> set (joinWith ''.'' (map (\<lambda>p. [CHR 0x60] @ p @ [CHR 0x60]) parts))" for parts
    by (rule squote_joinWith) (auto simp: list_all_iff dest: identifierRE_plain)
  then show "tableName database table = Some q \<Longrightarrow> squote \<notin> set q"
    using tableName_parts by blast
qed

section \<open>Properties\<close>

text \<open>C13. Whatever its bytes, a value written by sqlString into a query is read back by ClickHouse
  as one literal of exactly that value, and the text after it is read as if the value had
  not been there: quotes and backslashes in a value cannot end the literal.\<close>

theorem sql_literal_reads_back:
  assumes "esc_ok esc" "lexSQL esc p = Some tp" "lexSQL esc s = Some ts"
  shows "lexSQL esc (p @ sqlString v @ s) = Some (tp @ Lit v # ts)"
  using assms lexSQL_append [OF assms(2)] by simp

theorem sql_literal_reads_back_witness:
  "lexSQL (\<lambda>c. [c]) (''a = '' @ sqlString [squote, bslash, CHR 0x22] @ '' OR b'')
     = Some (chars ''a = '' @ Lit [squote, bslash, CHR 0x22] # chars '' OR b'')"
  by (rule sql_literal_reads_back) (simp_all add: esc_ok_def)

text \<open>A table name that tableName returns (instead of panicking) is a non-empty dotted path of
  backquoted identifiers, each a letter or underscore followed by letters, digits and
  underscores, so a configured database or table name cannot break out of its quoting.\<close>

theorem table_name_is_quoted_path:
  assumes "tableName database table = Some q"
  shows "\<exists>parts. q = joinWith ''.'' (map (\<lambda>p. [CHR 0x60] @ p @ [CHR 0x60]) parts)
    \<and> parts \<noteq> [] \<and> list_all identifierRE parts"
  using assms by (rule tableName_parts)

theorem table_name_is_quoted_path_witness:
  "tableName ''default'' ''metrics4_series'' = Some ([CHR 0x60] @ ''default'' @ [CHR 0x60, CHR ''.'', CHR 0x60] @ ''metrics4_series'' @ [CHR 0x60])
   \<and> (\<exists>parts. [CHR 0x60] @ ''default'' @ [CHR 0x60, CHR ''.'', CHR 0x60] @ ''metrics4_series'' @ [CHR 0x60]
       = joinWith ''.'' (map (\<lambda>p. [CHR 0x60] @ p @ [CHR 0x60]) parts) \<and> parts \<noteq> [] \<and> list_all identifierRE parts)"
proof -
  have "tableName ''default'' ''metrics4_series'' = Some ([CHR 0x60] @ ''default'' @ [CHR 0x60, CHR ''.'', CHR 0x60] @ ''metrics4_series'' @ [CHR 0x60])"
    by (simp add: tableName_def quoteIdent_def identifierRE_def isLetter_def isDigit_def)
  then show ?thesis
    using table_name_is_quoted_path by blast
qed

text \<open>The id list of an IN condition reads back as exactly the given ids, in order: splitting the
  text at its commas and reading each piece as a decimal number gives the 64-bit values.\<close>

theorem id_list_reads_back:
  assumes "ids \<noteq> []"
  shows "map decNat (splitChar (CHR '','') (joinUint64 ids)) = map (\<lambda>i. Some (unat i)) ids"
proof -
  obtain i "is" where ids: "ids = i # is"
    using assms by (cases ids) auto
  have "decNat \<circ> formatUint = (\<lambda>i. Some (unat i))"
    by (simp add: formatUint_def fun_eq_iff)
  then show ?thesis
    unfolding ids joinUint64_def list.case splitChar_joinUint64
    by (metis (no_types, lifting) list.map(2) list.map_comp)
qed

theorem id_list_reads_back_witness:
  "map decNat (splitChar (CHR '','') (joinUint64 [7, 18446744073709551615])) = [Some 7, Some 18446744073709551615]"
  using id_list_reads_back [of "[7, 18446744073709551615]"] by simp

lemma concat_idBatchLoop: "0 < n \<Longrightarrow> concat (idBatchLoop n ids) = ids"
  by (induction n ids rule: idBatchLoop.induct) (subst idBatchLoop.simps, auto)

lemma idBatchLoop_bounds:
  "0 < n \<Longrightarrow> \<forall>b\<in>set (idBatchLoop n ids). b \<noteq> [] \<and> length b \<le> n"
proof (induction n ids rule: idBatchLoop.induct)
  case (1 n ids)
  then show ?case
    by (subst idBatchLoop.simps) auto
qed

text \<open>The batches of a list of ids partition it: their concatenation is the list, in order, no
  batch is empty, and none is longer than the chunk size (5000 when the configured size is
  not positive).\<close>

theorem id_batches_partition:
  "concat (idBatches ids n) = ids
    \<and> (\<forall>b\<in>set (idBatches ids n). b \<noteq> [] \<and> int (length b) \<le> (if n \<le> 0 then 5000 else n))"
proof -
  have "0 < nat (if n \<le> 0 then 5000 else n)"
    by simp
  from concat_idBatchLoop [OF this, of ids] idBatchLoop_bounds [OF this, of ids] show ?thesis
    by (auto simp: idBatches_def le_nat_iff)
qed

theorem id_batches_partition_witness:
  "concat (idBatches [1::u64, 2, 3] 2) = [1, 2, 3] \<and> list_all (\<lambda>b. b \<noteq> []) (idBatches [1::u64, 2, 3] 2)"
  using id_batches_partition [of "[1::u64, 2, 3]" 2] by (simp add: list_all_iff)

end
