(* ===== verification/MatcherSql.thy ===== *)
theory MatcherSql
  imports SqlText RemoteBatch
begin

text \<open>
  Label matchers and the conditions that snuffle derives from them: the schema layout switch
  (schema_layout.go), the sample predicates (sample_predicates.go, staleness.go), the
  conditions of storage.go and fastpath.go on metric names and on the label index, and the
  shortcut for selectors that no series can satisfy.

  A matcher is Prometheus' \<open>labels.Matcher\<close>, code outside this repository: the record holds
  the fields that snuffle reads and the results of its methods Matches, SetMatches and
  Prefix. What the library documents of them is the predicate \<open>matcher_ok\<close>.
\<close>

section \<open>Configuration and schema layout\<close>

text \<open>The fields of Config that the query builders read.\<close>

record Config =
  CHDatabase :: string
  SchemaLayout :: string
  SeriesTable :: string
  SamplesTable :: string
  LabelIndexTable :: string
  AttributeTable :: string
  MetricNamesTable :: string
  AttributeTableHasMetricName :: bool
  ActivityTable :: string
  LogSchemaLayout :: string
  HistogramsTable :: string
  ExemplarsTable :: string
  MetricsTable :: string
  MetricsInputTable :: string
  SampleAttributes :: bool
  MetricsRetention :: int
  MaxSeries :: int
  IDChunkSize :: int
  RangeQueryThreads :: int
  TeamID :: u64
  LogsTable :: string
  LogStreamsTable :: string
  LogStreamLabelsTable :: string
  LogStreamStatsTable :: string
  LogRetention :: int
  LogQueryMaxRows :: int
  LogAttributesTable :: string

datatype schemaLayout = schemaLayoutCurrent | schemaLayoutPostHog
datatype logSchemaLayout = logSchemaLayoutSnuffle | logSchemaLayoutPostHog

text \<open>unicode.ToLower on the runes whose lower case is ASCII. The lower case of every other rune is
  not ASCII, so leaving it unchanged cannot be told from Go's result by a comparison with
  an ASCII text, which is the only use here.\<close>

definition lowerRune :: "nat \<Rightarrow> nat" where
  "lowerRune r = (if 65 \<le> r \<and> r \<le> 90 then r + 32
     else if r = 0x212A then 107 else if r = 0x130 then 105 else r)"

definition toLower :: "string \<Rightarrow> string" where
  "toLower s = concat (map (encodeRune \<circ> lowerRune \<circ> fst) (runes s))"

definition storageSchemaLayout :: "string \<Rightarrow> schemaLayout" where
  "storageSchemaLayout value = (let v = toLower (trimSpace value) in
     if v \<in> {[], ''current'', ''default'', ''prometheus'', ''prom''} then schemaLayoutCurrent
     else if v \<in> {''posthog'', ''posthog_compat'', ''posthog-compatible'', ''posthog4'', ''metrics4''} then schemaLayoutPostHog
     else schemaLayoutCurrent)"

definition postHogSchemaLayout :: "Config \<Rightarrow> bool" where
  "postHogSchemaLayout cfg \<longleftrightarrow> storageSchemaLayout (SchemaLayout cfg) = schemaLayoutPostHog"

definition storageLogSchemaLayout :: "string \<Rightarrow> logSchemaLayout" where
  "storageLogSchemaLayout value = (let v = toLower (trimSpace value) in
     if v \<in> {[], ''snuffle'', ''current'', ''default'', ''native''} then logSchemaLayoutSnuffle
     else if v \<in> {''posthog'', ''posthog_compat'', ''posthog-compatible''} then logSchemaLayoutPostHog
     else logSchemaLayoutSnuffle)"

definition postHogLogSchemaLayout :: "Config \<Rightarrow> bool" where
  "postHogLogSchemaLayout cfg \<longleftrightarrow> storageLogSchemaLayout (LogSchemaLayout cfg) = logSchemaLayoutPostHog"

definition teamFilter :: "Config \<Rightarrow> string" where
  "teamFilter cfg = ''team_id = '' @ formatUint (TeamID cfg)"

section \<open>Matchers\<close>

datatype matchType = MatchEqual | MatchNotEqual | MatchRegexp | MatchNotRegexp

record labelMatcher =
  mType :: matchType
  mName :: string
  mValue :: string
  mMatches :: "string \<Rightarrow> bool"
  mSetMatches :: "string list"
  mPrefix :: string

text \<open>What the library documents: the semantics of the two equality types, that a non-empty
  SetMatches lists exactly the values the expression accepts, and that every value the
  expression accepts starts with Prefix. A negated matcher reports the SetMatches and the
  Prefix of its expression.\<close>

definition matcher_ok :: "labelMatcher \<Rightarrow> bool" where
  "matcher_ok m \<longleftrightarrow> (case mType m of
     MatchEqual \<Rightarrow> (\<forall>v. mMatches m v \<longleftrightarrow> v = mValue m)
   | MatchNotEqual \<Rightarrow> (\<forall>v. mMatches m v \<longleftrightarrow> v \<noteq> mValue m)
   | MatchRegexp \<Rightarrow> (\<forall>v. (mSetMatches m \<noteq> [] \<longrightarrow> (mMatches m v \<longleftrightarrow> v \<in> set (mSetMatches m)))
        \<and> (mMatches m v \<longrightarrow> take (length (mPrefix m)) v = mPrefix m))
   | MatchNotRegexp \<Rightarrow> (\<forall>v. (mSetMatches m \<noteq> [] \<longrightarrow> (mMatches m v \<longleftrightarrow> v \<notin> set (mSetMatches m)))
        \<and> (\<not> mMatches m v \<longrightarrow> take (length (mPrefix m)) v = mPrefix m)))"

text \<open>The entry of a Go map, with the zero value for a missing key.\<close>

definition labelGet :: "gomap \<Rightarrow> string \<Rightarrow> string" where
  "labelGet m k = (case map_of m k of None \<Rightarrow> [] | Some v \<Rightarrow> v)"

definition matchesAll :: "gomap \<Rightarrow> labelMatcher list \<Rightarrow> bool" where
  "matchesAll labelMap ms = list_all (\<lambda>m. mMatches m (labelGet labelMap (mName m))) ms"

section \<open>Selectors that no series satisfies (storage.go)\<close>

definition unsatCandidates :: "labelMatcher \<Rightarrow> string list" where
  "unsatCandidates m = (case mType m of
     MatchEqual \<Rightarrow> [mValue m]
   | MatchRegexp \<Rightarrow> mSetMatches m
   | _ \<Rightarrow> [])"

definition matchersUnsatisfiable :: "labelMatcher list \<Rightarrow> bool" where
  "matchersUnsatisfiable ms = list_ex (\<lambda>m. unsatCandidates m \<noteq> []
     \<and> \<not> list_ex (\<lambda>candidate. list_all (\<lambda>other. mMatches other candidate)
           (filter (\<lambda>o'. mName o' = mName m) ms)) (unsatCandidates m)) ms"

section \<open>Conditions on a column (sample_predicates.go, storage.go)\<close>

definition promRegexToCH :: "string \<Rightarrow> string" where
  "promRegexToCH value = (if take 4 value = ''^(?:'' \<and> length value \<ge> 2 \<and> drop (length value - 2) value = '')$''
     then value else ''^(?:'' @ value @ '')$'')"

definition quotedList :: "string list \<Rightarrow> string" where
  "quotedList values = joinWith '','' (map sqlString values)"

definition stringColumnMatcherCondition :: "string \<Rightarrow> labelMatcher \<Rightarrow> string option" where
  "stringColumnMatcherCondition column m = (case mType m of
     MatchEqual \<Rightarrow> Some (column @ '' = '' @ sqlString (mValue m))
   | MatchNotEqual \<Rightarrow> Some (column @ '' != '' @ sqlString (mValue m))
   | MatchRegexp \<Rightarrow>
       (if mSetMatches m \<noteq> [] then Some (column @ '' IN ('' @ quotedList (mSetMatches m) @ '')'')
        else if mPrefix m \<noteq> [] then Some (''startsWith('' @ column @ '', '' @ sqlString (mPrefix m) @ '')'')
        else Some (''match('' @ column @ '', '' @ sqlString (promRegexToCH (mValue m)) @ '')''))
   | MatchNotRegexp \<Rightarrow>
       (if mSetMatches m \<noteq> [] then Some (column @ '' NOT IN ('' @ quotedList (mSetMatches m) @ '')'')
        else if mPrefix m \<noteq> [] then Some (''NOT startsWith('' @ column @ '', '' @ sqlString (mPrefix m) @ '')'')
        else Some (''NOT match('' @ column @ '', '' @ sqlString (promRegexToCH (mValue m)) @ '')'')))"

definition metricMatcherCondition :: "labelMatcher \<Rightarrow> string option" where
  "metricMatcherCondition m = (case mType m of
     MatchEqual \<Rightarrow> Some (''metric_name = '' @ sqlString (mValue m))
   | MatchNotEqual \<Rightarrow> Some (''metric_name != '' @ sqlString (mValue m))
   | MatchRegexp \<Rightarrow>
       (if mSetMatches m \<noteq> [] then Some (''metric_name IN ('' @ quotedList (mSetMatches m) @ '')'')
        else if mPrefix m \<noteq> [] then Some (''startsWith(metric_name, '' @ sqlString (mPrefix m) @ '')'')
        else Some (''match(metric_name, '' @ sqlString (promRegexToCH (mValue m)) @ '')''))
   | MatchNotRegexp \<Rightarrow>
       (if mSetMatches m \<noteq> [] then Some (''metric_name NOT IN ('' @ quotedList (mSetMatches m) @ '')'')
        else if mPrefix m \<noteq> [] then Some (''NOT startsWith(metric_name, '' @ sqlString (mPrefix m) @ '')'')
        else Some (''NOT match(metric_name, '' @ sqlString (promRegexToCH (mValue m)) @ '')'')))"

definition metricNameConstraints :: "labelMatcher list \<Rightarrow> string list" where
  "metricNameConstraints ms = List.map_filter metricMatcherCondition
     (filter (\<lambda>m. \<not> (mName m \<noteq> metricNameLabel \<or> mMatches m [])) ms)"

fun exactMetricName :: "labelMatcher list \<Rightarrow> string" where
  "exactMetricName [] = []"
| "exactMetricName (m # ms) = (if mName m = metricNameLabel \<and> mType m = MatchEqual \<and> mValue m \<noteq> []
     then mValue m else exactMetricName ms)"

section \<open>Conditions on the label index (storage.go)\<close>

definition positiveLabelIndexMembershipCondition :: "labelMatcher \<Rightarrow> (string \<times> string) option" where
  "positiveLabelIndexMembershipCondition m = (if mMatches m [] then None else case mType m of
     MatchEqual \<Rightarrow> Some (''IN'', ''label_value = '' @ sqlString (mValue m))
   | MatchRegexp \<Rightarrow>
       (if mSetMatches m \<noteq> [] then Some (''IN'', ''label_value IN ('' @ quotedList (mSetMatches m) @ '')'')
        else if mPrefix m \<noteq> [] then Some (''IN'', ''startsWith(label_value, '' @ sqlString (mPrefix m) @ '')'')
        else Some (''IN'', ''match(label_value, '' @ sqlString (promRegexToCH (mValue m)) @ '')''))
   | _ \<Rightarrow> None)"

definition negativeLabelIndexCondition :: "labelMatcher \<Rightarrow> string option" where
  "negativeLabelIndexCondition m = (case mType m of
     MatchNotEqual \<Rightarrow> Some (''label_value = '' @ sqlString (mValue m))
   | MatchNotRegexp \<Rightarrow>
       (if mSetMatches m \<noteq> [] then Some (''label_value IN ('' @ quotedList (mSetMatches m) @ '')'')
        else if mPrefix m \<noteq> [] then Some (''startsWith(label_value, '' @ sqlString (mPrefix m) @ '')'')
        else Some (''match(label_value, '' @ sqlString (promRegexToCH (mValue m)) @ '')''))
   | _ \<Rightarrow> None)"

definition labelIndexMembershipCondition :: "labelMatcher \<Rightarrow> (string \<times> string) option" where
  "labelIndexMembershipCondition m = (if mName m = metricNameLabel then None
     else if mType m = MatchEqual \<or> mType m = MatchRegexp then positiveLabelIndexMembershipCondition m
     else if \<not> mMatches m [] then None
     else map_option (Pair ''NOT IN'') (negativeLabelIndexCondition m))"

definition noopPatterns :: "string list" where
  "noopPatterns = [''.*'', ''(.*)'', ''(?:.*)'', ''.*|'', ''|.*'', ''(.*)|'', ''|(.*)'', ''(?:.*)|'', ''|(?:.*)'']"

definition matcherIsNoop :: "labelMatcher \<Rightarrow> bool" where
  "matcherIsNoop m \<longleftrightarrow> mType m = MatchRegexp \<and> trimSpace (mValue m) \<in> set noopPatterns"

fun matchersAllPushdownSafe :: "labelMatcher list \<Rightarrow> bool" where
  "matchersAllPushdownSafe [] = True"
| "matchersAllPushdownSafe (m # ms) = (
     if matcherIsNoop m then matchersAllPushdownSafe ms
     else if mType m = MatchEqual \<or> mType m = MatchRegexp
     then (if mName m \<noteq> metricNameLabel \<and> mMatches m [] then False else matchersAllPushdownSafe ms)
     else (if mName m \<noteq> metricNameLabel \<and> \<not> mMatches m [] then False else matchersAllPushdownSafe ms))"

definition matchersPushdownSafe :: "labelMatcher list \<Rightarrow> bool" where
  "matchersPushdownSafe ms \<longleftrightarrow> matchersAllPushdownSafe ms \<and> length ms > 0"

section \<open>What a condition says\<close>

text \<open>
  The specification of the condition texts: \<open>readsAs\<close> states that a text reads as a comparison
  of a column, \<open>condHolds\<close> is the documented meaning of the comparison for a value of the column,
  where \<open>rx r v\<close> is ClickHouse's \<open>match(v, r)\<close>.
\<close>

datatype sqlCond = ColEq string | ColNe string | ColIn "string list" | ColNotIn "string list"
  | ColStarts string | ColNotStarts string | ColMatch string | ColNotMatch string

fun litList :: "string list \<Rightarrow> sqlTok list" where
  "litList [] = []"
| "litList [v] = [Lit v]"
| "litList (v # w # vs) = [Lit v, Chr (CHR '','')] @ litList (w # vs)"

fun condTokens :: "string \<Rightarrow> sqlCond \<Rightarrow> sqlTok list" where
  "condTokens col (ColEq v) = chars (col @ '' = '') @ [Lit v]"
| "condTokens col (ColNe v) = chars (col @ '' != '') @ [Lit v]"
| "condTokens col (ColIn vs) = chars (col @ '' IN ('') @ litList vs @ chars '')''"
| "condTokens col (ColNotIn vs) = chars (col @ '' NOT IN ('') @ litList vs @ chars '')''"
| "condTokens col (ColStarts v) = chars (''startsWith('' @ col @ '', '') @ [Lit v] @ chars '')''"
| "condTokens col (ColNotStarts v) = chars (''NOT startsWith('' @ col @ '', '') @ [Lit v] @ chars '')''"
| "condTokens col (ColMatch r) = chars (''match('' @ col @ '', '') @ [Lit r] @ chars '')''"
| "condTokens col (ColNotMatch r) = chars (''NOT match('' @ col @ '', '') @ [Lit r] @ chars '')''"

fun condHolds :: "(string \<Rightarrow> string \<Rightarrow> bool) \<Rightarrow> sqlCond \<Rightarrow> string \<Rightarrow> bool" where
  "condHolds rx (ColEq w) v \<longleftrightarrow> v = w"
| "condHolds rx (ColNe w) v \<longleftrightarrow> v \<noteq> w"
| "condHolds rx (ColIn ws) v \<longleftrightarrow> v \<in> set ws"
| "condHolds rx (ColNotIn ws) v \<longleftrightarrow> v \<notin> set ws"
| "condHolds rx (ColStarts w) v \<longleftrightarrow> take (length w) v = w"
| "condHolds rx (ColNotStarts w) v \<longleftrightarrow> take (length w) v \<noteq> w"
| "condHolds rx (ColMatch r) v \<longleftrightarrow> rx r v"
| "condHolds rx (ColNotMatch r) v \<longleftrightarrow> \<not> rx r v"

definition readsAs :: "(char \<Rightarrow> string) \<Rightarrow> string \<Rightarrow> string \<Rightarrow> sqlCond \<Rightarrow> bool" where
  "readsAs esc col s c \<longleftrightarrow> lexSQL esc s = Some (condTokens col c)"

text \<open>The comparison that a matcher stands for on its own column, and on the label index, where
  the row of a negated matcher is looked up by the value it excludes.\<close>

definition columnCond :: "labelMatcher \<Rightarrow> sqlCond" where
  "columnCond m = (case mType m of
     MatchEqual \<Rightarrow> ColEq (mValue m)
   | MatchNotEqual \<Rightarrow> ColNe (mValue m)
   | MatchRegexp \<Rightarrow> (if mSetMatches m \<noteq> [] then ColIn (mSetMatches m)
        else if mPrefix m \<noteq> [] then ColStarts (mPrefix m) else ColMatch (promRegexToCH (mValue m)))
   | MatchNotRegexp \<Rightarrow> (if mSetMatches m \<noteq> [] then ColNotIn (mSetMatches m)
        else if mPrefix m \<noteq> [] then ColNotStarts (mPrefix m) else ColNotMatch (promRegexToCH (mValue m))))"

definition indexCond :: "labelMatcher \<Rightarrow> sqlCond" where
  "indexCond m = (case mType m of
     MatchEqual \<Rightarrow> ColEq (mValue m)
   | MatchNotEqual \<Rightarrow> ColEq (mValue m)
   | _ \<Rightarrow> (if mSetMatches m \<noteq> [] then ColIn (mSetMatches m)
        else if mPrefix m \<noteq> [] then ColStarts (mPrefix m) else ColMatch (promRegexToCH (mValue m))))"

text \<open>Prometheus compiles an expression between the anchors \<open>^(?:\<close> and \<open>)$\<close>; ClickHouse does not
  anchor. The engine hypothesis: a matcher accepts what its anchored expression matches,
  and an expression matches wherever its anchored form does.\<close>

definition anchored :: "string \<Rightarrow> string" where
  "anchored r = ''^(?:'' @ r @ '')$''"

definition regex_ok :: "(string \<Rightarrow> string \<Rightarrow> bool) \<Rightarrow> labelMatcher \<Rightarrow> bool" where
  "regex_ok rx m \<longleftrightarrow> (case mType m of
     MatchRegexp \<Rightarrow> (\<forall>v. mMatches m v \<longleftrightarrow> rx (anchored (mValue m)) v)
   | MatchNotRegexp \<Rightarrow> (\<forall>v. mMatches m v \<longleftrightarrow> \<not> rx (anchored (mValue m)) v)
   | _ \<Rightarrow> True) \<and> (\<forall>r v. rx (anchored r) v \<longrightarrow> rx r v)"

lemma lexSQL_quotedList_append:
  assumes "esc_ok esc"
  shows "lexSQL esc (quotedList vs @ s) = map_option ((@) (litList vs)) (lexSQL esc s)"
proof -
  have "lexSQL esc (joinWith '','' (map sqlString vs) @ s) = map_option ((@) (litList vs)) (lexSQL esc s)"
  proof (induction vs rule: litList.induct)
    case 1
    then show ?case by (cases "lexSQL esc s") auto
  next
    case (2 v)
    then show ?case using assms by (cases "lexSQL esc s") auto
  next
    case (3 v w vs)
    then show ?case using assms by (cases "lexSQL esc s") (auto simp: option.map_comp comp_def)
  qed
  then show ?thesis by (simp add: quotedList_def)
qed

lemma stringColumn_readsAs:
  assumes "esc_ok esc" "squote \<notin> set col"
  shows "\<exists>s. stringColumnMatcherCondition col m = Some s \<and> readsAs esc col s (columnCond m)"
  using assms by (simp add: stringColumnMatcherCondition_def readsAs_def columnCond_def lexSQL_quotedList_append
      split: matchType.split)

lemma metric_is_column: "metricMatcherCondition m = stringColumnMatcherCondition ''metric_name'' m"
  by (simp add: metricMatcherCondition_def stringColumnMatcherCondition_def split: matchType.split)

lemma index_readsAs:
  assumes "esc_ok esc" "labelIndexMembershipCondition m = Some (mem, s)"
  shows "readsAs esc ''label_value'' s (indexCond m)"
  using assms by (auto simp: labelIndexMembershipCondition_def positiveLabelIndexMembershipCondition_def
      negativeLabelIndexCondition_def readsAs_def indexCond_def lexSQL_quotedList_append
      split: matchType.splits if_splits)

lemma index_membership:
  "labelIndexMembershipCondition m = Some (mem, s) \<Longrightarrow>
     mem = (if mType m = MatchEqual \<or> mType m = MatchRegexp then ''IN'' else ''NOT IN'')
     \<and> mName m \<noteq> metricNameLabel
     \<and> (mMatches m [] \<longleftrightarrow> \<not> (mType m = MatchEqual \<or> mType m = MatchRegexp))"
  by (auto simp: labelIndexMembershipCondition_def positiveLabelIndexMembershipCondition_def
      split: if_splits)

lemma litList_inj: "litList vs = litList ws \<Longrightarrow> vs = ws"
proof (induction vs arbitrary: ws rule: litList.induct)
  case 1
  then show ?case by (cases ws rule: litList.cases) auto
next
  case (2 v)
  then show ?case by (cases ws rule: litList.cases) auto
next
  case (3 v w vs)
  then show ?case by (cases ws rule: litList.cases) auto
qed

text \<open>A text reads as at most one comparison of the column of the label index.\<close>

lemma condTokens_inj: "condTokens ''label_value'' c = condTokens ''label_value'' d \<Longrightarrow> c = d"
  by (cases c; cases d) (auto dest: litList_inj)

section \<open>The conditions and the matchers\<close>

text \<open>The shortcut for an expression without a finite set of values but with a required prefix.\<close>

definition prefixShortcut :: "labelMatcher \<Rightarrow> bool" where
  "prefixShortcut m \<longleftrightarrow> (mType m = MatchRegexp \<or> mType m = MatchNotRegexp) \<and> mSetMatches m = [] \<and> mPrefix m \<noteq> []"

definition preAnchored :: "labelMatcher \<Rightarrow> bool" where
  "preAnchored m \<longleftrightarrow> promRegexToCH (mValue m) = mValue m"

lemma promRegexToCH_cases: "promRegexToCH r = r \<or> promRegexToCH r = anchored r"
  by (simp add: promRegexToCH_def anchored_def)

lemma columnCond_exact:
  assumes "matcher_ok m" "regex_ok rx m" "\<not> prefixShortcut m" "\<not> preAnchored m"
  shows "condHolds rx (columnCond m) v \<longleftrightarrow> mMatches m v"
  using assms promRegexToCH_cases [of "mValue m"]
  by (cases "mType m")
     (auto simp: matcher_ok_def regex_ok_def prefixShortcut_def preAnchored_def columnCond_def)

lemma columnCond_keeps:
  assumes "matcher_ok m" "regex_ok rx m" "mType m \<noteq> MatchNotRegexp" "mMatches m v"
  shows "condHolds rx (columnCond m) v"
  using assms promRegexToCH_cases [of "mValue m"]
  by (cases "mType m") (auto simp: matcher_ok_def regex_ok_def columnCond_def)

lemma indexCond_exact:
  assumes "matcher_ok m" "regex_ok rx m" "\<not> prefixShortcut m" "\<not> preAnchored m"
  shows "condHolds rx (indexCond m) v \<longleftrightarrow> (mMatches m v \<longleftrightarrow> mType m = MatchEqual \<or> mType m = MatchRegexp)"
  using assms promRegexToCH_cases [of "mValue m"]
  by (cases "mType m")
     (auto simp: matcher_ok_def regex_ok_def prefixShortcut_def preAnchored_def indexCond_def)

lemma indexCond_keeps:
  assumes "matcher_ok m" "regex_ok rx m" "mType m = MatchEqual \<or> mType m = MatchRegexp" "mMatches m v"
  shows "condHolds rx (indexCond m) v"
  using assms promRegexToCH_cases [of "mValue m"]
  by (cases "mType m") (auto simp: matcher_ok_def regex_ok_def indexCond_def)

text \<open>The label index holds, for a series id, a row (id, name, value) per label. \<open>admits\<close> is the
  meaning of \<open>id IN (SELECT id FROM index WHERE label_name = n AND c)\<close> and of its negation.\<close>

definition admits ::
  "(string \<Rightarrow> string \<Rightarrow> bool) \<Rightarrow> (u64 \<times> string \<times> string) set \<Rightarrow> string \<Rightarrow> string \<Rightarrow> sqlCond \<Rightarrow> u64 \<Rightarrow> bool" where
  "admits rx idx membership name c i \<longleftrightarrow>
     (membership = ''IN'') = (\<exists>v. (i, name, v) \<in> idx \<and> condHolds rx c v)"

definition indexes :: "(u64 \<times> string \<times> string) set \<Rightarrow> u64 \<Rightarrow> gomap \<Rightarrow> bool" where
  "indexes idx i labelMap \<longleftrightarrow> (\<forall>name v. (i, name, v) \<in> idx \<longleftrightarrow> map_of labelMap name = Some v)"

lemma index_admits_exact:
  assumes "labelIndexMembershipCondition m = Some (mem, s)" "indexes idx i labelMap"
    and "matcher_ok m" "regex_ok rx m" "\<not> prefixShortcut m" "\<not> preAnchored m"
  shows "admits rx idx mem (mName m) (indexCond m) i \<longleftrightarrow> mMatches m (labelGet labelMap (mName m))"
proof (cases "map_of labelMap (mName m)")
  case None
  then show ?thesis
    using assms(2) index_membership [OF assms(1)]
    by (auto simp: admits_def indexes_def labelGet_def)
next
  case (Some v)
  then show ?thesis
    using assms(2) index_membership [OF assms(1)] indexCond_exact [OF assms(3-6), of v]
    by (auto simp: admits_def indexes_def labelGet_def)
qed

lemma index_admits_keeps:
  assumes "labelIndexMembershipCondition m = Some (mem, s)" "indexes idx i labelMap"
    and "matcher_ok m" "regex_ok rx m" "mType m = MatchEqual \<or> mType m = MatchRegexp"
    and "mMatches m (labelGet labelMap (mName m))"
  shows "admits rx idx mem (mName m) (indexCond m) i"
proof (cases "map_of labelMap (mName m)")
  case None
  then show ?thesis
    using assms(5,6) index_membership [OF assms(1)] by (auto simp: labelGet_def)
next
  case (Some v)
  then show ?thesis
    using assms(2,5,6) index_membership [OF assms(1)] indexCond_keeps [OF assms(3-5), of v]
    by (auto simp: admits_def indexes_def labelGet_def)
qed

lemma pushdown_safe_membership:
  "matchersAllPushdownSafe ms \<Longrightarrow> m \<in> set ms \<Longrightarrow> \<not> matcherIsNoop m \<Longrightarrow> mName m \<noteq> metricNameLabel
     \<Longrightarrow> \<exists>mem s. labelIndexMembershipCondition m = Some (mem, s)"
proof (induction ms rule: matchersAllPushdownSafe.induct)
  case (2 m' ms)
  have "m = m' \<Longrightarrow> ?case"
    using "2.prems"
    by (cases "mType m") (auto simp: labelIndexMembershipCondition_def positiveLabelIndexMembershipCondition_def
        negativeLabelIndexCondition_def split: if_splits)
  with 2 show ?case by (auto split: if_splits)
qed simp

section \<open>Selectors without solutions\<close>

lemma unsatCandidates_complete:
  "matcher_ok m \<Longrightarrow> unsatCandidates m \<noteq> [] \<Longrightarrow> mMatches m v \<longleftrightarrow> v \<in> set (unsatCandidates m)"
  by (cases "mType m") (auto simp: matcher_ok_def unsatCandidates_def)

lemma matchersUnsatisfiable_iff:
  "matchersUnsatisfiable ms \<longleftrightarrow> (\<exists>m\<in>set ms. unsatCandidates m \<noteq> [] \<and>
     (\<forall>c\<in>set (unsatCandidates m). \<exists>o'\<in>set ms. mName o' = mName m \<and> \<not> mMatches o' c))"
  unfolding matchersUnsatisfiable_def list_ex_iff list_all_iff by simp metis

lemma unsatisfiable_no_match:
  assumes "matchersUnsatisfiable ms" "\<forall>m\<in>set ms. matcher_ok m"
  shows "\<not> matchesAll labelMap ms"
proof
  assume all: "matchesAll labelMap ms"
  obtain m where m: "m \<in> set ms" "unsatCandidates m \<noteq> []"
    and none: "\<And>c. c \<in> set (unsatCandidates m) \<Longrightarrow> \<exists>o'\<in>set ms. mName o' = mName m \<and> \<not> mMatches o' c"
    using assms(1) unfolding matchersUnsatisfiable_iff by blast
  let ?v = "labelGet labelMap (mName m)"
  have "?v \<in> set (unsatCandidates m)"
    using all m assms(2) unsatCandidates_complete [of m ?v] by (auto simp: matchesAll_def list_all_iff)
  then show False
    using none [of ?v] all by (auto simp: matchesAll_def list_all_iff)
qed

lemma satisfiable_match:
  assumes "\<not> matchersUnsatisfiable ms"
    and bound: "\<forall>m\<in>set ms. \<exists>b\<in>set ms. mName b = mName m \<and> unsatCandidates b \<noteq> []"
  shows "\<exists>labelMap. matchesAll labelMap ms"
proof -
  have "\<exists>c. \<forall>o'\<in>set ms. mName o' = mName m \<longrightarrow> mMatches o' c" if m: "m \<in> set ms" for m
  proof -
    obtain b where b: "b \<in> set ms" "mName b = mName m" "unsatCandidates b \<noteq> []"
      using bound m by blast
    then show ?thesis
      using assms(1) unfolding matchersUnsatisfiable_iff by (metis list.set_intros(1) neq_Nil_conv)
  qed
  then have "\<forall>n\<in>mName ` set ms. \<exists>c. \<forall>o'\<in>set ms. mName o' = n \<longrightarrow> mMatches o' c"
    by blast
  then obtain f where f: "\<And>n o'. n \<in> mName ` set ms \<Longrightarrow> o' \<in> set ms \<Longrightarrow> mName o' = n \<Longrightarrow> mMatches o' (f n)"
    by metis
  define lm where "lm = map (\<lambda>n. (n, f n)) (map mName ms)"
  have "map_of lm n = Some (f n)" if "n \<in> mName ` set ms" for n
    using that unfolding lm_def by (simp add: map_of_map_restrict restrict_map_def del: map_map)
  then have "matchesAll lm ms"
    using f by (auto simp: matchesAll_def list_all_iff labelGet_def)
  then show ?thesis ..
qed

section \<open>Properties of the conditions\<close>

text \<open>The condition emitted for a matcher on the metric name is exact: it reads as a comparison
  of the column metric_name that holds for precisely the names that the matcher accepts.
  Excepted are the two shortcuts, a required prefix standing in for an expression, and an
  expression that is already written between anchors.\<close>

theorem metric_condition_exact:
  assumes "esc_ok esc" "matcher_ok m" "regex_ok rx m" "\<not> prefixShortcut m" "\<not> preAnchored m"
  shows "\<exists>s c. metricMatcherCondition m = Some s \<and> readsAs esc ''metric_name'' s c
    \<and> (\<forall>v. condHolds rx c v \<longleftrightarrow> mMatches m v)"
  using stringColumn_readsAs [OF assms(1), of "''metric_name''" m] columnCond_exact [OF assms(2-)]
  by (auto simp: metric_is_column)

definition demoMatcher :: labelMatcher where
  "demoMatcher = \<lparr>mType = MatchNotRegexp, mName = metricNameLabel, mValue = ''up|down'',
     mMatches = (\<lambda>v. v \<notin> {''up'', ''down''}), mSetMatches = [''up'', ''down''], mPrefix = []\<rparr>"

definition demoEngine :: "string \<Rightarrow> string \<Rightarrow> bool" where
  "demoEngine r v \<longleftrightarrow> (r = ''up|down'' \<or> r = anchored ''up|down'') \<and> (v = ''up'' \<or> v = ''down'')"

lemma anchored_inj [simp]: "anchored r = anchored s \<longleftrightarrow> r = s"
  by (simp add: anchored_def)

lemma demoMatcher_hyps:
  "esc_ok (\<lambda>c. [c])" "matcher_ok demoMatcher" "\<not> prefixShortcut demoMatcher" "\<not> preAnchored demoMatcher"
proof -
  show "esc_ok (\<lambda>c. [c])" by (simp add: esc_ok_def)
  show "matcher_ok demoMatcher" by (simp add: matcher_ok_def demoMatcher_def)
  show "\<not> prefixShortcut demoMatcher" by (simp add: prefixShortcut_def demoMatcher_def)
  show "\<not> preAnchored demoMatcher" by (simp add: preAnchored_def demoMatcher_def promRegexToCH_def)
qed

lemma demoMatcher_engine: "regex_ok demoEngine demoMatcher"
proof -
  have "anchored r \<noteq> ''up|down''" for r
    by (simp add: anchored_def)
  then have "demoEngine (anchored r) v \<Longrightarrow> demoEngine r v" for r v
    by (auto simp: demoEngine_def)
  then show ?thesis
    by (auto simp: regex_ok_def demoMatcher_def demoEngine_def)
qed

theorem metric_condition_exact_witness:
  "\<exists>s c. metricMatcherCondition demoMatcher = Some s \<and> readsAs (\<lambda>c. [c]) ''metric_name'' s c
    \<and> (\<forall>v. condHolds demoEngine c v \<longleftrightarrow> mMatches demoMatcher v)"
  by (rule metric_condition_exact [OF demoMatcher_hyps(1,2) demoMatcher_engine demoMatcher_hyps(3,4)])

text \<open>A condition that narrows a scan never loses a matching value: for every matcher that is not
  a negated expression (the required prefix and the unanchored expression included) the emitted
  condition on a column holds for each value that the matcher accepts.\<close>

theorem column_condition_keeps_matches:
  assumes "esc_ok esc" "squote \<notin> set col" "matcher_ok m" "regex_ok rx m" "mType m \<noteq> MatchNotRegexp"
    and "mMatches m v"
  shows "\<exists>s c. stringColumnMatcherCondition col m = Some s \<and> readsAs esc col s c \<and> condHolds rx c v"
  using stringColumn_readsAs [OF assms(1,2)] columnCond_keeps [OF assms(3-)] by blast

definition prefixMatcher :: "matchType \<Rightarrow> labelMatcher" where
  "prefixMatcher t = \<lparr>mType = t, mName = metricNameLabel, mValue = ''foo.*bar'',
     mMatches = (\<lambda>v. (t = MatchRegexp) = (length v \<ge> 6 \<and> take 3 v = ''foo'' \<and> drop (length v - 3) v = ''bar'')),
     mSetMatches = [], mPrefix = ''foo''\<rparr>"

definition prefixEngine :: "string \<Rightarrow> string \<Rightarrow> bool" where
  "prefixEngine r v \<longleftrightarrow> (r = ''foo.*bar'' \<or> r = anchored ''foo.*bar'')
     \<and> length v \<ge> 6 \<and> take 3 v = ''foo'' \<and> drop (length v - 3) v = ''bar''"

lemma prefixMatcher_ok:
  "matcher_ok (prefixMatcher MatchRegexp)" "matcher_ok (prefixMatcher MatchNotRegexp)"
  "regex_ok prefixEngine (prefixMatcher MatchRegexp)"
proof -
  show "matcher_ok (prefixMatcher MatchRegexp)" "matcher_ok (prefixMatcher MatchNotRegexp)"
    by (simp_all add: matcher_ok_def prefixMatcher_def numeral_3_eq_3)
  have "anchored r \<noteq> ''foo.*bar''" for r
    by (simp add: anchored_def)
  then have "prefixEngine (anchored r) v \<Longrightarrow> prefixEngine r v" for r v
    by (auto simp: prefixEngine_def)
  then show "regex_ok prefixEngine (prefixMatcher MatchRegexp)"
    by (auto simp: regex_ok_def prefixMatcher_def prefixEngine_def)
qed

theorem column_condition_keeps_matches_witness:
  "\<exists>s c. stringColumnMatcherCondition ''service_name'' (prefixMatcher MatchRegexp) = Some s
     \<and> readsAs (\<lambda>c. [c]) ''service_name'' s c \<and> condHolds prefixEngine c ''foo-bar''"
  by (rule column_condition_keeps_matches [OF demoMatcher_hyps(1) _ prefixMatcher_ok(1,3)])
     (simp_all add: prefixMatcher_def)

text \<open>A negated expression whose library matcher reports a required prefix and no finite set is
  over-pruned: the emitted condition rejects every name that starts with the prefix, also those
  that the matcher accepts, so a selector such as a negated foo.*bar loses the series foobaz.\<close>

theorem negated_prefix_condition_drops:
  assumes "esc_ok esc" "mType m = MatchNotRegexp" "mSetMatches m = []" "mPrefix m \<noteq> []"
    and "mMatches m v" "take (length (mPrefix m)) v = mPrefix m"
  shows "\<exists>s c. metricMatcherCondition m = Some s \<and> readsAs esc ''metric_name'' s c \<and> \<not> condHolds rx c v"
proof -
  have "columnCond m = ColNotStarts (mPrefix m)"
    using assms(2-4) by (simp add: columnCond_def)
  then have "\<not> condHolds rx (columnCond m) v"
    using assms(6) by simp
  then show ?thesis
    using stringColumn_readsAs [OF assms(1), of "''metric_name''" m] by (auto simp: metric_is_column)
qed

theorem negated_prefix_condition_drops_witness:
  "matcher_ok (prefixMatcher MatchNotRegexp) \<and> mMatches (prefixMatcher MatchNotRegexp) ''foobaz''
   \<and> (\<exists>s c. metricMatcherCondition (prefixMatcher MatchNotRegexp) = Some s
       \<and> readsAs (\<lambda>c. [c]) ''metric_name'' s c \<and> \<not> condHolds prefixEngine c ''foobaz'')"
proof -
  have "\<exists>s c. metricMatcherCondition (prefixMatcher MatchNotRegexp) = Some s
       \<and> readsAs (\<lambda>c. [c]) ''metric_name'' s c \<and> \<not> condHolds prefixEngine c ''foobaz''"
    by (rule negated_prefix_condition_drops [OF demoMatcher_hyps(1)]) (simp_all add: prefixMatcher_def)
  then show ?thesis
    using prefixMatcher_ok(2) by (simp add: prefixMatcher_def)
qed


definition jobMatcher :: "matchType \<Rightarrow> labelMatcher" where
  "jobMatcher t = \<lparr>mType = t, mName = ''job'', mValue = ''api'',
     mMatches = (\<lambda>v. (t = MatchEqual) = (v = ''api'')), mSetMatches = [], mPrefix = []\<rparr>"

lemma jobMatcher_hyps:
  assumes "t = MatchEqual \<or> t = MatchNotEqual"
  shows "matcher_ok (jobMatcher t) \<and> regex_ok (\<lambda>r v. False) (jobMatcher t)
    \<and> \<not> prefixShortcut (jobMatcher t) \<and> \<not> preAnchored (jobMatcher t)"
  using assms by (auto simp: jobMatcher_def matcher_ok_def regex_ok_def prefixShortcut_def preAnchored_def promRegexToCH_def)


text \<open>C15. When matchersUnsatisfiable lets a request be answered empty without asking ClickHouse, no label
  set whatsoever satisfies all its matchers.\<close>

theorem unsatisfiable_selector_matches_nothing:
  assumes "matchersUnsatisfiable ms" "\<forall>m\<in>set ms. matcher_ok m"
  shows "\<not> matchesAll labelMap ms"
  using assms by (rule unsatisfiable_no_match)

theorem unsatisfiable_selector_matches_nothing_witness:
  "\<not> matchesAll [(''job'', ''api'')] [jobMatcher MatchEqual, jobMatcher MatchNotEqual]"
  by (rule unsatisfiable_selector_matches_nothing)
     (auto simp: matchersUnsatisfiable_def unsatCandidates_def jobMatcher_def matcher_ok_def)

text \<open>The test is complete for selectors that pin every label they mention to a finite set of
  values: if it does not report the selector as unsatisfiable, some label set satisfies all
  its matchers.\<close>

theorem satisfiable_selector_has_match:
  assumes "\<not> matchersUnsatisfiable ms"
    and "\<forall>m\<in>set ms. \<exists>b\<in>set ms. mName b = mName m \<and> unsatCandidates b \<noteq> []"
  shows "\<exists>labelMap. matchesAll labelMap ms"
  using assms by (rule satisfiable_match)

theorem satisfiable_selector_has_match_witness:
  "\<exists>labelMap. matchesAll labelMap [jobMatcher MatchEqual, jobMatcher MatchEqual]"
  by (rule satisfiable_selector_has_match)
     (simp_all add: matchersUnsatisfiable_def unsatCandidates_def jobMatcher_def)

end
