(* ===== verification/SeriesSql.thy ===== *)
theory SeriesSql
  imports MatcherSql
begin

text \<open>
  The SQL builders of the native schema: time and id predicates (sample_predicates.go,
  staleness.go), the selection of active series, samples and histograms (storage.go) and the
  series selection of the fast path (fastpath.go).

  A builder that may panic on an invalid table name returns an option, whose None is the
  panic; a builder that may decline (Go's second result \<open>false\<close>) returns an option inside it.
\<close>

section \<open>Stale markers (staleness.go)\<close>

definition staleSampleSQL :: "string \<Rightarrow> string" where
  "staleSampleSQL valueExpr = ''reinterpretAsUInt64('' @ valueExpr @ '') = '' @ formatUint staleNaN"

definition nonStaleSampleSQL :: "string \<Rightarrow> string" where
  "nonStaleSampleSQL valueExpr = ''reinterpretAsUInt64('' @ valueExpr @ '') != '' @ formatUint staleNaN"

definition nonStaleNullableSampleSQL :: "string \<Rightarrow> string" where
  "nonStaleNullableSampleSQL valueExpr =
     ''isNotNull('' @ valueExpr @ '') AND '' @ nonStaleSampleSQL (''assumeNotNull('' @ valueExpr @ '')'')"

definition staleAwareNullableGridSQL :: "string \<Rightarrow> string" where
  "staleAwareNullableGridSQL gridExpr = ''arrayMap(x -> if(isNull(x) OR '' @ staleSampleSQL ''assumeNotNull(x)''
     @ '', NULL, x), '' @ gridExpr @ '')''"

section \<open>Time, service and id predicates (sample_predicates.go)\<close>

definition postHogAttributeTimeFilters :: "int \<Rightarrow> int \<Rightarrow> string list" where
  "postHogAttributeTimeFilters mint maxt =
     [''time_bucket >= toStartOfHour('' @ chTimeMillis mint @ '')'',
      ''time_bucket <= toStartOfHour('' @ chTimeMillis maxt @ '')'']"

definition sampleTimeFilters :: "Config \<Rightarrow> int \<Rightarrow> int \<Rightarrow> string list" where
  "sampleTimeFilters cfg mint maxt =
     [''timestamp >= '' @ chTimeMillis mint, ''timestamp <= '' @ chTimeMillis maxt]
     @ (if postHogSchemaLayout cfg then postHogAttributeTimeFilters mint maxt
        else [''toStartOfTenMinutes(timestamp) >= toStartOfTenMinutes('' @ chTimeMillis mint @ '')'',
              ''toStartOfTenMinutes(timestamp) <= toStartOfTenMinutes('' @ chTimeMillis maxt @ '')''])"

fun serviceNameLoop :: "labelMatcher list \<Rightarrow> string list" where
  "serviceNameLoop [] = []"
| "serviceNameLoop (m # ms) = (
     if mName m \<noteq> ''service.name'' \<and> mName m \<noteq> ''service_name'' then serviceNameLoop ms
     else if mType m = MatchEqual \<or> mType m = MatchRegexp
     then (if mMatches m [] then serviceNameLoop ms
           else case stringColumnMatcherCondition ''service_name'' m of
                  Some condition \<Rightarrow> [condition] | None \<Rightarrow> serviceNameLoop ms)
     else serviceNameLoop ms)"

definition postHogServiceNameFilters :: "Config \<Rightarrow> labelMatcher list \<Rightarrow> string list" where
  "postHogServiceNameFilters cfg ms = (if \<not> postHogSchemaLayout cfg then [] else serviceNameLoop ms)"

definition sampleBaseFilters :: "Config \<Rightarrow> labelMatcher list \<Rightarrow> int \<Rightarrow> int \<Rightarrow> string list" where
  "sampleBaseFilters cfg ms mint maxt = [teamFilter cfg] @ sampleTimeFilters cfg mint maxt
     @ metricNameConstraints ms @ postHogServiceNameFilters cfg ms"

definition sampleIDMembershipFilters :: "Config \<Rightarrow> string \<Rightarrow> string \<Rightarrow> string list" where
  "sampleIDMembershipFilters cfg membership source =
     [''id '' @ membership @ '' ('' @ source @ '')'']
     @ (if postHogSchemaLayout cfg then [''resource_fingerprint '' @ membership @ '' ('' @ source @ '')''] else [])"

definition sampleSelectedSeriesFilters :: "Config \<Rightarrow> string list" where
  "sampleSelectedSeriesFilters cfg = sampleIDMembershipFilters cfg ''IN'' ''SELECT id FROM selected_series''"

definition sampleExplicitIDFilters :: "Config \<Rightarrow> u64 list \<Rightarrow> string list" where
  "sampleExplicitIDFilters cfg ids = sampleIDMembershipFilters cfg ''IN'' (joinUint64 ids)"

section \<open>Active series (storage.go)\<close>

definition metricNamesCondition :: "string list \<Rightarrow> string" where
  "metricNamesCondition metricNames = (case metricNames of
     [] \<Rightarrow> []
   | [name] \<Rightarrow> ''metric_name = '' @ sqlString name
   | _ \<Rightarrow> ''metric_name IN ('' @ quotedList metricNames @ '')'')"

definition activeSeriesIDsFromTimedTableSQL ::
  "Config \<Rightarrow> string \<Rightarrow> string list \<Rightarrow> int \<Rightarrow> int \<Rightarrow> string option" where
  "activeSeriesIDsFromTimedTableSQL cfg table metricNames mint maxt = do {
     let filters = [teamFilter cfg]
       @ (if table = SamplesTable cfg then sampleTimeFilters cfg mint maxt
          else [''timestamp >= '' @ chTimeMillis mint, ''timestamp <= '' @ chTimeMillis maxt])
       @ (if metricNamesCondition metricNames \<noteq> [] then [metricNamesCondition metricNames] else []);
     t \<leftarrow> tableName (CHDatabase cfg) table;
     Some (''SELECT id FROM '' @ t @ '' WHERE '' @ joinWith '' AND '' filters @ '' GROUP BY id'') }"

definition activeSeriesIDsForMetricsSQL ::
  "Config \<Rightarrow> string list \<Rightarrow> int \<Rightarrow> int \<Rightarrow> string option option" where
  "activeSeriesIDsForMetricsSQL cfg metricNames mint maxt =
     (if SamplesTable cfg = [] \<or> metricNames = [] then Some None
      else do {
        s \<leftarrow> activeSeriesIDsFromTimedTableSQL cfg (SamplesTable cfg) metricNames mint maxt;
        if HistogramsTable cfg \<noteq> [] then do {
          h \<leftarrow> activeSeriesIDsFromTimedTableSQL cfg (HistogramsTable cfg) metricNames mint maxt;
          Some (Some (joinWith '' UNION DISTINCT '' [s, h])) }
        else Some (Some (joinWith '' UNION DISTINCT '' [s])) })"

text \<open>The caller ignores the second result; declining yields the empty text.\<close>

definition textOrEmpty :: "string option \<Rightarrow> string" where
  "textOrEmpty r = (case r of None \<Rightarrow> [] | Some s \<Rightarrow> s)"

definition activeSeriesIDsSQL :: "Config \<Rightarrow> labelMatcher list \<Rightarrow> int \<Rightarrow> int \<Rightarrow> string option" where
  "activeSeriesIDsSQL cfg ms mint maxt =
     (if exactMetricName ms \<noteq> [] \<and> SamplesTable cfg \<noteq> []
      then map_option textOrEmpty (activeSeriesIDsForMetricsSQL cfg [exactMetricName ms] mint maxt)
      else do {
        t \<leftarrow> tableName (CHDatabase cfg) (ActivityTable cfg);
        Some (''SELECT DISTINCT arrayJoin(ids) AS id FROM '' @ t @ '' WHERE ''
          @ joinWith '' AND '' ([teamFilter cfg, ''bucket >= '' @ chTimeMillis mint, ''bucket <= '' @ chTimeMillis maxt]
              @ metricNameConstraints ms)) })"

definition seriesTimeFilters :: "Config \<Rightarrow> labelMatcher list \<Rightarrow> int \<Rightarrow> int \<Rightarrow> string list option" where
  "seriesTimeFilters cfg ms mint maxt =
     (if exactMetricName ms \<noteq> [] \<and> SamplesTable cfg \<noteq> []
      then do { s \<leftarrow> activeSeriesIDsSQL cfg ms mint maxt; Some [''id IN ('' @ s @ '')''] }
      else if ActivityTable cfg = []
      then Some [''max_time >= '' @ chTimeMillis mint, ''min_time <= '' @ chTimeMillis maxt]
      else do { s \<leftarrow> activeSeriesIDsSQL cfg ms mint maxt; Some [''id IN ('' @ s @ '')''] })"

section \<open>Filters from the label index (storage.go)\<close>

text \<open>The loop over the matchers of seriesPreFilters; \<open>metric\<close> is the exact metric name.\<close>

fun preFilterLoop :: "Config \<Rightarrow> string \<Rightarrow> labelMatcher list \<Rightarrow> string list option" where
  "preFilterLoop cfg metric [] = Some []"
| "preFilterLoop cfg metric (m # ms) = (
     if mName m = metricNameLabel then preFilterLoop cfg metric ms
     else case labelIndexMembershipCondition m of
       None \<Rightarrow> preFilterLoop cfg metric ms
     | Some (membership, condition) \<Rightarrow> do {
         t \<leftarrow> tableName (CHDatabase cfg) (LabelIndexTable cfg);
         rest \<leftarrow> preFilterLoop cfg metric ms;
         Some ((''id '' @ membership @ '' (SELECT id FROM '' @ t @ '' WHERE '' @ teamFilter cfg
            @ '' AND label_name = '' @ sqlString (mName m)
            @ (if metric \<noteq> [] then '' AND metric_name = '' @ sqlString metric else [])
            @ '' AND '' @ condition @ '')'') # rest) })"

definition seriesPreFilters :: "Config \<Rightarrow> labelMatcher list \<Rightarrow> string list option" where
  "seriesPreFilters cfg ms = map_option ((@) (metricNameConstraints ms)) (preFilterLoop cfg (exactMetricName ms) ms)"

fun sampleIDFiltersFromMatchers :: "Config \<Rightarrow> labelMatcher list \<Rightarrow> string list option option" where
  "sampleIDFiltersFromMatchers cfg [] = Some (Some [])"
| "sampleIDFiltersFromMatchers cfg (m # ms) = (
     if matcherIsNoop m then sampleIDFiltersFromMatchers cfg ms
     else if mName m = metricNameLabel then sampleIDFiltersFromMatchers cfg ms
     else case labelIndexMembershipCondition m of
       None \<Rightarrow> Some None
     | Some (membership, condition) \<Rightarrow> do {
         t \<leftarrow> tableName (CHDatabase cfg) (LabelIndexTable cfg);
         rest \<leftarrow> sampleIDFiltersFromMatchers cfg ms;
         let source = ''SELECT id FROM '' @ t @ '' WHERE '' @ teamFilter cfg
            @ '' AND label_name = '' @ sqlString (mName m) @ '' AND '' @ condition;
         Some (map_option ((@) (sampleIDMembershipFilters cfg membership source)) rest) })"

section \<open>Samples and histograms (storage.go)\<close>

definition rawSamplesSourceSQL :: "Config \<Rightarrow> string \<Rightarrow> string option" where
  "rawSamplesSourceSQL cfg filters = do {
     t \<leftarrow> tableName (CHDatabase cfg) (SamplesTable cfg);
     Some (''SELECT id, timestamp, value FROM '' @ t @ '' WHERE '' @ filters) }"

definition sampleRowsSQL :: "Config \<Rightarrow> string \<Rightarrow> bool \<Rightarrow> string option" where
  "sampleRowsSQL cfg filters latestOnly = do {
     source \<leftarrow> rawSamplesSourceSQL cfg filters;
     if latestOnly then do {
       let latest = ''SELECT id, max(timestamp) AS ts_col, argMax(value, timestamp) AS value FROM ('' @ source @ '') GROUP BY id'';
       Some (''SELECT id, toUnixTimestamp64Milli(ts_col) AS ts, value FROM ('' @ latest @ '') WHERE ''
         @ nonStaleSampleSQL ''value'' @ '' ORDER BY id'') }
     else Some (''SELECT id, toUnixTimestamp64Milli(timestamp) AS ts, value FROM ('' @ source @ '') ORDER BY id, timestamp'') }"

definition samplesSQL :: "Config \<Rightarrow> u64 list \<Rightarrow> int \<Rightarrow> int \<Rightarrow> bool \<Rightarrow> labelMatcher list \<Rightarrow> string option" where
  "samplesSQL cfg ids mint maxt latestOnly ms =
     sampleRowsSQL cfg (joinWith '' AND '' (sampleBaseFilters cfg ms mint maxt @ sampleExplicitIDFilters cfg ids)) latestOnly"

definition samplesSQLFromMatchers :: "Config \<Rightarrow> labelMatcher list \<Rightarrow> int \<Rightarrow> int \<Rightarrow> bool \<Rightarrow> string option option" where
  "samplesSQLFromMatchers cfg ms mint maxt latestOnly = do {
     idFilters \<leftarrow> sampleIDFiltersFromMatchers cfg ms;
     (case idFilters of None \<Rightarrow> Some None
      | Some fs \<Rightarrow> map_option Some
          (sampleRowsSQL cfg (joinWith '' AND '' (sampleBaseFilters cfg ms mint maxt @ fs)) latestOnly)) }"

definition histogramsSQLFromMatchers :: "Config \<Rightarrow> labelMatcher list \<Rightarrow> int \<Rightarrow> int \<Rightarrow> string option option" where
  "histogramsSQLFromMatchers cfg ms mint maxt = do {
     idFilters \<leftarrow> sampleIDFiltersFromMatchers cfg ms;
     (case idFilters of None \<Rightarrow> Some None
      | Some fs \<Rightarrow> do {
          t \<leftarrow> tableName (CHDatabase cfg) (HistogramsTable cfg);
          Some (Some (''SELECT id, toUnixTimestamp64Milli(timestamp) AS ts, argMax(histogram, version) AS histogram FROM ''
            @ t @ '' WHERE '' @ joinWith '' AND '' ([teamFilter cfg, ''timestamp >= '' @ chTimeMillis mint,
                ''timestamp <= '' @ chTimeMillis maxt] @ metricNameConstraints ms @ fs)
            @ '' GROUP BY id, timestamp ORDER BY id, timestamp'')) }) }"

definition histogramsSQL :: "Config \<Rightarrow> u64 list \<Rightarrow> int \<Rightarrow> int \<Rightarrow> string option" where
  "histogramsSQL cfg ids mint maxt = do {
     t \<leftarrow> tableName (CHDatabase cfg) (HistogramsTable cfg);
     Some (''SELECT id, toUnixTimestamp64Milli(timestamp) AS ts, argMax(histogram, version) AS histogram FROM ''
       @ t @ '' WHERE '' @ teamFilter cfg @ '' AND id IN ('' @ joinUint64 ids @ '') AND timestamp >= '' @ chTimeMillis mint
       @ '' AND timestamp <= '' @ chTimeMillis maxt @ '' GROUP BY id, timestamp ORDER BY id, timestamp'') }"

section \<open>Series selection of the fast path (fastpath.go)\<close>

definition withMaxThreads :: "string \<Rightarrow> int \<Rightarrow> string" where
  "withMaxThreads sql maxThreads = (if maxThreads \<le> 0 then sql
     else sql @ '' SETTINGS max_threads = '' @ intDec maxThreads)"

definition inCondition :: "string \<Rightarrow> string list \<Rightarrow> string" where
  "inCondition column values = (case values of
     [value] \<Rightarrow> column @ '' = '' @ sqlString value
   | _ \<Rightarrow> column @ '' IN ('' @ quotedList values @ '')'')"

definition selectPartsIDOnly :: "string list \<Rightarrow> bool" where
  "selectPartsIDOnly selectParts \<longleftrightarrow> selectParts = [''id'']"

definition selectedSeriesNeedsBounds :: "string list \<Rightarrow> bool" where
  "selectedSeriesNeedsBounds selectParts \<longleftrightarrow> list_ex (\<lambda>part. part = ''min_time'' \<or> part = ''max_time'') selectParts"

definition projectPart :: "string \<Rightarrow> string" where
  "projectPart part = (if part = ''id'' then ''id''
     else if part = ''metric_name'' then ''any(metric_name) AS metric_name''
     else if part = ''labels_json'' then ''any(labels_json) AS labels_json''
     else if part = ''min_time'' then ''min(min_time) AS min_time''
     else if part = ''max_time'' then ''max(max_time) AS max_time''
     else part)"

definition selectedSeriesProjection :: "string list \<Rightarrow> string list" where
  "selectedSeriesProjection selectParts = map projectPart selectParts"

fun sourceColumnsLoop :: "string list \<Rightarrow> string list \<Rightarrow> string" where
  "sourceColumnsLoop columns [] = joinWith '', '' columns"
| "sourceColumnsLoop columns (part # parts) = (
     if part = ''id'' then sourceColumnsLoop columns parts
     else if part \<in> {''metric_name'', ''labels_json'', ''min_time'', ''max_time''}
     then sourceColumnsLoop (if part \<in> set columns then columns else columns @ [part]) parts
     else ''id, metric_name, labels_json, min_time, max_time'')"

definition selectedSeriesSourceColumns :: "string list \<Rightarrow> string" where
  "selectedSeriesSourceColumns selectParts = sourceColumnsLoop [''id''] selectParts"

text \<open>The search for the matcher that drives the scan of the label index: the first equality
  matcher with a positive membership condition, or else the first positive one.\<close>

definition baseCandidate :: "labelMatcher \<Rightarrow> bool" where
  "baseCandidate m \<longleftrightarrow> (case labelIndexMembershipCondition m of
     None \<Rightarrow> False | Some (membership, _) \<Rightarrow> membership = ''IN'')"

fun baseLoop :: "nat \<Rightarrow> nat option \<Rightarrow> labelMatcher list \<Rightarrow> nat option" where
  "baseLoop i base [] = base"
| "baseLoop i base (m # ms) = (
     if baseCandidate m \<and> (base = None \<or> mType m = MatchEqual)
     then (if mType m = MatchEqual then Some i else baseLoop (Suc i) (Some i) ms)
     else baseLoop (Suc i) base ms)"

fun indexFilterLoop :: "Config \<Rightarrow> string \<Rightarrow> string \<Rightarrow> nat \<Rightarrow> nat \<Rightarrow> labelMatcher list \<Rightarrow> string list option" where
  "indexFilterLoop cfg table metric base i [] = Some []"
| "indexFilterLoop cfg table metric base i (m # ms) = (
     if matcherIsNoop m \<or> mName m = metricNameLabel then indexFilterLoop cfg table metric base (Suc i) ms
     else case labelIndexMembershipCondition m of
       None \<Rightarrow> None
     | Some (membership, condition) \<Rightarrow>
         (let predicate = ''label_name = '' @ sqlString (mName m) @ '' AND '' @ condition;
              f = (if i = base then predicate
                   else ''id '' @ membership @ '' (SELECT id FROM '' @ table @ '' WHERE '' @ teamFilter cfg
                     @ '' AND metric_name = '' @ sqlString metric @ '' AND '' @ predicate @ '')'')
          in map_option (Cons f) (indexFilterLoop cfg table metric base (Suc i) ms)))"

definition selectedSeriesIDsFromLabelIndexSQL :: "Config \<Rightarrow> labelMatcher list \<Rightarrow> string option option" where
  "selectedSeriesIDsFromLabelIndexSQL cfg ms =
     (if exactMetricName ms = [] \<or> LabelIndexTable cfg = [] then Some None
      else case baseLoop 0 None ms of
        None \<Rightarrow> Some None
      | Some base \<Rightarrow> do {
          table \<leftarrow> tableName (CHDatabase cfg) (LabelIndexTable cfg);
          Some (map_option (\<lambda>fs. ''SELECT id FROM '' @ table @ '' WHERE ''
              @ joinWith '' AND '' ([teamFilter cfg, ''metric_name = '' @ sqlString (exactMetricName ms)] @ fs) @ '' GROUP BY id'')
            (indexFilterLoop cfg table (exactMetricName ms) base 0 ms)) })"

definition seriesTableSQL :: "Config \<Rightarrow> string list \<Rightarrow> string list \<Rightarrow> string option" where
  "seriesTableSQL cfg selectParts filters = do {
     t \<leftarrow> tableName (CHDatabase cfg) (SeriesTable cfg);
     Some (''SELECT '' @ joinWith '', '' (selectedSeriesProjection selectParts) @ '' FROM (SELECT ''
       @ selectedSeriesSourceColumns selectParts @ '' FROM '' @ t @ '' WHERE '' @ joinWith '' AND '' filters @ '') GROUP BY id'') }"

definition selectedSeriesSQL ::
  "Config \<Rightarrow> labelMatcher list \<Rightarrow> int \<Rightarrow> int \<Rightarrow> string list \<Rightarrow> string option option" where
  "selectedSeriesSQL cfg ms mint maxt selectParts0 =
     (if \<not> matchersPushdownSafe ms then Some None
      else let selectParts = (if selectParts0 = [] then [''id''] else selectParts0) in do {
        byIndex \<leftarrow> (if selectPartsIDOnly selectParts then selectedSeriesIDsFromLabelIndexSQL cfg ms else Some None);
        (case byIndex of
          Some sql \<Rightarrow> Some (Some sql)
        | None \<Rightarrow> do {
            timeFilters \<leftarrow> (if selectedSeriesNeedsBounds selectParts then seriesTimeFilters cfg ms mint maxt else Some []);
            preFilters \<leftarrow> seriesPreFilters cfg ms;
            map_option Some (seriesTableSQL cfg selectParts ([teamFilter cfg] @ timeFilters @ preFilters)) }) })"

definition latestSamplesSQL :: "string \<Rightarrow> string" where
  "latestSamplesSQL source = ''SELECT id, value, ts_col FROM (SELECT id, argMax(value, timestamp) AS value, max(timestamp) AS ts_col FROM (''
     @ source @ '') GROUP BY id) WHERE '' @ nonStaleSampleSQL ''value''"

definition metricOnlyMatchers :: "labelMatcher list \<Rightarrow> bool" where
  "metricOnlyMatchers ms \<longleftrightarrow> ms \<noteq> [] \<and> list_all (\<lambda>m. mName m = metricNameLabel) ms"

definition latestSamplesForSelectedSeriesSQL :: "Config \<Rightarrow> labelMatcher list \<Rightarrow> int \<Rightarrow> int \<Rightarrow> string option" where
  "latestSamplesForSelectedSeriesSQL cfg ms mint maxt = do {
     source \<leftarrow> rawSamplesSourceSQL cfg (joinWith '' AND '' (sampleBaseFilters cfg ms mint maxt
       @ (if metricOnlyMatchers ms then [] else sampleSelectedSeriesFilters cfg)));
     Some (latestSamplesSQL source) }"

definition samplesForSelectedSeriesUnionSQL :: "Config \<Rightarrow> string list \<Rightarrow> int \<Rightarrow> int \<Rightarrow> string option" where
  "samplesForSelectedSeriesUnionSQL cfg metricNames mint maxt =
     rawSamplesSourceSQL cfg (joinWith '' AND '' ([teamFilter cfg] @ sampleTimeFilters cfg mint maxt
       @ (if metricNamesCondition metricNames \<noteq> [] then [metricNamesCondition metricNames] else [])
       @ sampleSelectedSeriesFilters cfg))"

definition latestSamplesForSelectedSeriesUnionSQL :: "Config \<Rightarrow> string list \<Rightarrow> int \<Rightarrow> int \<Rightarrow> string option" where
  "latestSamplesForSelectedSeriesUnionSQL cfg metricNames mint maxt =
     map_option latestSamplesSQL (samplesForSelectedSeriesUnionSQL cfg metricNames mint maxt)"

section \<open>Unions of exact selectors (fastpath.go)\<close>

record exactSelectorMatcherSet =
  setMetric :: string
  setLabels :: "(string \<times> string) list"

fun exactSetLoop :: "string \<Rightarrow> string list \<Rightarrow> (string \<times> string) list \<Rightarrow> labelMatcher list
    \<Rightarrow> (string \<times> (string \<times> string) list) option" where
  "exactSetLoop metric seen acc [] = Some (metric, acc)"
| "exactSetLoop metric seen acc (m # ms) = (
     if matcherIsNoop m then exactSetLoop metric seen acc ms
     else if mName m = metricNameLabel then
       (if mType m \<noteq> MatchEqual \<or> mValue m = [] then None
        else if metric \<noteq> [] \<and> metric \<noteq> mValue m then None
        else exactSetLoop (mValue m) seen acc ms)
     else if mName m = [] \<or> mType m \<noteq> MatchEqual \<or> mMatches m [] then None
     else if mName m \<in> set seen then None
     else exactSetLoop metric (mName m # seen) (acc @ [(mName m, mValue m)]) ms)"

definition exactSelectorMatcherSetFor :: "labelMatcher list \<Rightarrow> exactSelectorMatcherSet option" where
  "exactSelectorMatcherSetFor ms = (if ms = [] then None
     else case exactSetLoop [] [] [] ms of
       None \<Rightarrow> None
     | Some (metric, ls) \<Rightarrow>
         if metric = [] \<or> length ls = 0 \<or> length ls > 64 then None
         else Some \<lparr>setMetric = metric, setLabels = ls\<rparr>)"

definition matchBit :: "nat \<Rightarrow> u64" where
  "matchBit position = push_bit position 1"

definition fullBranchMask :: "nat \<Rightarrow> u64" where
  "fullBranchMask n = push_bit n 1 - 1"

text \<open>Collecting values with a Go set of the ones seen keeps the first occurrences.\<close>

definition addNew :: "string list \<Rightarrow> string \<Rightarrow> string list" where
  "addNew acc x = (if x \<in> set acc then acc else acc @ [x])"

definition distinctFirst :: "string list \<Rightarrow> string list" where
  "distinctFirst xs = foldl addNew [] xs"

definition matcherRow :: "nat \<Rightarrow> exactSelectorMatcherSet \<Rightarrow> nat \<Rightarrow> string \<times> string \<Rightarrow> string" where
  "matcherRow branch st position nv =
     ''('' @ natDec branch @ '', '' @ formatUint (fullBranchMask (length (setLabels st))) @ '', ''
     @ formatUint (matchBit position) @ '', '' @ sqlString (setMetric st) @ '', '' @ sqlString (fst nv)
     @ '', '' @ sqlString (snd nv) @ '')''"

definition matcherRows :: "exactSelectorMatcherSet list \<Rightarrow> string list" where
  "matcherRows sets = concat (map (\<lambda>(branch, st). map (\<lambda>(position, nv). matcherRow branch st position nv)
     (enumerate 0 (setLabels st))) (enumerate 0 sets))"

definition exactMatcherUnionBranchIDsSQL :: "Config \<Rightarrow> exactSelectorMatcherSet list \<Rightarrow> int \<Rightarrow> int \<Rightarrow> string option" where
  "exactMatcherUnionBranchIDsSQL cfg sets mint maxt = do {
     let metricNames = distinctFirst (map setMetric sets);
     let pairs = concat (map setLabels sets);
     let labelNames = distinctFirst (map fst pairs);
     let labelValues = distinctFirst (map snd pairs);
     active \<leftarrow> activeSeriesIDsForMetricsSQL cfg metricNames mint maxt;
     t \<leftarrow> tableName (CHDatabase cfg) (LabelIndexTable cfg);
     Some (''SELECT mr.branch AS branch, li.id AS id FROM '' @ t @ '' AS li INNER JOIN values('' @ [squote]
       @ ''branch UInt32, full_mask UInt64, match_bit UInt64, metric_name String, label_name String, label_value String'' @ [squote]
       @ '', '' @ joinWith '', '' (matcherRows sets)
       @ '') AS mr ON li.metric_name = mr.metric_name AND li.label_name = mr.label_name AND li.label_value = mr.label_value WHERE ''
       @ joinWith '' AND '' ([teamFilter cfg]
            @ (if metricNamesCondition metricNames \<noteq> [] then [metricNamesCondition metricNames] else [])
            @ [inCondition ''label_name'' labelNames, inCondition ''label_value'' labelValues]
            @ (case active of None \<Rightarrow> [] | Some a \<Rightarrow> [''li.id IN ('' @ a @ '')'']))
       @ '' GROUP BY branch, id, full_mask HAVING groupBitOr(mr.match_bit) = full_mask'') }"

fun singleLabelLoop :: "string \<Rightarrow> string \<Rightarrow> string list \<Rightarrow> exactSelectorMatcherSet list \<Rightarrow> (string \<times> string list) option" where
  "singleLabelLoop metric labelName values [] = Some (labelName, values)"
| "singleLabelLoop metric labelName values (st # sets) = (
     case setLabels st of
       [(n, v)] \<Rightarrow>
         (if setMetric st \<noteq> metric then None
          else let labelName' = (if labelName = [] then n else labelName) in
            if n \<noteq> labelName' then None
            else singleLabelLoop metric labelName' (addNew values v) sets)
     | _ \<Rightarrow> None)"

definition singleExactLabelUnionIDsSQL :: "Config \<Rightarrow> exactSelectorMatcherSet list \<Rightarrow> string option option" where
  "singleExactLabelUnionIDsSQL cfg sets = (case sets of
     [] \<Rightarrow> Some None
   | st # _ \<Rightarrow> (case singleLabelLoop (setMetric st) [] [] sets of
        None \<Rightarrow> Some None
      | Some (labelName, values) \<Rightarrow> do {
          t \<leftarrow> tableName (CHDatabase cfg) (LabelIndexTable cfg);
          Some (Some (''SELECT id FROM '' @ t @ '' WHERE '' @ joinWith '' AND '' [teamFilter cfg,
              ''metric_name = '' @ sqlString (setMetric st), ''label_name = '' @ sqlString labelName,
              inCondition ''label_value'' values] @ '' GROUP BY id'')) }))"

definition exactMatcherUnionIDsSQL :: "Config \<Rightarrow> exactSelectorMatcherSet list \<Rightarrow> int \<Rightarrow> int \<Rightarrow> string option" where
  "exactMatcherUnionIDsSQL cfg sets mint maxt = do {
     single \<leftarrow> singleExactLabelUnionIDsSQL cfg sets;
     (case single of
       Some sql \<Rightarrow> Some sql
     | None \<Rightarrow> map_option (\<lambda>s. ''SELECT id FROM ('' @ s @ '') GROUP BY id'')
         (exactMatcherUnionBranchIDsSQL cfg sets mint maxt)) }"

fun exactSets :: "labelMatcher list list \<Rightarrow> exactSelectorMatcherSet list option" where
  "exactSets [] = Some []"
| "exactSets (ms # mss) = do { st \<leftarrow> exactSelectorMatcherSetFor ms; sts \<leftarrow> exactSets mss; Some (st # sts) }"

definition selectedSeriesExactMatcherUnionSQL ::
  "Config \<Rightarrow> labelMatcher list list \<Rightarrow> string list \<Rightarrow> int \<Rightarrow> int \<Rightarrow> string option option" where
  "selectedSeriesExactMatcherUnionSQL cfg selectors selectParts mint maxt =
     (if length selectors < 2 \<or> selectedSeriesNeedsBounds selectParts then Some None
      else case exactSets selectors of
        None \<Rightarrow> Some None
      | Some sets \<Rightarrow> do {
          matchedIDs \<leftarrow> exactMatcherUnionIDsSQL cfg sets mint maxt;
          if selectPartsIDOnly selectParts then Some (Some (''SELECT id FROM ('' @ matchedIDs @ '') GROUP BY id''))
          else let condition = metricNamesCondition (distinctFirst (map setMetric sets)) in
            map_option Some (seriesTableSQL cfg selectParts ([teamFilter cfg, ''id IN ('' @ matchedIDs @ '')'']
              @ (if condition \<noteq> [] then [condition] else []))) })"

text \<open>A selector with its window is its matchers with the bounds of the window.\<close>

fun unionPartsLoop :: "Config \<Rightarrow> string list \<Rightarrow> (labelMatcher list \<times> int \<times> int) list \<Rightarrow> string list option option" where
  "unionPartsLoop cfg selectParts [] = Some (Some [])"
| "unionPartsLoop cfg selectParts ((ms, mint, maxt) # rest) = do {
     part \<leftarrow> selectedSeriesSQL cfg ms mint maxt selectParts;
     (case part of
       None \<Rightarrow> Some None
     | Some sql \<Rightarrow> map_option (map_option (Cons sql)) (unionPartsLoop cfg selectParts rest)) }"

definition selectedSeriesUnionSQL ::
  "Config \<Rightarrow> labelMatcher list list \<Rightarrow> (int \<times> int) list \<Rightarrow> string list \<Rightarrow> string option option" where
  "selectedSeriesUnionSQL cfg selectors windows selectParts =
     (if length selectors = 0 \<or> length selectors \<noteq> length windows then Some None
      else do {
        union \<leftarrow> (if length selectors > 1
          then selectedSeriesExactMatcherUnionSQL cfg selectors selectParts
                 (Min (set (map fst windows))) (Max (set (map snd windows)))
          else Some None);
        (case union of
          Some sql \<Rightarrow> Some (Some sql)
        | None \<Rightarrow> map_option (map_option (\<lambda>parts. case parts of
              [p] \<Rightarrow> p | _ \<Rightarrow> joinWith '' UNION DISTINCT '' parts))
            (unionPartsLoop cfg selectParts (zip selectors windows))) })"

section \<open>Completeness of a branch by bit masks\<close>

text \<open>The union query counts a branch as matched when the bits of the matched labels or to the full
  mask. Up to 64 labels the test is exact, whatever the order and the repetitions of the bits.\<close>

lemma bit_fullBranchMask: "n \<le> 64 \<Longrightarrow> bit (fullBranchMask n) i \<longleftrightarrow> i < n"
proof -
  assume n: "n \<le> 64"
  have "fullBranchMask n = mask n"
    by (simp add: fullBranchMask_def mask_eq_exp_minus_1)
  then show ?thesis
    using n by (auto simp: bit_simps)
qed

definition groupBitOr :: "u64 list \<Rightarrow> u64" where
  "groupBitOr ws = foldr (OR) ws 0"

lemma bit_groupBitOr: "bit (groupBitOr ws) i \<longleftrightarrow> (\<exists>w\<in>set ws. bit w i)"
  by (induction ws) (auto simp: groupBitOr_def bit_simps)

lemma groupBitOr_full:
  assumes "n \<le> 64" "set ps \<subseteq> {..<n}"
  shows "groupBitOr (map matchBit ps) = fullBranchMask n \<longleftrightarrow> set ps = {..<n}"
proof
  have bit1: "bit (matchBit p) i \<longleftrightarrow> i = p \<and> p < 64" for p i
    unfolding matchBit_def by (auto simp: bit_simps)
  {
    assume eq: "groupBitOr (map matchBit ps) = fullBranchMask n"
    have "{..<n} \<subseteq> set ps"
    proof
      fix i assume "i \<in> {..<n}"
      then have "bit (groupBitOr (map matchBit ps)) i"
        using assms(1) by (simp add: eq bit_fullBranchMask)
      then show "i \<in> set ps" by (auto simp: bit_groupBitOr bit1)
    qed
    then show "set ps = {..<n}" using assms(2) by blast
  next
    assume ps: "set ps = {..<n}"
    show "groupBitOr (map matchBit ps) = fullBranchMask n"
      by (rule bit_word_eqI) (use ps assms(1) in \<open>auto simp: bit_groupBitOr bit1 bit_fullBranchMask\<close>)
  }
qed

text \<open>The positions of a branch whose label the index holds for a series.\<close>

definition branchHits :: "gomap \<Rightarrow> exactSelectorMatcherSet \<Rightarrow> nat list" where
  "branchHits labelMap st = filter (\<lambda>p. map_of labelMap (fst (setLabels st ! p)) = Some (snd (setLabels st ! p)))
     [0..<length (setLabels st)]"

lemma labelGet_nonempty: "v \<noteq> [] \<Longrightarrow> labelGet labelMap n = v \<longleftrightarrow> map_of labelMap n = Some v"
  by (auto simp: labelGet_def split: option.splits)

definition setHolds :: "gomap \<Rightarrow> string \<Rightarrow> (string \<times> string) list \<Rightarrow> bool" where
  "setHolds labelMap metric ls \<longleftrightarrow> (metric = [] \<or> labelGet labelMap metricNameLabel = metric)
     \<and> (\<forall>(n, v)\<in>set ls. map_of labelMap n = Some v)"

lemma exactSetLoop_matches:
  assumes "exactSetLoop metric seen acc ms = Some (metric', ls)" "\<forall>m\<in>set ms. matcher_ok m"
  shows "setHolds labelMap metric' ls \<longleftrightarrow> setHolds labelMap metric acc
     \<and> (\<forall>m\<in>set ms. matcherIsNoop m \<or> mMatches m (labelGet labelMap (mName m)))"
  using assms
proof (induction metric seen acc ms rule: exactSetLoop.induct)
  case (1 metric seen acc)
  then show ?case by auto
next
  case (2 metric seen acc m ms)
  have eq: "mType m = MatchEqual \<Longrightarrow> mMatches m v \<longleftrightarrow> v = mValue m" for v
    using "2.prems"(2) by (simp add: matcher_ok_def)
  consider (noop) "matcherIsNoop m"
    | (name) "\<not> matcherIsNoop m" "mName m = metricNameLabel"
    | (label) "\<not> matcherIsNoop m" "mName m \<noteq> metricNameLabel" by blast
  then show ?case
  proof cases
    case noop
    then show ?thesis using 2 by simp
  next
    case name
    then have c: "mType m = MatchEqual" "mValue m \<noteq> []" "metric = [] \<or> metric = mValue m"
      using "2.prems"(1) by (auto split: if_splits)
    then show ?thesis
      using 2 name eq [OF c(1)] by (auto simp: setHolds_def)
  next
    case label
    then have c: "mType m = MatchEqual" "mValue m \<noteq> []" "mName m \<notin> set seen" "mName m \<noteq> []" "\<not> mMatches m []"
      using "2.prems"(1) eq by (auto split: if_splits)
    then show ?thesis
      using "2.IH"(3) "2.prems" label eq [OF c(1)] labelGet_nonempty [OF c(2), of labelMap "mName m"]
      by (auto simp: setHolds_def)
  qed
qed

lemma branchHits_full:
  "set (branchHits labelMap st) = {..<length (setLabels st)}
     \<longleftrightarrow> (\<forall>(n, v)\<in>set (setLabels st). map_of labelMap n = Some v)"
proof -
  have "set (branchHits labelMap st) = {..<length (setLabels st)}
      \<longleftrightarrow> (\<forall>p<length (setLabels st). map_of labelMap (fst (setLabels st ! p)) = Some (snd (setLabels st ! p)))"
    by (auto simp: branchHits_def)
  then show ?thesis
    by (simp add: all_set_conv_all_nth split_beta)
qed

text \<open>C16. The union query of the fast path finds exactly the series of a selector: when a selector is
  accepted as a set of exact label values, a series matches all its matchers (match-all patterns
  aside) if and only if its metric name is the one of the set and the bits of its matched
  labels, in any order and with any repetition, or to the full mask of the branch.\<close>

theorem exact_union_mask_decides:
  assumes "exactSelectorMatcherSetFor ms = Some st" "\<forall>m\<in>set ms. matcher_ok m"
    and "set ps = set (branchHits labelMap st)"
  shows "(\<forall>m\<in>set ms. matcherIsNoop m \<or> mMatches m (labelGet labelMap (mName m)))
    \<longleftrightarrow> labelGet labelMap metricNameLabel = setMetric st
        \<and> groupBitOr (map matchBit ps) = fullBranchMask (length (setLabels st))"
proof -
  have loop: "exactSetLoop [] [] [] ms = Some (setMetric st, setLabels st)" "setMetric st \<noteq> []"
    and n: "length (setLabels st) \<le> 64"
    using assms(1) by (auto simp: exactSelectorMatcherSetFor_def split: option.splits if_splits)
  have "set ps \<subseteq> {..<length (setLabels st)}"
    by (auto simp: assms(3) branchHits_def)
  from groupBitOr_full [OF n this] show ?thesis
    using exactSetLoop_matches [OF loop(1) assms(2), of labelMap] loop(2) branchHits_full [of labelMap st]
    by (auto simp: setHolds_def assms(3))
qed

definition eqMatcher :: "string \<Rightarrow> string \<Rightarrow> labelMatcher" where
  "eqMatcher n v = \<lparr>mType = MatchEqual, mName = n, mValue = v, mMatches = (\<lambda>w. w = v), mSetMatches = [], mPrefix = []\<rparr>"

theorem exact_union_mask_decides_witness:
  "(\<forall>m\<in>set [eqMatcher metricNameLabel ''up'', eqMatcher ''job'' ''api'', eqMatcher ''env'' ''eu''].
      matcherIsNoop m \<or> mMatches m (labelGet [(''env'', ''eu''), (''job'', ''api''), (metricNameLabel, ''up'')] (mName m)))
    \<longleftrightarrow> labelGet [(''env'', ''eu''), (''job'', ''api''), (metricNameLabel, ''up'')] metricNameLabel = ''up''
        \<and> groupBitOr (map matchBit [1, 0, 1]) = fullBranchMask 2"
proof -
  let ?st = "\<lparr>setMetric = ''up'', setLabels = [(''job'', ''api''), (''env'', ''eu'')]\<rparr>"
  have st: "exactSelectorMatcherSetFor [eqMatcher metricNameLabel ''up'', eqMatcher ''job'' ''api'', eqMatcher ''env'' ''eu'']
     = Some ?st"
    by (simp add: exactSelectorMatcherSetFor_def matcherIsNoop_def eqMatcher_def metricNameLabel_def)
  have "set [1, 0, 1] = set (branchHits [(''env'', ''eu''), (''job'', ''api''), (metricNameLabel, ''up'')] ?st)"
    by (auto simp: branchHits_def upt_rec)
  note hits = this
  have len: "length (setLabels ?st) = 2" "setMetric ?st = ''up''"
    by simp_all
  have ok: "\<forall>m\<in>set [eqMatcher metricNameLabel ''up'', eqMatcher ''job'' ''api'', eqMatcher ''env'' ''eu'']. matcher_ok m"
    by (simp add: eqMatcher_def matcher_ok_def)
  show ?thesis
    using exact_union_mask_decides [OF st ok hits] unfolding len .
qed

end
