(* ===== verification/SqlShape.thy ===== *)
theory SqlShape
  imports SeriesSql
begin

text \<open>
  The structure of the emitted queries does not depend on the values that come from a request:
  two lists of matchers of the same shape (types, which labels they address, which shortcuts
  they take) yield texts that read to the same tokens up to the values of the literals. This
  is the freedom from SQL injection of the builders of SeriesSql, stated for whole queries.
\<close>

definition specialNames :: "string set" where
  "specialNames = {[], metricNameLabel, ''service_name'', ''service.name''}"

definition sameShape :: "labelMatcher \<Rightarrow> labelMatcher \<Rightarrow> bool" where
  "sameShape m m' \<longleftrightarrow> mType m = mType m'
     \<and> (mName m = mName m' \<or> mName m \<notin> specialNames \<and> mName m' \<notin> specialNames)
     \<and> (mValue m = [] \<longleftrightarrow> mValue m' = []) \<and> mMatches m [] = mMatches m' []
     \<and> length (mSetMatches m) = length (mSetMatches m') \<and> (mPrefix m = [] \<longleftrightarrow> mPrefix m' = [])
     \<and> matcherIsNoop m = matcherIsNoop m'"

lemma sameShapeD:
  assumes "sameShape m m'"
  shows "mType m' = mType m" "mName m' = metricNameLabel \<longleftrightarrow> mName m = metricNameLabel"
    "mName m' = ''service_name'' \<longleftrightarrow> mName m = ''service_name''"
    "mName m' = ''service.name'' \<longleftrightarrow> mName m = ''service.name''"
    "mName m' = [] \<longleftrightarrow> mName m = []"
    "mValue m' = [] \<longleftrightarrow> mValue m = []" "mMatches m' [] = mMatches m []"
    "mSetMatches m' = [] \<longleftrightarrow> mSetMatches m = []" "mPrefix m' = [] \<longleftrightarrow> mPrefix m = []"
    "matcherIsNoop m' = matcherIsNoop m" "length (mSetMatches m') = length (mSetMatches m)"
proof -
  have n: "n \<in> specialNames \<Longrightarrow> mName m' = n \<longleftrightarrow> mName m = n" for n
    using assms by (auto simp: sameShape_def)
  show "mName m' = metricNameLabel \<longleftrightarrow> mName m = metricNameLabel"
    "mName m' = ''service_name'' \<longleftrightarrow> mName m = ''service_name''"
    "mName m' = ''service.name'' \<longleftrightarrow> mName m = ''service.name''"
    "mName m' = [] \<longleftrightarrow> mName m = []"
    by (rule n, simp add: specialNames_def)+
  show "mSetMatches m' = [] \<longleftrightarrow> mSetMatches m = []"
    using assms unfolding sameShape_def by (metis length_0_conv)
qed (use assms in \<open>simp_all add: sameShape_def\<close>)

text \<open>Binding of optional results.\<close>

lemma rel_bind_same:
  "(\<And>a. x = Some a \<Longrightarrow> rel_option S (f a) (g a)) \<Longrightarrow> rel_option S (Option.bind x f) (Option.bind x g)"
  by (cases x) auto

lemma rel_bind:
  "rel_option R x y \<Longrightarrow> (\<And>a b. R a b \<Longrightarrow> rel_option S (f a) (g b)) \<Longrightarrow> rel_option S (Option.bind x f) (Option.bind y g)"
  by (cases x; cases y) auto

lemma rel_map:
  "rel_option R x y \<Longrightarrow> (\<And>a b. R a b \<Longrightarrow> S (f a) (g b)) \<Longrightarrow> rel_option S (map_option f x) (map_option g y)"
  by (cases x; cases y) auto

abbreviation sqlRel :: "(char \<Rightarrow> string) \<Rightarrow> string option \<Rightarrow> string option \<Rightarrow> bool" where
  "sqlRel esc \<equiv> rel_option (sameSQL esc)"

abbreviation sqlRels :: "(char \<Rightarrow> string) \<Rightarrow> string list \<Rightarrow> string list \<Rightarrow> bool" where
  "sqlRels esc \<equiv> list_all2 (sameSQL esc)"

lemma quotedList_shape [sql_intros]:
  "esc_ok esc \<Longrightarrow> length vs = length ws \<Longrightarrow> sameSQL esc (quotedList vs) (quotedList ws)"
  unfolding quotedList_def by (intro sql_intros) simp_all

lemma teamFilter_plain [simp]: "squote \<notin> set (teamFilter cfg)"
  by (simp add: teamFilter_def)

lemma nonStale_plain [simp]: "squote \<notin> set (nonStaleSampleSQL ''value'')"
  by (simp add: nonStaleSampleSQL_def)

lemma rel_Some_sql [sql_intros]: "R a b \<Longrightarrow> rel_option R (Some a) (Some b)"
  by simp

lemma rel_None_sql [sql_intros]: "rel_option R None None"
  by simp

lemma rel_pair_sql [sql_intros]: "R b c \<Longrightarrow> rel_prod (=) R (a, b) (a, c)"
  by simp

lemma rel_if: "(c \<Longrightarrow> R a b) \<Longrightarrow> (\<not> c \<Longrightarrow> R a' b') \<Longrightarrow> R (if c then a else a') (if c then b else b')"
  by simp

section \<open>Conditions and filters\<close>

lemma stringColumn_shape:
  assumes "esc_ok esc" "sameShape m m'" "sameSQL esc col col'"
  shows "sqlRel esc (stringColumnMatcherCondition col m) (stringColumnMatcherCondition col' m')"
  unfolding stringColumnMatcherCondition_def sameShapeD [OF assms(2)]
  using assms(1,3) sameShapeD(11) [OF assms(2)]
  by (cases "mType m"; simp only: matchType.case option.rel_inject split: if_split;
      intro conjI impI sql_intros; simp)

lemma metricCondition_shape:
  "esc_ok esc \<Longrightarrow> sameShape m m' \<Longrightarrow> sqlRel esc (metricMatcherCondition m) (metricMatcherCondition m')"
  unfolding metric_is_column by (rule stringColumn_shape) (simp_all add: sameSQL_plain)

lemma metricCondition_Some: "\<exists>s. metricMatcherCondition m = Some s"
  by (cases "mType m") (simp_all add: metricMatcherCondition_def)

lemma metricNameConstraints_Cons:
  "metricNameConstraints (m # ms) =
     (if mName m \<noteq> metricNameLabel \<or> mMatches m [] then [] else [the (metricMatcherCondition m)]) @ metricNameConstraints ms"
  using metricCondition_Some [of m] by (auto simp: metricNameConstraints_def List.map_filter_simps)

lemma metricNameConstraints_shape [sql_intros]:
  assumes "esc_ok esc" "list_all2 sameShape ms ms'"
  shows "sqlRels esc (metricNameConstraints ms) (metricNameConstraints ms')"
  using assms(2)
proof (induction rule: list_all2_induct)
  case Nil
  show ?case by (simp add: metricNameConstraints_def List.map_filter_simps)
next
  case (Cons m ms m' ms')
  obtain s s' where s: "metricMatcherCondition m = Some s" "metricMatcherCondition m' = Some s'"
    using metricCondition_Some by blast
  have "sameSQL esc s s'"
    using metricCondition_shape [OF assms(1) Cons.hyps(1)] s by simp
  then show ?case
    using Cons.IH by (simp add: metricNameConstraints_Cons s sameShapeD [OF Cons.hyps(1)])
qed

lemma exactMetricName_shape:
  "list_all2 sameShape ms ms' \<Longrightarrow> exactMetricName ms' = [] \<longleftrightarrow> exactMetricName ms = []"
  by (induction rule: list_all2_induct) (simp_all add: sameShapeD)

lemma serviceName_shape [sql_intros]:
  assumes "esc_ok esc" "list_all2 sameShape ms ms'"
  shows "sqlRels esc (postHogServiceNameFilters cfg ms) (postHogServiceNameFilters cfg ms')"
proof -
  have "sqlRels esc (serviceNameLoop ms) (serviceNameLoop ms')"
    using assms(2)
  proof (induction rule: list_all2_induct)
    case (Cons m ms m' ms')
    have "sqlRel esc (stringColumnMatcherCondition ''service_name'' m) (stringColumnMatcherCondition ''service_name'' m')"
      by (rule stringColumn_shape [OF assms(1) Cons.hyps(1)]) (simp add: sameSQL_plain)
    then show ?case
      using Cons.IH unfolding serviceNameLoop.simps sameShapeD [OF Cons.hyps(1)]
      by (auto split: option.splits simp: rel_option_iff)
  qed simp
  then show ?thesis by (simp add: postHogServiceNameFilters_def)
qed

lemma closed_time [sql_intros]:
  "sqlRels esc (sampleTimeFilters cfg a b) (sampleTimeFilters cfg a b)"
  "sqlRels esc (postHogAttributeTimeFilters a b) (postHogAttributeTimeFilters a b)"
proof -
  show *: "sqlRels esc (postHogAttributeTimeFilters a b) (postHogAttributeTimeFilters a b)"
    unfolding postHogAttributeTimeFilters_def by (intro sql_intros; simp)
  show "sqlRels esc (sampleTimeFilters cfg a b) (sampleTimeFilters cfg a b)"
    unfolding sampleTimeFilters_def
    by (cases "postHogSchemaLayout cfg"; simp only: if_True if_False; intro sql_intros *; simp)
qed

lemma sampleBaseFilters_shape [sql_intros]:
  assumes "esc_ok esc" "list_all2 sameShape ms ms'"
  shows "sqlRels esc (sampleBaseFilters cfg ms mint maxt) (sampleBaseFilters cfg ms' mint maxt)"
  unfolding sampleBaseFilters_def using assms by (intro sql_intros; simp)

lemma idMembership_shape [sql_intros]:
  assumes "squote \<notin> set membership" "sameSQL esc s s'"
  shows "sqlRels esc (sampleIDMembershipFilters cfg membership s) (sampleIDMembershipFilters cfg membership s')"
  unfolding sampleIDMembershipFilters_def
  by (cases "postHogSchemaLayout cfg"; simp only: if_True if_False; intro sql_intros assms(2); simp add: assms(1))

lemma positiveIndex_shape:
  assumes "esc_ok esc" "sameShape m m'"
  shows "rel_option (rel_prod (=) (sameSQL esc)) (positiveLabelIndexMembershipCondition m) (positiveLabelIndexMembershipCondition m')"
  unfolding positiveLabelIndexMembershipCondition_def sameShapeD [OF assms(2)]
  using assms(1) sameShapeD(11) [OF assms(2)]
  by (cases "mType m"; simp only: matchType.case split: if_split; intro conjI impI sql_intros; simp)

lemma negativeIndex_shape:
  assumes "esc_ok esc" "sameShape m m'"
  shows "sqlRel esc (negativeLabelIndexCondition m) (negativeLabelIndexCondition m')"
  unfolding negativeLabelIndexCondition_def sameShapeD [OF assms(2)]
  using assms(1) sameShapeD(11) [OF assms(2)]
  by (cases "mType m"; simp only: matchType.case option.rel_inject simp_thms split: if_split;
      intro conjI impI sql_intros; simp)

lemma index_shape:
  assumes "esc_ok esc" "sameShape m m'"
  shows "rel_option (rel_prod (=) (sameSQL esc)) (labelIndexMembershipCondition m) (labelIndexMembershipCondition m')"
  unfolding labelIndexMembershipCondition_def sameShapeD [OF assms(2)]
  using positiveIndex_shape [OF assms] negativeIndex_shape [OF assms]
  by (simp add: option.rel_map rel_option_iff split: option.splits)

lemma membership_plain:
  "labelIndexMembershipCondition m = Some (membership, s) \<Longrightarrow> squote \<notin> set membership"
  by (drule index_membership) (simp split: if_splits)

section \<open>Whole queries\<close>

text \<open>Steps of the builders: a bound result, a case on an optional text.\<close>

lemma sqlRel2_case:
  assumes "rel_option R x y" "rel_option S a b" "\<And>u v. R u v \<Longrightarrow> rel_option S (f u) (g v)"
  shows "rel_option S (case x of None \<Rightarrow> a | Some u \<Rightarrow> f u) (case y of None \<Rightarrow> b | Some v \<Rightarrow> g v)"
  using assms by (cases x; cases y) auto

lemma rawSamples_shape:
  assumes "sameSQL esc f f'"
  shows "sqlRel esc (rawSamplesSourceSQL cfg f) (rawSamplesSourceSQL cfg f')"
  unfolding rawSamplesSourceSQL_def
  by (rule rel_bind_same; intro sql_intros assms; simp add: tableName_plain)

lemma sampleRows_shape:
  assumes "sameSQL esc f f'"
  shows "sqlRel esc (sampleRowsSQL cfg f latestOnly) (sampleRowsSQL cfg f' latestOnly)"
  unfolding sampleRowsSQL_def Let_def
  by (rule rel_bind [OF rawSamples_shape [OF assms]]; cases latestOnly; simp only: if_True if_False bind.bind_lunit;
      intro sql_intros; simp)

lemma samplesSQL_shape:
  assumes "esc_ok esc" "list_all2 sameShape ms ms'"
  shows "sqlRel esc (samplesSQL cfg ids mint maxt latestOnly ms) (samplesSQL cfg ids mint maxt latestOnly ms')"
  unfolding samplesSQL_def sampleExplicitIDFilters_def
  by (rule sampleRows_shape; intro sql_intros assms; simp)

text \<open>The case of the loops over the label index conditions.\<close>

lemma index_case:
  assumes "esc_ok esc" "sameShape m m'" "rel_option S a b"
    and "\<And>mem s s'. labelIndexMembershipCondition m = Some (mem, s) \<Longrightarrow> sameSQL esc s s' \<Longrightarrow> squote \<notin> set mem
      \<Longrightarrow> rel_option S (f mem s) (g mem s')"
  shows "rel_option S
     (case labelIndexMembershipCondition m of None \<Rightarrow> a | Some (mem, s) \<Rightarrow> f mem s)
     (case labelIndexMembershipCondition m' of None \<Rightarrow> b | Some (mem, s) \<Rightarrow> g mem s)"
proof (cases "labelIndexMembershipCondition m")
  case None
  then have "labelIndexMembershipCondition m' = None"
    using index_shape [OF assms(1,2)] by (simp add: rel_option_iff split: option.splits)
  with None assms(3) show ?thesis by simp
next
  case (Some p)
  then obtain mem s s' where ms: "labelIndexMembershipCondition m = Some (mem, s)"
      "labelIndexMembershipCondition m' = Some (mem, s')" "sameSQL esc s s'"
    using index_shape [OF assms(1,2)] by (cases p) (auto simp: rel_option_iff split: option.splits)
  then show ?thesis
    using assms(4) membership_plain [OF ms(1)] by simp
qed

lemma sampleIDFilters_shape:
  assumes "esc_ok esc" "list_all2 sameShape ms ms'"
  shows "rel_option (rel_option (sqlRels esc)) (sampleIDFiltersFromMatchers cfg ms) (sampleIDFiltersFromMatchers cfg ms')"
  using assms(2)
proof (induction rule: list_all2_induct)
  case (Cons m ms m' ms')
  note IH = Cons.IH
  show ?case
    unfolding sampleIDFiltersFromMatchers.simps sameShapeD [OF Cons.hyps(1)] Let_def
    by (rule rel_if, rule IH, rule rel_if, rule IH, rule index_case [OF assms(1) Cons.hyps(1)],
        intro sql_intros, rule rel_bind_same, rule rel_bind [OF IH], rule rel_Some_sql, erule rel_map,
        intro sql_intros assms(1); simp add: tableName_plain)
qed simp

lemma preFilterLoop_shape:
  assumes "esc_ok esc" "list_all2 sameShape ms ms'" "metric' = [] \<longleftrightarrow> metric = []"
  shows "rel_option (sqlRels esc) (preFilterLoop cfg metric ms) (preFilterLoop cfg metric' ms')"
  using assms(2)
proof (induction rule: list_all2_induct)
  case (Cons m ms m' ms')
  note IH = Cons.IH
  have metric: "sameSQL esc (if metric \<noteq> [] then '' AND metric_name = '' @ sqlString metric else [])
      (if metric' \<noteq> [] then '' AND metric_name = '' @ sqlString metric' else [])"
    unfolding assms(3) by (cases "metric = []"; simp only: if_True if_False simp_thms;
        intro sql_intros assms(1); simp)
  show ?case
    unfolding preFilterLoop.simps sameShapeD [OF Cons.hyps(1)]
    by (rule rel_if, rule IH, rule index_case [OF assms(1) Cons.hyps(1) IH],
        rule rel_bind_same, rule rel_bind [OF IH], intro sql_intros metric assms(1); simp add: tableName_plain)
qed simp

lemma seriesPreFilters_shape:
  assumes "esc_ok esc" "list_all2 sameShape ms ms'"
  shows "rel_option (sqlRels esc) (seriesPreFilters cfg ms) (seriesPreFilters cfg ms')"
  unfolding seriesPreFilters_def
  by (rule rel_map [OF preFilterLoop_shape [OF assms exactMetricName_shape [OF assms(2)]]]) (intro sql_intros assms)

lemma indexFilterLoop_shape:
  assumes "esc_ok esc" "list_all2 sameShape ms ms'" "squote \<notin> set table"
  shows "rel_option (sqlRels esc) (indexFilterLoop cfg table metric base i ms) (indexFilterLoop cfg table metric' base i ms')"
  using assms(2)
proof (induction arbitrary: i rule: list_all2_induct)
  case (Cons m ms m' ms')
  note IH = Cons.IH
  show ?case
    unfolding indexFilterLoop.simps sameShapeD [OF Cons.hyps(1)] Let_def
    by (rule rel_if, rule IH, rule index_case [OF assms(1) Cons.hyps(1)],
        intro sql_intros, rule rel_map [OF IH], rule list_all2_Cons_sql, rule rel_if;
        (intro sql_intros assms(1))?; simp add: assms(3))
qed simp

lemma baseLoop_shape:
  assumes "esc_ok esc" "list_all2 sameShape ms ms'"
  shows "baseLoop i base ms' = baseLoop i base ms"
  using assms(2)
proof (induction arbitrary: i base rule: list_all2_induct)
  case (Cons m ms m' ms')
  have "baseCandidate m' = baseCandidate m"
    using index_shape [OF assms(1) Cons.hyps(1)]
    by (auto simp: baseCandidate_def rel_option_iff split: option.splits)
  then show ?case
    using Cons.IH by (simp add: sameShapeD [OF Cons.hyps(1)])
qed simp

lemma byIndex_shape:
  assumes "esc_ok esc" "list_all2 sameShape ms ms'"
  shows "rel_option (sqlRel esc) (selectedSeriesIDsFromLabelIndexSQL cfg ms) (selectedSeriesIDsFromLabelIndexSQL cfg ms')"
proof (cases "exactMetricName ms = [] \<or> LabelIndexTable cfg = [] \<or> baseLoop 0 None ms = None")
  case True
  then show ?thesis
    by (auto simp: selectedSeriesIDsFromLabelIndexSQL_def exactMetricName_shape [OF assms(2)] baseLoop_shape [OF assms])
next
  case False
  then obtain base where base: "baseLoop 0 None ms = Some base" by blast
  show ?thesis
    unfolding selectedSeriesIDsFromLabelIndexSQL_def exactMetricName_shape [OF assms(2)] baseLoop_shape [OF assms] base option.case
    by (rule rel_if, intro sql_intros,
        rule rel_bind_same, rule rel_Some_sql, rule rel_map [OF indexFilterLoop_shape [OF assms]],
        simp add: tableName_plain, intro sql_intros assms(1); simp add: tableName_plain)
qed

lemma metricNames_shape:
  assumes "esc_ok esc" "length ns' = length ns" "ns \<noteq> []"
  shows "sameSQL esc (metricNamesCondition ns) (metricNamesCondition ns')" "metricNamesCondition ns \<noteq> []"
proof -
  obtain n r n' r' where ns: "ns = n # r" "ns' = n' # r'" "length r' = length r"
    using assms(2,3) by (cases ns; cases ns') auto
  have m: "sameSQL esc (''metric_name = '' @ sqlString n) (''metric_name = '' @ sqlString n')"
    "sameSQL esc (''metric_name IN ('' @ quotedList ns @ '')'') (''metric_name IN ('' @ quotedList ns' @ '')'')"
    by (intro sql_intros assms(1); simp add: assms(2))+
  show "sameSQL esc (metricNamesCondition ns) (metricNamesCondition ns')"
    using m ns by (cases r; cases r') (simp_all only: metricNamesCondition_def list.case list.size)
  show "metricNamesCondition ns \<noteq> []"
    using ns(1) by (cases r) (simp_all add: metricNamesCondition_def)
qed

lemma timedTable_shape:
  assumes "esc_ok esc" "length ns' = length ns" "ns \<noteq> []"
  shows "sqlRel esc (activeSeriesIDsFromTimedTableSQL cfg table ns mint maxt)
    (activeSeriesIDsFromTimedTableSQL cfg table ns' mint maxt)"
proof -
  have ne: "ns' \<noteq> []" using assms(2,3) by auto
  have names: "sqlRels esc (if metricNamesCondition ns \<noteq> [] then [metricNamesCondition ns] else [])
      (if metricNamesCondition ns' \<noteq> [] then [metricNamesCondition ns'] else [])"
    using metricNames_shape [OF assms] metricNames_shape(2) [OF assms(1) assms(2) [symmetric] ne] by simp
  have time: "sqlRels esc
      (if table = SamplesTable cfg then sampleTimeFilters cfg mint maxt
       else [''timestamp >= '' @ chTimeMillis mint, ''timestamp <= '' @ chTimeMillis maxt])
      (if table = SamplesTable cfg then sampleTimeFilters cfg mint maxt
       else [''timestamp >= '' @ chTimeMillis mint, ''timestamp <= '' @ chTimeMillis maxt])"
    by (rule rel_if; intro sql_intros; simp)
  show ?thesis
    unfolding activeSeriesIDsFromTimedTableSQL_def Let_def
    by (rule rel_bind_same; intro sql_intros time names; simp add: tableName_plain)
qed

lemma activeForMetrics_shape:
  assumes "esc_ok esc" "length ns' = length ns"
  shows "rel_option (sqlRel esc) (activeSeriesIDsForMetricsSQL cfg ns mint maxt) (activeSeriesIDsForMetricsSQL cfg ns' mint maxt)"
proof (cases "SamplesTable cfg = [] \<or> ns = []")
  case True
  then show ?thesis using assms(2) by (auto simp: activeSeriesIDsForMetricsSQL_def)
next
  case False
  then have ne: "ns \<noteq> []" "(SamplesTable cfg = [] \<or> ns = []) = False" "(SamplesTable cfg = [] \<or> ns' = []) = False"
    using assms(2) by auto
  show ?thesis
    unfolding activeSeriesIDsForMetricsSQL_def ne(2,3) if_False
    by (rule rel_bind [OF timedTable_shape [OF assms ne(1)]], cases "HistogramsTable cfg = []";
        simp only: simp_thms not_False_eq_True not_True_eq_False if_True if_False; (rule rel_bind [OF timedTable_shape [OF assms ne(1)]])?;
        intro sql_intros; simp)
qed

lemma activeSeries_shape:
  assumes "esc_ok esc" "list_all2 sameShape ms ms'"
  shows "sqlRel esc (activeSeriesIDsSQL cfg ms mint maxt) (activeSeriesIDsSQL cfg ms' mint maxt)"
proof -
  have "sqlRel esc (map_option textOrEmpty (activeSeriesIDsForMetricsSQL cfg [exactMetricName ms] mint maxt))
     (map_option textOrEmpty (activeSeriesIDsForMetricsSQL cfg [exactMetricName ms'] mint maxt))"
    by (rule rel_map [OF activeForMetrics_shape [OF assms(1)]])
      (auto simp: textOrEmpty_def rel_option_iff sameSQL_plain split: option.splits)
  then show ?thesis
    unfolding activeSeriesIDsSQL_def exactMetricName_shape [OF assms(2)]
    by - (rule rel_if, assumption, rule rel_bind_same, intro sql_intros assms; simp add: tableName_plain)
qed

lemma seriesTimeFilters_shape:
  assumes "esc_ok esc" "list_all2 sameShape ms ms'"
  shows "rel_option (sqlRels esc) (seriesTimeFilters cfg ms mint maxt) (seriesTimeFilters cfg ms' mint maxt)"
  unfolding seriesTimeFilters_def exactMetricName_shape [OF assms(2)]
proof -
  have ids: "rel_option (sqlRels esc) (activeSeriesIDsSQL cfg ms mint maxt \<bind> (\<lambda>s. Some [''id IN ('' @ s @ '')'']))
     (activeSeriesIDsSQL cfg ms' mint maxt \<bind> (\<lambda>s. Some [''id IN ('' @ s @ '')'']))"
    by (rule rel_bind [OF activeSeries_shape [OF assms]]; intro sql_intros; simp)
  have bounds: "rel_option (sqlRels esc)
      (Some [''max_time >= '' @ chTimeMillis mint, ''min_time <= '' @ chTimeMillis maxt])
      (Some [''max_time >= '' @ chTimeMillis mint, ''min_time <= '' @ chTimeMillis maxt])"
    by (intro sql_intros; simp)
  show "rel_option (sqlRels esc)
      (if exactMetricName ms \<noteq> [] \<and> SamplesTable cfg \<noteq> []
       then activeSeriesIDsSQL cfg ms mint maxt \<bind> (\<lambda>s. Some [''id IN ('' @ s @ '')''])
       else if ActivityTable cfg = []
       then Some [''max_time >= '' @ chTimeMillis mint, ''min_time <= '' @ chTimeMillis maxt]
       else activeSeriesIDsSQL cfg ms mint maxt \<bind> (\<lambda>s. Some [''id IN ('' @ s @ '')'']))
      (if exactMetricName ms \<noteq> [] \<and> SamplesTable cfg \<noteq> []
       then activeSeriesIDsSQL cfg ms' mint maxt \<bind> (\<lambda>s. Some [''id IN ('' @ s @ '')''])
       else if ActivityTable cfg = []
       then Some [''max_time >= '' @ chTimeMillis mint, ''min_time <= '' @ chTimeMillis maxt]
       else activeSeriesIDsSQL cfg ms' mint maxt \<bind> (\<lambda>s. Some [''id IN ('' @ s @ '')'']))"
    by (rule rel_if, rule ids, rule rel_if, rule bounds, rule ids)
qed

lemma projection_plain:
  "\<forall>p\<in>set parts. squote \<notin> set p \<Longrightarrow> squote \<notin> set (joinWith '', '' (selectedSeriesProjection parts))"
proof (rule squote_joinWith)
  assume "\<forall>p\<in>set parts. squote \<notin> set p"
  moreover have "squote \<notin> set p \<Longrightarrow> squote \<notin> set (projectPart p)" for p
    by (simp add: projectPart_def split del: if_split split: if_splits)
  ultimately show "\<forall>x\<in>set (selectedSeriesProjection parts). squote \<notin> set x"
    by (auto simp: selectedSeriesProjection_def)
qed simp

lemma sourceColumns_plain: "squote \<notin> set (selectedSeriesSourceColumns parts)"
proof -
  have "\<forall>c\<in>set cols. squote \<notin> set c \<Longrightarrow> squote \<notin> set (sourceColumnsLoop cols parts)" for cols
  proof (induction cols parts rule: sourceColumnsLoop.induct)
    case (1 columns)
    then show ?case unfolding sourceColumnsLoop.simps by (intro squote_joinWith) simp_all
  next
    case (2 columns part parts)
    let ?known = "{''metric_name'', ''labels_json'', ''min_time'', ''max_time''}"
    have known: "part \<in> ?known \<Longrightarrow> squote \<notin> set part"
      by (elim insertE emptyE) simp_all
    then have cols: "part \<in> ?known \<Longrightarrow>
        \<forall>c\<in>set (if part \<in> set columns then columns else columns @ [part]). squote \<notin> set c"
      using "2.prems" by simp
    show ?case
    proof (cases "part = ''id''")
      case True
      then show ?thesis using "2.IH"(1) "2.prems" by simp
    next
      case False
      show ?thesis
      proof (cases "part \<in> ?known")
        case known: True
        show ?thesis
          using "2.IH"(2) [OF False known cols [OF known]]
          by (simp only: sourceColumnsLoop.simps False known if_True if_False not_False_eq_True)
      next
        case False
        with \<open>part \<noteq> ''id''\<close> show ?thesis
          by (simp only: sourceColumnsLoop.simps if_False) simp
      qed
    qed
  qed
  then show ?thesis by (simp add: selectedSeriesSourceColumns_def)
qed

lemma seriesTable_shape:
  assumes "\<forall>p\<in>set parts. squote \<notin> set p" "sqlRels esc fs fs'"
  shows "sqlRel esc (seriesTableSQL cfg parts fs) (seriesTableSQL cfg parts fs')"
  unfolding seriesTableSQL_def
  by (rule rel_bind_same; intro sql_intros assms(2); simp add: tableName_plain sourceColumns_plain projection_plain assms(1))

lemma pushdownSafe_shape:
  assumes "list_all2 sameShape ms ms'"
  shows "matchersPushdownSafe ms' = matchersPushdownSafe ms"
proof -
  have "matchersAllPushdownSafe ms' = matchersAllPushdownSafe ms"
    using assms by (induction rule: list_all2_induct) (simp_all add: sameShapeD)
  then show ?thesis
    using assms by (simp add: matchersPushdownSafe_def list_all2_lengthD)
qed

lemma selectedSeries_shape:
  assumes "esc_ok esc" "list_all2 sameShape ms ms'" "\<forall>p\<in>set parts. squote \<notin> set p"
  shows "rel_option (sqlRel esc) (selectedSeriesSQL cfg ms mint maxt parts) (selectedSeriesSQL cfg ms' mint maxt parts)"
proof -
  have parts: "\<forall>p\<in>set (if parts = [] then [''id''] else parts). squote \<notin> set p"
    using assms(3) by simp
  have time: "rel_option (sqlRels esc) (if b then seriesTimeFilters cfg ms mint maxt else Some [])
      (if b then seriesTimeFilters cfg ms' mint maxt else Some [])" for b
    using seriesTimeFilters_shape [OF assms(1,2)] by simp
  have byIndex: "rel_option (sqlRel esc) (if b then selectedSeriesIDsFromLabelIndexSQL cfg ms else Some None)
      (if b then selectedSeriesIDsFromLabelIndexSQL cfg ms' else Some None)" for b
    using byIndex_shape [OF assms(1,2)] by simp
  show ?thesis
    unfolding selectedSeriesSQL_def pushdownSafe_shape [OF assms(2)] Let_def
    by (rule rel_if, intro sql_intros, rule rel_bind [OF byIndex], rule sqlRel2_case, assumption,
       rule rel_bind [OF time], rule rel_bind [OF seriesPreFilters_shape [OF assms(1,2)]],
       rule rel_map [OF seriesTable_shape [OF parts]], intro sql_intros; simp add: rel_Some_sql)
qed

lemma samplesFromMatchers_shape:
  assumes "esc_ok esc" "list_all2 sameShape ms ms'"
  shows "rel_option (sqlRel esc) (samplesSQLFromMatchers cfg ms mint maxt latestOnly)
    (samplesSQLFromMatchers cfg ms' mint maxt latestOnly)"
proof -
  have rows: "rel_option (sqlRel esc)
      (map_option Some (sampleRowsSQL cfg (joinWith '' AND '' (sampleBaseFilters cfg ms mint maxt @ fs)) latestOnly))
      (map_option Some (sampleRowsSQL cfg (joinWith '' AND '' (sampleBaseFilters cfg ms' mint maxt @ fs')) latestOnly))"
    if "sqlRels esc fs fs'" for fs fs'
  proof -
    have "sameSQL esc (joinWith '' AND '' (sampleBaseFilters cfg ms mint maxt @ fs))
       (joinWith '' AND '' (sampleBaseFilters cfg ms' mint maxt @ fs'))"
      by (intro sql_intros assms that; simp)
    then show ?thesis
      by (intro rel_map [OF sampleRows_shape] rel_Some_sql)
  qed
  show ?thesis
    unfolding samplesSQLFromMatchers_def
    by (rule rel_bind [OF sampleIDFilters_shape [OF assms]], rule sqlRel2_case, assumption, simp, rule rows)
qed

lemma histogramsFromMatchers_shape:
  assumes "esc_ok esc" "list_all2 sameShape ms ms'"
  shows "rel_option (sqlRel esc) (histogramsSQLFromMatchers cfg ms mint maxt) (histogramsSQLFromMatchers cfg ms' mint maxt)"
  unfolding histogramsSQLFromMatchers_def
  by (rule rel_bind [OF sampleIDFilters_shape [OF assms]], rule sqlRel2_case, assumption, simp,
      rule rel_bind_same, intro sql_intros assms; simp add: tableName_plain)

lemma latestSamples_shape:
  assumes "esc_ok esc" "list_all2 sameShape ms ms'"
  shows "sqlRel esc (latestSamplesForSelectedSeriesSQL cfg ms mint maxt) (latestSamplesForSelectedSeriesSQL cfg ms' mint maxt)"
proof -
  have only: "metricOnlyMatchers ms' = metricOnlyMatchers ms"
    using assms(2) unfolding metricOnlyMatchers_def
    by (induction rule: list_all2_induct) (auto simp: sameShapeD)
  have sel: "sqlRels esc (if b then [] else sampleSelectedSeriesFilters cfg) (if b then [] else sampleSelectedSeriesFilters cfg)" for b
    unfolding sampleSelectedSeriesFilters_def by (rule rel_if; intro sql_intros; simp)
  have filters: "sameSQL esc
      (joinWith '' AND '' (sampleBaseFilters cfg ms mint maxt @ (if b then [] else sampleSelectedSeriesFilters cfg)))
      (joinWith '' AND '' (sampleBaseFilters cfg ms' mint maxt @ (if b then [] else sampleSelectedSeriesFilters cfg)))" for b
    by (intro sql_intros assms sel; simp)
  show ?thesis
    unfolding latestSamplesForSelectedSeriesSQL_def latestSamplesSQL_def only
    by (rule rel_bind [OF rawSamples_shape [OF filters]]; intro sql_intros; simp)
qed

section \<open>Properties\<close>

text \<open>No label value, label name, set member, prefix or regular expression of a request can change the
  structure of a series selection: two selectors of the same shape both panic, both decline, or
  yield queries that read to the same tokens up to the contents of the string literals.\<close>

theorem selected_series_structure:
  assumes "esc_ok esc" "list_all2 sameShape ms ms'" "\<forall>p\<in>set parts. squote \<notin> set p"
  shows "rel_option (rel_option (sameSQL esc)) (selectedSeriesSQL cfg ms mint maxt parts)
    (selectedSeriesSQL cfg ms' mint maxt parts)"
  using assms by (rule selectedSeries_shape)

definition demoConfig :: Config where
  "demoConfig = \<lparr>CHDatabase = ''default'', SchemaLayout = ''current'', SeriesTable = ''metrics_series'',
     SamplesTable = ''metrics_samples'', LabelIndexTable = ''metrics_label_index'', AttributeTable = ''metric_attributes'',
     MetricNamesTable = [], AttributeTableHasMetricName = False, ActivityTable = [], LogSchemaLayout = ''snuffle'',
     HistogramsTable = ''metrics_histograms'', ExemplarsTable = ''metrics_exemplars'', MetricsTable = ''metrics_metadata'',
     MetricsInputTable = [], SampleAttributes = False, MetricsRetention = 7776000000000000, MaxSeries = 1000000,
     IDChunkSize = 20000, RangeQueryThreads = 8, TeamID = 7, LogsTable = ''logs'', LogStreamsTable = ''log_streams'',
     LogStreamLabelsTable = ''log_stream_labels'', LogStreamStatsTable = ''log_stream_stats'', LogRetention = 0, LogQueryMaxRows = 100000, LogAttributesTable = []\<rparr>"

text \<open>A value that tries to leave its literal, and a harmless one, in the same place.\<close>

definition valueMatcher :: "string \<Rightarrow> labelMatcher" where
  "valueMatcher v = \<lparr>mType = MatchEqual, mName = ''job'', mValue = v, mMatches = (\<lambda>w. w = v), mSetMatches = [], mPrefix = []\<rparr>"

definition attackValue :: string where
  "attackValue = [bslash, squote] @ '') OR 1=1 --''"

lemma attack_shape: "sameShape (valueMatcher attackValue) (valueMatcher ''api'')"
  by (simp add: sameShape_def valueMatcher_def attackValue_def matcherIsNoop_def specialNames_def metricNameLabel_def)

theorem selected_series_structure_witness:
  "rel_option (rel_option (sameSQL (\<lambda>c. [c])))
     (selectedSeriesSQL demoConfig [valueMatcher attackValue] 0 1000 [''id''])
     (selectedSeriesSQL demoConfig [valueMatcher ''api''] 0 1000 [''id''])"
  by (rule selected_series_structure) (simp_all add: esc_ok_def attack_shape)

text \<open>The same holds for the queries that fetch the samples of a selector in one scan, for raw samples
  and for the latest sample per series.\<close>

theorem samples_query_structure:
  assumes "esc_ok esc" "list_all2 sameShape ms ms'"
  shows "rel_option (rel_option (sameSQL esc)) (samplesSQLFromMatchers cfg ms mint maxt latestOnly)
    (samplesSQLFromMatchers cfg ms' mint maxt latestOnly)"
  using assms by (rule samplesFromMatchers_shape)

theorem samples_query_structure_witness:
  "rel_option (rel_option (sameSQL (\<lambda>c. [c])))
     (samplesSQLFromMatchers demoConfig [valueMatcher attackValue] 0 1000 True)
     (samplesSQLFromMatchers demoConfig [valueMatcher ''api''] 0 1000 True)"
  by (rule samples_query_structure) (simp_all add: esc_ok_def attack_shape)

end
