(* ===== verification/PostHogSql.thy ===== *)
theory PostHogSql
  imports SqlShape "HOL-Library.AList"
begin

text \<open>
  The PostHog metrics layout (posthog_storage.go): the conditions on the series table and on the
  samples table, the queries that load samples, the query plan that decides where labels come
  from, the label and label value queries, and the decoding of the rows into label maps and
  samples.
\<close>

section \<open>Label expressions and matcher conditions\<close>

definition postHogSampleColumnLabel :: "string \<Rightarrow> bool" where
  "postHogSampleColumnLabel name \<longleftrightarrow> name = metricNameLabel \<or> name = ''service_name''"

definition postHogSampleLabelExpr :: "string \<Rightarrow> string option" where
  "postHogSampleLabelExpr name = (if name = metricNameLabel then Some ''metric_name''
     else if name = ''service_name'' then Some ''service_name'' else None)"

definition postHogLabelValueExpr :: "string \<Rightarrow> string" where
  "postHogLabelValueExpr name = ''if(mapContains(resource_attributes, '' @ sqlString name @ ''), resource_attributes[''
     @ sqlString name @ ''], attributes['' @ sqlString name @ ''])''"

definition postHogSeriesLabelExpr :: "string \<Rightarrow> string option" where
  "postHogSeriesLabelExpr name = (if name = metricNameLabel then Some ''metric_name''
     else if name = ''service_name'' then Some ''service_name''
     else if name = [] then None
     else Some (postHogLabelValueExpr name))"

definition postHogMatcherConditionWith :: "labelMatcher \<Rightarrow> (string \<Rightarrow> string option) \<Rightarrow> string option" where
  "postHogMatcherConditionWith m labelExpr = (if mName m = metricNameLabel then metricMatcherCondition m
     else case labelExpr (mName m) of None \<Rightarrow> None | Some expr \<Rightarrow> stringColumnMatcherCondition expr m)"

definition postHogMatcherCondition :: "labelMatcher \<Rightarrow> string option" where
  "postHogMatcherCondition m = postHogMatcherConditionWith m postHogSeriesLabelExpr"

definition postHogSampleMatcherCondition :: "labelMatcher \<Rightarrow> string option" where
  "postHogSampleMatcherCondition m = postHogMatcherConditionWith m postHogSampleLabelExpr"

definition postHogMatcherCanSkip :: "labelMatcher \<Rightarrow> bool" where
  "postHogMatcherCanSkip m \<longleftrightarrow> (mType m = MatchEqual \<or> mType m = MatchRegexp) \<and> mMatches m []"

fun postHogAllPushdownSafe :: "labelMatcher list \<Rightarrow> bool" where
  "postHogAllPushdownSafe [] = True"
| "postHogAllPushdownSafe (m # ms) = (
     if matcherIsNoop m then postHogAllPushdownSafe ms
     else if postHogMatcherCondition m = None then False
     else if mType m = MatchEqual \<or> mType m = MatchRegexp
     then (if mName m \<noteq> metricNameLabel \<and> mMatches m [] then False else postHogAllPushdownSafe ms)
     else (if mName m \<noteq> metricNameLabel \<and> \<not> mMatches m [] then False else postHogAllPushdownSafe ms))"

definition postHogMatchersPushdownSafe :: "labelMatcher list \<Rightarrow> bool" where
  "postHogMatchersPushdownSafe ms \<longleftrightarrow> ms \<noteq> [] \<and> postHogAllPushdownSafe ms"

section \<open>Filters of the tables\<close>

definition postHogSeriesTable :: "Config \<Rightarrow> string option" where
  "postHogSeriesTable cfg = tableName (CHDatabase cfg) (SeriesTable cfg)"

definition postHogSamplesTable :: "Config \<Rightarrow> string option" where
  "postHogSamplesTable cfg = tableName (CHDatabase cfg) (SamplesTable cfg)"

definition postHogAttributeTable :: "Config \<Rightarrow> string option" where
  "postHogAttributeTable cfg = tableName (CHDatabase cfg) (AttributeTable cfg)"

definition postHogMetricNamesTable :: "Config \<Rightarrow> string option" where
  "postHogMetricNamesTable cfg = tableName (CHDatabase cfg) (MetricNamesTable cfg)"

text \<open>The conditions of the matchers that are neither match-all patterns nor skippable.\<close>

definition matcherFilters :: "(labelMatcher \<Rightarrow> string option) \<Rightarrow> labelMatcher list \<Rightarrow> string list" where
  "matcherFilters condition ms =
     List.map_filter condition (filter (\<lambda>m. \<not> (matcherIsNoop m \<or> postHogMatcherCanSkip m)) ms)"

definition postHogSeriesFilters :: "Config \<Rightarrow> labelMatcher list \<Rightarrow> int \<Rightarrow> int \<Rightarrow> string list" where
  "postHogSeriesFilters cfg ms mint maxt = [teamFilter cfg] @ postHogAttributeTimeFilters mint maxt
     @ matcherFilters postHogMatcherCondition ms"

definition postHogTimeRangeHint :: "int \<Rightarrow> int \<Rightarrow> string" where
  "postHogTimeRangeHint mint maxt = ''indexHint(arrayMin(timestamp_arr) <= '' @ chTimeMillis maxt
     @ '' AND arrayMax(timestamp_arr) >= '' @ chTimeMillis mint @ '')''"

definition postHogSamplePointFilters :: "int \<Rightarrow> int \<Rightarrow> string list" where
  "postHogSamplePointFilters mint maxt =
     [''timestamp >= '' @ chTimeMillis mint, ''timestamp <= '' @ chTimeMillis maxt]"

definition postHogSampleRowFilters :: "Config \<Rightarrow> labelMatcher list \<Rightarrow> int \<Rightarrow> int \<Rightarrow> string list" where
  "postHogSampleRowFilters cfg ms mint maxt = [teamFilter cfg] @ postHogAttributeTimeFilters mint maxt
     @ [postHogTimeRangeHint mint maxt] @ matcherFilters postHogSampleMatcherCondition ms"

definition postHogSampleFilters :: "Config \<Rightarrow> labelMatcher list \<Rightarrow> int \<Rightarrow> int \<Rightarrow> string list" where
  "postHogSampleFilters cfg ms mint maxt = postHogSampleRowFilters cfg ms mint maxt @ postHogSamplePointFilters mint maxt"

definition postHogSampleRowHasPointFilter :: "int \<Rightarrow> int \<Rightarrow> string" where
  "postHogSampleRowHasPointFilter mint maxt = ''arrayExists(t -> t >= '' @ chTimeMillis mint
     @ '' AND t <= '' @ chTimeMillis maxt @ '', timestamp_arr)''"

section \<open>Loading samples\<close>

definition postHogSampleRowsFrom :: "Config \<Rightarrow> string list \<Rightarrow> bool \<Rightarrow> string option" where
  "postHogSampleRowsFrom cfg filters isHistogram = do {
     t \<leftarrow> postHogSamplesTable cfg;
     Some (t @ '' ARRAY JOIN '' @ ''timestamp_arr AS timestamp, value_arr AS value''
       @ (if isHistogram then '', count_arr AS count, histogram_counts_arr AS histogram_counts'' else [])
       @ '' WHERE '' @ joinWith '' AND '' filters) }"

definition postHogPointsSQL :: "int \<Rightarrow> int \<Rightarrow> bool \<Rightarrow> string" where
  "postHogPointsSQL mint maxt nonStale = ''arrayFilter(p -> '' @ ''p.1 >= '' @ intDec mint @ '' AND p.1 <= '' @ intDec maxt
     @ (if nonStale then '' AND '' @ nonStaleSampleSQL ''p.2'' else [])
     @ '', arrayZip(arrayMap(t -> toUnixTimestamp64Milli(t), timestamp_arr), value_arr))''"

definition postHogLoadSamplesWhereSQL ::
  "Config \<Rightarrow> string \<Rightarrow> string list \<Rightarrow> labelMatcher list \<Rightarrow> int \<Rightarrow> int \<Rightarrow> bool \<Rightarrow> string option" where
  "postHogLoadSamplesWhereSQL cfg idCondition metricNames ms mint maxt latestOnly = do {
     let filters = postHogSampleRowFilters cfg ms mint maxt
       @ (if exactMetricName ms = [] \<and> metricNamesCondition metricNames \<noteq> [] then [metricNamesCondition metricNames] else [])
       @ [idCondition];
     if latestOnly then do {
       rows \<leftarrow> postHogSampleRowsFrom cfg (filters @ postHogSamplePointFilters mint maxt) False;
       Some (''SELECT series_id, toUnixTimestamp64Milli(ts_col) AS ts, value FROM (''
         @ ''SELECT series_id, max(timestamp) AS ts_col, argMax(value, timestamp) AS value FROM (''
         @ ''SELECT series_fingerprint AS series_id, timestamp, value FROM '' @ rows
         @ '') GROUP BY series_id'' @ '') WHERE '' @ nonStaleSampleSQL ''value'' @ '' ORDER BY series_id'') }
     else do {
       t \<leftarrow> postHogSamplesTable cfg;
       Some (withMaxThreads (''SELECT series_id, tupleElement(points[1], 1) AS first_ts, arrayDifference(arrayMap(p -> p.1, points)) AS ts_deltas, arrayMap(p -> p.2, points) AS vals FROM (''
         @ ''SELECT series_fingerprint AS series_id, arraySort(groupArrayArray('' @ postHogPointsSQL mint maxt False
         @ '')) AS points FROM '' @ t @ '' WHERE '' @ joinWith '' AND '' filters
         @ '' GROUP BY series_id HAVING notEmpty(points)'' @ '')'') (RangeQueryThreads cfg)) } }"

definition postHogLoadSamplesSQL ::
  "Config \<Rightarrow> u64 list \<Rightarrow> string list \<Rightarrow> labelMatcher list \<Rightarrow> int \<Rightarrow> int \<Rightarrow> bool \<Rightarrow> string option" where
  "postHogLoadSamplesSQL cfg ids = postHogLoadSamplesWhereSQL cfg (''series_fingerprint IN ('' @ joinUint64 ids @ '')'')"

text \<open>The queries issued for a set of fingerprints: one with an external table holding the ids, or
  one per batch with a literal list. A query is its text, None when building it panics, and
  the ids of its external table.\<close>

definition queryPostHogSeriesIDs ::
  "int \<Rightarrow> u64 list \<Rightarrow> (u64 list \<Rightarrow> string \<Rightarrow> string option) \<Rightarrow> (string option \<times> u64 list option) list" where
  "queryPostHogSeriesIDs chunkSize ids sqlFor =
     (if int (length ids) > chunkSize
      then [(sqlFor ids ''series_fingerprint IN (SELECT id FROM series_ids)'', Some ids)]
      else map (\<lambda>batch. (sqlFor batch (''series_fingerprint IN ('' @ joinUint64 batch @ '')''), None)) (idBatches ids chunkSize))"

section \<open>Selecting series\<close>

definition postHogSelectedSeriesWhereSQL :: "Config \<Rightarrow> string list \<Rightarrow> int \<Rightarrow> string list \<Rightarrow> string option" where
  "postHogSelectedSeriesWhereSQL cfg filters limit extraSelects = do {
     t \<leftarrow> postHogSeriesTable cfg;
     Some (''SELECT '' @ joinWith '', '' ([''series_fingerprint AS series_id'',
          ''metric_name, service_name, resource_attributes, attributes''] @ extraSelects)
       @ '' FROM '' @ t @ '' WHERE '' @ joinWith '' AND '' filters @ '' LIMIT 1 BY series_id'' @ sqlLimit limit) }"

definition postHogSelectedSeriesSQL ::
  "Config \<Rightarrow> labelMatcher list \<Rightarrow> int \<Rightarrow> int \<Rightarrow> int \<Rightarrow> string list \<Rightarrow> string option" where
  "postHogSelectedSeriesSQL cfg ms mint maxt limit extraSelects =
     postHogSelectedSeriesWhereSQL cfg (postHogSeriesFilters cfg ms mint maxt) limit extraSelects"

section \<open>The query plan\<close>

definition postHogNeedsSeriesLookup :: "labelMatcher list \<Rightarrow> string list \<Rightarrow> bool" where
  "postHogNeedsSeriesLookup ms grouping \<longleftrightarrow>
     list_ex (\<lambda>m. \<not> (matcherIsNoop m \<or> postHogMatcherCanSkip m) \<and> \<not> postHogSampleColumnLabel (mName m)) ms
     \<or> list_ex (\<lambda>name. \<not> postHogSampleColumnLabel name) grouping"

record postHogQueryPlan =
  planCfg :: Config
  planMatchers :: "labelMatcher list"
  planGrouping :: "string list"
  planMint :: int
  planMaxt :: int
  useSeries :: bool
  seriesSQL :: string

definition groupAlias :: "nat \<Rightarrow> string" where
  "groupAlias index = ''__group_'' @ natDec index"

text \<open>A label without an expression selects the empty text (the second result is ignored). The
  aliases are valid identifiers, so quoting them does not panic.\<close>

definition quotedAlias :: "nat \<Rightarrow> string" where
  "quotedAlias i = (case quoteIdent (groupAlias i) of Some q \<Rightarrow> q | None \<Rightarrow> [])"

definition seriesGroupSelects :: "string list \<Rightarrow> string list" where
  "seriesGroupSelects grouping =
     map (\<lambda>(i, name). textOrEmpty (postHogSeriesLabelExpr name) @ '' AS '' @ quotedAlias i) (enumerate 0 grouping)"

definition newPostHogQueryPlan ::
  "Config \<Rightarrow> labelMatcher list \<Rightarrow> string list \<Rightarrow> int \<Rightarrow> int \<Rightarrow> bool \<Rightarrow> postHogQueryPlan option" where
  "newPostHogQueryPlan cfg ms grouping mint maxt needLabels =
     (if needLabels \<or> postHogNeedsSeriesLookup ms grouping
      then do {
        sql \<leftarrow> postHogSelectedSeriesSQL cfg ms mint maxt (MaxSeries cfg) (seriesGroupSelects grouping);
        Some \<lparr>planCfg = cfg, planMatchers = ms, planGrouping = grouping, planMint = mint, planMaxt = maxt,
          useSeries = True, seriesSQL = sql\<rparr> }
      else Some \<lparr>planCfg = cfg, planMatchers = ms, planGrouping = grouping, planMint = mint, planMaxt = maxt,
          useSeries = False, seriesSQL = []\<rparr>)"

definition withSelectedSeries :: "postHogQueryPlan \<Rightarrow> string \<Rightarrow> string" where
  "withSelectedSeries p sql = (if \<not> useSeries p then sql
     else ''WITH selected_series AS ('' @ seriesSQL p @ '') '' @ sql)"

definition sampleWhereFrom :: "postHogQueryPlan \<Rightarrow> string list \<Rightarrow> string list" where
  "sampleWhereFrom p filters = (if useSeries p
     then filters @ [''series_fingerprint IN (SELECT series_id FROM selected_series)'']
       @ (if exactMetricName (planMatchers p) = [] then [''metric_name IN (SELECT metric_name FROM selected_series)''] else [])
     else filters)"

definition sampleWhere :: "postHogQueryPlan \<Rightarrow> string list" where
  "sampleWhere p = sampleWhereFrom p (postHogSampleFilters (planCfg p) (planMatchers p) (planMint p) (planMaxt p))"

definition sampleRowWhere :: "postHogQueryPlan \<Rightarrow> string list" where
  "sampleRowWhere p = sampleWhereFrom p (postHogSampleRowFilters (planCfg p) (planMatchers p) (planMint p) (planMaxt p))"

definition perSeriesGroupSelects :: "postHogQueryPlan \<Rightarrow> string list" where
  "perSeriesGroupSelects p = (if useSeries p then []
     else map (\<lambda>(i, name). ''any('' @ textOrEmpty (postHogSampleLabelExpr name) @ '') AS '' @ quotedAlias i)
       (enumerate 0 (planGrouping p)))"

definition groupAliases :: "postHogQueryPlan \<Rightarrow> string list" where
  "groupAliases p = map quotedAlias [0..<length (planGrouping p)]"

definition joinSeries :: "postHogQueryPlan \<Rightarrow> string \<Rightarrow> string" where
  "joinSeries p inner = (if \<not> useSeries p then ''('' @ inner @ '')''
     else ''('' @ inner @ '') AS samples INNER JOIN selected_series USING series_id'')"

section \<open>Label names and values\<close>

fun metricNameFilterLoop :: "labelMatcher list \<Rightarrow> string list option" where
  "metricNameFilterLoop [] = Some []"
| "metricNameFilterLoop (m # ms) = (
     if matcherIsNoop m \<or> postHogMatcherCanSkip m then metricNameFilterLoop ms
     else if mName m \<noteq> metricNameLabel then None
     else case metricMatcherCondition m of
       None \<Rightarrow> None
     | Some condition \<Rightarrow> map_option (Cons condition) (metricNameFilterLoop ms))"

definition postHogMetricNameFilters :: "Config \<Rightarrow> int \<Rightarrow> int \<Rightarrow> labelMatcher list \<Rightarrow> string list option" where
  "postHogMetricNameFilters cfg mint maxt ms =
     map_option ((@) ([teamFilter cfg] @ postHogAttributeTimeFilters mint maxt)) (metricNameFilterLoop ms)"

fun attributeFilterLoop :: "Config \<Rightarrow> labelMatcher list \<Rightarrow> string list option" where
  "attributeFilterLoop cfg [] = Some []"
| "attributeFilterLoop cfg (m # ms) = (
     if matcherIsNoop m then attributeFilterLoop cfg ms
     else if mType m \<noteq> MatchEqual \<or> mValue m = [] then None
     else if mName m = metricNameLabel \<and> \<not> AttributeTableHasMetricName cfg then None
     else case postHogSampleLabelExpr (mName m) of
       None \<Rightarrow> None
     | Some column \<Rightarrow> map_option (Cons (column @ '' = '' @ sqlString (mValue m))) (attributeFilterLoop cfg ms))"

definition postHogAttributeFilters :: "Config \<Rightarrow> int \<Rightarrow> int \<Rightarrow> labelMatcher list \<Rightarrow> string list option" where
  "postHogAttributeFilters cfg mint maxt ms =
     map_option ((@) ([teamFilter cfg] @ postHogAttributeTimeFilters mint maxt)) (attributeFilterLoop cfg ms)"

definition postHogLabelNamesSQL :: "Config \<Rightarrow> int \<Rightarrow> int \<Rightarrow> int \<Rightarrow> labelMatcher list \<Rightarrow> string option option" where
  "postHogLabelNamesSQL cfg mint maxt limit ms =
     (if AttributeTable cfg = [] then
        (if ms \<noteq> [] then Some None
         else do {
           t \<leftarrow> postHogSeriesTable cfg;
           Some (Some (''SELECT DISTINCT arrayJoin(arrayConcat(mapKeys(attributes), mapKeys(resource_attributes))) AS attribute_key FROM ''
             @ t @ '' WHERE '' @ joinWith '' AND '' (postHogSeriesFilters cfg [] mint maxt) @ '' ORDER BY attribute_key'' @ sqlLimit limit)) })
      else case postHogAttributeFilters cfg mint maxt ms of
        None \<Rightarrow> Some None
      | Some filters \<Rightarrow> do {
          t \<leftarrow> postHogAttributeTable cfg;
          Some (Some (''SELECT DISTINCT attribute_key FROM '' @ t @ '' WHERE '' @ joinWith '' AND '' filters
            @ '' ORDER BY attribute_key'' @ sqlLimit limit)) })"

definition postHogLabelValuesSQL ::
  "Config \<Rightarrow> string \<Rightarrow> int \<Rightarrow> int \<Rightarrow> int \<Rightarrow> labelMatcher list \<Rightarrow> string option option" where
  "postHogLabelValuesSQL cfg name mint maxt limit ms =
     (if name = metricNameLabel \<and> MetricNamesTable cfg \<noteq> [] then
        (case postHogMetricNameFilters cfg mint maxt ms of
          None \<Rightarrow> Some None
        | Some filters \<Rightarrow> do {
            t \<leftarrow> postHogMetricNamesTable cfg;
            Some (Some (''SELECT DISTINCT metric_name AS label_value FROM '' @ t @ '' WHERE '' @ joinWith '' AND '' filters
              @ '' ORDER BY label_value'' @ sqlLimit limit)) })
      else if postHogSampleColumnLabel name then
        (if ms \<noteq> [] then Some None
         else do {
           t \<leftarrow> postHogSeriesTable cfg;
           Some (Some (''SELECT DISTINCT '' @ textOrEmpty (postHogSeriesLabelExpr name) @ '' AS label_value FROM '' @ t
             @ '' WHERE '' @ joinWith '' AND '' (postHogSeriesFilters cfg [] mint maxt) @ '' ORDER BY label_value'' @ sqlLimit limit)) })
      else if AttributeTable cfg \<noteq> [] then
        (case postHogAttributeFilters cfg mint maxt ms of
          None \<Rightarrow> Some None
        | Some filters \<Rightarrow> do {
            t \<leftarrow> postHogAttributeTable cfg;
            Some (Some (''SELECT DISTINCT attribute_value AS label_value FROM '' @ t @ '' WHERE ''
              @ joinWith '' AND '' (filters @ [''attribute_key = '' @ sqlString name]) @ '' ORDER BY label_value'' @ sqlLimit limit)) })
      else if ms \<noteq> [] then Some None
      else do {
        t \<leftarrow> postHogSeriesTable cfg;
        Some (Some (''SELECT DISTINCT '' @ postHogLabelValueExpr name @ '' AS label_value FROM '' @ t @ '' WHERE ''
          @ joinWith '' AND '' (postHogSeriesFilters cfg [] mint maxt) @ '' AND label_value != '' @ [squote, squote]
          @ '' ORDER BY label_value'' @ sqlLimit limit)) })"

section \<open>Decoding rows\<close>

text \<open>The entries of an attribute map written into the label map; the iteration order of a Go map
  does not matter, because its keys are distinct.\<close>

definition copyLabels :: "gomap \<Rightarrow> gomap \<Rightarrow> gomap" where
  "copyLabels attrs out = foldl (\<lambda>o' (key, value).
     if key = [] \<or> key = metricNameLabel then o' else AList.update key value o') out attrs"

definition postHogLabelMap :: "string \<Rightarrow> string \<Rightarrow> gomap \<Rightarrow> gomap \<Rightarrow> gomap" where
  "postHogLabelMap metricName serviceName resourceAttrs attrs =
     (let out = copyLabels resourceAttrs (copyLabels attrs []);
          out = (if serviceName \<noteq> [] then AList.update ''service_name'' serviceName out else out)
      in AList.update metricNameLabel metricName out)"

text \<open>A sample is its time and the bits of its value; None is the error on arrays of different lengths.\<close>

fun deltaLoop :: "int \<Rightarrow> int list \<Rightarrow> f64 list \<Rightarrow> (int \<times> f64) list" where
  "deltaLoop ts (d # ds) (v # vs) = (let ts' = wrap64 (ts + d) in (ts', v) # deltaLoop ts' ds vs)"
| "deltaLoop ts _ _ = []"

definition decodeDeltaSamples :: "int \<Rightarrow> int list \<Rightarrow> f64 list \<Rightarrow> (int \<times> f64) list \<Rightarrow> (int \<times> f64) list option" where
  "decodeDeltaSamples firstTS deltas values samples =
     (if length deltas \<noteq> length values then None
      else Some (samples @ (case values of [] \<Rightarrow> [] | v # vs \<Rightarrow> (firstTS, v) # deltaLoop firstTS (tl deltas) vs)))"

section \<open>Facts on the decoders\<close>

lemma map_of_copyLabels:
  "distinct (map fst attrs) \<Longrightarrow> name \<noteq> [] \<Longrightarrow> name \<noteq> metricNameLabel \<Longrightarrow>
     map_of (copyLabels attrs out) name = (case map_of attrs name of Some v \<Rightarrow> Some v | None \<Rightarrow> map_of out name)"
proof (induction attrs arbitrary: out)
  case (Cons p attrs)
  obtain k v where p: "p = (k, v)" by (cases p)
  have IH: "map_of (copyLabels attrs out') name = (case map_of attrs name of Some v \<Rightarrow> Some v | None \<Rightarrow> map_of out' name)" for out'
    using Cons by simp
  show ?case
  proof (cases "k = name")
    case True
    then have "map_of attrs name = None"
      using Cons.prems(1) p by (auto simp: map_of_eq_None_iff)
    then show ?thesis
      using IH [of "AList.update k v out"] True Cons.prems(2,3) p
      by (simp add: copyLabels_def update_conv)
  next
    case False
    then show ?thesis
      using IH [of "AList.update k v out"] IH [of out] p
      by (simp add: copyLabels_def update_conv split: option.splits)
  qed
qed (simp add: copyLabels_def)

lemma deltaLoop_differences:
  "\<forall>t\<in>set ts. in_i64 t \<Longrightarrow> length vs = length ts \<Longrightarrow>
     deltaLoop t0 (map2 (\<lambda>a b. wrap64 (b - a)) (t0 # butlast ts) ts) vs = zip ts vs"
proof (induction ts arbitrary: t0 vs)
  case (Cons t ts)
  obtain v vs' where vs: "vs = v # vs'" "length vs' = length ts"
    using Cons.prems(2) by (cases vs) auto
  have "wrap64 (t0 + wrap64 (t - t0)) = t"
    using Cons.prems(1) by (metis wrap64_add_cancel list.set_intros(1))
  then show ?case
    using Cons.IH [of vs' t] Cons.prems(1) vs by (cases ts) (simp_all add: Let_def)
qed simp

text \<open>The arrays that the samples query returns for a series, as ClickHouse's arrayDifference documents
  them: the first time, zero followed by the differences of neighbours in int64, the values.\<close>

definition arrayDifference :: "int list \<Rightarrow> int list" where
  "arrayDifference ts = (case ts of [] \<Rightarrow> [] | t # r \<Rightarrow> 0 # map2 (\<lambda>a b. wrap64 (b - a)) (t # butlast r) r)"

section \<open>Properties\<close>

text \<open>The samples of a series survive the transfer as time differences: decoding the first time, the
  int64 differences computed by ClickHouse and the values appends exactly the original points
  to the samples, even where a difference wraps around.\<close>

theorem delta_samples_roundtrip:
  assumes "\<forall>t\<in>set ts. in_i64 t" "length vals = length ts" "ts \<noteq> []"
  shows "decodeDeltaSamples (hd ts) (arrayDifference ts) vals samples = Some (samples @ zip ts vals)"
proof -
  obtain t r v vs where c: "ts = t # r" "vals = v # vs" "length vs = length r"
    using assms(2,3) by (cases ts; cases vals) auto
  have "length (arrayDifference ts) = length ts"
    using c(1) by (simp add: arrayDifference_def)
  then show ?thesis
    using deltaLoop_differences [of r vs t] assms(1) c
    by (simp add: decodeDeltaSamples_def arrayDifference_def)
qed

theorem delta_samples_roundtrip_witness:
  "decodeDeltaSamples (- 9223372036854775808)
     (arrayDifference [- 9223372036854775808, 9223372036854775807, 5]) [1, 2, 3] []
   = Some (zip [- 9223372036854775808, 9223372036854775807, 5] [1, 2, 3])"
  using delta_samples_roundtrip [of "[- 9223372036854775808, 9223372036854775807, 5]" "[1, 2, 3]" "[]"]
  by (simp add: in_i64_def)

text \<open>Go and ClickHouse read a map label alike: the label map built from a row gives, for a label
  other than the metric and service names, what the SQL expression for it denotes, the resource
  attribute when there is one and the metric attribute, or nothing, otherwise.\<close>

theorem label_map_agrees_with_sql:
  assumes "distinct (map fst resourceAttrs)" "distinct (map fst attrs)"
    and "name \<noteq> []" "name \<noteq> metricNameLabel" "name \<noteq> ''service_name''"
  shows "labelGet (postHogLabelMap metricName serviceName resourceAttrs attrs) name
    = (if name \<in> dom (map_of resourceAttrs) then labelGet resourceAttrs name else labelGet attrs name)"
proof -
  have "map_of (postHogLabelMap metricName serviceName resourceAttrs attrs) name
      = (case map_of resourceAttrs name of Some v \<Rightarrow> Some v | None \<Rightarrow> map_of attrs name)"
    using assms by (simp add: postHogLabelMap_def update_conv map_of_copyLabels Let_def split: option.split)
  then show ?thesis
    unfolding labelGet_def by (cases "map_of resourceAttrs name") (auto simp: dom_def)
qed

theorem label_map_agrees_with_sql_witness:
  "labelGet (postHogLabelMap ''up'' ''api'' [(''env'', ''eu'')] [(''env'', ''us''), (''pod'', ''a'')]) ''env''
    = (if ''env'' \<in> dom (map_of [(''env'', ''eu'')]) then labelGet [(''env'', ''eu'')] ''env''
       else labelGet [(''env'', ''us''), (''pod'', ''a'')] ''env'')"
  by (rule label_map_agrees_with_sql) (simp_all add: metricNameLabel_def)

text \<open>For the label service_name they differ: a series whose column is empty but whose attributes carry
  a service_name has that label in Go, so an equality matcher on it accepts the series, while
  the condition sent to ClickHouse compares the empty column and rejects it.\<close>

theorem service_name_condition_drops:
  assumes "esc_ok esc" "distinct (map fst attrs)" "map_of attrs ''service_name'' = Some v" "v \<noteq> []"
  shows "mMatches (eqMatcher ''service_name'' v) (labelGet (postHogLabelMap metricName [] [] attrs) ''service_name'')
    \<and> (\<exists>s c. postHogMatcherCondition (eqMatcher ''service_name'' v) = Some s
          \<and> readsAs esc ''service_name'' s c \<and> \<not> condHolds rx c [])"
proof -
  have plain: "squote \<notin> set ''service_name''" by simp
  have name: "''service_name'' \<noteq> metricNameLabel" by (simp add: metricNameLabel_def)
  have "labelGet (postHogLabelMap metricName [] [] attrs) ''service_name'' = v"
    using assms(2,3) name by (simp add: postHogLabelMap_def labelGet_def update_conv map_of_copyLabels copyLabels_def [of "[]"])
  moreover have "postHogMatcherCondition (eqMatcher ''service_name'' v)
      = stringColumnMatcherCondition ''service_name'' (eqMatcher ''service_name'' v)"
    using name by (simp add: postHogMatcherCondition_def postHogMatcherConditionWith_def postHogSeriesLabelExpr_def eqMatcher_def)
  moreover have "columnCond (eqMatcher ''service_name'' v) = ColEq v" "mMatches (eqMatcher ''service_name'' v) v"
    by (simp_all add: columnCond_def eqMatcher_def)
  moreover have "\<not> condHolds rx (ColEq v) []"
    using assms(4) by simp
  ultimately show ?thesis
    using stringColumn_readsAs [OF assms(1) plain, of "eqMatcher ''service_name'' v"] by metis
qed

theorem service_name_condition_drops_witness:
  "mMatches (eqMatcher ''service_name'' ''api'')
      (labelGet (postHogLabelMap ''up'' [] [] [(''service_name'', ''api'')]) ''service_name'')
    \<and> (\<exists>s c. postHogMatcherCondition (eqMatcher ''service_name'' ''api'') = Some s
          \<and> readsAs (\<lambda>c. [c]) ''service_name'' s c \<and> \<not> condHolds (\<lambda>r v. False) c [])"
  by (rule service_name_condition_drops) (simp_all add: esc_ok_def)

section \<open>The plan loses no matcher\<close>

lemma stringColumn_Some: "\<exists>s. stringColumnMatcherCondition col m = Some s"
  by (cases "mType m") (simp_all add: stringColumnMatcherCondition_def)

lemma sampleCondition_Some: "postHogSampleColumnLabel (mName m) \<Longrightarrow> \<exists>s. postHogSampleMatcherCondition m = Some s"
  using metricCondition_Some [of m] stringColumn_Some [of "''service_name''" m]
  by (auto simp: postHogSampleMatcherCondition_def postHogMatcherConditionWith_def postHogSampleColumnLabel_def
      postHogSampleLabelExpr_def)

lemma seriesCondition_Some: "mName m \<noteq> [] \<Longrightarrow> \<exists>s. postHogMatcherCondition m = Some s"
  using metricCondition_Some [of m] stringColumn_Some [of _ m]
  by (auto simp: postHogMatcherCondition_def postHogMatcherConditionWith_def postHogSeriesLabelExpr_def)

lemma matcherFilters_member:
  "m \<in> set ms \<Longrightarrow> \<not> matcherIsNoop m \<Longrightarrow> \<not> postHogMatcherCanSkip m \<Longrightarrow> condition m = Some s
     \<Longrightarrow> s \<in> set (matcherFilters condition ms)"
  by (induction ms) (auto simp: matcherFilters_def List.map_filter_simps split: option.splits)

text \<open>C17. A query plan filters by every matcher it cannot skip: when the plan reads the series table, the
  condition of the matcher is one of the filters of its series query, and when it does not, the
  matcher is on a column of the samples table and its condition is among the filters of the
  samples scan.\<close>

theorem plan_keeps_every_matcher:
  assumes "newPostHogQueryPlan cfg ms grouping mint maxt needLabels = Some p"
    and "m \<in> set ms" "\<not> matcherIsNoop m" "\<not> postHogMatcherCanSkip m" "mName m \<noteq> []"
  shows "if useSeries p
    then (\<exists>s. postHogMatcherCondition m = Some s \<and> s \<in> set (postHogSeriesFilters cfg ms mint maxt))
      \<and> postHogSelectedSeriesSQL cfg ms mint maxt (MaxSeries cfg) (seriesGroupSelects grouping) = Some (seriesSQL p)
    else \<exists>s. postHogSampleMatcherCondition m = Some s \<and> s \<in> set (sampleWhere p)"
proof (cases "needLabels \<or> postHogNeedsSeriesLookup ms grouping")
  case True
  then have "useSeries p"
    "postHogSelectedSeriesSQL cfg ms mint maxt (MaxSeries cfg) (seriesGroupSelects grouping) = Some (seriesSQL p)"
    using assms(1) by (auto simp: newPostHogQueryPlan_def split: bind_splits)
  moreover obtain s where "postHogMatcherCondition m = Some s"
    using seriesCondition_Some [OF assms(5)] by blast
  ultimately show ?thesis
    using matcherFilters_member [OF assms(2-4)] by (auto simp: postHogSeriesFilters_def)
next
  case False
  then have p: "\<not> useSeries p" "planCfg p = cfg" "planMatchers p = ms" "planMint p = mint" "planMaxt p = maxt"
    using assms(1) by (auto simp: newPostHogQueryPlan_def)
  have "postHogSampleColumnLabel (mName m)"
    using False assms(2-4) by (auto simp: postHogNeedsSeriesLookup_def list_ex_iff)
  then obtain s where "postHogSampleMatcherCondition m = Some s"
    using sampleCondition_Some by blast
  then show ?thesis
    using p matcherFilters_member [OF assms(2-4)]
    by (auto simp: sampleWhere_def sampleWhereFrom_def postHogSampleFilters_def postHogSampleRowFilters_def)
qed

theorem plan_keeps_every_matcher_witness:
  "\<exists>p. newPostHogQueryPlan demoConfig [eqMatcher ''service_name'' ''api''] [metricNameLabel] 0 1000 False = Some p
    \<and> (if useSeries p
       then (\<exists>s. postHogMatcherCondition (eqMatcher ''service_name'' ''api'') = Some s
             \<and> s \<in> set (postHogSeriesFilters demoConfig [eqMatcher ''service_name'' ''api''] 0 1000))
         \<and> postHogSelectedSeriesSQL demoConfig [eqMatcher ''service_name'' ''api''] 0 1000 (MaxSeries demoConfig)
             (seriesGroupSelects [metricNameLabel]) = Some (seriesSQL p)
       else \<exists>s. postHogSampleMatcherCondition (eqMatcher ''service_name'' ''api'') = Some s \<and> s \<in> set (sampleWhere p))"
proof -
  have "\<not> postHogNeedsSeriesLookup [eqMatcher ''service_name'' ''api''] [metricNameLabel]"
    by (simp add: postHogNeedsSeriesLookup_def postHogSampleColumnLabel_def eqMatcher_def)
  then obtain p where p: "newPostHogQueryPlan demoConfig [eqMatcher ''service_name'' ''api''] [metricNameLabel] 0 1000 False = Some p"
    by (simp add: newPostHogQueryPlan_def)
  show ?thesis
    using p plan_keeps_every_matcher [OF p, of "eqMatcher ''service_name'' ''api''"]
    by (simp add: eqMatcher_def matcherIsNoop_def postHogMatcherCanSkip_def)
qed

section \<open>The structure of the queries\<close>

lemma seriesExpr_shape:
  assumes "esc_ok esc" "sameShape m m'"
  shows "sqlRel esc (postHogSeriesLabelExpr (mName m)) (postHogSeriesLabelExpr (mName m'))"
  unfolding postHogSeriesLabelExpr_def postHogLabelValueExpr_def sameShapeD [OF assms(2)]
  by (rule rel_if [where R = "sqlRel esc"], intro sql_intros, simp,
      rule rel_if [where R = "sqlRel esc"], intro sql_intros, simp,
      rule rel_if [where R = "sqlRel esc"]; intro sql_intros assms(1); simp)

lemma sampleExpr_shape:
  assumes "sameShape m m'"
  shows "sqlRel esc (postHogSampleLabelExpr (mName m)) (postHogSampleLabelExpr (mName m'))"
  unfolding postHogSampleLabelExpr_def sameShapeD [OF assms]
  by (rule rel_if [where R = "sqlRel esc"], intro sql_intros, simp,
      rule rel_if [where R = "sqlRel esc"]; intro sql_intros; simp)

lemma conditionWith_shape:
  assumes "esc_ok esc" "sameShape m m'" "sqlRel esc (f (mName m)) (f (mName m'))"
  shows "sqlRel esc (postHogMatcherConditionWith m f) (postHogMatcherConditionWith m' f)"
  unfolding postHogMatcherConditionWith_def sameShapeD [OF assms(2)]
  by (rule rel_if, rule metricCondition_shape [OF assms(1,2)], rule sqlRel2_case [OF assms(3)], simp,
      rule stringColumn_shape [OF assms(1,2)])

lemma canSkip_shape: "sameShape m m' \<Longrightarrow> postHogMatcherCanSkip m' = postHogMatcherCanSkip m"
  by (simp add: postHogMatcherCanSkip_def sameShapeD)

lemma matcherFilters_shape:
  assumes "list_all2 sameShape ms ms'"
    and "\<And>m m'. sameShape m m' \<Longrightarrow> sqlRel esc (condition m) (condition m')"
  shows "sqlRels esc (matcherFilters condition ms) (matcherFilters condition ms')"
  using assms(1)
proof (induction rule: list_all2_induct)
  case (Cons m ms m' ms')
  then show ?case
    using assms(2) [OF Cons.hyps(1)]
    by (auto simp: matcherFilters_def List.map_filter_simps sameShapeD canSkip_shape split: option.splits)
qed (simp add: matcherFilters_def List.map_filter_simps)

lemma seriesFilters_shape:
  assumes "esc_ok esc" "list_all2 sameShape ms ms'"
  shows "sqlRels esc (postHogSeriesFilters cfg ms mint maxt) (postHogSeriesFilters cfg ms' mint maxt)"
proof -
  have "sqlRels esc (matcherFilters postHogMatcherCondition ms) (matcherFilters postHogMatcherCondition ms')"
    by (rule matcherFilters_shape [OF assms(2)])
      (unfold postHogMatcherCondition_def, rule conditionWith_shape [OF assms(1)], assumption, rule seriesExpr_shape [OF assms(1)])
  then show ?thesis
    unfolding postHogSeriesFilters_def by (intro sql_intros; simp)
qed

lemma sampleRowFilters_shape:
  assumes "esc_ok esc" "list_all2 sameShape ms ms'"
  shows "sqlRels esc (postHogSampleRowFilters cfg ms mint maxt) (postHogSampleRowFilters cfg ms' mint maxt)"
proof -
  have "sqlRels esc (matcherFilters postHogSampleMatcherCondition ms) (matcherFilters postHogSampleMatcherCondition ms')"
    by (rule matcherFilters_shape [OF assms(2)])
      (unfold postHogSampleMatcherCondition_def, rule conditionWith_shape [OF assms(1)], assumption, rule sampleExpr_shape)
  then show ?thesis
    unfolding postHogSampleRowFilters_def postHogTimeRangeHint_def by (intro sql_intros; simp)
qed

lemma seriesSelection_shape:
  assumes "sqlRels esc fs fs'" "sqlRels esc es es'"
  shows "sqlRel esc (postHogSelectedSeriesWhereSQL cfg fs limit es) (postHogSelectedSeriesWhereSQL cfg fs' limit es')"
  unfolding postHogSelectedSeriesWhereSQL_def postHogSeriesTable_def
  by (rule rel_bind_same; intro sql_intros assms; simp add: tableName_plain)

text \<open>In the PostHog layout too, no value of a request changes the structure of a series query: selectors of
  the same shape yield queries with the same tokens up to the contents of string literals.\<close>

theorem posthog_series_structure:
  assumes "esc_ok esc" "list_all2 sameShape ms ms'"
  shows "rel_option (sameSQL esc) (postHogSelectedSeriesSQL cfg ms mint maxt limit [])
    (postHogSelectedSeriesSQL cfg ms' mint maxt limit [])"
  unfolding postHogSelectedSeriesSQL_def
  by (rule seriesSelection_shape [OF seriesFilters_shape [OF assms] list_all2_Nil_sql])

theorem posthog_series_structure_witness:
  "rel_option (sameSQL (\<lambda>c. [c]))
     (postHogSelectedSeriesSQL demoConfig [valueMatcher attackValue] 0 1000 100 [])
     (postHogSelectedSeriesSQL demoConfig [valueMatcher ''api''] 0 1000 100 [])"
  by (rule posthog_series_structure) (simp_all add: esc_ok_def attack_shape)

end
