(* ===== verification/RemoteInsert.thy ===== *)
theory RemoteInsert
  imports FastBatch SqlShape
begin

text \<open>
  The storing half of remote write (the functions from insertRemoteWriteBatch on in
  src/internal/snuffle/remote.go): which series of a batch are new, the columns of each native
  insert and the order of the phases. ClickHouse is a parameter, a record of the lookup of
  known ids and of the execution of an insert on a world of any type; the cache of known
  series is part of the state. A message that wraps an error keeps the phase and the cause;
  the timing in its text is left out.
\<close>

section \<open>Inserts\<close>

text \<open>A column of a native insert, by the type of the Go slice.\<close>

datatype column = U64s "u64 list" | I64s "int list" | I32s "int list" | F64s "f64 list" | Strs "string list"
  | Bins "bytes list" | Maps "gomap list" | Bools "bool list"

record nativeInsert =
  niSync :: bool
  niSQL :: string
  niColumns :: "column list"
  niCount :: nat

text \<open>Each builder panics (None) on an invalid table name, or has nothing to insert (Some None).\<close>

definition insertInto :: "Config \<Rightarrow> string \<Rightarrow> string \<Rightarrow> string option" where
  "insertInto cfg table columnsSQL = do {
     t \<leftarrow> tableName (CHDatabase cfg) table;
     Some (''INSERT INTO '' @ t @ '' ('' @ columnsSQL @ '')'') }"

definition insertRemoteSeriesRows :: "Config \<Rightarrow> remoteWriteSeriesRow list \<Rightarrow> nativeInsert option option" where
  "insertRemoteSeriesRows cfg rows = (if rows = [] then Some None else do {
     sql \<leftarrow> insertInto cfg (SeriesTable cfg) ''team_id, id, metric_name, labels_json, min_time, max_time'';
     Some (Some \<lparr>niSync = True, niSQL = sql, niColumns = [U64s (map srTeamID rows), U64s (map srID rows),
        Strs (map srMetricName rows), Strs (map srLabelsJSON rows), I64s (map srMinMS rows), I64s (map srMaxMS rows)],
        niCount = length rows\<rparr>) })"

definition appendRemoteSampleColumns :: "remoteWriteSampleColumns \<Rightarrow> column list \<times> nat" where
  "appendRemoteSampleColumns c =
     ([U64s (colTeamIDs c), Strs (colMetricNames c), I64s (colTimestamps c), U64s (colIDs c), F64s (colValues c)]
       @ (if length (colServiceNames c) > 0 then [Strs (colServiceNames c)] else [])
       @ (if length (colAttributes c) > 0 then [Maps (colAttributes c)] else []), columnsCount c)"

definition columnsOfRows :: "bool \<Rightarrow> remoteWriteSampleRow list \<Rightarrow> remoteWriteSampleColumns" where
  "columnsOfRows insertAttributes rows = \<lparr>colTeamIDs = map smTeamID rows, colMetricNames = map smMetricName rows,
     colTimestamps = map smTimestampMS rows, colIDs = map smID rows, colValues = map smValue rows,
     colServiceNames = [], colAttributes = (if insertAttributes then map smAttributes rows else [])\<rparr>"

definition postHogSampleAttributes :: "gomap \<Rightarrow> gomap" where
  "postHogSampleAttributes attributes =
     foldl (\<lambda>out (key, value). AList.update (trimSuffix key ''__str'') value out) [] attributes"

text \<open>The attribute maps of the rows, built once per series id.\<close>

fun attributesLoop :: "(u64 \<times> gomap) list \<Rightarrow> remoteWriteSampleRow list \<Rightarrow> gomap list" where
  "attributesLoop byID [] = []"
| "attributesLoop byID (row # rows) = (case map_of byID (smID row) of
     Some attrs \<Rightarrow> attrs # attributesLoop byID rows
   | None \<Rightarrow> (let attrs = postHogSampleAttributes (smAttributes row)
       in attrs # attributesLoop ((smID row, attrs) # byID) rows))"

definition postHogEmptyResourceFingerprint :: u64 where
  "postHogEmptyResourceFingerprint = 4761183170873013810"

text \<open>int32(x) of a uint64: the low 32 bits as a signed number. Times are nanoseconds.\<close>

definition toInt32 :: "u64 \<Rightarrow> int" where
  "toInt32 w = signed_take_bit 31 (uint w)"

definition insertPostHogRemoteSampleRows :: "Config \<Rightarrow> int \<Rightarrow> remoteWriteBatch \<Rightarrow> nativeInsert option option" where
  "insertPostHogRemoteSampleRows cfg now batch = (let rows = sampleRows batch; n = length rows in do {
     sql \<leftarrow> insertInto cfg (MetricsInputTable cfg) (''team_id, metric_name, series_fingerprint, resource_fingerprint, timestamp, ''
       @ ''observed_timestamp, original_expiry_timestamp, service_name, value, count, has_labels, resource_attributes, attributes'');
     Some (Some \<lparr>niSync = False, niSQL = sql, niColumns = [I32s (map (toInt32 \<circ> smTeamID) rows), Strs (map smMetricName rows),
        U64s (map smID rows), U64s (replicate n postHogEmptyResourceFingerprint), I64s (map (\<lambda>r. smTimestampMS r * 1000000) rows),
        I64s (replicate n now), I64s (replicate n (now + MetricsRetention cfg)), Strs (map smServiceName rows),
        F64s (map smValue rows), U64s (replicate n 1), Bools (replicate n True), Maps (replicate n []),
        Maps (attributesLoop [] rows)], niCount = n\<rparr>) })"

definition insertRemoteSampleRows :: "Config \<Rightarrow> int \<Rightarrow> remoteWriteBatch \<Rightarrow> nativeInsert option option" where
  "insertRemoteSampleRows cfg now batch = (if sampleCount batch = 0 then Some None
     else if postHogSchemaLayout cfg then insertPostHogRemoteSampleRows cfg now batch
     else do {
       sql \<leftarrow> insertInto cfg (SamplesTable cfg) (''team_id, metric_name, timestamp, id, value''
         @ (if SampleAttributes cfg then '', attributes_map_str'' else []));
       let c = (if columnsCount (sampleColumns batch) = 0 then columnsOfRows (SampleAttributes cfg) (sampleRows batch)
                else sampleColumns batch);
       Some (Some \<lparr>niSync = False, niSQL = sql, niColumns = fst (appendRemoteSampleColumns c),
          niCount = snd (appendRemoteSampleColumns c)\<rparr>) })"

definition insertRemoteHistogramRows :: "Config \<Rightarrow> remoteWriteHistogramRow list \<Rightarrow> nativeInsert option option" where
  "insertRemoteHistogramRows cfg rows = (if rows = [] \<or> HistogramsTable cfg = [] then Some None else do {
     sql \<leftarrow> insertInto cfg (HistogramsTable cfg) ''team_id, metric_name, timestamp, id, histogram, version'';
     Some (Some \<lparr>niSync = False, niSQL = sql, niColumns = [U64s (map hrTeamID rows), Strs (map hrMetricName rows),
        I64s (map hrTimestampMS rows), U64s (map hrID rows), Bins (map hrHistogram rows), U64s (map hrVersion rows)],
        niCount = length rows\<rparr>) })"

definition insertRemoteExemplarRows :: "Config \<Rightarrow> remoteWriteExemplarRow list \<Rightarrow> nativeInsert option option" where
  "insertRemoteExemplarRows cfg rows = (if rows = [] \<or> ExemplarsTable cfg = [] then Some None else do {
     sql \<leftarrow> insertInto cfg (ExemplarsTable cfg) ''team_id, timestamp, id, value, labels_json'';
     Some (Some \<lparr>niSync = False, niSQL = sql, niColumns = [U64s (map exrTeamID rows), I64s (map exrTimestampMS rows),
        U64s (map exrID rows), F64s (map exrValue rows), Strs (map exrLabelsJSON rows)],
        niCount = length rows\<rparr>) })"

definition insertRemoteMetadataRows :: "Config \<Rightarrow> remoteWriteMetadataRow list \<Rightarrow> nativeInsert option option" where
  "insertRemoteMetadataRows cfg rows = (if rows = [] \<or> MetricsTable cfg = [] then Some None else do {
     sql \<leftarrow> insertInto cfg (MetricsTable cfg) ''team_id, metric_family_name, type, unit, help, updated_at'';
     Some (Some \<lparr>niSync = False, niSQL = sql, niColumns = [U64s (map mrTeamID rows), Strs (map mrMetricFamilyName rows),
        Strs (map mrType rows), Strs (map mrUnit rows), Strs (map mrHelp rows), I64s (map mrUpdatedAtMS rows)],
        niCount = length rows\<rparr>) })"

section \<open>Known series\<close>

text \<open>The key of a series is its team and id; a missing cache is None.\<close>

type_synonym seriesKey = "u64 \<times> u64"

definition rowKey :: "remoteWriteSeriesRow \<Rightarrow> seriesKey" where
  "rowKey row = (srTeamID row, srID row)"

definition filterCachedSeriesRows :: "seriesKey set option \<Rightarrow> remoteWriteSeriesRow list \<Rightarrow> remoteWriteSeriesRow list" where
  "filterCachedSeriesRows cache rows = (case cache of
     None \<Rightarrow> rows | Some ids \<Rightarrow> filter (\<lambda>row. rowKey row \<notin> ids) rows)"

definition cacheKnownSeriesRows :: "seriesKey set option \<Rightarrow> remoteWriteSeriesRow list \<Rightarrow> seriesKey set option" where
  "cacheKnownSeriesRows cache rows = map_option (\<lambda>ids. ids \<union> set (map rowKey rows)) cache"

definition knownSeriesIDsSQL :: "Config \<Rightarrow> string \<Rightarrow> string option" where
  "knownSeriesIDsSQL cfg lookupTable = do {
     t \<leftarrow> tableName (CHDatabase cfg) (SeriesTable cfg);
     q \<leftarrow> quoteIdent lookupTable;
     Some (''SELECT id FROM '' @ t @ '' WHERE team_id = '' @ formatUint (TeamID cfg) @ '' AND id IN (SELECT id FROM '' @ q @ '')'') }"

text \<open>What the lookup found, entered into the cache, and the rows left.\<close>

definition cacheLookup :: "Config \<Rightarrow> seriesKey set option \<Rightarrow> u64 set \<Rightarrow> seriesKey set option" where
  "cacheLookup cfg cache known = map_option (\<lambda>ids. ids \<union> Pair (TeamID cfg) ` known) cache"

definition unknownRows :: "remoteWriteSeriesRow list \<Rightarrow> u64 set \<Rightarrow> remoteWriteSeriesRow list" where
  "unknownRows rows known = (if known = {} then rows
     else if card known = length rows then []
     else filter (\<lambda>row. srID row \<notin> known) rows)"

section \<open>The phases of a request\<close>

datatype cause = ClickHouse string | Encode rw_error
datatype insertError = PhaseError string cause

record 'w clickhouse =
  chLookup :: "'w \<Rightarrow> string \<Rightarrow> u64 list \<Rightarrow> string + u64 list"
  chInsert :: "'w \<Rightarrow> nativeInsert \<Rightarrow> string option \<times> 'w"

record 'w remoteState =
  rsWorld :: 'w
  rsCache :: "seriesKey set option"

definition filterNewSeriesRows ::
  "'w clickhouse \<Rightarrow> Config \<Rightarrow> 'w remoteState \<Rightarrow> remoteWriteSeriesRow list
   \<Rightarrow> ((cause + remoteWriteSeriesRow list) \<times> 'w remoteState) option" where
  "filterNewSeriesRows ch cfg st rows0 =
     (let rows = filterCachedSeriesRows (rsCache st) rows0 in
      if rows = [] then Some (Inr [], st)
      else do {
        sql \<leftarrow> knownSeriesIDsSQL cfg ''remote_write_series_ids'';
        (case chLookup ch (rsWorld st) sql (map srID rows) of
           Inl e \<Rightarrow> Some (Inl (ClickHouse e), st)
         | Inr found \<Rightarrow> Some (Inr (unknownRows rows (set found)),
             st\<lparr>rsCache := cacheLookup cfg (rsCache st) (set found)\<rparr>)) })"

text \<open>An insert of a phase: nothing to do, or the outcome of the client.\<close>

definition runInsert ::
  "'w clickhouse \<Rightarrow> 'w remoteState \<Rightarrow> nativeInsert option \<Rightarrow> cause option \<times> 'w remoteState" where
  "runInsert ch st i = (case i of None \<Rightarrow> (None, st)
     | Some ins \<Rightarrow> (let (e, w) = chInsert ch (rsWorld st) ins in (map_option ClickHouse e, st\<lparr>rsWorld := w\<rparr>)))"

definition encodeNewRows ::
  "'d xxhash \<Rightarrow> (nat \<Rightarrow> bool) \<Rightarrow> remoteWriteBatch \<Rightarrow> remoteWriteSeriesRow list
   \<Rightarrow> (rw_error + remoteWriteSeriesRow list) option" where
  "encodeNewRows h isPrint batch rows = (if length (fastProto batch) > 0
     then populateSeriesLabelsJSONFromProto h isPrint (fastProto batch) rows
     else Some (populateSeriesLabelsJSON isPrint rows))"

text \<open>The mutex is taken between the two filters and released on return; a request that runs alone
  never waits for it. Its interleavings are the subject of the theory SeriesLock.\<close>

definition insertMissingRemoteSeriesRows ::
  "'d xxhash \<Rightarrow> (nat \<Rightarrow> bool) \<Rightarrow> 'w clickhouse \<Rightarrow> Config \<Rightarrow> 'w remoteState \<Rightarrow> remoteWriteBatch
   \<Rightarrow> ((insertError + nat) \<times> 'w remoteState) option" where
  "insertMissingRemoteSeriesRows h isPrint ch cfg st batch = do {
     (r1, st1) \<leftarrow> filterNewSeriesRows ch cfg st (seriesRecords batch);
     (case r1 of
        Inl e \<Rightarrow> Some (Inl (PhaseError ''lookup existing series'' e), st1)
      | Inr rows1 \<Rightarrow> if rows1 = [] then Some (Inr 0, st1) else do {
          (r2, st2) \<leftarrow> filterNewSeriesRows ch cfg st1 rows1;
          (case r2 of
             Inl e \<Rightarrow> Some (Inl (PhaseError ''recheck existing series'' e), st2)
           | Inr rows2 \<Rightarrow> if rows2 = [] then Some (Inr 0, st2) else do {
               enc \<leftarrow> encodeNewRows h isPrint batch rows2;
               (case enc of
                  Inl e \<Rightarrow> Some (Inl (PhaseError ''encode new series labels'' (Encode e)), st2)
                | Inr rows3 \<Rightarrow> do {
                    ins \<leftarrow> insertRemoteSeriesRows cfg rows3;
                    (case runInsert ch st2 ins of
                       (Some e, st3) \<Rightarrow> Some (Inl (PhaseError ''insert series'' e), st3)
                     | (None, st3) \<Rightarrow> Some (Inr (length rows3),
                         st3\<lparr>rsCache := cacheKnownSeriesRows (rsCache st3) rows3\<rparr>)) }) }) }) }"

text \<open>The phases after the series, in order, stopping at the first error.\<close>

fun runPhases ::
  "'w clickhouse \<Rightarrow> 'w remoteState \<Rightarrow> (string \<times> nativeInsert option option) list
   \<Rightarrow> ((insertError + unit) \<times> 'w remoteState) option" where
  "runPhases ch st [] = Some (Inr (), st)"
| "runPhases ch st ((phase, build) # phases) = do {
     i \<leftarrow> build;
     (case runInsert ch st i of
        (Some e, st') \<Rightarrow> Some (Inl (PhaseError phase e), st')
      | (None, st') \<Rightarrow> runPhases ch st' phases) }"

definition dataPhases :: "Config \<Rightarrow> int \<Rightarrow> remoteWriteBatch \<Rightarrow> (string \<times> nativeInsert option option) list" where
  "dataPhases cfg now batch =
     [(''insert metadata'', insertRemoteMetadataRows cfg (metadataRows batch)),
      (''insert samples'', insertRemoteSampleRows cfg now batch),
      (''insert histograms'', insertRemoteHistogramRows cfg (histogramRows batch)),
      (''insert exemplars'', insertRemoteExemplarRows cfg (exemplarRows batch))]"

definition insertRemoteWriteBatch ::
  "'d xxhash \<Rightarrow> (nat \<Rightarrow> bool) \<Rightarrow> int \<Rightarrow> 'w clickhouse \<Rightarrow> Config \<Rightarrow> 'w remoteState \<Rightarrow> remoteWriteBatch
   \<Rightarrow> ((insertError + unit) \<times> 'w remoteState) option" where
  "insertRemoteWriteBatch h isPrint now ch cfg st batch =
     (if seriesCount batch = 0 \<and> sampleCount batch = 0 \<and> histogramCount batch = 0 \<and> exemplarCount batch = 0
         \<and> metadataCount batch = 0 then Some (Inr (), st)
      else if \<not> postHogSchemaLayout cfg \<and> seriesCount batch > 0
      then do {
        (r, st1) \<leftarrow> insertMissingRemoteSeriesRows h isPrint ch cfg st batch;
        (case r of Inl e \<Rightarrow> Some (Inl e, st1) | Inr _ \<Rightarrow> runPhases ch st1 (dataPhases cfg now batch)) }
      else runPhases ch st (dataPhases cfg now batch))"

section \<open>Shape of the inserts\<close>

fun columnLength :: "column \<Rightarrow> nat" where
  "columnLength (U64s xs) = length xs" | "columnLength (I64s xs) = length xs" | "columnLength (I32s xs) = length xs"
| "columnLength (F64s xs) = length xs" | "columnLength (Strs xs) = length xs" | "columnLength (Bins xs) = length xs"
| "columnLength (Maps xs) = length xs" | "columnLength (Bools xs) = length xs"

text \<open>An insert is well formed when it has rows, every column has one value per row, and there are as many
  columns as names in the statement, which are separated by commas.\<close>

definition insertWellFormed :: "nativeInsert \<Rightarrow> bool" where
  "insertWellFormed i \<longleftrightarrow> 0 < niCount i \<and> (\<forall>c\<in>set (niColumns i). columnLength c = niCount i)
     \<and> length (niColumns i) = Suc (length (filter (\<lambda>c. c = CHR '','') (niSQL i)))"

text \<open>The form in which the two builders hand over the samples: as rows, or, without attributes, as columns
  of equal length.\<close>

definition batchForm :: "Config \<Rightarrow> remoteWriteBatch \<Rightarrow> bool" where
  "batchForm cfg batch \<longleftrightarrow> (let c = sampleColumns batch in
     if columnsCount c = 0 then sampleCount batch = length (sampleRows batch)
     else \<not> SampleAttributes cfg \<and> \<not> postHogSchemaLayout cfg \<and> length (colTeamIDs c) = columnsCount c
       \<and> length (colMetricNames c) = columnsCount c \<and> length (colTimestamps c) = columnsCount c
       \<and> length (colValues c) = columnsCount c \<and> colServiceNames c = [] \<and> colAttributes c = [])"

abbreviation commas :: "string \<Rightarrow> nat" where
  "commas s \<equiv> length (filter (\<lambda>c. c = CHR '','') s)"

lemma identifier_commas: "identifierRE p \<Longrightarrow> commas p = 0"
proof -
  have "\<not> (isLetter (CHR '','') \<or> isDigit (CHR '','') \<or> CHR '','' = CHR ''_'')"
    by (simp add: isLetter_def isDigit_def)
  then show "identifierRE p \<Longrightarrow> commas p = 0"
    unfolding identifierRE_def by (cases p) (auto simp: list_all_iff filter_empty_conv)
qed

lemma tableName_commas: "tableName database table = Some q \<Longrightarrow> commas q = 0"
proof -
  have "list_all identifierRE parts \<Longrightarrow> commas (joinWith ''.'' (map (\<lambda>p. [CHR 0x60] @ p @ [CHR 0x60]) parts)) = 0" for parts
  proof (induction parts rule: induct_list012)
    case (2 p)
    then show ?case using identifier_commas [of p] by simp
  next
    case (3 p q ps)
    then show ?case using identifier_commas [of p] by simp
  qed simp
  then show "tableName database table = Some q \<Longrightarrow> commas q = 0"
    using tableName_parts by blast
qed

lemma insertInto_commas: "insertInto cfg table cols = Some sql \<Longrightarrow> commas sql = commas cols"
  by (auto simp: insertInto_def tableName_commas split: bind_splits)

lemma length_attributesLoop [simp]: "length (attributesLoop byID rows) = length rows"
  by (induction byID rows rule: attributesLoop.induct) (auto split: option.splits simp: Let_def)

lemma columns_insert:
  assumes "insertInto cfg table cols = Some sql" "n \<noteq> 0" "\<forall>c\<in>set cs. columnLength c = n" "length cs = Suc (commas cols)"
  shows "insertWellFormed \<lparr>niSync = b, niSQL = sql, niColumns = cs, niCount = n\<rparr>"
  using assms insertInto_commas [OF assms(1)] by (simp add: insertWellFormed_def)

lemma samples_insert:
  assumes "batchForm cfg batch" "insertRemoteSampleRows cfg now batch = Some (Some i)"
  shows "insertWellFormed i"
proof -
  have n: "sampleCount batch \<noteq> 0"
    using assms(2) by (cases "sampleCount batch = 0") (simp_all add: insertRemoteSampleRows_def)
  show ?thesis
  proof (cases "postHogSchemaLayout cfg")
    case True
    then have "length (sampleRows batch) \<noteq> 0" "insertPostHogRemoteSampleRows cfg now batch = Some (Some i)"
      using assms n by (auto simp: insertRemoteSampleRows_def batchForm_def Let_def split: if_splits)
    then show ?thesis
      by (auto simp: insertPostHogRemoteSampleRows_def Let_def split: bind_splits intro!: columns_insert)
  next
    case False
    let ?c = "if columnsCount (sampleColumns batch) = 0 then columnsOfRows (SampleAttributes cfg) (sampleRows batch)
              else sampleColumns batch"
    obtain sql where sql: "insertInto cfg (SamplesTable cfg) (''team_id, metric_name, timestamp, id, value''
         @ (if SampleAttributes cfg then '', attributes_map_str'' else [])) = Some sql"
      and i: "i = \<lparr>niSync = False, niSQL = sql, niColumns = fst (appendRemoteSampleColumns ?c), niCount = snd (appendRemoteSampleColumns ?c)\<rparr>"
      using assms(2) n False by (auto simp: insertRemoteSampleRows_def Let_def split: bind_splits)
    show ?thesis
      unfolding i using assms(1) n False
      by (intro columns_insert [OF sql])
        (auto simp: appendRemoteSampleColumns_def columnsOfRows_def columnsCount_def batchForm_def Let_def split: if_splits)
  qed
qed

lemma other_inserts:
  shows "insertRemoteSeriesRows cfg rows = Some (Some i) \<Longrightarrow> insertWellFormed i"
    and "insertRemoteHistogramRows cfg hs = Some (Some i) \<Longrightarrow> insertWellFormed i"
    and "insertRemoteExemplarRows cfg es = Some (Some i) \<Longrightarrow> insertWellFormed i"
    and "insertRemoteMetadataRows cfg ms = Some (Some i) \<Longrightarrow> insertWellFormed i"
  by (auto simp: insertRemoteSeriesRows_def insertRemoteHistogramRows_def insertRemoteExemplarRows_def
      insertRemoteMetadataRows_def split: bind_splits if_splits intro!: columns_insert)

section \<open>A successful request knows all its series\<close>

lemma rowKey_labels [simp]: "rowKey (r\<lparr>srLabelsJSON := js\<rparr>) = rowKey r"
  by (simp add: rowKey_def)

lemma populateTimeSeries_keys:
  assumes "populateSeriesLabelsJSONFromTimeSeriesProto h isPrint data st = Some (Inr st')"
  shows "map rowKey (fst st') = map rowKey (fst st)"
proof -
  have "i < length rows \<Longrightarrow> map rowKey (rows[i := (rows ! i)\<lparr>srLabelsJSON := js\<rparr>]) = map rowKey rows" for rows i js
    by (simp add: map_update list_update_same_conv)
  then show ?thesis
    using assms by (cases st)
      (auto simp: populateSeriesLabelsJSONFromTimeSeriesProto_def split: sum.splits option.splits prod.splits if_splits)
qed

lemma populateRequest_keys:
  "populateRequestLoop h isPrint data i st = Some (Inr st') \<Longrightarrow> map rowKey (fst st') = map rowKey (fst st)"
proof (induction h isPrint data i st rule: populateRequestLoop.induct)
  case (1 h isPrint data i st)
  show ?case
  proof (cases "i < length data \<and> snd st \<noteq> []")
    case False
    then show ?thesis using "1.prems" by (subst (asm) populateRequestLoop.simps) auto
  next
    case True
    note step = "1.prems" [unfolded populateRequestLoop.simps [of h isPrint data i st]]
    obtain key i1 where k: "readProtoVarint data i = Inr (key, i1)"
      using step True by (auto split: sum.splits)
    show ?thesis
    proof (cases "keyField key = 1")
      case f: True
      obtain message i2 st1 where m: "keyWire key = protoWireBytes" "readProtoBytes data i1 = Inr (message, i2)"
        "populateSeriesLabelsJSONFromTimeSeriesProto h isPrint message st = Some (Inr st1)"
        "populateRequestLoop h isPrint data i2 st1 = Some (Inr st')"
        using step True k f by (auto simp: Let_def split: if_splits sum.splits option.splits prod.splits)
      then have "map rowKey (fst st') = map rowKey (fst st1)"
        using "1.IH"(1) [OF True k refl refl refl f _ m(2) refl m(3) refl] by simp
      then show ?thesis using populateTimeSeries_keys [OF m(3)] by simp
    next
      case f: False
      obtain i2 where m: "skipProtoField data i1 (keyWire key) = Inr i2" "populateRequestLoop h isPrint data i2 st = Some (Inr st')"
        using step True k f by (auto simp: Let_def split: if_splits sum.splits option.splits prod.splits)
      then show ?thesis
        using "1.IH"(2) [OF True k refl refl refl f m(1)] by simp
    qed
  qed
qed

lemma populateRows_keys:
  "populateSeriesLabelsJSON isPrint rows = Inr rows' \<Longrightarrow> map rowKey rows' = map rowKey rows"
  by (induction isPrint rows arbitrary: rows' rule: populateSeriesLabelsJSON.induct)
    (auto split: sum.splits if_splits)

lemma encodeNewRows_keys:
  assumes "encodeNewRows h isPrint batch rows = Some (Inr rows')"
  shows "map rowKey rows' = map rowKey rows"
  using assms populateRequest_keys [where st = "(rows, neededRows rows)"] populateRows_keys
  by (auto simp: encodeNewRows_def populateSeriesLabelsJSONFromProto_def Let_def split: if_splits option.splits sum.splits)

text \<open>What the lookup of ids documents: it returns only ids that were asked for.\<close>

definition lookup_ok :: "'w clickhouse \<Rightarrow> bool" where
  "lookup_ok ch \<longleftrightarrow> (\<forall>w sql ids found. chLookup ch w sql ids = Inr found \<longrightarrow> set found \<subseteq> set ids)"

lemma unknownRows_known:
  assumes "known \<subseteq> set (map srID rows)" "distinct (map srID rows)" "r \<in> set rows"
  shows "srID r \<in> known \<or> r \<in> set (unknownRows rows known)"
proof (cases "card known = length rows")
  case True
  then have "card known = card (set (map srID rows))"
    using distinct_card [OF assms(2)] by simp
  then have "known = set (map srID rows)"
    using card_subset_eq [OF _ assms(1)] by simp
  then show ?thesis using assms(3) by simp
next
  case False
  then show ?thesis using assms(3) by (auto simp: unknownRows_def)
qed

lemma unknownRows_subset: "set (unknownRows rows known) \<subseteq> set rows"
  by (auto simp: unknownRows_def)

lemma unknownRows_distinct: "distinct (map srID rows) \<Longrightarrow> distinct (map srID (unknownRows rows known))"
  by (simp add: unknownRows_def distinct_map_filter)

lemma filterNew_keeps:
  assumes "filterNewSeriesRows ch cfg st rows0 = Some (Inr rows', st')" "lookup_ok ch" "rsCache st = Some c"
    and "distinct (map srID rows0)" "\<forall>r\<in>set rows0. srTeamID r = TeamID cfg"
  shows "\<exists>c'. rsCache st' = Some c' \<and> c \<subseteq> c' \<and> (\<forall>r\<in>set rows0. rowKey r \<in> c' \<or> r \<in> set rows')
    \<and> set rows' \<subseteq> set rows0 \<and> distinct (map srID rows')"
proof -
  let ?rows = "filterCachedSeriesRows (Some c) rows0"
  have rows: "set ?rows \<subseteq> set rows0" "distinct (map srID ?rows)" "\<And>r. r \<in> set rows0 \<Longrightarrow> rowKey r \<in> c \<or> r \<in> set ?rows"
    using assms(4) by (auto simp: filterCachedSeriesRows_def distinct_map_filter)
  show ?thesis
  proof (cases "?rows = []")
    case True
    then show ?thesis
      using assms(1,3) rows(3) by (auto simp: filterNewSeriesRows_def)
  next
    case False
    then obtain sql found where f: "chLookup ch (rsWorld st) sql (map srID ?rows) = Inr found"
      "rows' = unknownRows ?rows (set found)" "st' = st\<lparr>rsCache := cacheLookup cfg (Some c) (set found)\<rparr>"
      using assms(1,3) by (auto simp: filterNewSeriesRows_def Let_def split: bind_splits sum.splits)
    have sub: "set found \<subseteq> set (map srID ?rows)"
      using assms(2) f(1) unfolding lookup_ok_def by blast
    let ?c' = "c \<union> Pair (TeamID cfg) ` set found"
    have "rowKey r \<in> ?c' \<or> r \<in> set rows'" if "r \<in> set rows0" for r
      using rows(3) [OF that] unknownRows_known [OF sub rows(2), of r] assms(5) that
      by (auto simp: f(2) rowKey_def)
    then show ?thesis
      using f rows unknownRows_subset [of ?rows "set found"] unknownRows_distinct [OF rows(2), of "set found"]
      by (auto simp: cacheLookup_def)
  qed
qed

lemma insertMissing_registers:
  assumes "insertMissingRemoteSeriesRows h isPrint ch cfg st batch = Some (Inr n, st')" "lookup_ok ch" "rsCache st = Some c"
    and "distinct (map srID (seriesRecords batch))" "\<forall>r\<in>set (seriesRecords batch). srTeamID r = TeamID cfg"
  shows "\<exists>c'. rsCache st' = Some c' \<and> c \<union> rowKey ` set (seriesRecords batch) \<subseteq> c'"
proof -
  obtain rows1 st1 where f1: "filterNewSeriesRows ch cfg st (seriesRecords batch) = Some (Inr rows1, st1)"
    using assms(1) by (auto simp: insertMissingRemoteSeriesRows_def split: bind_splits sum.splits)
  from filterNew_keeps [OF this assms(2-5)] obtain c1 where c1: "rsCache st1 = Some c1" "c \<subseteq> c1"
    "\<forall>r\<in>set (seriesRecords batch). rowKey r \<in> c1 \<or> r \<in> set rows1" "set rows1 \<subseteq> set (seriesRecords batch)" "distinct (map srID rows1)"
    by blast
  show ?thesis
  proof (cases "rows1 = []")
    case True
    then show ?thesis
      using assms(1) f1 c1 by (auto simp: insertMissingRemoteSeriesRows_def)
  next
    case ne1: False
    then obtain rows2 st2 where f2: "filterNewSeriesRows ch cfg st1 rows1 = Some (Inr rows2, st2)"
      using assms(1) f1 by (auto simp: insertMissingRemoteSeriesRows_def split: bind_splits sum.splits)
    have team1: "\<forall>r\<in>set rows1. srTeamID r = TeamID cfg"
      using assms(5) c1(4) by blast
    from filterNew_keeps [OF f2 assms(2) c1(1,5) team1] obtain c2 where c2: "rsCache st2 = Some c2" "c1 \<subseteq> c2"
      "\<forall>r\<in>set rows1. rowKey r \<in> c2 \<or> r \<in> set rows2"
      by blast
    show ?thesis
    proof (cases "rows2 = []")
      case True
      then show ?thesis
        using assms(1) f1 f2 ne1 c1(2,3) c2
        by (simp add: insertMissingRemoteSeriesRows_def image_subset_iff) blast
    next
      case False
      then obtain rows3 ins st3 where f3: "encodeNewRows h isPrint batch rows2 = Some (Inr rows3)"
        "runInsert ch st2 ins = (None, st3)" "st' = st3\<lparr>rsCache := cacheKnownSeriesRows (rsCache st3) rows3\<rparr>"
        using assms(1) f1 f2 ne1
        by (auto simp: insertMissingRemoteSeriesRows_def split: bind_splits sum.splits prod.splits option.splits)
      have "set (map rowKey rows3) = set (map rowKey rows2)"
        using encodeNewRows_keys [OF f3(1)] by simp
      moreover have "rsCache st3 = Some c2"
        using f3(2) c2(1) by (auto simp: runInsert_def split: option.splits prod.splits)
      ultimately show ?thesis
        using f3(3) c1 c2 by (fastforce simp: cacheKnownSeriesRows_def)
    qed
  qed
qed

lemma runPhases_cache: "runPhases ch st phases = Some (r, st') \<Longrightarrow> rsCache st' = rsCache st"
proof (induction ch st phases rule: runPhases.induct)
  case (2 ch st phase build phases)
  obtain i where i: "build = Some i"
    using "2.prems" by (auto split: bind_splits)
  obtain e st1 where e: "runInsert ch st i = (e, st1)" by fastforce
  then have c: "rsCache st1 = rsCache st"
    by (auto simp: runInsert_def split: option.splits prod.splits)
  show ?case
  proof (cases e)
    case None
    then show ?thesis using "2.prems" "2.IH" [of i None st1] i e c by simp
  next
    case (Some x)
    then show ?thesis using "2.prems" i e c by simp
  qed
qed simp

section \<open>Attributes of PostHog samples\<close>

lemma foldl_sampleAttributes:
  "map_of (foldl (\<lambda>attributes label. if lblName label = metricNameLabel \<or> lblName label = [] then attributes
        else AList.update (lblName label @ ''__str'') (lblValue label) attributes) out ls) (n @ ''__str'')
   = (case map_of (rev (map (\<lambda>l. (lblName l, lblValue l)) (filter (\<lambda>l. lblName l \<noteq> metricNameLabel \<and> lblName l \<noteq> []) ls))) n of
        Some v \<Rightarrow> Some v | None \<Rightarrow> map_of out (n @ ''__str''))"
  by (induction ls arbitrary: out) (auto simp: update_conv map_add_def split: option.splits)

text \<open>Every key of a map of native attributes ends in its type.\<close>

definition suffixed :: "gomap \<Rightarrow> bool" where
  "suffixed m \<longleftrightarrow> distinct (map fst m) \<and> (\<forall>k\<in>set (map fst m). \<exists>n. k = n @ ''__str'')"

lemma suffixed_update: "suffixed m \<Longrightarrow> suffixed (AList.update (n @ ''__str'') v m)"
  unfolding suffixed_def using distinct_update [of m "n @ ''__str''" v] update_keys [of "n @ ''__str''" v m]
  by (auto split: if_splits)

lemma foldl_invariant: "P a \<Longrightarrow> (\<And>a x. P a \<Longrightarrow> P (f a x)) \<Longrightarrow> P (foldl f a xs)"
  by (induction xs arbitrary: a) simp_all

lemma sampleAttributes_suffix: "suffixed (sampleAttributesFromRemoteWriteLabels ls)"
  unfolding sampleAttributesFromRemoteWriteLabels_def
proof (rule foldl_invariant [where P = suffixed])
  show "suffixed []" by (simp add: suffixed_def)
qed (simp add: suffixed_update)

lemma foldl_trim:
  assumes "distinct (map fst as)" "\<forall>k\<in>set (map fst as). \<exists>n. k = n @ ''__str''"
  shows "map_of (foldl (\<lambda>out (key, v). AList.update (trimSuffix key ''__str'') v out) out as) n
    = (case map_of as (n @ ''__str'') of Some v \<Rightarrow> Some v | None \<Rightarrow> map_of out n)"
  using assms
proof (induction as arbitrary: out)
  case (Cons p as)
  obtain k v m where p: "p = (k, v)" "k = m @ ''__str''"
    using Cons.prems(2) by (cases p) auto
  have "m = n \<Longrightarrow> map_of as (n @ ''__str'') = None"
    using Cons.prems(1) p by (auto simp: map_of_eq_None_iff)
  then show ?case
    using Cons.IH [of "AList.update m v out"] Cons.prems p
    by (auto simp: update_conv split: option.splits)
qed simp

section \<open>Properties\<close>


definition demoInsertBatch :: remoteWriteBatch where
  "demoInsertBatch = (emptyBatch [])\<lparr>sampleRows := [\<lparr>smTeamID = 7, smMetricName = ''up'', smTimestampMS = 1000, smID = 5,
      smValue = 0, smServiceName = [], smAttributes = []\<rparr>], sampleCount := 1,
      seriesRecords := [\<lparr>srTeamID = 7, srID = 5, srMetricName = ''up'', srLabelsJSON = [], srLabels = [], srMinMS = 1000, srMaxMS = 1000\<rparr>],
      seriesCount := 1\<rparr>"

lemma current_text: "toLower (trimSpace ''current'') = ''current''"
  by (simp add: trimSpace_def toLower_def runes_ascii isSpaceRune_def lowerRune_def encodeRune_def char_of_def bit_0)

lemma demoConfig_layout: "\<not> postHogSchemaLayout demoConfig"
  by (simp add: postHogSchemaLayout_def demoConfig_def storageSchemaLayout_def Let_def current_text)
lemma demoConfig_table:
  "insertInto demoConfig ''metrics_samples'' cols
    = Some (''INSERT INTO '' @ [CHR 0x60] @ ''default'' @ [CHR 0x60, CHR ''.'', CHR 0x60] @ ''metrics_samples'' @ [CHR 0x60] @ '' ('' @ cols @ '')'')"
  by (simp add: insertInto_def tableName_def quoteIdent_def identifierRE_def isLetter_def isDigit_def demoConfig_def)



definition memoryClickHouse :: "nativeInsert list clickhouse" where
  "memoryClickHouse = \<lparr>chLookup = (\<lambda>w sql ids. Inr []), chInsert = (\<lambda>w i. (None, w @ [i]))\<rparr>"

lemma demoConfig_fields: "CHDatabase demoConfig = ''default''" "SeriesTable demoConfig = ''metrics_series''"
    "SamplesTable demoConfig = ''metrics_samples''" "SampleAttributes demoConfig = False" "TeamID demoConfig = 7"
  by (simp_all add: demoConfig_def)

lemma demoConfig_tables: "\<exists>q. tableName ''default'' ''metrics_series'' = Some q" "\<exists>q. tableName ''default'' ''metrics_samples'' = Some q"
    "\<exists>q. quoteIdent ''remote_write_series_ids'' = Some q"
  by (simp_all add: tableName_def quoteIdent_def identifierRE_def isLetter_def isDigit_def)

lemma demoBatch_inserts:
  "\<exists>st. insertRemoteWriteBatch sumHash (\<lambda>_. True) 0 memoryClickHouse demoConfig \<lparr>rsWorld = [], rsCache = Some {}\<rparr> demoInsertBatch
     = Some (Inr (), st)"
proof -
  obtain q1 q2 q3 where q: "tableName ''default'' ''metrics_series'' = Some q1" "tableName ''default'' ''metrics_samples'' = Some q2"
    "quoteIdent ''remote_write_series_ids'' = Some q3" using demoConfig_tables by blast
  have "\<exists>n st. insertMissingRemoteSeriesRows sumHash (\<lambda>_. True) memoryClickHouse demoConfig \<lparr>rsWorld = [], rsCache = Some {}\<rparr> demoInsertBatch
     = Some (Inr n, st)"
    by (simp add: insertMissingRemoteSeriesRows_def filterNewSeriesRows_def filterCachedSeriesRows_def demoInsertBatch_def emptyBatch_def
      knownSeriesIDsSQL_def demoConfig_fields q memoryClickHouse_def unknownRows_def cacheLookup_def encodeNewRows_def
      labelsJSONFromRemoteWriteLabels_def insertRemoteSeriesRows_def insertInto_def runInsert_def)
  then obtain n st where "insertMissingRemoteSeriesRows sumHash (\<lambda>_. True) memoryClickHouse demoConfig
      \<lparr>rsWorld = [], rsCache = Some {}\<rparr> demoInsertBatch = Some (Inr n, st)" by blast
  moreover have "\<exists>st'. runPhases memoryClickHouse st (dataPhases demoConfig 0 demoInsertBatch) = Some (Inr (), st')"
    by (simp add: dataPhases_def demoInsertBatch_def emptyBatch_def insertRemoteMetadataRows_def insertRemoteSampleRows_def
      insertRemoteHistogramRows_def insertRemoteExemplarRows_def demoConfig_layout demoConfig_fields insertInto_def q runInsert_def
      memoryClickHouse_def Let_def)
  ultimately show ?thesis
    by (simp add: insertRemoteWriteBatch_def demoConfig_layout demoInsertBatch_def emptyBatch_def)
qed


text \<open>C20. The attributes stored with a PostHog sample are its labels: the suffix that the native column
  carries is removed again, so a label other than the metric name keeps its name and its last value.\<close>

theorem posthog_attributes_are_labels:
  "map_of (postHogSampleAttributes (sampleAttributesFromRemoteWriteLabels ls)) n
    = map_of (rev (map (\<lambda>l. (lblName l, lblValue l)) (filter (\<lambda>l. lblName l \<noteq> metricNameLabel \<and> lblName l \<noteq> []) ls))) n"
proof -
  have "map_of (sampleAttributesFromRemoteWriteLabels ls) (n @ ''__str'')
    = map_of (rev (map (\<lambda>l. (lblName l, lblValue l)) (filter (\<lambda>l. lblName l \<noteq> metricNameLabel \<and> lblName l \<noteq> []) ls))) n"
    using foldl_sampleAttributes [of "[]" ls n]
    by (simp add: sampleAttributesFromRemoteWriteLabels_def split: option.splits)
  then show ?thesis
    using foldl_trim [of "sampleAttributesFromRemoteWriteLabels ls" "[]" n] sampleAttributes_suffix [of ls, unfolded suffixed_def]
    by (simp add: postHogSampleAttributes_def split: option.splits)
qed

end
