(* ===== verification/SeriesLock.thy ===== *)
theory SeriesLock
  imports RemoteInsert
begin

text \<open>
  Concurrent remote writes (insertMissingRemoteSeriesRows and filterNewSeriesRows in
  src/internal/snuffle/remote.go). The requests of a server share the cache of known series,
  the mutex seriesMu and the series table; their steps interleave freely. A step is what
  happens between two points where another request can intervene: a pass over the cache, a
  query, an insert, waiting for the mutex. The table is the sequence of the keys of its rows.
  A failed insert may or may not have reached the table. Requests of several teams run
  together: each has the configuration of its team.
\<close>

section \<open>The system\<close>

type_synonym seriesRows = "remoteWriteSeriesRow list"

text \<open>Where a request stands, with the rows it still has to register and, after a query, the ids
  that the query returned.\<close>

datatype stage =
    Arrived
  | Looking seriesRows
  | LookedUp seriesRows "u64 set"
  | Waiting seriesRows
  | Locked seriesRows
  | Rechecking seriesRows
  | Rechecked seriesRows "u64 set"
  | Encoding seriesRows
  | Inserting seriesRows
  | Inserted seriesRows
  | Finished
  | Failed

record seriesSystem =
  sysTable :: "seriesKey list"
  sysCache :: "seriesKey set"
  sysLock :: "nat option"
  sysStage :: "nat \<Rightarrow> stage"

text \<open>The answer of the lookup: those of the ids that the table has for the team.\<close>

definition idsInTable :: "seriesKey list \<Rightarrow> u64 \<Rightarrow> seriesRows \<Rightarrow> u64 set" where
  "idsInTable table team rows = {i \<in> set (map srID rows). (team, i) \<in> set table}"

definition proceed :: "nat \<Rightarrow> stage \<Rightarrow> seriesSystem \<Rightarrow> seriesSystem" where
  "proceed r st s = s\<lparr>sysStage := (sysStage s)(r := st)\<rparr>"

text \<open>Return from the critical section: the deferred unlock runs on every way out, also when the request
  panics.\<close>

definition leave :: "nat \<Rightarrow> stage \<Rightarrow> seriesSystem \<Rightarrow> seriesSystem" where
  "leave r st s = proceed r st (s\<lparr>sysLock := None\<rparr>)"

text \<open>After a filter: with no rows left the request is done.\<close>

definition continueWith :: "nat \<Rightarrow> seriesRows \<Rightarrow> (seriesRows \<Rightarrow> stage) \<Rightarrow> seriesSystem \<Rightarrow> seriesSystem" where
  "continueWith r rows st s = (if rows = [] then proceed r Finished s else proceed r (st rows) s)"

definition continueLocked :: "nat \<Rightarrow> seriesRows \<Rightarrow> (seriesRows \<Rightarrow> stage) \<Rightarrow> seriesSystem \<Rightarrow> seriesSystem" where
  "continueLocked r rows st s = (if rows = [] then leave r Finished s else proceed r (st rows) s)"

definition learn :: "Config \<Rightarrow> u64 set \<Rightarrow> seriesSystem \<Rightarrow> seriesSystem" where
  "learn cfg known s = s\<lparr>sysCache := the (cacheLookup cfg (Some (sysCache s)) known)\<rparr>"

inductive requestStep ::
  "'d xxhash \<Rightarrow> (nat \<Rightarrow> bool) \<Rightarrow> (nat \<Rightarrow> Config) \<Rightarrow> (nat \<Rightarrow> remoteWriteBatch) \<Rightarrow> nat \<Rightarrow> seriesSystem \<Rightarrow> seriesSystem \<Rightarrow> bool"
  for h :: "'d xxhash" and isPrint cfgs batches and r :: nat where
  filterCached: "sysStage s r = Arrived
    \<Longrightarrow> requestStep h isPrint cfgs batches r s
      (continueWith r (filterCachedSeriesRows (Some (sysCache s)) (seriesRecords (batches r))) Looking s)"
| lookup: "sysStage s r = Looking rows
    \<Longrightarrow> requestStep h isPrint cfgs batches r s (proceed r (LookedUp rows (idsInTable (sysTable s) (TeamID (cfgs r)) rows)) s)"
| lookupFails: "sysStage s r = Looking rows \<Longrightarrow> requestStep h isPrint cfgs batches r s (proceed r Failed s)"
| learnKnown: "sysStage s r = LookedUp rows known
    \<Longrightarrow> requestStep h isPrint cfgs batches r s (continueWith r (unknownRows rows known) Waiting (learn (cfgs r) known s))"
| lock: "\<lbrakk> sysStage s r = Waiting rows; sysLock s = None \<rbrakk>
    \<Longrightarrow> requestStep h isPrint cfgs batches r s (proceed r (Locked rows) (s\<lparr>sysLock := Some r\<rparr>))"
| refilter: "sysStage s r = Locked rows
    \<Longrightarrow> requestStep h isPrint cfgs batches r s (continueLocked r (filterCachedSeriesRows (Some (sysCache s)) rows) Rechecking s)"
| recheck: "sysStage s r = Rechecking rows
    \<Longrightarrow> requestStep h isPrint cfgs batches r s (proceed r (Rechecked rows (idsInTable (sysTable s) (TeamID (cfgs r)) rows)) s)"
| recheckFails: "sysStage s r = Rechecking rows \<Longrightarrow> requestStep h isPrint cfgs batches r s (leave r Failed s)"
| relearn: "sysStage s r = Rechecked rows known
    \<Longrightarrow> requestStep h isPrint cfgs batches r s (continueLocked r (unknownRows rows known) Encoding (learn (cfgs r) known s))"
| encode: "\<lbrakk> sysStage s r = Encoding rows; encodeNewRows h isPrint (batches r) rows = Some (Inr rows') \<rbrakk>
    \<Longrightarrow> requestStep h isPrint cfgs batches r s (proceed r (Inserting rows') s)"
| encodeFails: "\<lbrakk> sysStage s r = Encoding rows; \<nexists>rows'. encodeNewRows h isPrint (batches r) rows = Some (Inr rows') \<rbrakk>
    \<Longrightarrow> requestStep h isPrint cfgs batches r s (leave r Failed s)"
| insert: "sysStage s r = Inserting rows
    \<Longrightarrow> requestStep h isPrint cfgs batches r s (proceed r (Inserted rows) (s\<lparr>sysTable := sysTable s @ map rowKey rows\<rparr>))"
| insertFails: "\<lbrakk> sysStage s r = Inserting rows; landed = [] \<or> landed = map rowKey rows \<rbrakk>
    \<Longrightarrow> requestStep h isPrint cfgs batches r s (leave r Failed (s\<lparr>sysTable := sysTable s @ landed\<rparr>))"
| remember: "sysStage s r = Inserted rows
    \<Longrightarrow> requestStep h isPrint cfgs batches r s
      (leave r Finished (s\<lparr>sysCache := the (cacheKnownSeriesRows (Some (sysCache s)) rows)\<rparr>))"

text \<open>A step of one of the requests of \<open>R\<close>.\<close>

definition systemStep ::
  "'d xxhash \<Rightarrow> (nat \<Rightarrow> bool) \<Rightarrow> (nat \<Rightarrow> Config) \<Rightarrow> (nat \<Rightarrow> remoteWriteBatch) \<Rightarrow> nat set \<Rightarrow> seriesSystem \<Rightarrow> seriesSystem \<Rightarrow> bool" where
  "systemStep h isPrint cfgs batches R s s' \<longleftrightarrow> (\<exists>r\<in>R. requestStep h isPrint cfgs batches r s s')"

text \<open>A server that starts: its cache holds only series of the table.\<close>

definition startSystem :: "seriesKey list \<Rightarrow> seriesKey set \<Rightarrow> seriesSystem" where
  "startSystem table cache = \<lparr>sysTable = table, sysCache = cache, sysLock = None, sysStage = (\<lambda>_. Arrived)\<rparr>"

text \<open>The batches are those of the builders: distinct ids, all of the team of the request.\<close>

definition batchesOk :: "(nat \<Rightarrow> Config) \<Rightarrow> (nat \<Rightarrow> remoteWriteBatch) \<Rightarrow> bool" where
  "batchesOk cfgs batches \<longleftrightarrow> (\<forall>r. distinct (map srID (seriesRecords (batches r)))
     \<and> (\<forall>row\<in>set (seriesRecords (batches r)). srTeamID row = TeamID (cfgs r)))"

section \<open>The invariant\<close>

fun critical :: "stage \<Rightarrow> bool" where
  "critical (Locked rows) = True" | "critical (Rechecking rows) = True" | "critical (Rechecked rows known) = True"
| "critical (Encoding rows) = True" | "critical (Inserting rows) = True" | "critical (Inserted rows) = True"
| "critical _ = False"

definition rowsOk :: "u64 \<Rightarrow> seriesKey set \<Rightarrow> seriesKey set \<Rightarrow> seriesRows \<Rightarrow> bool" where
  "rowsOk team wanted table rows \<longleftrightarrow> distinct (map srID rows) \<and> (\<forall>row\<in>set rows. srTeamID row = team)
     \<and> wanted \<subseteq> table \<union> rowKey ` set rows"

text \<open>What a request knows about the table at each stage; \<open>wanted\<close> are the keys of its batch.\<close>

fun stageOk :: "u64 \<Rightarrow> seriesKey set \<Rightarrow> seriesKey set \<Rightarrow> stage \<Rightarrow> bool" where
  "stageOk team wanted table Arrived \<longleftrightarrow> True"
| "stageOk team wanted table (Looking rows) \<longleftrightarrow> rowsOk team wanted table rows"
| "stageOk team wanted table (LookedUp rows known) \<longleftrightarrow> rowsOk team wanted table rows
     \<and> known \<subseteq> set (map srID rows) \<and> Pair team ` known \<subseteq> table"
| "stageOk team wanted table (Waiting rows) \<longleftrightarrow> rowsOk team wanted table rows"
| "stageOk team wanted table (Locked rows) \<longleftrightarrow> rowsOk team wanted table rows"
| "stageOk team wanted table (Rechecking rows) \<longleftrightarrow> rowsOk team wanted table rows"
| "stageOk team wanted table (Rechecked rows known) \<longleftrightarrow> rowsOk team wanted table rows
     \<and> known = {i \<in> set (map srID rows). (team, i) \<in> table}"
| "stageOk team wanted table (Encoding rows) \<longleftrightarrow> rowsOk team wanted table rows \<and> rowKey ` set rows \<inter> table = {}"
| "stageOk team wanted table (Inserting rows) \<longleftrightarrow> distinct (map rowKey rows) \<and> wanted \<subseteq> table \<union> rowKey ` set rows
     \<and> rowKey ` set rows \<inter> table = {}"
| "stageOk team wanted table (Inserted rows) \<longleftrightarrow> wanted \<subseteq> table \<and> rowKey ` set rows \<subseteq> table"
| "stageOk team wanted table Finished \<longleftrightarrow> wanted \<subseteq> table"
| "stageOk team wanted table Failed \<longleftrightarrow> True"

abbreviation wantedKeys :: "(nat \<Rightarrow> remoteWriteBatch) \<Rightarrow> nat \<Rightarrow> seriesKey set" where
  "wantedKeys batches r \<equiv> rowKey ` set (seriesRecords (batches r))"

definition systemInv :: "(nat \<Rightarrow> Config) \<Rightarrow> (nat \<Rightarrow> remoteWriteBatch) \<Rightarrow> seriesSystem \<Rightarrow> bool" where
  "systemInv cfgs batches s \<longleftrightarrow> distinct (sysTable s) \<and> sysCache s \<subseteq> set (sysTable s)
     \<and> (\<forall>r. sysLock s = Some r \<longleftrightarrow> critical (sysStage s r))
     \<and> (\<forall>r. stageOk (TeamID (cfgs r)) (wantedKeys batches r) (set (sysTable s)) (sysStage s r))"

lemma systemInvD:
  assumes "systemInv cfgs batches s"
  shows "distinct (sysTable s)" "sysCache s \<subseteq> set (sysTable s)" "sysLock s = Some r \<longleftrightarrow> critical (sysStage s r)"
    "stageOk (TeamID (cfgs r)) (wantedKeys batches r) (set (sysTable s)) (sysStage s r)"
  using assms by (auto simp: systemInv_def)

text \<open>Outside the critical section a growing table invalidates nothing.\<close>

lemma stageOk_mono: "stageOk team wanted t st \<Longrightarrow> \<not> critical st \<Longrightarrow> t \<subseteq> t' \<Longrightarrow> stageOk team wanted t' st"
  by (cases st) (auto simp: rowsOk_def)

lemma systemInv_change:
  assumes "systemInv cfgs batches s" "\<And>q. q \<noteq> r \<Longrightarrow> sysStage s' q = sysStage s q"
    and "distinct (sysTable s')" "set (sysTable s) \<subseteq> set (sysTable s')" "sysCache s' \<subseteq> set (sysTable s')"
    and "stageOk (TeamID (cfgs r)) (wantedKeys batches r) (set (sysTable s')) (sysStage s' r)"
    and "set (sysTable s') = set (sysTable s) \<or> sysLock s = Some r"
    and "if critical (sysStage s' r) then sysLock s' = Some r \<and> (sysLock s = None \<or> sysLock s = Some r)
         else sysLock s' = (if critical (sysStage s r) then None else sysLock s)"
  shows "systemInv cfgs batches s'"
proof -
  note inv = systemInvD [OF assms(1)]
  have "stageOk (TeamID (cfgs q)) (wantedKeys batches q) (set (sysTable s')) (sysStage s' q)" for q
  proof (cases "set (sysTable s') = set (sysTable s) \<or> q = r")
    case True
    then show ?thesis using inv(4) [of q] assms(2) [of q] assms(6) by (cases "q = r") auto
  next
    case False
    then have "\<not> critical (sysStage s q)"
      using assms(7) inv(3) [of q] by auto
    then show ?thesis using False stageOk_mono [OF inv(4)] assms(2) [of q] assms(4) by simp
  qed
  moreover have "sysLock s' = Some q \<longleftrightarrow> critical (sysStage s' q)" for q
    using assms(2) [of q] assms(8) inv(3) [of q] inv(3) [of r] by (cases "q = r") (auto split: if_splits)
  ultimately show ?thesis
    using assms(3,5) by (simp add: systemInv_def)
qed

lemma step_fields [simp]:
  "sysTable (proceed r st s) = sysTable s" "sysCache (proceed r st s) = sysCache s" "sysLock (proceed r st s) = sysLock s"
  "sysStage (proceed r st s) q = (if q = r then st else sysStage s q)"
  "sysTable (leave r st s) = sysTable s" "sysCache (leave r st s) = sysCache s" "sysLock (leave r st s) = None"
  "sysStage (leave r st s) q = (if q = r then st else sysStage s q)"
  "sysTable (continueWith r rows f s) = sysTable s" "sysCache (continueWith r rows f s) = sysCache s"
  "sysLock (continueWith r rows f s) = sysLock s"
  "sysStage (continueWith r rows f s) q = (if q = r then if rows = [] then Finished else f rows else sysStage s q)"
  "sysTable (continueLocked r rows f s) = sysTable s" "sysCache (continueLocked r rows f s) = sysCache s"
  "sysLock (continueLocked r rows f s) = (if rows = [] then None else sysLock s)"
  "sysStage (continueLocked r rows f s) q = (if q = r then if rows = [] then Finished else f rows else sysStage s q)"
  "sysTable (learn cfg known s) = sysTable s" "sysCache (learn cfg known s) = sysCache s \<union> Pair (TeamID cfg) ` known"
  "sysLock (learn cfg known s) = sysLock s" "sysStage (learn cfg known s) = sysStage s"
  by (simp_all add: proceed_def leave_def continueWith_def continueLocked_def learn_def cacheLookup_def)

lemma rowsOk_less:
  assumes "rowsOk team wanted table rows" "\<And>row. row \<in> set rows \<Longrightarrow> \<not> P row \<Longrightarrow> rowKey row \<in> table"
  shows "rowsOk team wanted table (filter P rows)"
proof -
  have "table \<union> rowKey ` set rows \<subseteq> table \<union> rowKey ` set (filter P rows)"
  proof (intro Un_least image_subsetI)
    show "rowKey row \<in> table \<union> rowKey ` set (filter P rows)" if "row \<in> set rows" for row
      using assms(2) that by (cases "P row") auto
  qed simp
  then have "wanted \<subseteq> table \<union> rowKey ` set (filter P rows)"
    using assms(1) unfolding rowsOk_def by blast
  then show ?thesis
    using assms(1) unfolding rowsOk_def by (simp add: distinct_map_filter)
qed

lemma rowsOk_filterCached:
  "rowsOk team wanted table rows \<Longrightarrow> cache \<subseteq> table \<Longrightarrow> rowsOk team wanted table (filterCachedSeriesRows (Some cache) rows)"
  by (auto simp: filterCachedSeriesRows_def intro: rowsOk_less)

lemma unknownRows_eq:
  assumes "rowsOk team wanted table rows" "known \<subseteq> set (map srID rows)"
  shows "unknownRows rows known = filter (\<lambda>row. srID row \<notin> known) rows"
proof (cases "card known = length rows \<and> known \<noteq> {}")
  case True
  then have "card known = card (set (map srID rows))"
    using assms(1) distinct_card [of "map srID rows"] by (simp add: rowsOk_def)
  then have "known = set (map srID rows)"
    using card_subset_eq [OF _ assms(2)] by simp
  then show ?thesis using True by (simp add: unknownRows_def)
qed (auto simp: unknownRows_def)

lemma rowsOk_unknown:
  assumes "rowsOk team wanted table rows" "known \<subseteq> set (map srID rows)" "Pair team ` known \<subseteq> table"
  shows "rowsOk team wanted table (unknownRows rows known)"
proof -
  have "rowKey row \<in> table" if "row \<in> set rows" "srID row \<in> known" for row
    using assms(1,3) that by (force simp: rowsOk_def rowKey_def)
  then show ?thesis
    unfolding unknownRows_eq [OF assms(1,2)] by (intro rowsOk_less [OF assms(1)]) simp
qed

lemma unknownRows_fresh:
  assumes "rowsOk team wanted table rows" "known = {i \<in> set (map srID rows). (team, i) \<in> table}"
  shows "rowKey ` set (unknownRows rows known) \<inter> table = {}"
proof -
  have k: "known \<subseteq> set (map srID rows)" using assms(2) by auto
  show ?thesis
    using assms(1) unfolding unknownRows_eq [OF assms(1) k] by (auto simp: rowsOk_def rowKey_def assms(2))
qed

lemma rowsOk_Nil: "rowsOk team wanted table [] \<Longrightarrow> wanted \<subseteq> table"
  by (simp add: rowsOk_def)

lemma rowsOk_keys: "rowsOk team wanted table rows \<Longrightarrow> distinct (map rowKey rows) \<and> wanted \<subseteq> table \<union> rowKey ` set rows"
  unfolding rowsOk_def distinct_map by (auto simp: rowKey_def inj_on_def)

lemma rowsOk_batch: "batchesOk cfgs batches \<Longrightarrow> rowsOk (TeamID (cfgs r)) (wantedKeys batches r) table (seriesRecords (batches r))"
  by (simp add: batchesOk_def rowsOk_def)

lemma stageOk_after:
  assumes "rowsOk team wanted table rows"
  shows "stageOk team wanted table (if rows = [] then Finished else Looking rows)"
    "stageOk team wanted table (if rows = [] then Finished else Waiting rows)"
    "stageOk team wanted table (if rows = [] then Finished else Rechecking rows)"
    "rowKey ` set rows \<inter> table = {} \<Longrightarrow> stageOk team wanted table (if rows = [] then Finished else Encoding rows)"
  using assms rowsOk_Nil [of team wanted table] by (cases "rows = []"; simp)+

lemma idsInTable_sound:
  "idsInTable table team rows \<subseteq> set (map srID rows)" "Pair team ` idsInTable table team rows \<subseteq> set table"
  by (auto simp: idsInTable_def)

lemma requestStep_inv:
  assumes "requestStep h isPrint cfgs batches r s s'" "systemInv cfgs batches s" "batchesOk cfgs batches"
  shows "systemInv cfgs batches s'"
proof (rule systemInv_change [OF assms(2), where r = r])
  note inv = systemInvD [OF assms(2)]
  note here = inv(4) [of r]
  note cached = rowsOk_filterCached [OF _ inv(2)]
  show "sysStage s' q = sysStage s q" if "q \<noteq> r" for q
    using assms(1) that by cases simp_all
  show "set (sysTable s) \<subseteq> set (sysTable s')"
    using assms(1) by cases auto
  show "set (sysTable s') = set (sysTable s) \<or> sysLock s = Some r"
    using assms(1) inv(3) [of r] by cases auto
  show "if critical (sysStage s' r) then sysLock s' = Some r \<and> (sysLock s = None \<or> sysLock s = Some r)
      else sysLock s' = (if critical (sysStage s r) then None else sysLock s)"
    using assms(1) inv(3) [of r] by cases auto
  show "distinct (sysTable s')"
    using assms(1) inv(1) here by cases auto
  show "sysCache s' \<subseteq> set (sysTable s')"
    using assms(1) inv(2) here by cases (auto simp: cacheKnownSeriesRows_def)
  show "stageOk (TeamID (cfgs r)) (wantedKeys batches r) (set (sysTable s')) (sysStage s' r)"
    using assms(1)
  proof cases
    case filterCached
    then show ?thesis using stageOk_after(1) [OF cached [OF rowsOk_batch [OF assms(3)]]] by simp
  next
    case (learnKnown rows known)
    then have "rowsOk (TeamID (cfgs r)) (wantedKeys batches r) (set (sysTable s)) (unknownRows rows known)"
      using here rowsOk_unknown by simp
    then show ?thesis using learnKnown stageOk_after(2) by simp
  next
    case (refilter rows)
    then show ?thesis using here stageOk_after(3) [OF cached] by simp
  next
    case (relearn rows known)
    then have r: "rowsOk (TeamID (cfgs r)) (wantedKeys batches r) (set (sysTable s)) rows"
      "known = {i \<in> set (map srID rows). (TeamID (cfgs r), i) \<in> set (sysTable s)}"
      using here by simp_all
    then have "rowsOk (TeamID (cfgs r)) (wantedKeys batches r) (set (sysTable s)) (unknownRows rows known)"
      by (intro rowsOk_unknown) auto
    then show ?thesis using relearn stageOk_after(4) unknownRows_fresh [OF r] by simp
  next
    case (encode rows rows')
    then have k: "map rowKey rows' = map rowKey rows" "rowKey ` set rows' = rowKey ` set rows"
      using encodeNewRows_keys [OF encode(3)] by (metis set_map)+
    have "rowsOk (TeamID (cfgs r)) (wantedKeys batches r) (set (sysTable s)) rows"
      "rowKey ` set rows \<inter> set (sysTable s) = {}"
      using here encode by simp_all
    then show ?thesis
      using rowsOk_keys [of "TeamID (cfgs r)" "wantedKeys batches r" "set (sysTable s)" rows] by (simp add: encode k)
  next
    case (lookup rows)
    then show ?thesis using here idsInTable_sound [where table = "sysTable s"] by simp
  next
    case (recheck rows)
    then show ?thesis using here by (simp add: idsInTable_def)
  next
    case (insert rows)
    then show ?thesis using here by auto
  next
    case (remember rows)
    then show ?thesis using here by simp
  qed (use here in simp_all)
qed

section \<open>Runs\<close>

lemma startSystem_inv:
  "distinct table \<Longrightarrow> cache \<subseteq> set table \<Longrightarrow> systemInv cfgs batches (startSystem table cache)"
  by (simp add: systemInv_def startSystem_def)

lemma run_inv:
  "(systemStep h isPrint cfgs batches R)\<^sup>*\<^sup>* s s' \<Longrightarrow> systemInv cfgs batches s \<Longrightarrow> batchesOk cfgs batches \<Longrightarrow> systemInv cfgs batches s'"
  by (induction rule: rtranclp_induct) (auto simp: systemStep_def intro: requestStep_inv)

lemma requestStep_others: "requestStep h isPrint cfgs batches r s s' \<Longrightarrow> q \<noteq> r \<Longrightarrow> sysStage s' q = sysStage s q"
  by (induction rule: requestStep.induct) simp_all

lemma run_others:
  "(systemStep h isPrint cfgs batches R)\<^sup>*\<^sup>* s s' \<Longrightarrow> q \<notin> R \<Longrightarrow> sysStage s' q = sysStage s q"
proof (induction rule: rtranclp_induct)
  case (step u v)
  then obtain r where "r \<in> R" "requestStep h isPrint cfgs batches r u v" by (auto simp: systemStep_def)
  then show ?case using requestStep_others [of h isPrint cfgs batches r u v q] step by fastforce
qed simp

text \<open>How many steps a request has left at most.\<close>

fun remaining :: "stage \<Rightarrow> nat" where
  "remaining Arrived = 10" | "remaining (Looking rows) = 9" | "remaining (LookedUp rows known) = 8"
| "remaining (Waiting rows) = 7" | "remaining (Locked rows) = 6" | "remaining (Rechecking rows) = 5"
| "remaining (Rechecked rows known) = 4" | "remaining (Encoding rows) = 3" | "remaining (Inserting rows) = 2"
| "remaining (Inserted rows) = 1" | "remaining Finished = 0" | "remaining Failed = 0"

lemma requestStep_remaining: "requestStep h isPrint cfgs batches r s s' \<Longrightarrow> remaining (sysStage s' r) < remaining (sysStage s r)"
  by (induction rule: requestStep.induct) simp_all

lemma systemStep_remaining:
  assumes "systemStep h isPrint cfgs batches R s s'" "finite R"
  shows "(\<Sum>r\<in>R. remaining (sysStage s' r)) < (\<Sum>r\<in>R. remaining (sysStage s r))"
proof -
  obtain r where r: "r \<in> R" "requestStep h isPrint cfgs batches r s s'"
    using assms(1) by (auto simp: systemStep_def)
  show ?thesis
  proof (rule sum_strict_mono_ex1 [OF assms(2)])
    show "\<forall>q\<in>R. remaining (sysStage s' q) \<le> remaining (sysStage s q)"
      using requestStep_remaining [OF r(2)] requestStep_others [OF r(2)] by (metis le_less order_refl)
    show "\<exists>q\<in>R. remaining (sysStage s' q) < remaining (sysStage s q)"
      using requestStep_remaining [OF r(2)] r(1) by blast
  qed
qed

lemma run_length:
  "(systemStep h isPrint cfgs batches R ^^ n) s s' \<Longrightarrow> finite R
    \<Longrightarrow> n + (\<Sum>r\<in>R. remaining (sysStage s' r)) \<le> (\<Sum>r\<in>R. remaining (sysStage s r))"
proof (induction n arbitrary: s')
  case (Suc n)
  then obtain u where u: "(systemStep h isPrint cfgs batches R ^^ n) s u" "systemStep h isPrint cfgs batches R u s'" by auto
  then show ?case
    using Suc.IH [OF u(1) Suc.prems(2)] systemStep_remaining [OF u(2) Suc.prems(2)] by linarith
qed simp

text \<open>Only waiting for the mutex can hold up a request.\<close>

lemma requestStep_enabled:
  assumes "sysStage s r \<notin> {Finished, Failed}" "\<forall>rows. sysStage s r = Waiting rows \<longrightarrow> sysLock s = None"
  shows "\<exists>s'. requestStep h isPrint cfgs batches r s s'"
proof (cases "sysStage s r")
  case (Encoding rows)
  then show ?thesis
    by (cases "\<exists>rows'. encodeNewRows h isPrint (batches r) rows = Some (Inr rows')") (blast intro: requestStep.intros)+
qed (use assms in \<open>blast intro: requestStep.intros\<close>)+

lemma systemStep_enabled:
  assumes "systemInv cfgs batches s" "\<forall>q. critical (sysStage s q) \<longrightarrow> q \<in> R"
    and "r \<in> R" "sysStage s r \<notin> {Finished, Failed}"
  shows "\<exists>s'. systemStep h isPrint cfgs batches R s s'"
proof (cases "sysLock s")
  case None
  then show ?thesis
    using requestStep_enabled [OF assms(4)] assms(3) unfolding systemStep_def by blast
next
  case (Some q)
  then have c: "critical (sysStage s q)" using systemInvD(3) [OF assms(1)] by blast
  then have "\<exists>s'. requestStep h isPrint cfgs batches q s s'"
    by (intro requestStep_enabled) auto
  then show ?thesis
    using assms(2) c unfolding systemStep_def by blast
qed

section \<open>A request that runs alone\<close>

text \<open>ClickHouse over a table of keys: the lookup answers from the table, an insert appends the keys
  of its first two columns.\<close>

definition tableClickHouse :: "Config \<Rightarrow> seriesKey list clickhouse" where
  "tableClickHouse cfg = \<lparr>chLookup = (\<lambda>w sql ids. Inr (filter (\<lambda>i. (TeamID cfg, i) \<in> set w) ids)),
     chInsert = (\<lambda>w i. (None, w @ (case niColumns i of U64s teams # U64s ids # _ \<Rightarrow> zip teams ids | _ \<Rightarrow> [])))\<rparr>"

lemma filterNew_alone:
  assumes "filterNewSeriesRows (tableClickHouse cfg) cfg \<lparr>rsWorld = t, rsCache = Some c\<rparr> rows0 = Some (Inr rows', st')"
  defines "rows \<equiv> filterCachedSeriesRows (Some c) rows0"
  shows "(rows = [] \<and> rows' = [] \<and> st' = \<lparr>rsWorld = t, rsCache = Some c\<rparr>)
    \<or> (rows \<noteq> [] \<and> rows' = unknownRows rows (idsInTable t (TeamID cfg) rows)
       \<and> st' = \<lparr>rsWorld = t, rsCache = Some (c \<union> Pair (TeamID cfg) ` idsInTable t (TeamID cfg) rows)\<rparr>)"
proof -
  have "set (filter (\<lambda>i. (TeamID cfg, i) \<in> set t) (map srID rows)) = idsInTable t (TeamID cfg) rows"
    by (auto simp: idsInTable_def)
  then show ?thesis
    using assms(1) unfolding rows_def
    by (auto simp: filterNewSeriesRows_def tableClickHouse_def cacheLookup_def Let_def split: bind_splits if_splits)
qed

lemma insertRemoteSeriesRows_alone:
  assumes "insertRemoteSeriesRows cfg rows = Some ins" "rows \<noteq> []"
  shows "runInsert (tableClickHouse cfg) \<lparr>rsWorld = t, rsCache = c\<rparr> ins = (None, \<lparr>rsWorld = t @ map rowKey rows, rsCache = c\<rparr>)"
proof -
  have "zip (map srTeamID rows) (map srID rows) = map rowKey rows"
    by (simp add: zip_map_fst_snd zip_map1 zip_map2 rowKey_def zip_same_conv_map)
  then show ?thesis
    using assms by (auto simp: insertRemoteSeriesRows_def runInsert_def tableClickHouse_def split: bind_splits)
qed

lemma three_steps: "R a b \<Longrightarrow> R b c \<Longrightarrow> R c d \<Longrightarrow> R\<^sup>*\<^sup>* a d"
  by (rule converse_rtranclp_into_rtranclp [OF _ converse_rtranclp_into_rtranclp [OF _ r_into_rtranclp]])

lemma steps_first_pass:
  assumes "sysStage s r = Arrived" "filterCachedSeriesRows (Some (sysCache s)) (seriesRecords (batches r)) = rows"
    and "idsInTable (sysTable s) (TeamID (cfgs r)) rows = known" "rows \<noteq> []"
  shows "(requestStep h isPrint cfgs batches r)\<^sup>*\<^sup>* s
    (continueWith r (unknownRows rows known) Waiting (learn (cfgs r) known (proceed r (LookedUp rows known) (proceed r (Looking rows) s))))"
proof -
  have "requestStep h isPrint cfgs batches r s (proceed r (Looking rows) s)"
    using filterCached [where s = s and batches = batches and h = h and isPrint = isPrint and cfgs = cfgs, OF assms(1)] assms(2,4) by (simp add: continueWith_def)
  moreover have "requestStep h isPrint cfgs batches r (proceed r (Looking rows) s)
      (proceed r (LookedUp rows known) (proceed r (Looking rows) s))"
    using lookup [where s = "proceed r (Looking rows) s" and r = r and rows = rows and cfgs = cfgs and batches = batches and h = h and isPrint = isPrint] assms(3) by simp
  moreover have "requestStep h isPrint cfgs batches r (proceed r (LookedUp rows known) (proceed r (Looking rows) s))
      (continueWith r (unknownRows rows known) Waiting (learn (cfgs r) known (proceed r (LookedUp rows known) (proceed r (Looking rows) s))))"
    by (rule learnKnown) simp
  ultimately show ?thesis by (rule three_steps)
qed

lemma steps_second_pass:
  assumes "sysStage s r = Locked rows0" "filterCachedSeriesRows (Some (sysCache s)) rows0 = rows"
    and "idsInTable (sysTable s) (TeamID (cfgs r)) rows = known" "rows \<noteq> []"
  shows "(requestStep h isPrint cfgs batches r)\<^sup>*\<^sup>* s
    (continueLocked r (unknownRows rows known) Encoding (learn (cfgs r) known (proceed r (Rechecked rows known) (proceed r (Rechecking rows) s))))"
proof -
  have "requestStep h isPrint cfgs batches r s (proceed r (Rechecking rows) s)"
    using refilter [where s = s and batches = batches and h = h and isPrint = isPrint and cfgs = cfgs, OF assms(1)] assms(2,4) by (simp add: continueLocked_def)
  moreover have "requestStep h isPrint cfgs batches r (proceed r (Rechecking rows) s)
      (proceed r (Rechecked rows known) (proceed r (Rechecking rows) s))"
    using recheck [where s = "proceed r (Rechecking rows) s" and r = r and rows = rows and cfgs = cfgs and batches = batches and h = h and isPrint = isPrint] assms(3) by simp
  moreover have "requestStep h isPrint cfgs batches r (proceed r (Rechecked rows known) (proceed r (Rechecking rows) s))
      (continueLocked r (unknownRows rows known) Encoding (learn (cfgs r) known (proceed r (Rechecked rows known) (proceed r (Rechecking rows) s))))"
    by (rule relearn) simp
  ultimately show ?thesis by (rule three_steps)
qed

lemma steps_insert:
  assumes "sysStage s r = Encoding rows" "encodeNewRows h isPrint (batches r) rows = Some (Inr rows')"
  shows "\<exists>s'. (requestStep h isPrint cfgs batches r)\<^sup>*\<^sup>* s s' \<and> sysTable s' = sysTable s @ map rowKey rows'
    \<and> sysCache s' = sysCache s \<union> set (map rowKey rows') \<and> sysLock s' = None \<and> sysStage s' r = Finished"
proof -
  let ?s1 = "proceed r (Inserting rows') s"
  let ?s2 = "proceed r (Inserted rows') (?s1\<lparr>sysTable := sysTable ?s1 @ map rowKey rows'\<rparr>)"
  let ?s3 = "leave r Finished (?s2\<lparr>sysCache := the (cacheKnownSeriesRows (Some (sysCache ?s2)) rows')\<rparr>)"
  have "requestStep h isPrint cfgs batches r s ?s1" by (rule encode) (use assms in simp_all)
  moreover have "requestStep h isPrint cfgs batches r ?s1 ?s2" by (rule insert) simp
  moreover have "requestStep h isPrint cfgs batches r ?s2 ?s3" by (rule remember) simp
  ultimately have "(requestStep h isPrint cfgs batches r)\<^sup>*\<^sup>* s ?s3" by (rule three_steps)
  then show ?thesis
    by (intro exI [of _ ?s3]) (simp add: cacheKnownSeriesRows_def)
qed

text \<open>The part of a request inside the critical section.\<close>

lemma locked_alone:
  assumes "sysStage s r = Locked rows1"
    and "filterNewSeriesRows (tableClickHouse (cfgs r)) (cfgs r) \<lparr>rsWorld = sysTable s, rsCache = Some (sysCache s)\<rparr> rows1 = Some (Inr rows2, st2)"
    and "rows2 = [] \<Longrightarrow> st = st2"
    and "rows2 \<noteq> [] \<Longrightarrow> \<exists>rows3 ins st3. encodeNewRows h isPrint (batches r) rows2 = Some (Inr rows3)
      \<and> insertRemoteSeriesRows (cfgs r) rows3 = Some ins \<and> runInsert (tableClickHouse (cfgs r)) st2 ins = (None, st3)
      \<and> st = st3\<lparr>rsCache := cacheKnownSeriesRows (rsCache st3) rows3\<rparr>"
  shows "\<exists>s'. (requestStep h isPrint cfgs batches r)\<^sup>*\<^sup>* s s' \<and> rsWorld st = sysTable s' \<and> rsCache st = Some (sysCache s')
    \<and> sysLock s' = None \<and> sysStage s' r = Finished"
proof -
  define rows where "rows = filterCachedSeriesRows (Some (sysCache s)) rows1"
  define known where "known = idsInTable (sysTable s) (TeamID (cfgs r)) rows"
  note alone = filterNew_alone [OF assms(2), folded rows_def, folded known_def]
  show ?thesis
  proof (cases "rows = []")
    case True
    have "requestStep h isPrint cfgs batches r s (leave r Finished s)"
      using refilter [where s = s and batches = batches and h = h and isPrint = isPrint and cfgs = cfgs, OF assms(1)] True
      by (simp add: continueLocked_def rows_def)
    then show ?thesis
      using alone True assms(3) by (intro exI [of _ "leave r Finished s"]) simp
  next
    case False
    define s1 where "s1 = continueLocked r (unknownRows rows known) Encoding
      (learn (cfgs r) known (proceed r (Rechecked rows known) (proceed r (Rechecking rows) s)))"
    have s1: "(requestStep h isPrint cfgs batches r)\<^sup>*\<^sup>* s s1"
      unfolding s1_def by (rule steps_second_pass) (use assms(1) False in \<open>simp_all add: rows_def known_def\<close>)
    have r2: "rows2 = unknownRows rows known" "st2 = \<lparr>rsWorld = sysTable s1, rsCache = Some (sysCache s1)\<rparr>"
      using alone False by (auto simp: s1_def)
    show ?thesis
    proof (cases "rows2 = []")
      case True
      then show ?thesis using s1 r2 assms(3) by (intro exI [of _ s1]) (simp add: s1_def)
    next
      case ne: False
      then obtain rows3 ins st3 where e: "encodeNewRows h isPrint (batches r) rows2 = Some (Inr rows3)"
        "insertRemoteSeriesRows (cfgs r) rows3 = Some ins" "runInsert (tableClickHouse (cfgs r)) st2 ins = (None, st3)"
        "st = st3\<lparr>rsCache := cacheKnownSeriesRows (rsCache st3) rows3\<rparr>"
        using assms(4) by blast
      have "rows3 \<noteq> []" using encodeNewRows_keys [OF e(1)] ne by auto
      from insertRemoteSeriesRows_alone [OF e(2) this] e(3) r2(2)
      have "st3 = \<lparr>rsWorld = sysTable s1 @ map rowKey rows3, rsCache = Some (sysCache s1)\<rparr>" by simp
      moreover have "sysStage s1 r = Encoding rows2" using ne r2(1) by (simp add: s1_def)
      from steps_insert [where s = s1 and r = r and cfgs = cfgs and batches = batches, OF this e(1)] obtain s' where "(requestStep h isPrint cfgs batches r)\<^sup>*\<^sup>* s1 s'"
        "sysTable s' = sysTable s1 @ map rowKey rows3" "sysCache s' = sysCache s1 \<union> set (map rowKey rows3)"
        "sysLock s' = None" "sysStage s' r = Finished" by blast
      ultimately show ?thesis
        using s1 e(4) by (intro exI [of _ s']) (auto simp: cacheKnownSeriesRows_def)
    qed
  qed
qed

section \<open>Properties\<close>

text \<open>C11. However the remote writes of a server interleave, and whatever fails in between, a series is
  entered into the series table once at most, the cache of known series never claims a series
  that the table does not have, one request at a time is in the critical section, and a
  request that has registered its series without an error finds all of them in the table.\<close>

theorem series_registered_once:
  assumes "(systemStep h isPrint cfgs batches R)\<^sup>*\<^sup>* (startSystem table cache) s" "batchesOk cfgs batches"
    and "distinct table" "cache \<subseteq> set table"
  shows "distinct (sysTable s) \<and> sysCache s \<subseteq> set (sysTable s)
    \<and> (\<forall>q r. critical (sysStage s q) \<and> critical (sysStage s r) \<longrightarrow> q = r)
    \<and> (\<forall>r. sysStage s r = Finished \<longrightarrow> rowKey ` set (seriesRecords (batches r)) \<subseteq> set (sysTable s))"
proof -
  have inv: "systemInv cfgs batches s"
    by (rule run_inv [OF assms(1) startSystem_inv [OF assms(3,4)] assms(2)])
  have "q = r" if "critical (sysStage s q)" "critical (sysStage s r)" for q r
    using systemInvD(3) [OF inv, of q] systemInvD(3) [OF inv, of r] that by auto
  moreover have "wantedKeys batches r \<subseteq> set (sysTable s)" if "sysStage s r = Finished" for r
    using systemInvD(4) [OF inv, of r] that by simp
  ultimately show ?thesis
    using systemInvD(1,2) [OF inv] by blast
qed

text \<open>Two requests of the batch of RemoteInsert on an empty table, the first of which has looked up its
  series.\<close>

definition demoLooked :: seriesSystem where
  "demoLooked = proceed 0 (Looking (seriesRecords demoInsertBatch)) (startSystem [] {})"

lemma demoBatches_ok: "batchesOk (\<lambda>_. demoConfig) (\<lambda>_. demoInsertBatch)"
  by (simp add: batchesOk_def demoInsertBatch_def demoConfig_fields)

lemma demoLooked_step: "systemStep sumHash (\<lambda>_. True) (\<lambda>_. demoConfig) (\<lambda>_. demoInsertBatch) {0, 1} (startSystem [] {}) demoLooked"
proof -
  have "requestStep sumHash (\<lambda>_. True) (\<lambda>_. demoConfig) (\<lambda>_. demoInsertBatch) 0 (startSystem [] {})
    (continueWith 0 (filterCachedSeriesRows (Some (sysCache (startSystem [] {}))) (seriesRecords demoInsertBatch)) Looking (startSystem [] {}))"
    by (rule filterCached) (simp add: startSystem_def)
  then show ?thesis
    by (simp add: systemStep_def demoLooked_def continueWith_def filterCachedSeriesRows_def startSystem_def demoInsertBatch_def)
qed

theorem series_registered_once_witness:
  "(systemStep sumHash (\<lambda>_. True) (\<lambda>_. demoConfig) (\<lambda>_. demoInsertBatch) {0, 1})\<^sup>*\<^sup>* (startSystem [] {}) demoLooked
    \<and> distinct (sysTable demoLooked)"
  using series_registered_once [OF r_into_rtranclp [of "systemStep sumHash (\<lambda>_. True) (\<lambda>_. demoConfig) (\<lambda>_. demoInsertBatch) {0, 1}",
      OF demoLooked_step] demoBatches_ok]
    demoLooked_step by simp

text \<open>C12. No deadlock and no endless run: of finitely many requests each takes at most ten steps, and when
  no step is possible any more every one of them has finished or failed.\<close>

theorem requests_end:
  assumes "(systemStep h isPrint cfgs batches R ^^ n) (startSystem table cache) s" "batchesOk cfgs batches"
    and "distinct table" "cache \<subseteq> set table" "finite R"
  shows "n \<le> 10 * card R
    \<and> ((\<nexists>s'. systemStep h isPrint cfgs batches R s s') \<longrightarrow> (\<forall>r\<in>R. sysStage s r = Finished \<or> sysStage s r = Failed))"
proof
  have "(\<Sum>r\<in>R. remaining (sysStage (startSystem table cache) r)) = 10 * card R"
    by (simp add: startSystem_def)
  then show "n \<le> 10 * card R"
    using run_length [OF assms(1,5)] by linarith
  have run: "(systemStep h isPrint cfgs batches R)\<^sup>*\<^sup>* (startSystem table cache) s"
    by (rule relpowp_imp_rtranclp [OF assms(1)])
  have inv: "systemInv cfgs batches s"
    by (rule run_inv [OF run startSystem_inv [OF assms(3,4)] assms(2)])
  have "\<forall>q. critical (sysStage s q) \<longrightarrow> q \<in> R"
    using run_others [OF run] by (force simp: startSystem_def)
  then show "(\<nexists>s'. systemStep h isPrint cfgs batches R s s') \<longrightarrow> (\<forall>r\<in>R. sysStage s r = Finished \<or> sysStage s r = Failed)"
    using systemStep_enabled [OF inv] by blast
qed

theorem requests_end_witness:
  "(systemStep sumHash (\<lambda>_. True) (\<lambda>_. demoConfig) (\<lambda>_. demoInsertBatch) {0, 1} ^^ 1) (startSystem [] {}) demoLooked
    \<and> 1 \<le> 10 * card {0::nat, 1}"
proof -
  have one: "(systemStep sumHash (\<lambda>_. True) (\<lambda>_. demoConfig) (\<lambda>_. demoInsertBatch) {0, 1} ^^ 1) (startSystem [] {}) demoLooked"
    using demoLooked_step by (simp add: eq_OO)
  show ?thesis
    using requests_end [OF one demoBatches_ok] one by simp
qed

text \<open>The steps are those of the code: what the function computes for a request that meets no other one
  and no failure is reached by steps of that request, with the same table and cache, the
  mutex free and the request finished.\<close>

theorem request_alone_refines:
  assumes "insertMissingRemoteSeriesRows h isPrint (tableClickHouse (cfgs r)) (cfgs r)
      \<lparr>rsWorld = sysTable s, rsCache = Some (sysCache s)\<rparr> (batches r) = Some (Inr n, st)"
    and "sysStage s r = Arrived" "sysLock s = None"
  shows "\<exists>s'. (requestStep h isPrint cfgs batches r)\<^sup>*\<^sup>* s s' \<and> rsWorld st = sysTable s' \<and> rsCache st = Some (sysCache s')
    \<and> sysLock s' = None \<and> sysStage s' r = Finished"
proof -
  obtain rows1 st1 where f1: "filterNewSeriesRows (tableClickHouse (cfgs r)) (cfgs r)
      \<lparr>rsWorld = sysTable s, rsCache = Some (sysCache s)\<rparr> (seriesRecords (batches r)) = Some (Inr rows1, st1)"
    using assms(1) by (auto simp: insertMissingRemoteSeriesRows_def split: bind_splits sum.splits)
  define rows where "rows = filterCachedSeriesRows (Some (sysCache s)) (seriesRecords (batches r))"
  define known where "known = idsInTable (sysTable s) (TeamID (cfgs r)) rows"
  note alone = filterNew_alone [OF f1, folded rows_def, folded known_def]
  show ?thesis
  proof (cases "rows = []")
    case True
    then have "st = \<lparr>rsWorld = sysTable s, rsCache = Some (sysCache s)\<rparr>"
      using alone assms(1) f1 by (simp add: insertMissingRemoteSeriesRows_def)
    moreover have "requestStep h isPrint cfgs batches r s (proceed r Finished s)"
      using filterCached [where s = s and batches = batches and h = h and isPrint = isPrint and cfgs = cfgs, OF assms(2)] True
      by (simp add: continueWith_def rows_def)
    ultimately show ?thesis using assms(3) by (intro exI [of _ "proceed r Finished s"]) simp
  next
    case False
    define s1 where "s1 = continueWith r (unknownRows rows known) Waiting
      (learn (cfgs r) known (proceed r (LookedUp rows known) (proceed r (Looking rows) s)))"
    have s1: "(requestStep h isPrint cfgs batches r)\<^sup>*\<^sup>* s s1"
      unfolding s1_def by (rule steps_first_pass) (use assms(2) False in \<open>simp_all add: rows_def known_def\<close>)
    have r1: "rows1 = unknownRows rows known" "st1 = \<lparr>rsWorld = sysTable s1, rsCache = Some (sysCache s1)\<rparr>"
      using alone False by (auto simp: s1_def)
    show ?thesis
    proof (cases "rows1 = []")
      case True
      then have "st = st1"
        using assms(1) f1 by (simp add: insertMissingRemoteSeriesRows_def)
      then show ?thesis using s1 r1 True assms(3) by (intro exI [of _ s1]) (simp add: s1_def)
    next
      case ne: False
      define s2 where "s2 = proceed r (Locked rows1) (s1\<lparr>sysLock := Some r\<rparr>)"
      have "requestStep h isPrint cfgs batches r s1 s2"
        unfolding s2_def by (rule lock) (use r1(1) ne assms(3) in \<open>simp_all add: s1_def\<close>)
      then have s2: "(requestStep h isPrint cfgs batches r)\<^sup>*\<^sup>* s s2" using s1 by simp
      have st1: "st1 = \<lparr>rsWorld = sysTable s2, rsCache = Some (sysCache s2)\<rparr>" using r1(2) by (simp add: s2_def)
      obtain rows2 st2 where f2: "filterNewSeriesRows (tableClickHouse (cfgs r)) (cfgs r) st1 rows1 = Some (Inr rows2, st2)"
        using assms(1) f1 ne by (auto simp: insertMissingRemoteSeriesRows_def split: bind_splits sum.splits)
      have "\<exists>s'. (requestStep h isPrint cfgs batches r)\<^sup>*\<^sup>* s2 s' \<and> rsWorld st = sysTable s' \<and> rsCache st = Some (sysCache s')
          \<and> sysLock s' = None \<and> sysStage s' r = Finished"
      proof (rule locked_alone [where s = s2 and r = r and cfgs = cfgs and batches = batches, OF _ f2 [unfolded st1]])
        show "sysStage s2 r = Locked rows1" by (simp add: s2_def)
        show "rows2 = [] \<Longrightarrow> st = st2" using assms(1) f1 f2 ne by (simp add: insertMissingRemoteSeriesRows_def)
        show "\<exists>rows3 ins st3. encodeNewRows h isPrint (batches r) rows2 = Some (Inr rows3)
            \<and> insertRemoteSeriesRows (cfgs r) rows3 = Some ins \<and> runInsert (tableClickHouse (cfgs r)) st2 ins = (None, st3)
            \<and> st = st3\<lparr>rsCache := cacheKnownSeriesRows (rsCache st3) rows3\<rparr>" if "rows2 \<noteq> []"
          using assms(1) f1 f2 ne that
          by (auto simp: insertMissingRemoteSeriesRows_def split: bind_splits sum.splits prod.splits option.splits)
      qed
      then show ?thesis using s2 by (meson rtranclp_trans)
    qed
  qed
qed

lemma demoBatch_alone:
  "\<exists>n st. insertMissingRemoteSeriesRows sumHash (\<lambda>_. True) (tableClickHouse demoConfig) demoConfig \<lparr>rsWorld = [], rsCache = Some {}\<rparr> demoInsertBatch
     = Some (Inr n, st)"
proof -
  obtain q1 q3 where q: "tableName ''default'' ''metrics_series'' = Some q1" "quoteIdent ''remote_write_series_ids'' = Some q3"
    using demoConfig_tables by blast
  show ?thesis
    by (simp add: insertMissingRemoteSeriesRows_def filterNewSeriesRows_def filterCachedSeriesRows_def demoInsertBatch_def emptyBatch_def
      knownSeriesIDsSQL_def demoConfig_fields q tableClickHouse_def unknownRows_def cacheLookup_def encodeNewRows_def
      labelsJSONFromRemoteWriteLabels_def insertRemoteSeriesRows_def insertInto_def runInsert_def)
qed

theorem request_alone_refines_witness:
  "\<exists>s'. (requestStep sumHash (\<lambda>_. True) (\<lambda>_. demoConfig) (\<lambda>_. demoInsertBatch) 0)\<^sup>*\<^sup>* (startSystem [] {}) s' \<and> sysStage s' 0 = Finished"
proof -
  obtain n st where "insertMissingRemoteSeriesRows sumHash (\<lambda>_. True) (tableClickHouse demoConfig) demoConfig
      \<lparr>rsWorld = sysTable (startSystem [] {}), rsCache = Some (sysCache (startSystem [] {}))\<rparr> demoInsertBatch = Some (Inr n, st)"
    using demoBatch_alone by (auto simp: startSystem_def)
  from request_alone_refines [where cfgs = "\<lambda>_. demoConfig" and batches = "\<lambda>_. demoInsertBatch" and r = 0 and s = "startSystem [] {}", OF this]
  show ?thesis by (auto simp: startSystem_def)
qed

end
