(* ===== verification/Float64.thy ===== *)
theory Float64
  imports GoText "HOL-Library.Log_Nat"
begin

text \<open>
  What the program uses of Go's float64 (IEEE 754 binary64, round to nearest even) and of
  strconv.ParseFloat. A float64 is its bit pattern; a finite one denotes a rational number, and the
  arithmetic rounds the exact rational result. Rounding works on the ratio of two
  natural numbers, so that every operation computes. Go reads no exponent beyond 10000 exactly; the
  model reads all of them, which only matters for a mantissa of thousands of digits.
\<close>

section \<open>Bit patterns\<close>

definition fSign :: "f64 \<Rightarrow> bool" where
  "fSign x \<longleftrightarrow> 2 ^ 63 \<le> unat x"

definition fMagnitude :: "f64 \<Rightarrow> nat" where
  "fMagnitude x = unat x mod 2 ^ 63"

definition fInfBits :: nat where
  "fInfBits = 2047 * 2 ^ 52"

definition mkFloat :: "bool \<Rightarrow> nat \<Rightarrow> f64" where
  "mkFloat s m = of_nat ((if s then 2 ^ 63 else 0) + m)"

definition isNaN :: "f64 \<Rightarrow> bool" where
  "isNaN x \<longleftrightarrow> fInfBits < fMagnitude x"

definition isInf :: "f64 \<Rightarrow> bool" where
  "isInf x \<longleftrightarrow> fMagnitude x = fInfBits"

definition fZero :: "f64 \<Rightarrow> bool" where
  "fZero x \<longleftrightarrow> fMagnitude x = 0"

definition goNaN :: f64 where
  "goNaN = 0x7FF8000000000001"

definition goInf :: "bool \<Rightarrow> f64" where
  "goInf negative = mkFloat negative fInfBits"

section \<open>Comparisons\<close>

text \<open>The key orders the numbers as the floats are ordered: both zeros are 0 and NaN is excluded.\<close>

definition fKey :: "f64 \<Rightarrow> int" where
  "fKey x = (if fSign x then - int (fMagnitude x) else int (fMagnitude x))"

definition fEq :: "f64 \<Rightarrow> f64 \<Rightarrow> bool" where
  "fEq x y \<longleftrightarrow> \<not> isNaN x \<and> \<not> isNaN y \<and> fKey x = fKey y"

definition fLess :: "f64 \<Rightarrow> f64 \<Rightarrow> bool" where
  "fLess x y \<longleftrightarrow> \<not> isNaN x \<and> \<not> isNaN y \<and> fKey x < fKey y"

definition fLessEq :: "f64 \<Rightarrow> f64 \<Rightarrow> bool" where
  "fLessEq x y \<longleftrightarrow> \<not> isNaN x \<and> \<not> isNaN y \<and> fKey x \<le> fKey y"

section \<open>Rounding\<close>

text \<open>A finite magnitude is \<open>mantissa * 2 ^ (exponent - 1074)\<close>.\<close>

definition fMantissa :: "f64 \<Rightarrow> nat" where
  "fMantissa x = (let m = fMagnitude x in if m < 2 ^ 52 then m else 2 ^ 52 + m mod 2 ^ 52)"

definition fExponent :: "f64 \<Rightarrow> nat" where
  "fExponent x = (let m = fMagnitude x in if m < 2 ^ 52 then 0 else m div 2 ^ 52 - 1)"

definition nearestEven :: "nat \<Rightarrow> nat \<Rightarrow> nat" where
  "nearestEven n d = (let q = n div d; r = n mod d in
     if d < 2 * r \<or> (2 * r = d \<and> odd q) then q + 1 else q)"

text \<open>The bits of the magnitude \<open>n / d * 2 ^ (-1074)\<close>, for a positive \<open>d\<close>. With \<open>u\<close> the exponent of the last
  place, the rounded mantissa may be \<open>2 ^ 53\<close>; the sum carries it into the exponent.\<close>

definition lastPlace :: "nat \<Rightarrow> nat \<Rightarrow> nat" where
  "lastPlace n d = (let q = n div d in if q < 2 ^ 53 then 0 else nat (bitlen (int q)) - 53)"

definition roundBits :: "nat \<Rightarrow> nat \<Rightarrow> nat" where
  "roundBits n d = (let u = lastPlace n d in min fInfBits (u * 2 ^ 52 + nearestEven n (d * 2 ^ u)))"

definition fRound :: "bool \<Rightarrow> nat \<Rightarrow> nat \<Rightarrow> f64" where
  "fRound s n d = mkFloat s (roundBits n d)"

section \<open>Arithmetic\<close>

text \<open>The exact value of a finite float, in units of \<open>2 ^ (-1074)\<close>.\<close>

definition fUnits :: "f64 \<Rightarrow> int" where
  "fUnits x = (if fSign x then - 1 else 1) * int (fMantissa x * 2 ^ fExponent x)"

definition fNeg :: "f64 \<Rightarrow> f64" where
  "fNeg x = mkFloat (\<not> fSign x) (fMagnitude x)"

definition fAdd :: "f64 \<Rightarrow> f64 \<Rightarrow> f64" where
  "fAdd x y =
     (if isNaN x \<or> isNaN y then goNaN
      else if isInf x then (if isInf y \<and> fSign x \<noteq> fSign y then goNaN else x)
      else if isInf y then y
      else let s = fUnits x + fUnits y in
        if s = 0 then mkFloat (fSign x \<and> fSign y) 0 else fRound (s < 0) (nat \<bar>s\<bar>) 1)"

definition fSub :: "f64 \<Rightarrow> f64 \<Rightarrow> f64" where
  "fSub x y = fAdd x (if isNaN y then y else fNeg y)"

definition fMul :: "f64 \<Rightarrow> f64 \<Rightarrow> f64" where
  "fMul x y =
     (let s = fSign x \<noteq> fSign y in
      if isNaN x \<or> isNaN y then goNaN
      else if isInf x \<or> isInf y then (if fZero x \<or> fZero y then goNaN else goInf s)
      else fRound s (fMantissa x * fMantissa y * 2 ^ (fExponent x + fExponent y)) (2 ^ 1074))"

definition fDiv :: "f64 \<Rightarrow> f64 \<Rightarrow> f64" where
  "fDiv x y =
     (let s = fSign x \<noteq> fSign y in
      if isNaN x \<or> isNaN y then goNaN
      else if isInf x then (if isInf y then goNaN else goInf s)
      else if isInf y then mkFloat s 0
      else if fZero y then (if fZero x then goNaN else goInf s)
      else fRound s (fMantissa x * 2 ^ fExponent x * 2 ^ 1074) (fMantissa y * 2 ^ fExponent y))"

definition fOfInt :: "int \<Rightarrow> f64" where
  "fOfInt i = fRound (i < 0) (nat \<bar>i\<bar> * 2 ^ 1074) 1"

text \<open>int64(x) truncates. Go leaves the result open when it does not fit; on amd64 it is the least int64.\<close>

definition fToInt64 :: "f64 \<Rightarrow> int" where
  "fToInt64 x =
     (let m = int (fMantissa x * 2 ^ fExponent x div 2 ^ 1074); i = (if fSign x then - m else m) in
      if isNaN x \<or> isInf x \<or> \<not> in_i64 i then - (2 ^ 63) else i)"

definition fFloor :: "f64 \<Rightarrow> int" where
  "fFloor x = fUnits x div 2 ^ 1074"

section \<open>strconv.ParseFloat\<close>

text \<open>Digits with an optional point and underscores: the value of the digits, how many stand
  after the point, whether there was a digit, and the rest of the text.\<close>

definition digitValue :: "char \<Rightarrow> nat option" where
  "digitValue c = (let n = of_char c in
     if 48 \<le> n \<and> n \<le> 57 then Some (n - 48)
     else if 97 \<le> n \<and> n \<le> 102 then Some (n - 87)
     else if 65 \<le> n \<and> n \<le> 70 then Some (n - 55) else None)"

definition digitIn :: "nat \<Rightarrow> char \<Rightarrow> nat option" where
  "digitIn base c = (case digitValue c of Some v \<Rightarrow> if v < base then Some v else None | None \<Rightarrow> None)"

fun readMantissa :: "nat \<Rightarrow> string \<Rightarrow> nat \<times> nat \<times> bool \<times> bool \<Rightarrow> (nat \<times> nat \<times> bool) \<times> string" where
  "readMantissa base [] (m, fr, dot, digits) = ((m, fr, digits), [])"
| "readMantissa base (c # s) (m, fr, dot, digits) =
     (if c = CHR ''_'' then readMantissa base s (m, fr, dot, digits)
      else if c = CHR ''.'' \<and> \<not> dot then readMantissa base s (m, fr, True, digits)
      else case digitIn base c of
        Some v \<Rightarrow> readMantissa base s (m * base + v, (if dot then fr + 1 else fr), dot, True)
      | None \<Rightarrow> ((m, fr, digits), c # s))"

fun readExponent :: "string \<Rightarrow> nat \<Rightarrow> nat \<times> string" where
  "readExponent [] e = (e, [])"
| "readExponent (c # s) e = (if c = CHR ''_'' then readExponent s e
     else case digitIn 10 c of Some v \<Rightarrow> readExponent s (e * 10 + v) | None \<Rightarrow> (e, c # s))"

text \<open>underscoreOK: an underscore only between digits, or after the prefix of the base. The state is the
  kind of the last character: start, digit or prefix, underscore, other.\<close>

fun underscoreLoop :: "bool \<Rightarrow> nat \<Rightarrow> string \<Rightarrow> bool" where
  "underscoreLoop hex i [] = (i \<noteq> 2)"
| "underscoreLoop hex i (c # s) =
     (if digitIn (if hex then 16 else 10) c \<noteq> None then underscoreLoop hex 1 s
      else if c = CHR ''_'' then i = 1 \<and> underscoreLoop hex 2 s
      else i \<noteq> 2 \<and> underscoreLoop hex 3 s)"

definition lowerAscii :: "char \<Rightarrow> char" where
  "lowerAscii c = (let n = of_char c in if 65 \<le> n \<and> n \<le> (90 :: nat) then char_of (n + 32) else c)"

definition underscoreOK :: "string \<Rightarrow> bool" where
  "underscoreOK s0 = (let s = (case s0 of c # t \<Rightarrow> if c = CHR ''-'' \<or> c = CHR ''+'' then t else s0 | [] \<Rightarrow> []) in
     case s of c # d # t \<Rightarrow> if c = CHR ''0'' \<and> lowerAscii d \<in> {CHR ''b'', CHR ''o'', CHR ''x''}
         then underscoreLoop (lowerAscii d = CHR ''x'') 1 t else underscoreLoop False 0 s
     | _ \<Rightarrow> underscoreLoop False 0 s)"

definition specialFloat :: "string \<Rightarrow> f64 option" where
  "specialFloat s = (let (neg, sgn, t) = (case s of c # t \<Rightarrow> if c = CHR ''-'' then (True, True, t) else if c = CHR ''+''
       then (False, True, t) else (False, False, s) | [] \<Rightarrow> (False, False, []));
     l = map lowerAscii t in
     if l = ''inf'' \<or> l = ''infinity'' then Some (goInf neg)
     else if l = ''nan'' \<and> \<not> sgn then Some goNaN else None)"

text \<open>The exponent of the text after the mantissa: None for a syntax error.\<close>

definition parseExponent :: "bool \<Rightarrow> string \<Rightarrow> int option" where
  "parseExponent hex rest = (case rest of
     [] \<Rightarrow> if hex then None else Some 0
   | c # t \<Rightarrow> if lowerAscii c \<noteq> (if hex then CHR ''p'' else CHR ''e'') then None
       else let (neg, u) = (case t of d # u \<Rightarrow> if d = CHR ''-'' then (True, u) else if d = CHR ''+'' then (False, u) else (False, t)
                            | [] \<Rightarrow> (False, [])) in
         case u of [] \<Rightarrow> None
         | d # _ \<Rightarrow> if digitIn 10 d = None then None
             else let (e, left) = readExponent u 0 in
               if left \<noteq> [] then None else Some (if neg then - int e else int e))"

text \<open>The value of \<open>m * base ^ e\<close> in units; a result of infinite magnitude is a range error.\<close>

definition scaleRound :: "bool \<Rightarrow> nat \<Rightarrow> nat \<Rightarrow> int \<Rightarrow> f64 option" where
  "scaleRound neg m base e = (let f = (if m = 0 then mkFloat neg 0
       else if 0 \<le> e then fRound neg (m * base ^ nat e * 2 ^ 1074) 1
       else fRound neg (m * 2 ^ 1074) (base ^ nat (- e))) in
     if isInf f then None else Some f)"

definition parseFloat :: "string \<Rightarrow> f64 option" where
  "parseFloat s = (case specialFloat s of Some f \<Rightarrow> Some f
   | None \<Rightarrow>
     let (neg, t) = (case s of c # t \<Rightarrow> if c = CHR ''-'' then (True, t) else if c = CHR ''+'' then (False, t) else (False, s)
                     | [] \<Rightarrow> (False, []));
         hex = (case t of c # d # _ # _ \<Rightarrow> c = CHR ''0'' \<and> lowerAscii d = CHR ''x'' | _ \<Rightarrow> False);
         ((m, fr, digits), rest) = readMantissa (if hex then 16 else 10) (if hex then drop 2 t else t) (0, 0, False, False) in
     if \<not> digits then None
     else case parseExponent hex rest of None \<Rightarrow> None
       | Some e \<Rightarrow> if CHR ''_'' \<in> set s \<and> \<not> underscoreOK s then None
           else if hex then scaleRound neg m 2 (e - 4 * int fr) else scaleRound neg m 10 (e - int fr))"

section \<open>math.Mod and math.Sqrt\<close>

text \<open>The remainder has the sign of the dividend.\<close>

definition fMod :: "f64 \<Rightarrow> f64 \<Rightarrow> f64" where
  "fMod x y =
     (if fZero y \<or> isInf x \<or> isNaN x \<or> isNaN y then goNaN
      else if isInf y then x
      else fRound (fSign x) (nat \<bar>fUnits x\<bar> mod nat \<bar>fUnits y\<bar>) 1)"

fun natSqrt :: "nat \<Rightarrow> nat" where
  "natSqrt n = (if n = 0 then 0 else let r = 2 * natSqrt (n div 4) in if (r + 1) * (r + 1) \<le> n then r + 1 else r)"

declare natSqrt.simps [simp del]

text \<open>The root has at least 537 bits in units, so one bit for its inexactness is enough to round it.\<close>

definition fSqrt :: "f64 \<Rightarrow> f64" where
  "fSqrt x =
     (if isNaN x then goNaN
      else if fZero x then x
      else if fSign x then goNaN
      else if isInf x then x
      else let n = nat (fUnits x) * 2 ^ 1074; r = natSqrt n in
        fRound False (2 * r + (if r * r = n then 0 else 1)) 2)"

lemma natSqrt_bounds: "natSqrt n * natSqrt n \<le> n \<and> n < (natSqrt n + 1) * (natSqrt n + 1)"
proof (induction n rule: natSqrt.induct)
  case (1 n)
  show ?case
  proof (cases "n = 0")
    case False
    define m where "m = natSqrt (n div 4)"
    have "m * m \<le> n div 4" "n div 4 < (m + 1) * (m + 1)" using 1 [OF False] by (simp_all add: m_def)
    then have lo: "4 * (m * m) \<le> n" and hi: "n < 4 * ((m + 1) * (m + 1))" by linarith+
    have eq: "natSqrt n = (if (2 * m + 1) * (2 * m + 1) \<le> n then 2 * m + 1 else 2 * m)"
      using False by (simp add: natSqrt.simps [of n] Let_def m_def)
    show ?thesis
    proof (cases "(2 * m + 1) * (2 * m + 1) \<le> n")
      case True
      then show ?thesis using hi unfolding eq by (simp add: algebra_simps)
    next
      case False
      then show ?thesis using lo unfolding eq by (simp add: algebra_simps)
    qed
  qed (simp add: natSqrt.simps)
qed

text \<open>The root is the greatest natural number whose square fits.\<close>

lemma natSqrt_eq: "natSqrt n = r \<longleftrightarrow> r * r \<le> n \<and> n < (r + 1) * (r + 1)"
proof
  assume "r * r \<le> n \<and> n < (r + 1) * (r + 1)"
  then have "r < natSqrt n + 1" "natSqrt n < r + 1"
    using natSqrt_bounds [of n] by (metis le_less_trans mult_le_mono not_le)+
  then show "natSqrt n = r" by simp
qed (use natSqrt_bounds [of n] in auto)

section \<open>Whole numbers are exact\<close>

lemma bitlen_normal:
  assumes "2 ^ 52 \<le> m" "m < (2 ^ 53 :: nat)"
  shows "bitlen (int m) = 53"
proof -
  have p: "0 < int m" using assms(1) by simp
  have b: "2 ^ nat (bitlen (int m) - 1) \<le> m" "m < 2 ^ nat (bitlen (int m))"
    using bitlen_bounds [OF p] by (simp_all add: of_nat_power [symmetric] del: of_nat_power)
  have "1 \<le> bitlen (int m)" using p bitlen_eq_zero_iff [of "int m"] bitlen_nonneg [of "int m"] by linarith
  moreover have "nat (bitlen (int m) - 1) < 53"
    using b(1) assms(2) power_less_imp_less_exp [of "2 :: nat" "nat (bitlen (int m) - 1)" 53] by linarith
  moreover have "52 < nat (bitlen (int m))"
    using b(2) assms(1) power_less_imp_less_exp [of "2 :: nat" 52 "nat (bitlen (int m))"] by linarith
  ultimately show ?thesis by linarith
qed

lemma nearestEven_exact: "0 < d \<Longrightarrow> nearestEven (m * d) d = m"
  by (simp add: nearestEven_def Let_def)

lemma roundBits_normal:
  assumes "2 ^ 52 \<le> m" "m < 2 ^ 53" "u \<le> 2000"
  shows "roundBits (m * 2 ^ u) 1 = u * 2 ^ 52 + m"
proof -
  have "lastPlace (m * 2 ^ u) 1 = u"
  proof (cases "m * 2 ^ u < 2 ^ 53")
    case True
    have "u = 0"
    proof (rule ccontr)
      assume "u \<noteq> 0"
      then have "2 ^ 1 \<le> (2 :: nat) ^ u" by (intro power_increasing) simp_all
      then have "m * 2 ^ 1 \<le> m * 2 ^ u" by (rule mult_le_mono2)
      moreover have "(2 :: nat) ^ 53 \<le> m * 2 ^ 1" using assms(1) by simp
      ultimately show False using True by linarith
    qed
    then show ?thesis using True by (simp add: lastPlace_def)
  next
    case False
    have "bitlen (int (m * 2 ^ u)) = 53 + int u"
      using bitlen_pow2 [of "int m" u] bitlen_normal [OF assms(1,2)] assms(1) by simp
    then show ?thesis using False by (simp add: lastPlace_def Let_def)
  qed
  moreover have "u * 2 ^ 52 + m \<le> fInfBits"
  proof -
    have "u * 2 ^ 52 \<le> 2000 * 2 ^ 52" using assms(3) by (intro mult_le_mono) simp_all
    then show ?thesis using assms(2) by (simp add: fInfBits_def)
  qed
  ultimately show ?thesis by (simp add: roundBits_def Let_def nearestEven_exact)
qed

lemma normal_float:
  assumes "2 ^ 52 \<le> m" "m < 2 ^ 53" "u \<le> 2000" and x_def: "x = mkFloat s (u * 2 ^ 52 + m)"
  shows "fMagnitude x = u * 2 ^ 52 + m" "fSign x = s" "fMantissa x = m" "fExponent x = u" "\<not> isNaN x" "\<not> isInf x"
proof -
  have "u * 2 ^ 52 \<le> 2000 * 2 ^ 52" using assms(3) by (intro mult_le_mono) simp_all
  then have M: "u * 2 ^ 52 + m < 2001 * 2 ^ 52 + 2 ^ 52" using assms(2) by simp
  then have "(if s then 2 ^ 63 else 0) + (u * 2 ^ 52 + m) < (2 ^ 64 :: nat)" by simp
  moreover have "unat (of_nat k :: 64 word) = k" if "k < 2 ^ 64" for k using that by (simp add: unat_of_nat)
  ultimately have un: "unat x = (if s then 2 ^ 63 else 0) + (u * 2 ^ 52 + m)"
    unfolding x_def mkFloat_def by blast
  show mag: "fMagnitude x = u * 2 ^ 52 + m" using un M by (simp add: fMagnitude_def)
  show "fSign x = s" using un M by (simp add: fSign_def)
  have r: "u * 2 ^ 52 + m = (u + 1) * 2 ^ 52 + (m - 2 ^ 52)" "m - 2 ^ 52 < 2 ^ 52" using assms(1,2) by simp_all
  have d: "(u * 2 ^ 52 + m) div 2 ^ 52 = u + 1" "(u * 2 ^ 52 + m) mod 2 ^ 52 = m - 2 ^ 52"
    unfolding r(1) using r(2) by (simp_all only: div_mult_self3 mod_mult_self3 div_less mod_less add_0_right power_not_zero zero_neq_numeral not_False_eq_True)
  have "\<not> u * 2 ^ 52 + m < 2 ^ 52" using assms(1) by linarith
  then show "fMantissa x = m" "fExponent x = u" using assms(1) d by (simp_all add: fMantissa_def fExponent_def mag Let_def)
  show "\<not> isNaN x" "\<not> isInf x" using M by (simp_all add: isNaN_def isInf_def mag fInfBits_def)
qed

text \<open>A whole number up to \<open>2 ^ 53\<close> is its mantissa shifted.\<close>

lemma whole_normal:
  assumes "0 < a" "a \<le> (2 ^ 53 :: nat)"
  obtains m u where "a * 2 ^ 1074 = m * 2 ^ u" "2 ^ 52 \<le> m" "m < 2 ^ 53" "u \<le> 2000"
proof (cases "a = 2 ^ 53")
  case True
  then have "a * 2 ^ 1074 = 2 ^ 52 * 2 ^ 1075" by (simp flip: power_add)
  then show ?thesis using that [of "2 ^ 52" 1075] by simp
next
  case False
  define e where "e = nat (bitlen (int a))"
  have p: "0 < int a" using assms(1) by simp
  have "1 \<le> bitlen (int a)" using p bitlen_eq_zero_iff [of "int a"] bitlen_nonneg [of "int a"] by linarith
  then have "nat (bitlen (int a) - 1) = e - 1" "0 < e" unfolding e_def by linarith+
  then have b: "2 ^ (e - 1) \<le> a" "a < 2 ^ e"
    using bitlen_bounds [OF p] by (simp_all add: e_def of_nat_power [symmetric] del: of_nat_power)
  have "a < 2 ^ 53" using False assms(2) by linarith
  then have e: "e \<le> 53" using b(1) power_less_imp_less_exp [of "2 :: nat" "e - 1" 53] by linarith
  define m where "m = a * 2 ^ (53 - e)"
  have "a * 2 ^ 1074 = m * 2 ^ (e + 1021)" using e by (simp add: m_def flip: power_add)
  moreover have "2 ^ (e - 1) * 2 ^ (53 - e) \<le> m" unfolding m_def using b(1) by (rule mult_le_mono1)
  then have "2 ^ 52 \<le> m" using e \<open>0 < e\<close> by (simp flip: power_add)
  moreover have "m < 2 ^ e * 2 ^ (53 - e)" unfolding m_def using b(2) by simp
  then have "m < 2 ^ 53" using e by (simp flip: power_add)
  moreover have "e + 1021 \<le> 2000" using e by simp
  ultimately show ?thesis by (rule that)
qed

lemma fOfInt_0: "fOfInt 0 = 0"
proof -
  have "roundBits 0 1 = 0" by (simp add: roundBits_def lastPlace_def nearestEven_def)
  then show ?thesis by (simp only: fOfInt_def fRound_def abs_zero nat_0 mult_zero_left) (simp add: mkFloat_def)
qed

lemma zero_float: "fUnits 0 = 0" "\<not> isNaN 0" "\<not> isInf 0" "\<not> fSign 0"
  by (simp_all add: fUnits_def fMantissa_def fMagnitude_def isNaN_def isInf_def fSign_def fInfBits_def)

lemma fOfInt_whole:
  assumes "0 \<le> a" "a \<le> 2 ^ 53"
  shows "fUnits (fOfInt a) = a * 2 ^ 1074" "\<not> isNaN (fOfInt a)" "\<not> isInf (fOfInt a)" "\<not> fSign (fOfInt a)"
proof -
  have "fUnits (fOfInt a) = a * 2 ^ 1074 \<and> \<not> isNaN (fOfInt a) \<and> \<not> isInf (fOfInt a) \<and> \<not> fSign (fOfInt a)"
  proof (cases "a = 0")
    case True
    then show ?thesis by (simp only: fOfInt_0 zero_float mult_zero_left) simp
  next
    case False
    then have a: "0 < nat a" "nat a \<le> 2 ^ 53" using assms by simp_all
    obtain m u where mu: "nat a * 2 ^ 1074 = m * 2 ^ u" "2 ^ 52 \<le> m" "m < 2 ^ 53" "u \<le> 2000"
      using whole_normal [OF a] .
    have "fOfInt a = mkFloat False (u * 2 ^ 52 + m)"
      using assms(1) mu(1) roundBits_normal [OF mu(2-4)] by (simp add: fOfInt_def fRound_def)
    note nf = normal_float [OF mu(2-4) this]
    have "int (m * 2 ^ u) = a * 2 ^ 1074" using mu(1) assms(1) by (metis int_nat_eq of_nat_mult of_nat_numeral of_nat_power)
    then show ?thesis using nf by (simp add: fUnits_def)
  qed
  then show "fUnits (fOfInt a) = a * 2 ^ 1074" "\<not> isNaN (fOfInt a)" "\<not> isInf (fOfInt a)" "\<not> fSign (fOfInt a)" by simp_all
qed

lemma fAdd_whole:
  assumes "0 \<le> a" "0 \<le> b" "a + b \<le> 2 ^ 53"
  shows "fAdd (fOfInt a) (fOfInt b) = fOfInt (a + b)"
proof -
  have "a \<le> 2 ^ 53" "b \<le> 2 ^ 53" using assms by simp_all
  note A = fOfInt_whole [OF assms(1) this(1)] and B = fOfInt_whole [OF assms(2) this(2)]
  have s: "fUnits (fOfInt a) + fUnits (fOfInt b) = (a + b) * 2 ^ 1074" using A(1) B(1) by (simp add: distrib_right)
  show ?thesis
  proof (cases "a + b = 0")
    case True
    then have "a = 0" "b = 0" using assms by simp_all
    moreover have "fAdd 0 0 = 0" by (simp add: fAdd_def zero_float mkFloat_def)
    ultimately show ?thesis by (simp add: fOfInt_0)
  next
    case False
    define p where "p = (2 :: int) ^ 1074"
    have p: "0 < p" "nat p = 2 ^ 1074" by (simp_all add: p_def nat_power_eq)
    have c: "0 < a + b" using False assms by simp
    then have "0 < (a + b) * p" using p(1) by simp
    moreover from c have "nat \<bar>(a + b) * p\<bar> = nat \<bar>a + b\<bar> * 2 ^ 1074"
      using p by (simp add: nat_mult_distrib)
    ultimately have "fRound ((a + b) * p < 0) (nat \<bar>(a + b) * p\<bar>) 1 = fOfInt (a + b)"
      using c unfolding fOfInt_def by simp
    then show ?thesis using A(2-4) B(2-4) s \<open>0 < (a + b) * p\<close> False p(1) unfolding p_def [symmetric]
      by (simp add: fAdd_def Let_def)
  qed
qed

end
