(* ===== verification/LogQLScan.thy ===== *)
theory LogQLScan
  imports MatcherSql Float64
begin

text \<open>
  The scanners under the LogQL parser (the second half of src/internal/snuffle/logql.go):
  matching brackets, splitting at top-level separators, quoted strings, identifiers, operators,
  numbers and durations. Each loop of the code is a recursion over the rest of the text,
  with the position as a counter; -1 as a position is None.
\<close>

section \<open>Bytes and strings\<close>

text \<open>unicode.IsSpace, IsLetter and IsDigit of a byte taken as a rune (Latin-1).\<close>

definition spaceByte :: "char \<Rightarrow> bool" where
  "spaceByte c \<longleftrightarrow> (let n = code c in (9 \<le> n \<and> n \<le> 13) \<or> n = 32 \<or> n = 0x85 \<or> n = 0xA0)"

definition letterByte :: "char \<Rightarrow> bool" where
  "letterByte c \<longleftrightarrow> (let n = code c in (65 \<le> n \<and> n \<le> 90) \<or> (97 \<le> n \<and> n \<le> 122) \<or> n = 0xAA \<or> n = 0xB5 \<or> n = 0xBA
     \<or> (0xC0 \<le> n \<and> n \<noteq> 0xD7 \<and> n \<noteq> 0xF7))"

definition digitByte :: "char \<Rightarrow> bool" where
  "digitByte c \<longleftrightarrow> (let n = code c in 48 \<le> n \<and> n \<le> 57)"

text \<open>strings.Index and strings.Contains.\<close>

fun indexLoop :: "string \<Rightarrow> string \<Rightarrow> nat \<Rightarrow> nat option" where
  "indexLoop p [] i = (if p = [] then Some i else None)"
| "indexLoop p (c # s) i = (if hasPrefix (c # s) p then Some i else indexLoop p s (i + 1))"

definition indexOf :: "string \<Rightarrow> string \<Rightarrow> nat option" where
  "indexOf s p = indexLoop p s 0"

definition containsText :: "string \<Rightarrow> string \<Rightarrow> bool" where
  "containsText s p \<longleftrightarrow> indexOf s p \<noteq> None"

text \<open>The result of a step that can fail, and its continuation. An error is the format of its message with
  its arguments.\<close>

datatype logQLError = Err string "string list" | OutOfFuel

fun andThen :: "logQLError + 'a \<Rightarrow> ('a \<Rightarrow> logQLError + 'b) \<Rightarrow> logQLError + 'b" where
  "andThen (Inl e) f = Inl e"
| "andThen (Inr x) f = f x"

lemma andThen_Inr: "andThen r f = Inr y \<longleftrightarrow> (\<exists>x. r = Inr x \<and> f x = Inr y)"
  by (cases r) auto

section \<open>Quotes\<close>

text \<open>The byte inside a quote: the quote and the escape flag after it (the block under \<open>quote != 0\<close>,
  the same in every scanner).\<close>

definition quotedByte :: "char \<Rightarrow> bool \<Rightarrow> char \<Rightarrow> char option \<times> bool" where
  "quotedByte q escaped c =
     (if escaped then (Some q, False)
      else if q = dquote \<and> c = bslash then (Some q, True)
      else if c = q then (None, False) else (Some q, False))"

abbreviation backtick :: char where "backtick \<equiv> CHR 0x60"

section \<open>Brackets\<close>

fun findMatchingLoop :: "char \<Rightarrow> char \<Rightarrow> string \<Rightarrow> nat \<Rightarrow> int \<Rightarrow> char option \<Rightarrow> bool \<Rightarrow> nat option" where
  "findMatchingLoop opn cls [] i depth qt escaped = None"
| "findMatchingLoop opn cls (c # s) i depth qt escaped = (case qt of
     Some q \<Rightarrow> (let (qt', escaped') = quotedByte q escaped c in findMatchingLoop opn cls s (i + 1) depth qt' escaped')
   | None \<Rightarrow>
       if c = dquote \<or> c = backtick then findMatchingLoop opn cls s (i + 1) depth (Some c) escaped
       else if c = opn then findMatchingLoop opn cls s (i + 1) (depth + 1) None escaped
       else if c = cls then
         (if depth - 1 = 0 then Some i else findMatchingLoop opn cls s (i + 1) (depth - 1) None escaped)
       else findMatchingLoop opn cls s (i + 1) depth None escaped)"

definition findMatching :: "string \<Rightarrow> nat \<Rightarrow> char \<Rightarrow> char \<Rightarrow> nat option" where
  "findMatching input start opn cls = findMatchingLoop opn cls (drop start input) start 0 None False"

definition openBracket :: "char \<Rightarrow> bool" where
  "openBracket c \<longleftrightarrow> c = CHR ''('' \<or> c = CHR ''['' \<or> c = CHR ''{''"

definition closeBracket :: "char \<Rightarrow> bool" where
  "closeBracket c \<longleftrightarrow> c = CHR '')'' \<or> c = CHR '']'' \<or> c = CHR ''}''"

text \<open>The part before the next top-level separator is built up in \<open>part\<close>, in order.\<close>

fun splitTopLoop :: "char \<Rightarrow> string \<Rightarrow> nat \<Rightarrow> char option \<Rightarrow> bool \<Rightarrow> string \<Rightarrow> string list" where
  "splitTopLoop sep [] depth qt escaped part = [part]"
| "splitTopLoop sep (c # s) depth qt escaped part = (case qt of
     Some q \<Rightarrow> (let (qt', escaped') = quotedByte q escaped c in splitTopLoop sep s depth qt' escaped' (part @ [c]))
   | None \<Rightarrow>
       if c = dquote \<or> c = backtick then splitTopLoop sep s depth (Some c) escaped (part @ [c])
       else if openBracket c then splitTopLoop sep s (depth + 1) None escaped (part @ [c])
       else if closeBracket c then splitTopLoop sep s (depth - 1) None escaped (part @ [c])
       else if c = sep \<and> depth = 0 then part # splitTopLoop sep s depth None escaped []
       else splitTopLoop sep s depth None escaped (part @ [c]))"

definition splitTopLevel :: "string \<Rightarrow> char \<Rightarrow> string list" where
  "splitTopLevel input sep = splitTopLoop sep input 0 None False []"

definition splitCSVTrim :: "string \<Rightarrow> string list" where
  "splitCSVTrim input = filter (\<lambda>p. p \<noteq> []) (map trimSpace (splitTopLevel input CHR '',''))"

definition parseParenthesized :: "string \<Rightarrow> logQLError + (string \<times> string)" where
  "parseParenthesized input0 = (let input = trimSpace input0 in
     if \<not> hasPrefix input ''('' then Inl (Err ''expected parenthesized expression, got %q'' [input])
     else case findMatching input 0 CHR ''('' CHR '')'' of
       None \<Rightarrow> Inl (Err ''unterminated parenthesized expression'' [])
     | Some close \<Rightarrow> Inr (take (close - 1) (drop 1 input), trimSpace (drop (close + 1) input)))"

text \<open>The loop runs backwards: over the reversed text, with the index of the next byte.\<close>

fun findLastRangeLoop :: "string \<Rightarrow> char option \<Rightarrow> bool \<Rightarrow> nat option \<Rightarrow> (nat \<times> nat) option" where
  "findLastRangeLoop [] qt escaped close = None"
| "findLastRangeLoop (c # s) qt escaped close = (let i = length s in case qt of
     Some q \<Rightarrow> (let (qt', escaped') = quotedByte q escaped c in findLastRangeLoop s qt' escaped' close)
   | None \<Rightarrow>
       if c = dquote \<or> c = backtick then findLastRangeLoop s (Some c) escaped close
       else if c = CHR '']'' \<and> close = None then findLastRangeLoop s None escaped (Some i)
       else case close of
         Some j \<Rightarrow> if c = CHR ''['' then Some (i, j) else findLastRangeLoop s None escaped close
       | None \<Rightarrow> findLastRangeLoop s None escaped close)"

definition findLastRange :: "string \<Rightarrow> (nat \<times> nat) option" where
  "findLastRange input = findLastRangeLoop (rev input) None False None"

section \<open>Quoted strings\<close>

text \<open>strconv.UnquoteChar: the bytes that the next character stands for, and the rest.\<close>

fun hexRun :: "nat \<Rightarrow> string \<Rightarrow> nat \<Rightarrow> (nat \<times> string) option" where
  "hexRun 0 s v = Some (v, s)"
| "hexRun (Suc n) s v = (case s of [] \<Rightarrow> None
   | c # t \<Rightarrow> (case digitIn 16 c of None \<Rightarrow> None | Some d \<Rightarrow> hexRun n t (v * 16 + d)))"

definition simpleEscape :: "char \<Rightarrow> char option" where
  "simpleEscape c = map_of [(CHR ''a'', CHR 7), (CHR ''b'', CHR 8), (CHR ''f'', CHR 12), (CHR ''n'', CHR 10),
     (CHR ''r'', CHR 13), (CHR ''t'', CHR 9), (CHR ''v'', CHR 11), (bslash, bslash)] c"

text \<open>The escape after a backslash.\<close>

definition unquoteEscape :: "char \<Rightarrow> string \<Rightarrow> (string \<times> string) option" where
  "unquoteEscape q t = (case t of [] \<Rightarrow> None
   | d # u \<Rightarrow>
     (case simpleEscape d of Some e \<Rightarrow> Some ([e], u)
      | None \<Rightarrow>
        if d = CHR ''x'' then map_option (\<lambda>(v, r). ([char_of v], r)) (hexRun 2 u 0)
        else if d = CHR ''u'' \<or> d = CHR ''U'' then
          (case hexRun (if d = CHR ''u'' then 4 else 8) u 0 of None \<Rightarrow> None
           | Some (v, r) \<Rightarrow> if 0x110000 \<le> v \<or> surrogate v then None else Some (encodeRune v, r))
        else if 48 \<le> code d \<and> code d \<le> 55 then
          (case u of e # f # w \<Rightarrow>
             (case (digitIn 8 e, digitIn 8 f) of (Some y, Some z) \<Rightarrow>
                (let v = (code d - 48) * 64 + y * 8 + z in if 255 < v then None else Some ([char_of v], w))
              | _ \<Rightarrow> None)
           | _ \<Rightarrow> None)
        else if d = q \<and> (d = CHR 0x27 \<or> d = dquote) then Some ([d], u)
        else None))"

definition unquoteChar :: "char \<Rightarrow> string \<Rightarrow> (string \<times> string) option" where
  "unquoteChar q s = (case s of [] \<Rightarrow> None
   | c # t \<Rightarrow>
     if c = q then None
     else if 0x80 \<le> code c then (let (r, n) = decodeRune s in Some (encodeRune r, drop n s))
     else if c \<noteq> bslash then Some ([c], t)
     else unquoteEscape q t)"

text \<open>strconv.Unquote for double and single quotes, from the byte after the first quote. The last
  argument counts the characters a rune literal may still have; a string has no such bound.\<close>

lemma hexRun_shorter: "hexRun n s v = Some (w, r) \<Longrightarrow> length r \<le> length s"
proof (induction n arbitrary: s v)
  case (Suc n)
  then show ?case by (cases s) (auto split: option.splits dest: Suc.IH)
qed simp

lemma unquoteEscape_shorter: "unquoteEscape q t = Some (b, r) \<Longrightarrow> length r < length t"
proof (cases t)
  case (Cons d u)
  assume a: "unquoteEscape q t = Some (b, r)"
  note a' = a [unfolded unquoteEscape_def Cons list.case]
  have "length r \<le> length u"
  proof (cases "simpleEscape d")
    case None
    then show ?thesis
      using a' by (auto simp: Let_def dest: hexRun_shorter split: if_split_asm option.split_asm list.split_asm)
  qed (use a' in auto)
  then show ?thesis by (simp add: Cons)
qed (simp add: unquoteEscape_def)

lemma unquoteChar_shorter: "unquoteChar q s = Some (b, r) \<Longrightarrow> length r < length s"
proof (cases s)
  case (Cons c t)
  assume a: "unquoteChar q s = Some (b, r)"
  obtain v n where d: "decodeRune s = (v, n)" by (cases "decodeRune s")
  have "0 < n" "n \<le> length s" using decodeRune_width [OF _ d] Cons by auto
  then show ?thesis
    using a d Cons by (auto simp: unquoteChar_def dest: unquoteEscape_shorter split: if_split_asm)
qed (simp add: unquoteChar_def)

function unquoteLoop :: "char \<Rightarrow> string \<Rightarrow> string option" where
  "unquoteLoop q s = (case s of [] \<Rightarrow> None
   | c # t \<Rightarrow> if c = q then (if t = [] then Some [] else None)
       else if c = CHR 10 then None
       else case unquoteChar q s of None \<Rightarrow> None
         | Some (b, r) \<Rightarrow> map_option (\<lambda>v. b @ v) (if q = dquote then unquoteLoop q r else if r = [q] then Some [] else None))"
  by pat_completeness auto
termination
  by (relation "measure (length \<circ> snd)") (auto dest: unquoteChar_shorter)

declare unquoteLoop.simps [simp del]

definition goUnquote :: "string \<Rightarrow> string option" where
  "goUnquote s = (if length s < 2 then None
     else let q = hd s in
       if q = backtick then (let body = butlast (tl s) in
         if last s \<noteq> backtick \<or> backtick \<in> set body then None else Some (filter (\<lambda>c. c \<noteq> CHR 13) body))
       else if q = dquote \<or> q = CHR 0x27 then unquoteLoop q (tl s) else None)"

definition unquoteLogQLString :: "string \<Rightarrow> logQLError + string" where
  "unquoteLogQLString raw0 = (let raw = trimSpace raw0 in
     if raw = [] then Inr []
     else if hd raw = backtick then
       (if length raw < 2 \<or> last raw \<noteq> backtick then Inl (Err ''unterminated raw string'' [])
        else Inr (butlast (tl raw)))
     else case goUnquote raw of None \<Rightarrow> Inl (Err ''invalid syntax'' []) | Some v \<Rightarrow> Inr v)"

text \<open>The scan of a quoted string from after its first quote: the index of the closing quote in the
  rest.\<close>

fun closingQuote :: "char \<Rightarrow> string \<Rightarrow> bool \<Rightarrow> nat option" where
  "closingQuote q [] escaped = None"
| "closingQuote q (c # s) escaped =
     (if escaped then map_option Suc (closingQuote q s False)
      else if q = dquote \<and> c = bslash then map_option Suc (closingQuote q s True)
      else if c = q then Some 0 else map_option Suc (closingQuote q s False))"

definition consumeQuoted :: "string \<Rightarrow> logQLError + (string \<times> string)" where
  "consumeQuoted input0 = (let input = trimSpace input0 in
     if input = [] \<or> (hd input \<noteq> dquote \<and> hd input \<noteq> backtick) then Inl (Err ''expected quoted string, got %q'' [input])
     else case closingQuote (hd input) (tl input) False of
       None \<Rightarrow> Inl (Err ''unterminated quoted string'' [])
     | Some i \<Rightarrow> andThen (unquoteLogQLString (take (i + 2) input)) (\<lambda>v. Inr (v, drop (i + 2) input)))"

fun pipeLoop :: "string \<Rightarrow> char option \<Rightarrow> bool \<Rightarrow> nat option" where
  "pipeLoop [] qt escaped = None"
| "pipeLoop (c # s) qt escaped = (case qt of
     Some q \<Rightarrow> (let (qt', escaped') = quotedByte q escaped c in map_option Suc (pipeLoop s qt' escaped'))
   | None \<Rightarrow> if c = dquote \<or> c = backtick then map_option Suc (pipeLoop s (Some c) escaped)
       else if c = CHR ''|'' then Some 0 else map_option Suc (pipeLoop s None escaped))"

definition consumeUntilPipe :: "string \<Rightarrow> string \<times> string" where
  "consumeUntilPipe input = (case pipeLoop input None False of
     None \<Rightarrow> (input, []) | Some i \<Rightarrow> (take i input, drop i input))"

section \<open>Identifiers and tokens\<close>

definition identByte :: "char \<Rightarrow> bool" where
  "identByte c \<longleftrightarrow> letterByte c \<or> digitByte c \<or> c = CHR ''_'' \<or> c = CHR ''.'' \<or> c = CHR '':''"

definition readIdentifier :: "string \<Rightarrow> string \<times> string" where
  "readIdentifier input0 = (let input = trimSpace input0 in
     (takeWhile identByte input, trimSpace (dropWhile identByte input)))"

definition firstPrefix :: "string list \<Rightarrow> string \<Rightarrow> string option" where
  "firstPrefix ops s = find (hasPrefix s) ops"

definition filterOps :: "string list" where
  "filterOps = [''>='', ''<='', ''=='', ''!='', ''=~'', ''!~'', ''='', ''>'', ''<'']"

definition filterWordByte :: "char \<Rightarrow> bool" where
  "filterWordByte c \<longleftrightarrow> \<not> spaceByte c \<and> c \<notin> set ''=!<>,''"

lemma trimSpace_suffixes: "\<exists>pre post. s = pre @ trimSpace s @ post"
proof -
  define xs where "xs = runes s"
  define ys where "ys = dropWhile (isSpaceRune \<circ> fst) xs"
  define zs where "zs = dropWhile (isSpaceRune \<circ> fst) (rev ys)"
  have "s = concat (map snd (takeWhile (isSpaceRune \<circ> fst) xs)) @ concat (map snd ys)"
    using runes_bytes [of s] unfolding xs_def ys_def by (metis concat_append map_append takeWhile_dropWhile_id)
  moreover have "ys = rev zs @ rev (takeWhile (isSpaceRune \<circ> fst) (rev ys))"
    unfolding zs_def by (metis rev_append rev_rev_ident takeWhile_dropWhile_id)
  then have "concat (map snd ys) = concat (map snd (rev zs)) @ concat (map snd (rev (takeWhile (isSpaceRune \<circ> fst) (rev ys))))"
    by (metis concat_append map_append)
  moreover have "trimSpace s = concat (map snd (rev zs))"
    by (simp add: trimSpace_def zs_def ys_def xs_def)
  ultimately show ?thesis by metis
qed

lemma length_trimSpace [simp]: "length (trimSpace s) \<le> length s"
  using trimSpace_suffixes [of s] by (metis add_leD1 le_add2 length_append)

lemma closingQuote_bound: "closingQuote q s e = Some i \<Longrightarrow> i < length s"
  by (induction q s e arbitrary: i rule: closingQuote.induct) (auto split: if_splits)

lemma consumeQuoted_shorter: "consumeQuoted s = Inr (v, rest) \<Longrightarrow> length rest + 2 \<le> length s"
  using length_trimSpace [of s]
  by (auto simp: consumeQuoted_def Let_def andThen_Inr simp del: length_trimSpace
      split: if_splits option.splits dest!: closingQuote_bound)

lemma firstPrefix_drop:
  "firstPrefix ops s = Some p \<Longrightarrow> [] \<notin> set ops \<Longrightarrow> length (drop (length p) s) < length s"
  by (cases s; cases p) (auto simp: firstPrefix_def find_Some_iff hasPrefix_def dest: nth_mem)

text \<open>lexLogQLFilter; a token that consumeQuoted delimits is the text it consumed.\<close>

function lexLogQLFilter :: "string \<Rightarrow> logQLError + string list" where
  "lexLogQLFilter input = (let s = dropWhile spaceByte input in
     if s = [] then Inr []
     else if hd s = dquote \<or> hd s = backtick then
       (case consumeQuoted s of Inl e \<Rightarrow> Inl e
        | Inr (v, rest) \<Rightarrow> (let n = length s - length rest in
            andThen (lexLogQLFilter (drop n s)) (\<lambda>ts. Inr (take n s # ts))))
     else if hd s = CHR '','' then andThen (lexLogQLFilter (tl s)) (\<lambda>ts. Inr ('','' # ts))
     else case firstPrefix filterOps s of
       Some op \<Rightarrow> andThen (lexLogQLFilter (drop (length op) s)) (\<lambda>ts. Inr (op # ts))
     | None \<Rightarrow>
         if \<not> filterWordByte (hd s) then Inl (Err ''unexpected %q in label filter'' [[hd s]])
         else andThen (lexLogQLFilter (dropWhile filterWordByte s)) (\<lambda>ts. Inr (takeWhile filterWordByte s # ts)))"
  by pat_completeness auto
termination
proof (relation "measure length", goal_cases)
  case (2 input s x2 v rest n)
  then show ?case
    using length_dropWhile_le [of spaceByte input] consumeQuoted_shorter [of s v rest] by (cases x2) auto
next
  case (3 input s)
  then have "0 < length s" "length s \<le> length input"
    using length_dropWhile_le [of spaceByte input] by auto
  then show ?case by (cases s) simp_all
next
  case (4 input s)
  then have "s \<noteq> []" "filterWordByte (hd s)" by simp_all
  then obtain c t where s: "s = c # t" "filterWordByte c" by (cases s) auto
  then have "length (dropWhile filterWordByte s) \<le> length t"
    using length_dropWhile_le [of filterWordByte t] by simp
  moreover have "length s \<le> length input"
    using 4 length_dropWhile_le [of spaceByte input] by simp
  ultimately show ?case using s(1) by simp
next
  case (5 input s op)
  moreover have "[] \<notin> set filterOps" by (simp add: filterOps_def)
  ultimately show ?case
    using length_dropWhile_le [of spaceByte input] firstPrefix_drop [of filterOps s op] by auto
qed simp

declare lexLogQLFilter.simps [simp del]

section \<open>Numbers and durations\<close>

text \<open>strconv.Atoi.\<close>

fun decimalValue :: "string \<Rightarrow> nat \<Rightarrow> nat option" where
  "decimalValue [] v = Some v"
| "decimalValue (c # s) v = (if digitByte c then decimalValue s (v * 10 + (code c - 48)) else None)"

definition goAtoi :: "string \<Rightarrow> int option" where
  "goAtoi s = (let (neg, t) = (case s of c # t \<Rightarrow> if c = CHR ''-'' then (True, t) else if c = CHR ''+'' then (False, t) else (False, s)
       | [] \<Rightarrow> (False, [])) in
     if t = [] then None
     else case decimalValue t 0 of None \<Rightarrow> None
       | Some v \<Rightarrow> let i = (if neg then - int v else int v) in if in_i64 i then Some i else None)"

text \<open>time.ParseDuration, in nanoseconds. The sum of the parts is a uint64.\<close>

definition two63 :: nat where
  "two63 = 2 ^ 63"

fun leadingInt :: "string \<Rightarrow> nat \<Rightarrow> (nat \<times> string) option" where
  "leadingInt [] x = Some (x, [])"
| "leadingInt (c # s) x = (if \<not> digitByte c then Some (x, c # s)
     else if two63 div 10 < x then None
     else let y = x * 10 + (code c - 48) in if two63 < y then None else leadingInt s y)"

fun leadingFraction :: "string \<Rightarrow> nat \<Rightarrow> f64 \<Rightarrow> bool \<Rightarrow> nat \<times> f64 \<times> string" where
  "leadingFraction [] x scale overflow = (x, scale, [])"
| "leadingFraction (c # s) x scale overflow = (if \<not> digitByte c then (x, scale, c # s)
     else if overflow \<or> (two63 - 1) div 10 < x \<or> two63 < x * 10 + (code c - 48)
     then leadingFraction s x scale True
     else leadingFraction s (x * 10 + (code c - 48)) (fMul scale (fOfInt 10)) False)"

definition durationUnits :: "(string \<times> nat) list" where
  "durationUnits = [(''ns'', 1), (''us'', 1000), ([CHR 0xC2, CHR 0xB5, CHR ''s''], 1000), ([CHR 0xCE, CHR 0xBC, CHR ''s''], 1000),
     (''ms'', 1000000), (''s'', 1000000000), (''m'', 60000000000), (''h'', 3600000000000)]"

definition unitByte :: "char \<Rightarrow> bool" where
  "unitByte c \<longleftrightarrow> \<not> (c = CHR ''.'' \<or> digitByte c)"

lemma leadingInt_shorter: "leadingInt s x = Some (y, r) \<Longrightarrow> length r \<le> length s"
  by (induction s x arbitrary: y r rule: leadingInt.induct) (fastforce simp: Let_def split: if_splits)+

lemma leadingFraction_shorter: "leadingFraction s x scale ov = (y, sc, r) \<Longrightarrow> length r \<le> length s"
proof (induction s x scale ov arbitrary: y sc r rule: leadingFraction.induct)
  case (2 c s x scale ov)
  show ?case
  proof (cases "digitByte c")
    case True
    then have "length r \<le> length s"
      using "2.prems" "2.IH" [of y sc r] by (simp only: leadingFraction.simps if_False if_True not_True_eq_False not_False_eq_True True_implies_equals split: if_split_asm)
    then show ?thesis by simp
  next
    case False
    then show ?thesis using "2.prems" by simp
  qed
qed simp

text \<open>The number at the front of a part: its integer, its fraction with the scale, and the rest.\<close>

definition durationNumber :: "string \<Rightarrow> (nat \<times> nat \<times> f64 \<times> string) option" where
  "durationNumber s = (case leadingInt s 0 of None \<Rightarrow> None
   | Some (v, s1) \<Rightarrow>
       (case s1 of c # s2 \<Rightarrow> if c = CHR ''.'' then (let (f, scale, s3) = leadingFraction s2 0 (fOfInt 1) False in
            if length s1 = length s \<and> length s3 = length s2 then None else Some (v, f, scale, s3))
          else if length s1 = length s then None else Some (v, 0, fOfInt 1, s1)
        | [] \<Rightarrow> if length s1 = length s then None else Some (v, 0, fOfInt 1, s1)))"

lemma durationNumber_shorter: "durationNumber s = Some (v, f, sc, r) \<Longrightarrow> length r < length s"
  by (auto simp: durationNumber_def split: option.splits list.splits if_splits prod.splits
      dest!: leadingInt_shorter leadingFraction_shorter)

text \<open>uint64(float64(f) * (float64(unit) / scale)).\<close>

definition fractionNanos :: "nat \<Rightarrow> nat \<Rightarrow> f64 \<Rightarrow> nat" where
  "fractionNanos f unit scale = (if f = 0 then 0 else nat (fToInt64 (fMul (fOfInt (int f)) (fDiv (fOfInt (int unit)) scale))))"

function durationLoop :: "string \<Rightarrow> nat \<Rightarrow> nat option" where
  "durationLoop s d = (if s = [] then Some d
     else case durationNumber s of None \<Rightarrow> None
     | Some (v, f, scale, r) \<Rightarrow>
         (case map_of durationUnits (takeWhile unitByte r) of None \<Rightarrow> None
          | Some unit \<Rightarrow>
              if two63 div unit < v then None
              else let v' = v * unit + fractionNanos f unit scale; d' = (d + v') mod 2 ^ 64 in
                if two63 < v' \<or> two63 < d' then None else durationLoop (dropWhile unitByte r) d'))"
  by pat_completeness auto
termination
proof (relation "measure (length \<circ> fst)", goal_cases)
  case (2 s d x2 v a f b scale r)
  then show ?case
    using durationNumber_shorter [of s v f scale r] length_dropWhile_le [of unitByte r] by (cases x2; cases a; cases b) auto
qed simp

declare durationLoop.simps [simp del]

definition goParseDuration :: "string \<Rightarrow> int option" where
  "goParseDuration s = (let (neg, t) = (case s of c # t \<Rightarrow> if c = CHR ''-'' then (True, t) else if c = CHR ''+'' then (False, t) else (False, s)
       | [] \<Rightarrow> (False, [])) in
     if t = ''0'' then Some 0
     else if t = [] then None
     else case durationLoop t 0 of None \<Rightarrow> None
       | Some d \<Rightarrow> if neg then Some (- int d) else if two63 - 1 < d then None else Some (int d))"

definition dropLast :: "nat \<Rightarrow> string \<Rightarrow> string" where
  "dropLast n s = take (length s - n) s"

definition parseLogQLDuration :: "string \<Rightarrow> logQLError + int" where
  "parseLogQLDuration input0 = (let input = trimSpace input0 in
     if input = [] then Inl (Err ''missing duration'' [])
     else if hasSuffix input ''d'' \<or> hasSuffix input ''w'' then
       (let multiplier = (if hasSuffix input ''w'' then 7 * 24 * 3600000000000 else 24 * 3600000000000) in
        case parseFloat (dropLast 1 input) of None \<Rightarrow> Inl (Err ''invalid duration %q'' [input])
        | Some value \<Rightarrow> if fLessEq value 0 then Inl (Err ''invalid duration %q'' [input])
            else Inr (fToInt64 (fMul value (fOfInt multiplier))))
     else case goParseDuration input of None \<Rightarrow> Inl (Err ''invalid duration %q'' [input])
       | Some d \<Rightarrow> if d \<le> 0 then Inl (Err ''invalid duration %q'' [input]) else Inr d)"

definition parseLogQLDurationValue :: "string \<Rightarrow> f64 option" where
  "parseLogQLDurationValue raw = (case parseLogQLDuration raw of Inl e \<Rightarrow> None | Inr d \<Rightarrow> Some (fOfInt d))"

definition bytesUnits :: "(string \<times> int) list" where
  "bytesUnits = [([], 1), (''b'', 1), (''kb'', 1000), (''k'', 1000), (''mb'', 1000 ^ 2), (''m'', 1000 ^ 2), (''gb'', 1000 ^ 3), (''g'', 1000 ^ 3),
     (''tb'', 1000 ^ 4), (''t'', 1000 ^ 4), (''kib'', 1024), (''ki'', 1024), (''mib'', 1024 ^ 2), (''mi'', 1024 ^ 2),
     (''gib'', 1024 ^ 3), (''gi'', 1024 ^ 3), (''tib'', 1024 ^ 4), (''ti'', 1024 ^ 4)]"

definition numberByte :: "char \<Rightarrow> bool" where
  "numberByte c \<longleftrightarrow> c = CHR ''+'' \<or> c = CHR ''-'' \<or> c = CHR ''.'' \<or> digitByte c"

definition parseLogQLBytesValue :: "string \<Rightarrow> f64 option" where
  "parseLogQLBytesValue raw0 = (let raw = trimSpace raw0; number = takeWhile numberByte raw in
     if number = [] then None
     else case parseFloat number of None \<Rightarrow> None
     | Some value \<Rightarrow> (case map_of bytesUnits (toLower (trimSpace (dropWhile numberByte raw))) of None \<Rightarrow> None
        | Some multiplier \<Rightarrow> Some (fMul value (fOfInt multiplier))))"

definition parseLogQLNumericLiteral :: "string \<Rightarrow> (f64 \<times> string) option" where
  "parseLogQLNumericLiteral raw = (case parseFloat raw of Some v \<Rightarrow> Some (v, [])
   | None \<Rightarrow> (case parseLogQLDurationValue raw of Some v \<Rightarrow> Some (v, ''duration'')
     | None \<Rightarrow> map_option (\<lambda>v. (v, ''bytes'')) (parseLogQLBytesValue raw)))"

definition parseLogQLComparableValue :: "string \<Rightarrow> string \<Rightarrow> f64 option" where
  "parseLogQLComparableValue raw valueType =
     (if valueType = ''duration'' then parseLogQLDurationValue raw
      else if valueType = ''bytes'' then parseLogQLBytesValue raw else parseFloat raw)"

definition parseLogQLScalar :: "string \<Rightarrow> f64 option" where
  "parseLogQLScalar input = parseFloat (trimSpace input)"

end
