(* ===== verification/LogQLParse.thy ===== *)
theory LogQLParse
  imports LogQLScan
begin

text \<open>
  The LogQL parser (the first part of src/internal/snuffle/logql.go, from parseLogQL to
  parseLogQLLabelFilterStage, and the operator scanner). Compiled regular expressions are values of
  any type: the function \<open>re\<close> stands for regexp.Compile and returns None for a syntax
  error. A Go struct with one set pointer is a constructor of a datatype. The recursion
  between the functions for expressions is bounded by fuel, and running out of it is an error
  of its own, which the theorem \<open>parser_terminates\<close> excludes.
\<close>

section \<open>Syntax trees\<close>

record logQLGrouping =
  grpWithout :: bool
  grpLabels :: "string list"

record logQLComparison =
  cmpOp :: string
  cmpValue :: f64

record logQLVectorMatching =
  vmOn :: bool
  vmLabels :: "string list"
  vmGroup :: string
  vmInclude :: "string list"

record 're logQLLabelMatcher =
  lmName :: string
  lmOp :: string
  lmValue :: string
  lmRe :: "'re option"

record 're logQLLineFilter =
  lfOp :: string
  lfValue :: string
  lfRe :: "'re option"

record 're logQLLabelFilter =
  fltName :: string
  fltOp :: string
  fltValue :: string
  fltNumeric :: bool
  fltNumValue :: f64
  fltValueType :: string
  fltRe :: "'re option"
  fltConnector :: string

datatype logQLLabelFormat = FormatConst string string | FormatTemplate string string | FormatSource string string

datatype 're logQLStage =
    LineFilterStage "'re logQLLineFilter"
  | ParserStage string string
  | LabelFilterStage "'re logQLLabelFilter list"
  | LineFormatStage string
  | LabelFormatStage "logQLLabelFormat list"
  | DropStage "string list"
  | KeepStage "string list"
  | DecolorizeStage
  | UnwrapStage string string

record 're logQLSelector =
  selMatchers :: "'re logQLLabelMatcher list"
  selStages :: "'re logQLStage list"

record 're logQLRangeAggregation =
  raFn :: string
  raSelector :: "'re logQLSelector"
  raWindow :: int
  raOffset :: int
  raGrouping :: "logQLGrouping option"
  raParam :: f64

datatype 're logQLExpr =
    LogSelector "'re logQLSelector"
  | RangeAgg "'re logQLRangeAggregation" "logQLComparison option"
  | Aggregation string "logQLGrouping option" "'re logQLExpr" "logQLComparison option"
  | TopK string int "'re logQLExpr" bool "logQLComparison option"
  | LabelReplace "'re logQLExpr" string string string 're
  | LabelJoin "'re logQLExpr" string string "string list"
  | BinaryOp string "'re logQLExpr" "'re logQLExpr" bool "logQLVectorMatching option"
  | Scalar f64
  | VectorExpr f64

section \<open>Patterns and label names\<close>

text \<open>sanitizeLogLabelName: over the runes, the first at position 0.\<close>

definition labelRune :: "bool \<Rightarrow> nat \<Rightarrow> bool" where
  "labelRune isFirst r \<longleftrightarrow> (97 \<le> r \<and> r \<le> 122) \<or> (65 \<le> r \<and> r \<le> 90) \<or> r = 95 \<or> (\<not> isFirst \<and> 48 \<le> r \<and> r \<le> 57)"

definition sanitizeLogLabelName :: "string \<Rightarrow> string" where
  "sanitizeLogLabelName input = (if input = [] then ''_''
     else let rs = runes input in
       concat (map (\<lambda>(i, r, b). if labelRune (i = 0) r then b else ''_'') (enumerate 0 rs)))"

text \<open>regexp.QuoteMeta.\<close>

definition quoteMeta :: "string \<Rightarrow> string" where
  "quoteMeta s = concat (map (\<lambda>c. if c \<in> set ([bslash] @ ''.+*?()|[]{}^$'') then [bslash, c] else [c]) s)"

function patternLoop :: "string \<Rightarrow> string option" where
  "patternLoop p = (if p = [] then Some []
     else if hd p \<noteq> CHR ''<'' then
       map_option (\<lambda>r. quoteMeta (takeWhile (\<lambda>c. c \<noteq> CHR ''<'') p) @ r) (patternLoop (dropWhile (\<lambda>c. c \<noteq> CHR ''<'') p))
     else if CHR ''>'' \<notin> set p then None
     else let name = takeWhile (\<lambda>c. c \<noteq> CHR ''>'') (tl p) in
       map_option (\<lambda>r. (if name = ''_'' \<or> name = [] then ''.*?'' else ''(?P<'' @ sanitizeLogLabelName name @ ''>.*?)'') @ r)
         (patternLoop (drop (length name + 2) p)))"
  by pat_completeness auto
termination
proof (relation "measure length", goal_cases)
  case (2 p)
  then obtain c t where "p = c # t" "c \<noteq> CHR ''<''" by (cases p) auto
  then show ?case using length_dropWhile_le [of "\<lambda>c. c \<noteq> CHR ''<''" t] by simp
qed simp_all

declare patternLoop.simps [simp del]

definition compileLogQLPattern :: "(string \<Rightarrow> 're option) \<Rightarrow> string \<Rightarrow> logQLError + 're" where
  "compileLogQLPattern re pattern = (case patternLoop pattern of
     None \<Rightarrow> Inl (Err ''invalid pattern parser expression %q'' [pattern])
   | Some body \<Rightarrow> (case re ((if hasPrefix pattern ''<_>'' then [] else ''^'') @ body) of
        None \<Rightarrow> Inl (Err ''error parsing regexp'' [pattern]) | Some r \<Rightarrow> Inr r))"

section \<open>Selectors\<close>

definition matcherOps :: "string list" where
  "matcherOps = [''=~'', ''!~'', ''!='', ''='']"

fun matcherPartLoop :: "string \<Rightarrow> string list \<Rightarrow> logQLError + (string \<times> string \<times> string)" where
  "matcherPartLoop part [] = Inl (Err ''invalid label matcher %q'' [part])"
| "matcherPartLoop part (op # ops) = (case indexOf part op of
     Some idx \<Rightarrow> (let name = trimSpace (take idx part); value = trimSpace (drop (idx + length op) part) in
       if name = [] \<or> value = [] then Inl (Err ''invalid label matcher %q'' [part]) else Inr (name, op, value))
   | None \<Rightarrow> matcherPartLoop part ops)"

definition parseMatcherPart :: "string \<Rightarrow> logQLError + (string \<times> string \<times> string)" where
  "parseMatcherPart part = matcherPartLoop part matcherOps"

definition parseMatcher :: "(string \<Rightarrow> 're option) \<Rightarrow> string \<Rightarrow> logQLError + 're logQLLabelMatcher" where
  "parseMatcher re part = andThen (parseMatcherPart part) (\<lambda>(name, op, raw).
     andThen (unquoteLogQLString raw) (\<lambda>value.
       if op = ''=~'' \<or> op = ''!~'' then
         (case re (''^(?:'' @ value @ '')$'') of None \<Rightarrow> Inl (Err ''invalid label regex for %s'' [name])
          | Some r \<Rightarrow> Inr \<lparr>lmName = name, lmOp = op, lmValue = value, lmRe = Some r\<rparr>)
       else Inr \<lparr>lmName = name, lmOp = op, lmValue = value, lmRe = None\<rparr>))"

fun matcherLoop :: "(string \<Rightarrow> 're option) \<Rightarrow> string list \<Rightarrow> logQLError + 're logQLLabelMatcher list" where
  "matcherLoop re [] = Inr []"
| "matcherLoop re (part # parts) = (let part = trimSpace part in
     if part = [] then matcherLoop re parts
     else andThen (parseMatcher re part) (\<lambda>m. andThen (matcherLoop re parts) (\<lambda>ms. Inr (m # ms))))"

definition parseLogQLMatchers :: "(string \<Rightarrow> 're option) \<Rightarrow> string \<Rightarrow> logQLError + 're logQLLabelMatcher list" where
  "parseLogQLMatchers re input0 = (let input = trimSpace input0 in
     if input = [] then Inr [] else matcherLoop re (splitTopLevel input CHR '',''))"

definition newLogQLLineFilter :: "(string \<Rightarrow> 're option) \<Rightarrow> string \<Rightarrow> string \<Rightarrow> logQLError + 're logQLLineFilter" where
  "newLogQLLineFilter re op value =
     (if op = ''|~'' \<or> op = ''!~'' then
        (case re value of None \<Rightarrow> Inl (Err ''invalid line regex %q'' [value])
         | Some r \<Rightarrow> Inr \<lparr>lfOp = op, lfValue = value, lfRe = Some r\<rparr>)
      else if op = ''|>'' \<or> op = ''!>'' then
        andThen (compileLogQLPattern re value) (\<lambda>r. Inr \<lparr>lfOp = op, lfValue = value, lfRe = Some r\<rparr>)
      else Inr \<lparr>lfOp = op, lfValue = value, lfRe = None\<rparr>)"

section \<open>Pipeline stages\<close>

fun labelFormatLoop :: "string list \<Rightarrow> logQLError + logQLLabelFormat list" where
  "labelFormatLoop [] = Inr []"
| "labelFormatLoop (part0 # parts) = (let part = trimSpace part0 in
     if part = [] then labelFormatLoop parts
     else case indexOf part ''='' of None \<Rightarrow> Inl (Err ''invalid label_format operation %q'' [part])
     | Some idx \<Rightarrow> (let name = trimSpace (take idx part); value = trimSpace (drop (idx + 1) part) in
         if name = [] \<or> value = [] then Inl (Err ''invalid label_format operation %q'' [part])
         else andThen
           (if hasPrefix value [dquote] \<or> hasPrefix value [backtick]
            then andThen (unquoteLogQLString value) (\<lambda>u.
              Inr (if containsText u ''{{'' then FormatTemplate name u else FormatConst name u))
            else Inr (FormatSource name value))
           (\<lambda>f. andThen (labelFormatLoop parts) (\<lambda>fs. Inr (f # fs)))))"

definition parseLogQLLabelFormats :: "string \<Rightarrow> logQLError + logQLLabelFormat list" where
  "parseLogQLLabelFormats input = labelFormatLoop (splitTopLevel input CHR '','')"

definition dropLabelNames :: "string \<Rightarrow> string list" where
  "dropLabelNames rest = map (\<lambda>part. case indexOf part ''='' of Some idx \<Rightarrow> trimSpace (take idx part) | None \<Rightarrow> part)
     (filter (\<lambda>p. p \<noteq> []) (map trimSpace (splitTopLevel rest CHR '','')))"

text \<open>One filter from its name, operator and value tokens.\<close>

definition filterOf :: "(string \<Rightarrow> 're option) \<Rightarrow> string \<Rightarrow> string \<Rightarrow> string \<Rightarrow> logQLError + 're logQLLabelFilter" where
  "filterOf re name op raw = andThen
     (if hasPrefix raw [dquote] \<or> hasPrefix raw [backtick]
      then andThen (unquoteLogQLString raw) (\<lambda>v. Inr \<lparr>fltName = name, fltOp = op, fltValue = v, fltNumeric = False,
         fltNumValue = 0, fltValueType = [], fltRe = None, fltConnector = []\<rparr>)
      else (case parseLogQLNumericLiteral raw of
         Some (v, ty) \<Rightarrow> Inr \<lparr>fltName = name, fltOp = op, fltValue = raw, fltNumeric = True,
           fltNumValue = v, fltValueType = ty, fltRe = None, fltConnector = []\<rparr>
       | None \<Rightarrow> Inr \<lparr>fltName = name, fltOp = op, fltValue = raw, fltNumeric = False,
           fltNumValue = 0, fltValueType = [], fltRe = None, fltConnector = []\<rparr>))
     (\<lambda>f. if op = ''=~'' \<or> op = ''!~'' then
        (case re (''^(?:'' @ fltValue f @ '')$'') of None \<Rightarrow> Inl (Err ''invalid label filter regex %q'' [fltValue f])
         | Some r \<Rightarrow> Inr (f\<lparr>fltRe := Some r\<rparr>))
      else Inr f)"

fun filterLoop :: "(string \<Rightarrow> 're option) \<Rightarrow> string \<Rightarrow> string list \<Rightarrow> logQLError + 're logQLLabelFilter list" where
  "filterLoop re input [] = Inr []"
| "filterLoop re input [a] = Inl (Err ''invalid label filter %q'' [input])"
| "filterLoop re input [a, b] = Inl (Err ''invalid label filter %q'' [input])"
| "filterLoop re input (name # op # raw # tokens) = andThen (filterOf re name op raw) (\<lambda>f.
     case tokens of [] \<Rightarrow> Inr [f]
     | t # tokens' \<Rightarrow> (let connector = (if toLower t = '','' then ''and'' else toLower t) in
         if connector \<noteq> ''and'' \<and> connector \<noteq> ''or'' then Inl (Err ''invalid label filter connector %q'' [t])
         else andThen (filterLoop re input tokens') (\<lambda>fs. Inr (f\<lparr>fltConnector := connector\<rparr> # fs))))"

definition parseLogQLLabelFilterStage :: "(string \<Rightarrow> 're option) \<Rightarrow> string \<Rightarrow> logQLError + 're logQLLabelFilter list" where
  "parseLogQLLabelFilterStage re input = andThen (lexLogQLFilter input) (filterLoop re input)"

definition quotedOnly :: "string \<Rightarrow> string \<Rightarrow> logQLError + string" where
  "quotedOnly msg rest = andThen (consumeQuoted rest) (\<lambda>(value, tail).
     if trimSpace tail \<noteq> [] then Inl (Err msg [tail]) else Inr value)"

definition parseUnwrap :: "string \<Rightarrow> logQLError + 're logQLStage" where
  "parseUnwrap rest =
     (if rest = [] then Inl (Err ''unwrap requires a label name'' [])
      else let (unwrapFunc, funcRest) = readIdentifier rest in
        if (unwrapFunc = ''bytes'' \<or> unwrapFunc = ''duration'' \<or> unwrapFunc = ''duration_seconds'') \<and> hasPrefix (trimSpace funcRest) ''(''
        then andThen (parseParenthesized funcRest) (\<lambda>(inner, tail).
          if trimSpace tail \<noteq> [] then Inl (Err ''unexpected unwrap conversion tail %q'' [tail])
          else let label = trimSpace inner in
            if label = [] then Inl (Err ''unwrap conversion requires a label name'' [])
            else Inr (UnwrapStage label unwrapFunc))
        else Inr (UnwrapStage (if unwrapFunc = [] then trimSpace rest else unwrapFunc) []))"

definition parseLogQLStage :: "(string \<Rightarrow> 're option) \<Rightarrow> string \<Rightarrow> logQLError + 're logQLStage" where
  "parseLogQLStage re segment = (let (name, rest0) = readIdentifier segment; rest = trimSpace rest0 in
     if name = ''json'' \<or> name = ''logfmt'' then Inr (ParserStage name rest)
     else if name = ''decolorize'' then
       (if rest \<noteq> [] then Inl (Err ''unexpected decolorize tail %q'' [rest]) else Inr DecolorizeStage)
     else if name = ''regexp'' then andThen (quotedOnly ''unexpected regexp parser tail %q'' rest) (\<lambda>value.
       case re value of None \<Rightarrow> Inl (Err ''invalid regexp parser %q'' [value]) | Some r \<Rightarrow> Inr (ParserStage ''regexp'' value))
     else if name = ''pattern'' then andThen (quotedOnly ''unexpected pattern parser tail %q'' rest) (\<lambda>value.
       andThen (compileLogQLPattern re value) (\<lambda>r. Inr (ParserStage ''pattern'' value)))
     else if name = ''line_format'' then andThen (quotedOnly ''unexpected line_format tail %q'' rest) (\<lambda>value. Inr (LineFormatStage value))
     else if name = ''label_format'' then andThen (parseLogQLLabelFormats rest) (\<lambda>fs. Inr (LabelFormatStage fs))
     else if name = ''drop'' then Inr (DropStage (dropLabelNames rest))
     else if name = ''keep'' then Inr (KeepStage (dropLabelNames rest))
     else if name = ''unwrap'' \<or> name = ''unwrap_value'' then parseUnwrap rest
     else andThen (parseLogQLLabelFilterStage re segment) (\<lambda>fs. Inr (LabelFilterStage fs)))"

definition lineFilterOps :: "string list" where
  "lineFilterOps = [''|='', ''|~'', ''!~'', ''!='', ''|>'', ''!>'']"

lemma length_consumeUntilPipe: "consumeUntilPipe s = (seg, rest) \<Longrightarrow> length rest \<le> length s"
  by (auto simp: consumeUntilPipe_def split: option.splits)

text \<open>The loop of parseLogQLPipeline, on trimmed text.\<close>

function pipelineLoop :: "(string \<Rightarrow> 're option) \<Rightarrow> string \<Rightarrow> logQLError + 're logQLStage list" where
  "pipelineLoop re input = (if input = [] then Inr []
     else case firstPrefix lineFilterOps input of
       Some op \<Rightarrow>
         (case consumeQuoted (trimSpace (drop (length op) input)) of Inl e \<Rightarrow> Inl e
          | Inr (value, rest) \<Rightarrow> andThen (newLogQLLineFilter re op value) (\<lambda>f.
              andThen (pipelineLoop re (trimSpace rest)) (\<lambda>stages. Inr (LineFilterStage f # stages))))
     | None \<Rightarrow>
         if \<not> hasPrefix input ''|'' then Inl (Err ''unexpected LogQL pipeline input %q'' [input])
         else let (segment0, rest) = consumeUntilPipe (trimSpace (drop 1 input)); segment = trimSpace segment0 in
           if segment = [] then Inl (Err ''empty LogQL pipeline stage'' [])
           else andThen (parseLogQLStage re segment) (\<lambda>stage.
             andThen (pipelineLoop re (trimSpace rest)) (\<lambda>stages. Inr (stage # stages))))"
  by pat_completeness auto
termination
proof (relation "measure (length \<circ> snd)", goal_cases)
  case (2 re input x seg0 rest seg y)
  then have "length rest < length input"
    using length_consumeUntilPipe [of "trimSpace (drop 1 input)" seg0 rest] length_trimSpace [of "drop 1 input"]
    by (cases input) (auto simp del: length_trimSpace)
  then show ?case using length_trimSpace [of rest] by (simp del: length_trimSpace)
next
  case (3 re input op x v rest f)
  then have "length rest < length input"
    using consumeQuoted_shorter [of "trimSpace (drop (length op) input)" v rest] length_trimSpace [of "drop (length op) input"]
    by (auto simp del: length_trimSpace)
  then show ?case using length_trimSpace [of rest] by (simp del: length_trimSpace)
qed simp

declare pipelineLoop.simps [simp del]

definition parseLogQLPipeline :: "(string \<Rightarrow> 're option) \<Rightarrow> string \<Rightarrow> logQLError + 're logQLStage list" where
  "parseLogQLPipeline re input = pipelineLoop re (trimSpace input)"

definition parseLogQLSelector :: "(string \<Rightarrow> 're option) \<Rightarrow> string \<Rightarrow> logQLError + 're logQLSelector" where
  "parseLogQLSelector re input0 = (let input = trimSpace input0 in
     if \<not> hasPrefix input ''{'' then Inl (Err ''log stream selector must start with {'' [])
     else case findMatching input 0 CHR ''{'' CHR ''}'' of
       None \<Rightarrow> Inl (Err ''unterminated log stream selector'' [])
     | Some close \<Rightarrow> andThen (parseLogQLMatchers re (take (close - 1) (drop 1 input))) (\<lambda>ms.
         andThen (parseLogQLPipeline re (drop (close + 1) input)) (\<lambda>stages. Inr \<lparr>selMatchers = ms, selStages = stages\<rparr>)))"

definition parseLogQLRangeSelector :: "(string \<Rightarrow> 're option) \<Rightarrow> string \<Rightarrow> logQLError + ('re logQLSelector \<times> int \<times> int)" where
  "parseLogQLRangeSelector re input = (case findLastRange input of
     None \<Rightarrow> Inl (Err ''range aggregation requires a selector range like [5m]'' [])
   | Some (opn, cls) \<Rightarrow> andThen (parseLogQLDuration (trimSpace (take (cls - opn - 1) (drop (opn + 1) input)))) (\<lambda>window.
       let tail = trimSpace (drop (cls + 1) input) in
       andThen
         (if tail = [] then Inr 0
          else let (name, rest) = readIdentifier tail in
            if name \<noteq> ''offset'' then Inl (Err ''unexpected range selector tail %q'' [tail])
            else parseLogQLDuration (trimSpace rest))
         (\<lambda>offset. andThen (parseLogQLSelector re (trimSpace (take opn input))) (\<lambda>selector. Inr (selector, window, offset)))))"

section \<open>Grouping, comparison and vector matching\<close>

definition parseOptionalGrouping :: "string \<Rightarrow> logQLError + (logQLGrouping option \<times> string)" where
  "parseOptionalGrouping input0 = (let input = trimSpace input0; (name, rest) = readIdentifier input in
     if name \<noteq> ''by'' \<and> name \<noteq> ''without'' then Inr (None, input)
     else andThen (parseParenthesized (trimSpace rest)) (\<lambda>(inner, tail).
       Inr (Some \<lparr>grpWithout = (name = ''without''), grpLabels = splitCSVTrim inner\<rparr>, trimSpace tail)))"

definition comparisonOps :: "string list" where
  "comparisonOps = [''>='', ''<='', ''=='', ''!='', ''>'', ''<'']"

definition parseOptionalComparison :: "string \<Rightarrow> logQLError + (logQLComparison option \<times> string)" where
  "parseOptionalComparison input0 = (let input = trimSpace input0 in
     case firstPrefix comparisonOps input of
       None \<Rightarrow> Inr (None, input)
     | Some op \<Rightarrow> (let valueText = trimSpace (drop (length op) input);
           number = concat (map snd (takeWhile (\<lambda>x. \<not> isSpaceRune (fst x)) (runes valueText))) in
         case parseFloat number of None \<Rightarrow> Inl (Err ''invalid comparison value %q'' [number])
         | Some v \<Rightarrow> Inr (Some \<lparr>cmpOp = op, cmpValue = v\<rparr>, trimSpace (drop (length number) valueText))))"

definition emptyMatching :: logQLVectorMatching where
  "emptyMatching = \<lparr>vmOn = False, vmLabels = [], vmGroup = [], vmInclude = []\<rparr>"

lemma readIdentifier_shorter:
  assumes "readIdentifier s = (name, rest)"
  shows "length name + length rest \<le> length s"
proof -
  have "length (takeWhile identByte (trimSpace s)) + length (dropWhile identByte (trimSpace s)) = length (trimSpace s)"
    by (metis length_append takeWhile_dropWhile_id)
  then show ?thesis
    using assms length_trimSpace [of "dropWhile identByte (trimSpace s)"] length_trimSpace [of s]
    by (auto simp: readIdentifier_def Let_def simp del: length_trimSpace)
qed

lemma findMatchingLoop_bounds:
  "findMatchingLoop opn cls s i depth qt escaped = Some j \<Longrightarrow> i \<le> j \<and> j < i + length s"
proof (induction s arbitrary: i depth qt escaped)
  case (Cons c s)
  show ?case
  proof (cases "qt = None \<and> c \<noteq> dquote \<and> c \<noteq> backtick \<and> c \<noteq> opn \<and> c = cls \<and> depth = 1")
    case True
    then show ?thesis using Cons.prems by auto
  next
    case False
    then obtain depth' qt' escaped' where "findMatchingLoop opn cls s (i + 1) depth' qt' escaped' = Some j"
      using Cons.prems by (cases qt) (auto split: if_split_asm prod.split_asm)
    then show ?thesis using Cons.IH by fastforce
  qed
qed simp

lemma findMatching_bounds: "findMatching input start opn cls = Some j \<Longrightarrow> start \<le> j \<and> j < length input"
  using findMatchingLoop_bounds [of opn cls "drop start input" start 0 None False j] by (auto simp: findMatching_def split: if_splits)

lemma parseParenthesized_shorter:
  assumes "parseParenthesized s = Inr (inner, tail)"
  shows "length inner + 2 \<le> length s" "length tail + 2 \<le> length s" "length inner + length tail + 2 \<le> length s"
proof -
  let ?t = "trimSpace s"
  obtain j where j: "hasPrefix ?t ''(''" "findMatching ?t 0 CHR ''('' CHR '')'' = Some j" "inner = take (j - 1) (drop 1 ?t)"
    "tail = trimSpace (drop (j + 1) ?t)"
    using assms by (auto simp: parseParenthesized_def Let_def split: if_split_asm option.split_asm)
  have "0 < j"
  proof (rule ccontr)
    assume "\<not> 0 < j"
    then have "findMatching ?t 0 CHR ''('' CHR '')'' = Some 0" using j(2) by simp
    moreover obtain t where "?t = CHR ''('' # t" using j(1) by (cases ?t) (auto simp: hasPrefix_def)
    ultimately have "findMatchingLoop CHR ''('' CHR '')'' t 1 1 None False = Some 0" by (simp add: findMatching_def)
    then show False using findMatchingLoop_bounds by fastforce
  qed
  then have "length inner + length (drop (j + 1) ?t) + 2 \<le> length ?t"
    using findMatching_bounds [OF j(2)] j(3) by auto
  then have all: "length inner + length tail + 2 \<le> length s"
    using length_trimSpace [of s] length_trimSpace [of "drop (j + 1) ?t"] unfolding j(4) by linarith
  then show "length inner + length tail + 2 \<le> length s" "length inner + 2 \<le> length s" "length tail + 2 \<le> length s"
    by linarith+
qed

lemma readIdentifier_progress: "(name, rest) = readIdentifier s \<Longrightarrow> name \<noteq> [] \<Longrightarrow> length rest < length s"
  using readIdentifier_shorter [of s name rest] by (cases name) auto

text \<open>The loop of parseLogQLBinaryModifiers.\<close>

function modifierLoop ::
  "bool \<Rightarrow> string \<Rightarrow> logQLVectorMatching option \<Rightarrow> bool \<Rightarrow> logQLError + (logQLVectorMatching option \<times> bool \<times> string)" where
  "modifierLoop allowBool input matching boolModifier = (let (name, rest) = readIdentifier input in
     if name = ''bool'' then
       (if \<not> allowBool then Inl (Err ''bool modifier is only valid for comparison operators'' [])
        else modifierLoop allowBool (trimSpace rest) matching True)
     else if name = ''on'' \<or> name = ''ignoring'' then
       (case parseParenthesized (trimSpace rest) of Inl e \<Rightarrow> Inl e
        | Inr (inner, tail) \<Rightarrow> (let m = (case matching of None \<Rightarrow> emptyMatching | Some m \<Rightarrow> m) in
            modifierLoop allowBool (trimSpace tail) (Some (m\<lparr>vmOn := (name = ''on''), vmLabels := splitCSVTrim inner\<rparr>)) boolModifier))
     else if name = ''group_left'' \<or> name = ''group_right'' then
       (case (if hasPrefix (trimSpace rest) ''('' then parseParenthesized (trimSpace rest) else Inr ([], trimSpace rest)) of Inl e \<Rightarrow> Inl e
        | Inr (inner, tail) \<Rightarrow> (let m = (case matching of None \<Rightarrow> emptyMatching | Some m \<Rightarrow> m) in
            modifierLoop allowBool (trimSpace tail)
              (Some (m\<lparr>vmGroup := drop 6 name, vmInclude := splitCSVTrim inner\<rparr>)) boolModifier))
     else Inr (matching, boolModifier, input))"
  by pat_completeness auto
termination
proof (relation "measure (\<lambda>(b, s, m, x). length s)", goal_cases)
  case (2 allowBool input matching boolModifier x name rest)
  have "length rest < length input"
    by (rule readIdentifier_progress) (use 2(1,2,3) in \<open>simp, blast\<close>)
  then show ?case using length_trimSpace [of rest] by (simp del: length_trimSpace)
next
  case (3 allowBool input matching boolModifier x name rest a inner tail m)
  have "length rest < length input"
    by (rule readIdentifier_progress) (use 3(1,2,4) in \<open>simp, blast\<close>)
  moreover have "parseParenthesized (trimSpace rest) = Inr (inner, tail)"
    using 3(5,6) by simp
  from parseParenthesized_shorter(2) [OF this] have "length tail < length (trimSpace rest)" by simp
  ultimately show ?case
    using length_trimSpace [of rest] length_trimSpace [of tail] by (simp del: length_trimSpace)
next
  case (4 allowBool input matching boolModifier x name rest a inner tail m)
  have "length rest < length input"
    by (rule readIdentifier_progress) (use 4(1,2,5) in \<open>simp, blast\<close>)
  moreover have "length tail \<le> length (trimSpace rest)"
  proof (cases "hasPrefix (trimSpace rest) ''(''")
    case True
    then have "parseParenthesized (trimSpace rest) = Inr (inner, tail)" using 4(6,7) by simp
    from parseParenthesized_shorter(2) [OF this] show ?thesis by simp
  next
    case False
    then show ?thesis using 4(6,7) by auto
  qed
  ultimately show ?case
    using length_trimSpace [of rest] length_trimSpace [of tail] by (simp del: length_trimSpace)
qed simp

declare modifierLoop.simps [simp del]

definition parseLogQLBinaryModifiers ::
  "string \<Rightarrow> bool \<Rightarrow> logQLError + (logQLVectorMatching option \<times> bool \<times> string)" where
  "parseLogQLBinaryModifiers input allowBool = modifierLoop allowBool (trimSpace input) None False"

section \<open>Operators\<close>

definition binaryPrecedence :: "string \<Rightarrow> int" where
  "binaryPrecedence op =
     (if op = ''or'' then 1 else if op = ''and'' \<or> op = ''unless'' then 2
      else if op \<in> {''=='', ''!='', ''>'', ''>='', ''<'', ''<=''} then 3
      else if op = ''+'' \<or> op = ''-'' then 4
      else if op = ''*'' \<or> op = ''/'' \<or> op = ''%'' then 5
      else if op = ''^'' then 6 else 0)"

definition isLogQLComparisonOp :: "string \<Rightarrow> bool" where
  "isLogQLComparisonOp op \<longleftrightarrow> op \<in> {''=='', ''!='', ''>'', ''>='', ''<'', ''<=''}"

definition isLogQLSetOp :: "string \<Rightarrow> bool" where
  "isLogQLSetOp op \<longleftrightarrow> op = ''and'' \<or> op = ''or'' \<or> op = ''unless''"

text \<open>The operator at position \<open>idx\<close> is a sign when nothing but an operator or an opening parenthesis
  stands before it.\<close>

definition isUnaryLogQLOperator :: "string \<Rightarrow> nat \<Rightarrow> bool" where
  "isUnaryLogQLOperator input idx = (case dropWhile spaceByte (rev (take idx input)) of
     [] \<Rightarrow> True | c # _ \<Rightarrow> c \<in> set ''(,+-*/%^<>=!'')"

definition wordByte :: "char \<Rightarrow> bool" where
  "wordByte c \<longleftrightarrow> letterByte c \<or> digitByte c \<or> c = CHR ''_'' \<or> c = CHR ''.''"

definition isLogQLWordBoundary :: "string \<Rightarrow> int \<Rightarrow> bool" where
  "isLogQLWordBoundary input idx \<longleftrightarrow> idx < 0 \<or> int (length input) \<le> idx \<or> \<not> wordByte (input ! nat idx)"

definition symbolOps :: "string list" where
  "symbolOps = [''>='', ''<='', ''=='', ''!='', ''+'', ''-'', ''*'', ''/'', ''%'', ''^'', ''>'', ''<'']"

definition readWordOp :: "string \<Rightarrow> nat \<Rightarrow> string option" where
  "readWordOp input i = find (\<lambda>op. length op \<le> length (drop i input)
       \<and> map lowerAscii (take (length op) (drop i input)) = op
       \<and> isLogQLWordBoundary input (int i + int (length op))) [''unless'', ''and'', ''or'']"

text \<open>The operator at a position, its end and its precedence.\<close>

definition readLogQLBinaryOpAt :: "string \<Rightarrow> nat \<Rightarrow> (string \<times> nat \<times> int) option" where
  "readLogQLBinaryOpAt input i = (case firstPrefix symbolOps (drop i input) of
     Some op \<Rightarrow> if (op = ''+'' \<or> op = ''-'') \<and> isUnaryLogQLOperator input i then None
       else Some (op, i + length op, binaryPrecedence op)
   | None \<Rightarrow> if \<not> isLogQLWordBoundary input (int i - 1) then None
       else map_option (\<lambda>op. (op, i + length op, binaryPrecedence op)) (readWordOp input i))"

definition rhsIsPlainLogQLScalar :: "string \<Rightarrow> bool" where
  "rhsIsPlainLogQLScalar input0 = (let input = trimSpace input0 in
     if input = [] then False
     else case parseLogQLBinaryModifiers input True of Inl e \<Rightarrow> False
     | Inr (m, boolModifier, rhs) \<Rightarrow> \<not> boolModifier \<and> parseLogQLScalar rhs \<noteq> None)"

text \<open>The scan for the operator of lowest precedence, the last one on a tie. The state is the depth,
  the quote, the escape flag and the best operator so far: start, end, operator, precedence.\<close>

type_synonym foundOp = "nat \<times> nat \<times> string \<times> int"

fun betterOp :: "int \<Rightarrow> string \<Rightarrow> nat \<Rightarrow> foundOp option \<Rightarrow> foundOp option" where
  "betterOp minPrec input i best = (case readLogQLBinaryOpAt input i of None \<Rightarrow> best
   | Some (op, end', prec) \<Rightarrow>
       if prec < minPrec \<or> (isLogQLComparisonOp op \<and> rhsIsPlainLogQLScalar (drop end' input)) then best
       else if prec \<le> (case best of None \<Rightarrow> 100 | Some (_, _, _, p) \<Rightarrow> p) then Some (i, end', op, prec) else best)"

fun findOpLoop :: "int \<Rightarrow> string \<Rightarrow> string \<Rightarrow> nat \<Rightarrow> nat \<Rightarrow> char option \<Rightarrow> bool \<Rightarrow> foundOp option \<Rightarrow> foundOp option" where
  "findOpLoop minPrec input [] i depth qt escaped best = best"
| "findOpLoop minPrec input (c # s) i depth qt escaped best = (case qt of
     Some q \<Rightarrow> (let (qt', escaped') = quotedByte q escaped c in findOpLoop minPrec input s (i + 1) depth qt' escaped' best)
   | None \<Rightarrow>
       if c = dquote \<or> c = backtick then findOpLoop minPrec input s (i + 1) depth (Some c) escaped best
       else if openBracket c then findOpLoop minPrec input s (i + 1) (depth + 1) None escaped best
       else if closeBracket c then findOpLoop minPrec input s (i + 1) (depth - 1) None escaped best
       else if depth \<noteq> 0 then findOpLoop minPrec input s (i + 1) depth None escaped best
       else findOpLoop minPrec input s (i + 1) depth None escaped (betterOp minPrec input i best))"

definition findTopLevelLogQLBinaryOp :: "string \<Rightarrow> int \<Rightarrow> foundOp option" where
  "findTopLevelLogQLBinaryOp input minPrec =
     (if hasPrefix (trimSpace input) ''{'' then None
      else findOpLoop minPrec input input 0 0 None False None)"

text \<open>trimLogQLOuterParens and trimLogQLOuterParensForBinary: the second component tells whether a
  pair of parentheses was removed, which resets the least precedence to 1.\<close>

function trimParens :: "string \<Rightarrow> string \<times> bool" where
  "trimParens input0 = (let input = trimSpace input0 in
     if hasPrefix input ''('' \<and> findMatching input 0 CHR ''('' CHR '')'' = Some (length input - 1)
     then (fst (trimParens (take (length input - 2) (drop 1 input))), True)
     else (input, False))"
  by pat_completeness auto
termination
proof (relation "measure length", goal_cases)
  case (2 input0 input)
  then have "0 < length input" by (auto simp: hasPrefix_def)
  moreover have "length input \<le> length input0" using 2(1) by simp
  ultimately show ?case by (cases input) simp_all
qed simp

declare trimParens.simps [simp del]

definition trimLogQLOuterParens :: "string \<Rightarrow> string" where
  "trimLogQLOuterParens input = fst (trimParens input)"

definition trimLogQLOuterParensForBinary :: "string \<Rightarrow> int \<Rightarrow> string \<times> int" where
  "trimLogQLOuterParensForBinary input minPrec = (let (t, trimmed) = trimParens input in (t, if trimmed then 1 else minPrec))"

section \<open>Expressions\<close>

definition rangeFunctions :: "string list" where
  "rangeFunctions = [''count_over_time'', ''rate'', ''bytes_over_time'', ''bytes_rate'', ''sum_over_time'', ''avg_over_time'',
     ''max_over_time'', ''min_over_time'', ''first_over_time'', ''last_over_time'', ''stdvar_over_time'', ''stddev_over_time'',
     ''absent_over_time'']"

definition aggregationFunctions :: "string list" where
  "aggregationFunctions = [''sum'', ''min'', ''max'', ''avg'', ''count'', ''stddev'', ''stdvar'']"

definition parseLogQLRangeAggregation :: "(string \<Rightarrow> 're option) \<Rightarrow> string \<Rightarrow> string \<Rightarrow> logQLError + ('re logQLExpr \<times> string)" where
  "parseLogQLRangeAggregation re name rest = andThen (parseParenthesized (trimSpace rest)) (\<lambda>(inner, tail).
     andThen (parseLogQLRangeSelector re inner) (\<lambda>(selector, window, offset).
     andThen (parseOptionalGrouping (trimSpace tail)) (\<lambda>(grouping, tail).
     andThen (parseOptionalComparison (trimSpace tail)) (\<lambda>(comparison, tail).
       Inr (RangeAgg \<lparr>raFn = name, raSelector = selector, raWindow = window, raOffset = offset, raGrouping = grouping, raParam = 0\<rparr>
         comparison, trimSpace tail)))))"

definition parseLogQLQuantileOverTime :: "(string \<Rightarrow> 're option) \<Rightarrow> string \<Rightarrow> logQLError + ('re logQLExpr \<times> string)" where
  "parseLogQLQuantileOverTime re rest = andThen (parseParenthesized (trimSpace rest)) (\<lambda>(inner, tail).
     case splitTopLevel inner CHR '','' of
       [p, q] \<Rightarrow>
         (case parseFloat (trimSpace p) of
            None \<Rightarrow> Inl (Err ''invalid quantile_over_time quantile %q'' [trimSpace p])
          | Some param \<Rightarrow>
              if fLess param 0 \<or> fLess (fOfInt 1) param then Inl (Err ''invalid quantile_over_time quantile %q'' [trimSpace p])
              else andThen (parseLogQLRangeSelector re q) (\<lambda>(selector, window, offset).
                andThen (parseOptionalGrouping (trimSpace tail)) (\<lambda>(grouping, tail).
                andThen (parseOptionalComparison (trimSpace tail)) (\<lambda>(comparison, tail).
                  Inr (RangeAgg \<lparr>raFn = ''quantile_over_time'', raSelector = selector, raWindow = window, raOffset = offset,
                    raGrouping = grouping, raParam = param\<rparr> comparison, trimSpace tail)))))
     | _ \<Rightarrow> Inl (Err ''quantile_over_time expects a quantile and a range selector'' []))"

definition noTail :: "logQLError + ('a \<times> string) \<Rightarrow> logQLError + 'a" where
  "noTail r = andThen r (\<lambda>(e, tail). if tail \<noteq> [] then Inl (Err ''unexpected trailing LogQL input %q'' [tail]) else Inr e)"

definition parseLogQLVector :: "string \<Rightarrow> logQLError + 're logQLExpr" where
  "parseLogQLVector rest = andThen (parseParenthesized (trimSpace rest)) (\<lambda>(inner, tail).
     if tail \<noteq> [] then Inl (Err ''unexpected vector tail %q'' [tail])
     else case parseLogQLScalar inner of
       None \<Rightarrow> Inl (Err ''vector expects a scalar argument, got %q'' [trimSpace inner])
     | Some v \<Rightarrow> Inr (VectorExpr v))"

fun unquoteAll :: "string list \<Rightarrow> logQLError + string list" where
  "unquoteAll [] = Inr []"
| "unquoteAll (p # ps) = andThen (unquoteLogQLString (trimSpace p)) (\<lambda>v. andThen (unquoteAll ps) (\<lambda>vs. Inr (v # vs)))"

text \<open>Each of the following takes the function that parses a child expression. The order of the checks is
  that of the code.\<close>

definition parseLogQLLabelReplace ::
  "(string \<Rightarrow> 're option) \<Rightarrow> (string \<Rightarrow> logQLError + 're logQLExpr) \<Rightarrow> string \<Rightarrow> logQLError + 're logQLExpr" where
  "parseLogQLLabelReplace re parse rest = andThen (parseParenthesized (trimSpace rest)) (\<lambda>(inner, tail).
     if tail \<noteq> [] then Inl (Err ''unexpected label_replace tail %q'' [tail])
     else case splitTopLevel inner CHR '','' of
       [p0, p1, p2, p3, p4] \<Rightarrow> andThen (parse p0) (\<lambda>child.
         andThen (unquoteAll [p1, p2, p3, p4]) (\<lambda>vs.
           case re (vs ! 3) of None \<Rightarrow> Inl (Err ''invalid label_replace regex %q'' [vs ! 3])
           | Some r \<Rightarrow> Inr (LabelReplace child (vs ! 0) (vs ! 1) (vs ! 2) r)))
     | _ \<Rightarrow> Inl (Err ''label_replace expects an expression, destination label, replacement, source label, and regex'' []))"

definition parseLogQLLabelJoin :: "(string \<Rightarrow> logQLError + 're logQLExpr) \<Rightarrow> string \<Rightarrow> logQLError + 're logQLExpr" where
  "parseLogQLLabelJoin parse rest = andThen (parseParenthesized (trimSpace rest)) (\<lambda>(inner, tail).
     if tail \<noteq> [] then Inl (Err ''unexpected label_join tail %q'' [tail])
     else case splitTopLevel inner CHR '','' of
       p0 # p1 # p2 # p3 # ps \<Rightarrow> andThen (parse p0) (\<lambda>child.
         andThen (unquoteAll [p1, p2]) (\<lambda>vs. andThen (unquoteAll (p3 # ps)) (\<lambda>srcs.
           Inr (LabelJoin child (vs ! 0) (vs ! 1) srcs))))
     | _ \<Rightarrow> Inl (Err ''label_join expects an expression, destination label, separator, and source labels'' []))"

definition parseLogQLAggregation ::
  "(string \<Rightarrow> logQLError + 're logQLExpr) \<Rightarrow> string \<Rightarrow> string \<Rightarrow> logQLError + 're logQLExpr" where
  "parseLogQLAggregation parse name rest0 = andThen (parseOptionalGrouping (trimSpace rest0)) (\<lambda>(grouping, rest).
     andThen (parseParenthesized rest) (\<lambda>(inner, tail).
     andThen (parse inner) (\<lambda>child.
     andThen (if grouping = None then parseOptionalGrouping (trimSpace tail) else Inr (grouping, tail)) (\<lambda>(grouping, tail).
     andThen (parseOptionalComparison (trimSpace tail)) (\<lambda>(comparison, tail).
       if tail \<noteq> [] then Inl (Err ''unexpected trailing LogQL input %q'' [tail])
       else Inr (Aggregation name grouping child comparison))))))"

definition parseLogQLTopK ::
  "(string \<Rightarrow> logQLError + 're logQLExpr) \<Rightarrow> string \<Rightarrow> string \<Rightarrow> logQLError + 're logQLExpr" where
  "parseLogQLTopK parse name rest = andThen (parseParenthesized (trimSpace rest)) (\<lambda>(inner, tail).
     case splitTopLevel inner CHR '','' of
       [p, q] \<Rightarrow>
         (case goAtoi (trimSpace p) of
            None \<Rightarrow> Inl (Err ''invalid %s limit %q'' [name, trimSpace p])
          | Some k \<Rightarrow>
              if k < 0 then Inl (Err ''invalid %s limit %q'' [name, trimSpace p])
              else andThen (parse q) (\<lambda>child.
                andThen (parseOptionalComparison (trimSpace tail)) (\<lambda>(comparison, tail).
                  if tail \<noteq> [] then Inl (Err ''unexpected trailing LogQL input %q'' [tail])
                  else Inr (TopK name k child (name = ''topk'') comparison))))
     | _ \<Rightarrow> Inl (Err ''%s expects a limit and an expression'' [name]))"

definition parseLogQLPrimary ::
  "(string \<Rightarrow> 're option) \<Rightarrow> (string \<Rightarrow> logQLError + 're logQLExpr) \<Rightarrow> string \<Rightarrow> logQLError + 're logQLExpr" where
  "parseLogQLPrimary re parse input0 = (let input = trimLogQLOuterParens (trimSpace input0) in
     if hasPrefix input ''{'' then andThen (parseLogQLSelector re input) (\<lambda>s. Inr (LogSelector s))
     else case parseLogQLScalar input of Some v \<Rightarrow> Inr (Scalar v)
     | None \<Rightarrow> (let (name, rest) = readIdentifier input in
         if name \<in> set rangeFunctions then noTail (parseLogQLRangeAggregation re name rest)
         else if name \<in> set aggregationFunctions then parseLogQLAggregation parse name rest
         else if name = ''topk'' \<or> name = ''bottomk'' then parseLogQLTopK parse name rest
         else if name = ''vector'' then parseLogQLVector rest
         else if name = ''label_replace'' then parseLogQLLabelReplace re parse rest
         else if name = ''label_join'' then parseLogQLLabelJoin parse rest
         else if name = ''quantile_over_time'' then noTail (parseLogQLQuantileOverTime re rest)
         else Inl (Err ''unsupported LogQL expression %q'' [input])))"

text \<open>parseLogQL is parseLogQLBinary at precedence 1 on trimmed, nonempty text; a child expression is
  parsed with it.\<close>

fun parseLogQLBinary :: "nat \<Rightarrow> (string \<Rightarrow> 're option) \<Rightarrow> string \<Rightarrow> int \<Rightarrow> logQLError + 're logQLExpr" where
  "parseLogQLBinary 0 re input0 minPrec0 = Inl OutOfFuel"
| "parseLogQLBinary (Suc fuel) re input0 minPrec0 =
     (let (input, minPrec) = trimLogQLOuterParensForBinary (trimSpace input0) minPrec0 in
      case findTopLevelLogQLBinaryOp input minPrec of
        Some (opStart, opEnd, op, prec) \<Rightarrow>
          andThen (parseLogQLBinaryModifiers (drop opEnd input) (isLogQLComparisonOp op)) (\<lambda>(matching, boolModifier, rhsText).
          andThen (parseLogQLBinary fuel re (take opStart input) (prec + 1)) (\<lambda>lhs.
          andThen (parseLogQLBinary fuel re rhsText (prec + 1)) (\<lambda>rhs.
            Inr (BinaryOp op lhs rhs boolModifier matching))))
      | None \<Rightarrow> parseLogQLPrimary re
          (\<lambda>child0. let child = trimSpace child0 in
             if child = [] then Inl (Err ''missing query'' []) else parseLogQLBinary fuel re child 1) input)"

definition parseLogQL :: "(string \<Rightarrow> 're option) \<Rightarrow> string \<Rightarrow> logQLError + 're logQLExpr" where
  "parseLogQL re input0 = (let input = trimSpace input0 in
     if input = [] then Inl (Err ''missing query'' []) else parseLogQLBinary (length input + 1) re input 1)"

end
