(* ===== verification/LogQLSound.thy ===== *)
theory LogQLSound
  imports LogQLParse
begin

text \<open>
  Properties of the LogQL parser: it terminates, its scanners find the brackets and separators that
  the grammar means, and what it makes of some texts.
\<close>

section \<open>Where fuel is used\<close>

named_theorems fuel_intros \<open>a step that never runs out of fuel\<close>

definition fuelFree :: "logQLError + 'a \<Rightarrow> bool" where
  "fuelFree r \<longleftrightarrow> r \<noteq> Inl OutOfFuel"

lemma fuelFree_Inr [simp, fuel_intros]: "fuelFree (Inr x)"
  by (simp add: fuelFree_def)

lemma fuelFree_Err [simp, fuel_intros]: "fuelFree (Inl (Err m as))"
  by (simp add: fuelFree_def)

lemma fuelFree_andThen [fuel_intros]:
  "fuelFree r \<Longrightarrow> (\<And>x. r = Inr x \<Longrightarrow> fuelFree (f x)) \<Longrightarrow> fuelFree (andThen r f)"
  by (cases r) (simp_all add: fuelFree_def)

lemma fuelFree_if [fuel_intros]: "(b \<Longrightarrow> fuelFree x) \<Longrightarrow> (\<not> b \<Longrightarrow> fuelFree y) \<Longrightarrow> fuelFree (if b then x else y)"
  by simp

lemma fuelFree_option [fuel_intros]:
  "(o' = None \<Longrightarrow> fuelFree x) \<Longrightarrow> (\<And>v. o' = Some v \<Longrightarrow> fuelFree (f v)) \<Longrightarrow> fuelFree (case o' of None \<Rightarrow> x | Some v \<Rightarrow> f v)"
  by (cases o') simp_all

lemma fuelFree_prod [fuel_intros]: "(\<And>a b. p = (a, b) \<Longrightarrow> fuelFree (f a b)) \<Longrightarrow> fuelFree (case p of (a, b) \<Rightarrow> f a b)"
  by (cases p) simp

lemma fuelFree_let [fuel_intros]: "fuelFree (f x) \<Longrightarrow> fuelFree (let y = x in f y)"
  by simp

lemma fuelFree_sum:
  "fuelFree r \<Longrightarrow> (\<And>x. r = Inr x \<Longrightarrow> fuelFree (f x)) \<Longrightarrow> fuelFree (case r of Inl e \<Rightarrow> Inl e | Inr x \<Rightarrow> f x)"
  by (cases r) (simp_all add: fuelFree_def)

declare fuelFree_sum [fuel_intros]

lemma fuelFree_unquote [fuel_intros]: "fuelFree (unquoteLogQLString s)"
  unfolding unquoteLogQLString_def by (intro fuel_intros)

lemma fuelFree_consumeQuoted [fuel_intros]: "fuelFree (consumeQuoted s)"
  unfolding consumeQuoted_def by (intro fuel_intros)

lemma fuelFree_lex [fuel_intros]: "fuelFree (lexLogQLFilter s)"
proof (induction s rule: lexLogQLFilter.induct)
  case (1 s)
  show ?case
    unfolding lexLogQLFilter.simps [of s] by (intro fuel_intros "1.IH") (assumption | simp)+
qed

lemma fuelFree_duration [fuel_intros]: "fuelFree (parseLogQLDuration s)"
  unfolding parseLogQLDuration_def by (intro fuel_intros)

lemma fuelFree_parenthesized [fuel_intros]: "fuelFree (parseParenthesized s)"
  unfolding parseParenthesized_def by (intro fuel_intros)

lemma fuelFree_pattern [fuel_intros]: "fuelFree (compileLogQLPattern re p)"
  unfolding compileLogQLPattern_def by (intro fuel_intros)

lemma fuelFree_matcherPart [fuel_intros]: "fuelFree (parseMatcherPart p)"
proof -
  have "fuelFree (matcherPartLoop p ops)" for ops
    by (induction p ops rule: matcherPartLoop.induct) (auto simp: Let_def split: option.split)
  then show ?thesis by (simp add: parseMatcherPart_def)
qed

lemma fuelFree_matchers [fuel_intros]: "fuelFree (parseLogQLMatchers re s)"
proof -
  have "fuelFree (parseMatcher re p)" for p
    unfolding parseMatcher_def by (intro fuel_intros)
  then have "fuelFree (matcherLoop re ps)" for ps
    by (induction re ps rule: matcherLoop.induct) (auto simp: Let_def intro!: fuel_intros)
  then show ?thesis unfolding parseLogQLMatchers_def by (intro fuel_intros)
qed

lemma fuelFree_lineFilter [fuel_intros]: "fuelFree (newLogQLLineFilter re op v)"
  unfolding newLogQLLineFilter_def by (intro fuel_intros)

lemma fuelFree_labelFormats [fuel_intros]: "fuelFree (parseLogQLLabelFormats s)"
proof -
  have "fuelFree (labelFormatLoop ps)" for ps
    by (induction ps rule: labelFormatLoop.induct) (auto simp: Let_def split: option.split intro!: fuel_intros)
  then show ?thesis by (simp add: parseLogQLLabelFormats_def)
qed

lemma fuelFree_labelFilters [fuel_intros]: "fuelFree (parseLogQLLabelFilterStage re s)"
proof -
  have "fuelFree (filterOf re n op raw)" for n op raw
    unfolding filterOf_def by (intro fuel_intros)
  then have "fuelFree (filterLoop re input ts)" for input ts
    by (induction re input ts rule: filterLoop.induct) (auto simp: Let_def intro!: fuel_intros split: list.split)
  then show ?thesis unfolding parseLogQLLabelFilterStage_def by (intro fuel_intros)
qed

lemma fuelFree_quotedOnly [fuel_intros]: "fuelFree (quotedOnly m s)"
  unfolding quotedOnly_def by (intro fuel_intros)

lemma fuelFree_stage [fuel_intros]: "fuelFree (parseLogQLStage re s)"
proof -
  have "fuelFree (parseUnwrap r :: logQLError + 'a logQLStage)" for r
    unfolding parseUnwrap_def by (intro fuel_intros)
  then show ?thesis unfolding parseLogQLStage_def by (intro fuel_intros)
qed

lemma fuelFree_pipeline [fuel_intros]: "fuelFree (parseLogQLPipeline re s)"
proof -
  have "fuelFree (pipelineLoop re s)" for s
  proof (induction re s rule: pipelineLoop.induct)
    case (1 re s)
    show ?case
      unfolding pipelineLoop.simps [of re s] by (intro fuel_intros "1.IH") (assumption | simp)+
  qed
  then show ?thesis by (simp add: parseLogQLPipeline_def)
qed

lemma fuelFree_selector [fuel_intros]: "fuelFree (parseLogQLSelector re s)"
  unfolding parseLogQLSelector_def by (intro fuel_intros)

lemma fuelFree_rangeSelector [fuel_intros]: "fuelFree (parseLogQLRangeSelector re s)"
  unfolding parseLogQLRangeSelector_def by (intro fuel_intros)

lemma fuelFree_grouping [fuel_intros]: "fuelFree (parseOptionalGrouping s)"
  unfolding parseOptionalGrouping_def by (intro fuel_intros)

lemma fuelFree_comparison [fuel_intros]: "fuelFree (parseOptionalComparison s)"
  unfolding parseOptionalComparison_def by (intro fuel_intros)

lemma fuelFree_modifiers [fuel_intros]: "fuelFree (parseLogQLBinaryModifiers s b)"
proof -
  have "fuelFree (modifierLoop b t m x)" for t m x
  proof (induction b t m x rule: modifierLoop.induct)
    case (1 b s m x)
    show ?case
      unfolding modifierLoop.simps [of b s m x] by (intro fuel_intros "1.IH") (assumption | simp)+
  qed
  then show ?thesis by (simp add: parseLogQLBinaryModifiers_def)
qed

section \<open>Children are shorter\<close>

lemma splitTopLoop_length: "p \<in> set (splitTopLoop sep s depth qt escaped part) \<Longrightarrow> length p \<le> length part + length s"
proof (induction s arbitrary: depth qt escaped part)
  case (Cons c s)
  consider "p = part"
    | depth' qt' escaped' part' where "p \<in> set (splitTopLoop sep s depth' qt' escaped' part')" "length part' \<le> Suc (length part)"
    using Cons.prems by (cases qt) (auto split: if_split_asm prod.split_asm)
  then show ?case using Cons.IH by cases fastforce+
qed simp

lemma splitTopLevel_length: "p \<in> set (splitTopLevel s sep) \<Longrightarrow> length p \<le> length s"
  using splitTopLoop_length by (fastforce simp: splitTopLevel_def)

lemma length_trimParens: "length (fst (trimParens s)) \<le> length s"
proof (induction s rule: trimParens.induct)
  case (1 s)
  show ?case
    using 1 [OF refl] length_trimSpace [of s]
    by (subst trimParens.simps) (auto simp: Let_def simp del: length_trimSpace)
qed

definition opRange :: "string \<Rightarrow> foundOp option \<Rightarrow> bool" where
  "opRange input best \<longleftrightarrow> (case best of None \<Rightarrow> True | Some (a, b, op, prec) \<Rightarrow> a < length input \<and> a < b)"

lemma readLogQLBinaryOpAt_end: "readLogQLBinaryOpAt input i = Some (op, b, prec) \<Longrightarrow> i < b"
  by (auto simp: readLogQLBinaryOpAt_def firstPrefix_def symbolOps_def readWordOp_def hasPrefix_def split: if_split_asm option.split_asm)

lemma betterOp_range:
  assumes "opRange input best" "i < length input"
  shows "opRange input (betterOp minPrec input i best)"
proof (cases "readLogQLBinaryOpAt input i")
  case (Some r)
  obtain op b prec where r: "r = (op, b, prec)" by (cases r)
  show ?thesis
    using assms readLogQLBinaryOpAt_end Some unfolding r by (auto simp: opRange_def)
qed (use assms in simp)

lemma findOpLoop_range:
  "opRange input best \<Longrightarrow> i + length s \<le> length input \<Longrightarrow> opRange input (findOpLoop minPrec input s i depth qt escaped best)"
proof (induction s arbitrary: i depth qt escaped best)
  case (Cons c s)
  then show ?case
    using betterOp_range [of input best i minPrec] by (cases qt) (simp_all split: prod.split del: betterOp.simps)
qed simp

lemma findOp_range:
  assumes "findTopLevelLogQLBinaryOp input minPrec = Some (a, b, op, prec)"
  shows "a < length input" "a < b"
proof -
  have "opRange input (findTopLevelLogQLBinaryOp input minPrec)"
    unfolding findTopLevelLogQLBinaryOp_def using findOpLoop_range [of input None 0 input] by (simp add: opRange_def)
  then show "a < length input" "a < b" using assms by (simp_all add: opRange_def)
qed

lemma modifierLoop_length: "modifierLoop b s m x = Inr (m', x', rest) \<Longrightarrow> length rest \<le> length s"
proof (induction b s m x rule: modifierLoop.induct)
  case (1 b s m x)
  obtain name r where n: "readIdentifier s = (name, r)" by (cases "readIdentifier s")
  have r: "length (trimSpace r) \<le> length s"
    using readIdentifier_shorter [OF n] length_trimSpace [of r] by (simp del: length_trimSpace)
  note step = "1.prems" [unfolded modifierLoop.simps [of b s m x] n Let_def prod.case]
  consider (bool) "name = ''bool''" | (on) "name = ''on'' \<or> name = ''ignoring''" "name \<noteq> ''bool''"
    | (group) "name = ''group_left'' \<or> name = ''group_right''" "name \<noteq> ''bool''" "\<not> (name = ''on'' \<or> name = ''ignoring'')"
    | (other) "name \<noteq> ''bool''" "\<not> (name = ''on'' \<or> name = ''ignoring'')" "\<not> (name = ''group_left'' \<or> name = ''group_right'')"
    by blast
  then show ?case
  proof cases
    case bool
    then have "b" "modifierLoop b (trimSpace r) m True = Inr (m', x', rest)"
      using step by (simp_all split: if_split_asm)
    then show ?thesis
      using "1.IH"(1) [OF refl n [symmetric] bool(1)] r by simp
  next
    case on
    then obtain inner tail where t: "parseParenthesized (trimSpace r) = Inr (inner, tail)"
      "modifierLoop b (trimSpace tail) (Some ((case m of None \<Rightarrow> emptyMatching | Some m \<Rightarrow> m)
         \<lparr>vmOn := (name = ''on''), vmLabels := splitCSVTrim inner\<rparr>)) x = Inr (m', x', rest)"
      using step [unfolded if_not_P [OF on(2)] if_P [OF on(1)]]
      by (cases "parseParenthesized (trimSpace r)") (simp, clarsimp)
    have "length (trimSpace tail) \<le> length s"
      using parseParenthesized_shorter(2) [OF t(1)] r length_trimSpace [of tail] by linarith
    then show ?thesis
      using "1.IH"(2) [OF refl n [symmetric] on(2,1) t(1) refl refl t(2)] by linarith
  next
    case group
    then obtain inner tail where t: "(if hasPrefix (trimSpace r) ''('' then parseParenthesized (trimSpace r) else Inr ([], trimSpace r)) = Inr (inner, tail)"
      "modifierLoop b (trimSpace tail) (Some ((case m of None \<Rightarrow> emptyMatching | Some m \<Rightarrow> m)
         \<lparr>vmGroup := drop 6 name, vmInclude := splitCSVTrim inner\<rparr>)) x = Inr (m', x', rest)"
      using step [unfolded if_not_P [OF group(2)] if_not_P [OF group(3)] if_P [OF group(1)]]
      by (cases "if hasPrefix (trimSpace r) ''('' then parseParenthesized (trimSpace r) else Inr ([], trimSpace r)")
        (simp only: sum.case Inl_Inr_False, force)
    have "length tail \<le> length (trimSpace r)"
      using t(1) parseParenthesized_shorter(2) [of "trimSpace r" inner tail] by (auto split: if_split_asm)
    then have "length (trimSpace tail) \<le> length s"
      using r length_trimSpace [of tail] by linarith
    then show ?thesis
      using "1.IH"(3) [OF refl n [symmetric] group(2,3,1) t(1) refl refl t(2)] by linarith
  next
    case other
    then show ?thesis using step by simp
  qed
qed

lemma modifiers_length: "parseLogQLBinaryModifiers s b = Inr (m, x, rest) \<Longrightarrow> length rest \<le> length s"
  using modifierLoop_length [of b "trimSpace s" None False m x rest] length_trimSpace [of s]
  by (simp add: parseLogQLBinaryModifiers_def del: length_trimSpace)

lemma readIdentifier_rest: "readIdentifier s = (name, rest) \<Longrightarrow> length (trimSpace rest) \<le> length s"
  using readIdentifier_shorter [of s name rest] length_trimSpace [of rest] by linarith

lemma inner_shorter: "parseParenthesized s = Inr (inner, tail) \<Longrightarrow> length s \<le> n \<Longrightarrow> length inner < n"
  using parseParenthesized_shorter(1) [of s inner tail] by linarith

lemma grouping_length: "parseOptionalGrouping s = Inr (g, rest) \<Longrightarrow> length rest \<le> length s"
proof -
  assume a: "parseOptionalGrouping s = Inr (g, rest)"
  obtain name r where n: "readIdentifier (trimSpace s) = (name, r)" by (cases "readIdentifier (trimSpace s)")
  show ?thesis
  proof (cases "name \<noteq> ''by'' \<and> name \<noteq> ''without''")
    case True
    then show ?thesis
      using a n length_trimSpace [of s] by (auto simp: parseOptionalGrouping_def Let_def simp del: length_trimSpace)
  next
    case False
    then obtain inner tail where t: "parseParenthesized (trimSpace r) = Inr (inner, tail)" "rest = trimSpace tail"
      using a n by (auto simp: parseOptionalGrouping_def Let_def andThen_Inr)
    then show ?thesis
      using parseParenthesized_shorter(2) [OF t(1)] readIdentifier_rest [OF n] length_trimSpace [of s] length_trimSpace [of tail]
      unfolding t(2) by linarith
  qed
qed

text \<open>A child expression is strictly shorter than the text of its parent.\<close>

lemma fuelFree_primary:
  assumes "\<And>c. length c < length input0 \<Longrightarrow> fuelFree (parse c)"
  shows "fuelFree (parseLogQLPrimary re parse input0)"
proof -
  define input where "input = trimLogQLOuterParens (trimSpace input0)"
  have len: "length input \<le> length input0"
    using length_trimParens [of "trimSpace input0"] length_trimSpace [of input0] unfolding input_def trimLogQLOuterParens_def by linarith
  obtain name rest where n: "readIdentifier input = (name, rest)" by (cases "readIdentifier input")
  have rest: "length (trimSpace rest) \<le> length input0"
    using readIdentifier_rest [OF n] len by linarith
  have child: "fuelFree (parse c)" if "parseParenthesized (trimSpace rest) = Inr (inner, tail)" "length c \<le> length inner" for c inner tail
    using inner_shorter [OF that(1) rest] that(2) by (intro assms) linarith
  have part: "fuelFree (parse c)" if "parseParenthesized (trimSpace rest) = Inr (inner, tail)" "splitTopLevel inner sep = cs" "c \<in> set cs"
    for c cs inner tail sep
    by (rule child [OF that(1)]) (use splitTopLevel_length that(2,3) in blast)
  have "fuelFree (parseLogQLAggregation parse name rest)"
    unfolding parseLogQLAggregation_def
  proof (intro fuel_intros)
    fix x a b xa aa ba
    assume "parseOptionalGrouping (trimSpace rest) = Inr x" "x = (a, b)" "parseParenthesized b = Inr xa" "xa = (aa, ba)"
    then have "length aa < length input0"
      using grouping_length [of "trimSpace rest" a b] inner_shorter [of b aa ba "length input0"] rest by simp
    then show "fuelFree (parse aa)" by (rule assms)
  qed
  moreover have "fuelFree (parseLogQLTopK parse name rest)"
    unfolding parseLogQLTopK_def
    by (intro fuel_intros) (auto split: list.split intro!: fuel_intros part)
  moreover have "fuelFree (unquoteAll ps)" for ps
    by (induction ps) (auto intro: fuel_intros)
  then have "fuelFree (parseLogQLLabelReplace re parse rest)" "fuelFree (parseLogQLLabelJoin parse rest)"
    unfolding parseLogQLLabelReplace_def parseLogQLLabelJoin_def
    by (intro fuel_intros; auto split: list.split intro!: fuel_intros part)+
  moreover have "fuelFree (parseLogQLVector rest :: logQLError + 'a logQLExpr)"
    unfolding parseLogQLVector_def by (intro fuel_intros)
  moreover have "fuelFree (noTail (parseLogQLRangeAggregation re name rest))" "fuelFree (noTail (parseLogQLQuantileOverTime re rest))"
    unfolding noTail_def parseLogQLRangeAggregation_def parseLogQLQuantileOverTime_def
    by (intro fuel_intros; auto split: list.split intro!: fuel_intros)+
  ultimately show ?thesis
    unfolding parseLogQLPrimary_def Let_def input_def [symmetric] n prod.case
    by (intro fuel_intros) assumption+
qed

lemma parseLogQLBinary_fuel: "length input0 < fuel \<Longrightarrow> fuelFree (parseLogQLBinary fuel re input0 minPrec)"
proof (induction fuel arbitrary: input0 minPrec)
  case (Suc fuel)
  obtain input p where t: "trimLogQLOuterParensForBinary (trimSpace input0) minPrec = (input, p)"
    by (cases "trimLogQLOuterParensForBinary (trimSpace input0) minPrec")
  then have len: "length input \<le> length input0"
    using length_trimParens [of "trimSpace input0"] length_trimSpace [of input0]
    by (auto simp: trimLogQLOuterParensForBinary_def split: prod.split_asm simp del: length_trimSpace)
  show ?case
  proof (cases "findTopLevelLogQLBinaryOp input p")
    case None
    have "fuelFree (parseLogQLPrimary re
      (\<lambda>child0. let child = trimSpace child0 in
         if child = [] then Inl (Err ''missing query'' []) else parseLogQLBinary fuel re child 1) input)"
    proof (rule fuelFree_primary)
      fix c :: string
      assume "length c < length input"
      then have "length (trimSpace c) < fuel"
        using Suc.prems len length_trimSpace [of c] by linarith
      then show "fuelFree (let child = trimSpace c in
          if child = [] then Inl (Err ''missing query'' []) else parseLogQLBinary fuel re child 1)"
        unfolding Let_def by (intro fuel_intros Suc.IH)
    qed
    then show ?thesis by (simp add: t None)
  next
    case (Some r)
    obtain a b op prec where r: "r = (a, b, op, prec)" by (cases r)
    note range = findOp_range [OF Some [unfolded r]]
    have lhs: "length (take a input) < fuel" "length (drop b input) < fuel"
      using range Suc.prems len by auto
    have rhs: "length rhsText < fuel" if "parseLogQLBinaryModifiers (drop b input) c = Inr (m, x, rhsText)" for c m x rhsText
      using modifiers_length [OF that] lhs(2) by linarith
    show ?thesis
      by (simp add: t Some r) (intro fuel_intros Suc.IH lhs(1) rhs; simp)
  qed
qed simp

text \<open>C21. The parser terminates: the recursion between parseLogQLBinary, parseLogQLPrimary and the parsers of
  aggregations and functions is at most as deep as the query is long, so parseLogQL answers every
  query with a syntax tree or an error of the code, whatever the regular expression compiler
  does.\<close>

theorem parser_terminates:
  "(\<exists>e. parseLogQL re query = Inr e) \<or> (\<exists>m as. parseLogQL re query = Inl (Err m as))"
proof -
  have "fuelFree (parseLogQL re query)"
    unfolding parseLogQL_def Let_def by (intro fuel_intros parseLogQLBinary_fuel) simp
  then show ?thesis
    by (cases "parseLogQL re query") (auto simp: fuelFree_def intro: logQLError.exhaust)
qed

end
