(* ===== verification/LogQLText.thy ===== *)
theory LogQLText
  imports LogQLSound
begin

text \<open>
  What the LogQL parser makes of concrete texts: a selector printed with raw strings is read back as it
  was, whatever its values contain; an operator inside a value is mistaken for the operator of
  the matcher; and a chain of two operators of the same precedence is rejected.
\<close>

section \<open>White space around ASCII\<close>

lemma decodeRune_append_ascii:
  assumes "x \<noteq> []" "code d < 0x80"
  shows "decodeRune (x @ d # y) = decodeRune x"
proof -
  have n: "\<not> cont d" using assms(2) by (simp add: cont_def)
  obtain c t where x: "x = c # t" using assms(1) by (cases x) auto
  show ?thesis
    using n unfolding x
    by (cases t; cases "tl t"; cases "tl (tl t)")
      (auto simp: decodeRune_def decode2_def decode3_def decode4_def Let_def cont_def split: list.split)
qed

lemma runes_append_ascii:
  assumes "code d < 0x80"
  shows "runes (x @ d # y) = runes x @ (code d, [d]) # runes y"
proof (induction x rule: runes.induct)
  case (1 x)
  show ?case
  proof (cases "x = []")
    case True
    then show ?thesis using assms by (subst runes.simps) (simp add: decodeRune_def)
  next
    case False
    obtain r n where d: "decodeRune x = (r, n)" by (cases "decodeRune x")
    have w: "n \<le> length x" using decodeRune_width [OF False d] by simp
    have "runes (x @ d # y) = (r, take n x) # runes (drop n x @ d # y)"
      using False w d decodeRune_append_ascii [OF False assms] by (subst runes.simps) simp
    also have "\<dots> = (r, take n x) # runes (drop n x) @ (code d, [d]) # runes y"
      using "1.IH" [OF False d [symmetric] refl] by simp
    finally show ?thesis
      using False d by (subst (2) runes.simps) simp
  qed
qed

definition inkByte :: "char \<Rightarrow> bool" where
  "inkByte c \<longleftrightarrow> code c < 0x80 \<and> \<not> isSpaceRune (code c)"

lemma concat_runes: "concat (map snd (runes s)) = s"
  by (rule runes_bytes)

text \<open>A text between two ASCII bytes that are no spaces is trimmed already.\<close>

lemma trimSpace_wrapped:
  assumes "inkByte c" "inkByte d"
  shows "trimSpace (c # t @ [d]) = c # t @ [d]"
proof -
  have r: "runes (c # t @ [d]) = (code c, [c]) # runes t @ [(code d, [d])]"
    using runes_append_ascii [of c "[]" "t @ [d]"] runes_append_ascii [of d t "[]"] assms by (simp add: inkByte_def)
  have "dropWhile (isSpaceRune \<circ> fst) (runes (c # t @ [d])) = runes (c # t @ [d])"
    using assms(1) unfolding r by (simp add: inkByte_def)
  moreover have "dropWhile (isSpaceRune \<circ> fst) (rev (runes (c # t @ [d]))) = rev (runes (c # t @ [d]))"
    using assms(2) unfolding r by (simp add: inkByte_def)
  ultimately show ?thesis
    by (simp add: trimSpace_def runes_bytes)
qed

lemma trimSpace_Nil [simp]: "trimSpace [] = []"
  by (simp add: trimSpace_def)

lemma trimSpace_tight:
  assumes "s \<noteq> []" "inkByte (hd s)" "inkByte (last s)"
  shows "trimSpace s = s"
proof (cases "tl s")
  case Nil
  then obtain c where s: "s = [c]" using assms(1) by (cases s) auto
  then show ?thesis
    using assms by (simp add: trimSpace_ascii inkByte_def isSpaceRune_def asciiSpace_def)
next
  case (Cons d t)
  then have "s = hd s # butlast (tl s) @ [last s]"
    using assms(1) by (cases s) auto
  then show ?thesis using trimSpace_wrapped [OF assms(2,3)] by metis
qed

section \<open>Scanning printed text\<close>

definition rawQuote :: "string \<Rightarrow> string" where
  "rawQuote v = [backtick] @ v @ [backtick]"

lemma length_rawQuote [simp]: "length (rawQuote v) = length v + 2"
  by (simp add: rawQuote_def)

lemma rawQuote_ends: "rawQuote v \<noteq> []" "hd (rawQuote v) = backtick" "last (rawQuote v) = backtick"
  by (simp_all add: rawQuote_def)

lemma inkByte_backtick [simp]: "inkByte backtick"
  by (simp add: inkByte_def isSpaceRune_def)

lemma quotedByte_raw: "quotedByte backtick False c = (if c = backtick then (None, False) else (Some backtick, False))"
  by (simp add: quotedByte_def)

lemma findMatching_body:
  "backtick \<notin> set v \<Longrightarrow> findMatchingLoop o' cl (v @ backtick # s) i d (Some backtick) False
     = findMatchingLoop o' cl s (i + length v + 1) d None False"
  by (induction v arbitrary: i) (auto simp: quotedByte_raw)

lemma findMatching_quoted:
  "backtick \<notin> set v \<Longrightarrow> findMatchingLoop o' cl (rawQuote v @ s) i d None False
     = findMatchingLoop o' cl s (i + length v + 2) d None False"
  using findMatching_body [of v o' cl s "i + 1" d] by (simp add: rawQuote_def)

text \<open>Bytes that no scanner takes notice of.\<close>

definition quietByte :: "char \<Rightarrow> bool" where
  "quietByte c \<longleftrightarrow> c \<noteq> dquote \<and> c \<noteq> backtick \<and> \<not> openBracket c \<and> \<not> closeBracket c"

lemma findMatching_quiet:
  "list_all quietByte t \<Longrightarrow> openBracket o' \<Longrightarrow> closeBracket cl \<Longrightarrow>
     findMatchingLoop o' cl (t @ s) i d None False = findMatchingLoop o' cl s (i + length t) d None False"
  by (induction t arbitrary: i) (auto simp: quietByte_def)

lemma splitTop_body:
  "backtick \<notin> set v \<Longrightarrow> splitTopLoop sep (v @ backtick # s) d (Some backtick) False part
     = splitTopLoop sep s d None False (part @ v @ [backtick])"
  by (induction v arbitrary: part) (auto simp: quotedByte_raw)

lemma splitTop_quoted:
  "backtick \<notin> set v \<Longrightarrow> splitTopLoop sep (rawQuote v @ s) d None False part = splitTopLoop sep s d None False (part @ rawQuote v)"
  using splitTop_body [of v sep s d "part @ [backtick]"] by (simp add: rawQuote_def)

lemma splitTop_quiet:
  "list_all quietByte t \<Longrightarrow> sep \<notin> set t \<Longrightarrow> splitTopLoop sep (t @ s) 0 None False part = splitTopLoop sep s 0 None False (part @ t)"
  by (induction t arbitrary: part) (auto simp: quietByte_def)

lemma closingQuote_raw: "backtick \<notin> set v \<Longrightarrow> closingQuote backtick (v @ backtick # s) False = Some (length v)"
  by (induction v) auto

lemma unquote_raw:
  assumes "backtick \<notin> set v"
  shows "unquoteLogQLString (rawQuote v) = Inr v"
proof -
  have "trimSpace (rawQuote v) = rawQuote v"
    by (rule trimSpace_tight) (simp_all add: rawQuote_ends)
  then show ?thesis by (simp add: unquoteLogQLString_def rawQuote_def)
qed

lemma consumeQuoted_raw:
  assumes "backtick \<notin> set v" "rest \<noteq> [] \<Longrightarrow> last rest = backtick"
  shows "consumeQuoted (rawQuote v @ rest) = Inr (v, rest)"
proof -
  have "trimSpace (rawQuote v @ rest) = rawQuote v @ rest"
    using assms(2) by (intro trimSpace_tight) (auto simp: rawQuote_def)
  moreover have "take (length v + 2) (rawQuote v @ rest) = rawQuote v" "drop (length v + 2) (rawQuote v @ rest) = rest"
    by (simp_all add: rawQuote_def)
  moreover have "hd (rawQuote v @ rest) = backtick" "tl (rawQuote v @ rest) = v @ backtick # rest" "rawQuote v @ rest \<noteq> []"
    by (simp_all add: rawQuote_def)
  ultimately show ?thesis
    using closingQuote_raw [OF assms(1), of rest] unquote_raw [OF assms(1)]
    by (simp add: consumeQuoted_def Let_def)
qed

section \<open>Parsing concrete queries\<close>

text \<open>The equations that evaluate the parser on a concrete ASCII query by rewriting.\<close>

lemmas logql_eval =
  spaceByte_def letterByte_def digitByte_def indexOf_def containsText_def quotedByte_def findMatching_def
  openBracket_def closeBracket_def splitTopLevel_def splitCSVTrim_def parseParenthesized_def findLastRange_def
  identByte_def readIdentifier_def firstPrefix_def filterOps_def goAtoi_def two63_def durationUnits_def unitByte_def
  durationNumber_def fractionNanos_def goParseDuration_def dropLast_def parseLogQLDuration_def matcherOps_def
  parseMatcherPart_def parseMatcher_def parseLogQLMatchers_def parseLogQLPipeline_def parseLogQLSelector_def
  parseLogQLRangeSelector_def parseOptionalGrouping_def comparisonOps_def parseOptionalComparison_def
  emptyMatching_def parseLogQLBinaryModifiers_def binaryPrecedence_def isLogQLComparisonOp_def isLogQLSetOp_def
  isUnaryLogQLOperator_def wordByte_def isLogQLWordBoundary_def symbolOps_def readWordOp_def readLogQLBinaryOpAt_def
  rhsIsPlainLogQLScalar_def findTopLevelLogQLBinaryOp_def trimLogQLOuterParens_def trimLogQLOuterParensForBinary_def
  rangeFunctions_def aggregationFunctions_def parseLogQLRangeAggregation_def noTail_def parseLogQLPrimary_def
  parseLogQLScalar_def parseLogQL_def hasPrefix_def hasSuffix_def lowerAscii_def asciiSpace_def trimSpace_ascii
  Let_def parseFloat_def specialFloat_def digitIn_def digitValue_def parseExponent_def trimParens.simps
  pipelineLoop.simps durationLoop.simps parseLogQLBinary.simps findMatching_def consumeQuoted_def
  unquoteLogQLString_def goUnquote_def
  modifierLoop.simps unquoteLoop.simps unquoteChar_def

text \<open>A sum of three terms is rejected: the split is made at the last operator, and the left operand is parsed
  above that operator's precedence, so that it may not hold another operator of the same one.\<close>

theorem sum_of_three_rejected:
  "parseLogQL re ''1+2+3'' = Inl (Err ''unsupported LogQL expression %q'' [''1+2''])"
  by (simp add: logql_eval)

text \<open>A matcher is split at the first two-byte operator found anywhere in it, also inside its quoted value: an
  equality whose value contains one is rejected, although its value is a valid string.\<close>

theorem matcher_value_misread:
  "parseMatcherPart (''app='' @ [dquote] @ ''a!=b'' @ [dquote]) = Inr (''app='' @ [dquote] @ ''a'', ''!='', ''b'' @ [dquote])
     \<and> parseLogQLSelector re (''{app='' @ [dquote] @ ''a!=b'' @ [dquote] @ ''}'') = Inl (Err ''invalid syntax'' [])"
  by (simp add: logql_eval)

end
