(* ===== verification/LogQLRow.thy ===== *)
theory LogQLRow
  imports LogQLParse "HOL-Library.AList"
begin

text \<open>
  Log rows and what a LogQL selector does to them (src/internal/snuffle/logql.go, from
  logQLLabelMatcher.matches to decolorizeLogLine): matching of labels, lines and label filters,
  the pipeline stages, the logfmt and JSON parsers and the template functions.

  A Go map is an association list with distinct keys, in some iteration order. Code outside the
  repository is a field of the record \<open>engine\<close>: regular expressions, text/template,
  encoding/json and the shortest decimal form of a float.
\<close>

section \<open>Rows and the code they call\<close>

record logRow =
  tsNS :: int
  observedNS :: int
  lineText :: string
  rowLabels :: gomap
  rowStreamLabels :: gomap
  rowFields :: gomap
  streamKey :: string
  unwrapped :: f64
  haveUnwrap :: bool

text \<open>A decoded JSON value; a number is a float64.\<close>

datatype logJSON = JNull | JBool bool | JNumber f64 | JString string | JArray "logJSON list" | JObject "(string \<times> logJSON) list"

text \<open>The engine: regexp.Compile, Regexp.String, MatchString, FindStringSubmatch zipped with SubexpNames (the
  groups from 1 on), FindStringSubmatchIndex with ExpandString (template, source), json.Unmarshal into a map,
  json.Marshal of a decoded value, strconv.FormatFloat with 'f' and -1, and a template parsed and
  executed on the data with the functions of the row (None for an error of either).\<close>

record 're engine =
  enCompile :: "string \<Rightarrow> 're option"
  enSource :: "'re \<Rightarrow> string"
  enMatch :: "'re \<Rightarrow> string \<Rightarrow> bool"
  enSubmatch :: "'re \<Rightarrow> string \<Rightarrow> (string \<times> string) list option"
  enExpand :: "'re \<Rightarrow> string \<Rightarrow> string \<Rightarrow> string option"
  enUnmarshal :: "string \<Rightarrow> (string \<times> logJSON) list option"
  enMarshal :: "logJSON \<Rightarrow> string"
  enFormat :: "f64 \<Rightarrow> string"
  enTemplate :: "string \<Rightarrow> gomap \<Rightarrow> string \<Rightarrow> string option"

section \<open>Matching\<close>

definition matchesValue :: "'re engine \<Rightarrow> 're logQLLabelMatcher \<Rightarrow> string \<Rightarrow> bool" where
  "matchesValue en m value =
     (if lmOp m = ''='' then value = lmValue m
      else if lmOp m = ''!='' then value \<noteq> lmValue m
      else if lmOp m = ''=~'' then (case lmRe m of None \<Rightarrow> False | Some r \<Rightarrow> enMatch en r value)
      else if lmOp m = ''!~'' then (case lmRe m of None \<Rightarrow> True | Some r \<Rightarrow> \<not> enMatch en r value)
      else False)"

definition severityNames :: "string list" where
  "severityNames = [''level'', ''severity'', ''severity_text'', ''detected_level'']"

definition serviceNames :: "string list" where
  "serviceNames = [''service_name'', ''service.name'']"

text \<open>The first of some labels that has a value.\<close>

fun firstNonEmpty :: "gomap \<Rightarrow> string list \<Rightarrow> string" where
  "firstNonEmpty labels [] = []"
| "firstNonEmpty labels [n] = labelGet labels n"
| "firstNonEmpty labels (n # ns) = (if labelGet labels n \<noteq> [] then labelGet labels n else firstNonEmpty labels ns)"

definition logQLMatcherLabelValue :: "gomap \<Rightarrow> string \<Rightarrow> string" where
  "logQLMatcherLabelValue labels name =
     (if labels = [] then []
      else if name \<in> set serviceNames then firstNonEmpty labels [name, ''service_name'', ''service.name'']
      else if name \<in> set severityNames then
        firstNonEmpty labels [name, ''level'', ''severity_text'', ''detected_level'', ''severity'']
      else labelGet labels name)"

definition matcherMatches :: "'re engine \<Rightarrow> 're logQLLabelMatcher \<Rightarrow> gomap \<Rightarrow> bool" where
  "matcherMatches en m labels = matchesValue en m (logQLMatcherLabelValue labels (lmName m))"

definition matchesLabels :: "'re engine \<Rightarrow> 're logQLSelector \<Rightarrow> gomap \<Rightarrow> bool" where
  "matchesLabels en s labels = list_all (\<lambda>m. matcherMatches en m labels) (selMatchers s)"

definition lineMatches :: "'re engine \<Rightarrow> 're logQLLineFilter \<Rightarrow> string \<Rightarrow> bool" where
  "lineMatches en f line =
     (if lfOp f = ''|='' then containsText line (lfValue f)
      else if lfOp f = ''!='' then \<not> containsText line (lfValue f)
      else if lfOp f = ''|~'' \<or> lfOp f = ''|>'' then (case lfRe f of None \<Rightarrow> False | Some r \<Rightarrow> enMatch en r line)
      else if lfOp f = ''!~'' \<or> lfOp f = ''!>'' then (case lfRe f of None \<Rightarrow> True | Some r \<Rightarrow> \<not> enMatch en r line)
      else True)"

definition fieldOrLabel :: "logRow \<Rightarrow> string \<Rightarrow> string" where
  "fieldOrLabel row name = (if labelGet (rowLabels row) name = [] then labelGet (rowFields row) name else labelGet (rowLabels row) name)"

text \<open>The comparison operators on floats.\<close>

definition compareFloats :: "string \<Rightarrow> f64 \<Rightarrow> f64 \<Rightarrow> bool" where
  "compareFloats op left right =
     (if op = ''=='' then fEq left right else if op = ''!='' then \<not> fEq left right
      else if op = ''>'' then fLess right left else if op = ''>='' then fLessEq right left
      else if op = ''<'' then fLess left right else if op = ''<='' then fLessEq left right else False)"

definition labelFilterMatches :: "'re engine \<Rightarrow> 're logQLLabelFilter \<Rightarrow> logRow \<Rightarrow> bool" where
  "labelFilterMatches en f row = (let value = fieldOrLabel row (fltName f); op = fltOp f in
     if fltNumeric f \<and> (op = ''=='' \<or> op = ''!='') then
       (case parseLogQLComparableValue value (fltValueType f) of
          None \<Rightarrow> False | Some left \<Rightarrow> fEq left (fltNumValue f) = (op = ''==''))
     else if op = ''='' \<or> op = ''=='' then value = fltValue f
     else if op = ''!='' then value \<noteq> fltValue f
     else if op = ''=~'' then (case fltRe f of None \<Rightarrow> False | Some r \<Rightarrow> enMatch en r value)
     else if op = ''!~'' then (case fltRe f of None \<Rightarrow> True | Some r \<Rightarrow> \<not> enMatch en r value)
     else if op \<in> {''>'', ''>='', ''<'', ''<=''} then
       (case parseLogQLComparableValue value (fltValueType f) of
          None \<Rightarrow> False | Some left \<Rightarrow> compareFloats op left (fltNumValue f))
     else False)"

text \<open>The connector of a filter joins it to the next one; there is no precedence.\<close>

fun labelFiltersLoop :: "'re engine \<Rightarrow> logRow \<Rightarrow> bool \<Rightarrow> string \<Rightarrow> 're logQLLabelFilter list \<Rightarrow> bool" where
  "labelFiltersLoop en row result connector [] = result"
| "labelFiltersLoop en row result connector (f # fs) =
     labelFiltersLoop en row
       (if connector = ''or'' then result \<or> labelFilterMatches en f row else result \<and> labelFilterMatches en f row)
       (fltConnector f) fs"

definition matchesLogQLLabelFilters :: "'re engine \<Rightarrow> 're logQLLabelFilter list \<Rightarrow> logRow \<Rightarrow> bool" where
  "matchesLogQLLabelFilters en fs row = (case fs of [] \<Rightarrow> True
     | f # fs' \<Rightarrow> labelFiltersLoop en row (labelFilterMatches en f row) (fltConnector f) fs')"

definition rowValue :: "logRow \<Rightarrow> string \<Rightarrow> string" where
  "rowValue row name = (if name = ''_entry'' \<or> name = ''__line__'' then lineText row
     else case map_of (rowLabels row) name of Some v \<Rightarrow> v | None \<Rightarrow> labelGet (rowFields row) name)"

section \<open>The JSON parser\<close>

definition stringifyLogValue :: "'re engine \<Rightarrow> logJSON \<Rightarrow> string" where
  "stringifyLogValue en v = (case v of JNull \<Rightarrow> [] | JString s \<Rightarrow> s | JNumber x \<Rightarrow> enFormat en x
     | JBool b \<Rightarrow> (if b then ''true'' else ''false'') | _ \<Rightarrow> enMarshal en v)"

function flattenJSONLogField :: "'re engine \<Rightarrow> gomap \<Rightarrow> string \<Rightarrow> logJSON \<Rightarrow> gomap"
  and flattenMembers :: "'re engine \<Rightarrow> gomap \<Rightarrow> string \<Rightarrow> (string \<times> logJSON) list \<Rightarrow> gomap" where
  "flattenJSONLogField en out prefix v = (case v of
     JObject members \<Rightarrow> if members = [] then AList.update prefix ''{}'' out else flattenMembers en out prefix members
   | _ \<Rightarrow> AList.update prefix (stringifyLogValue en v) out)"
| "flattenMembers en out prefix [] = out"
| "flattenMembers en out prefix ((key, child) # members) =
     flattenMembers en (flattenJSONLogField en out (prefix @ ''_'' @ sanitizeLogLabelName key) child) prefix members"
  by pat_completeness auto
termination
  by (relation "measure (case_sum (\<lambda>(en, out, p, v). 2 * size v + 1) (\<lambda>(en, out, p, ms). 2 * size_list (\<lambda>x. Suc (size (snd x))) ms))") (auto simp: size_prod_simp)

declare flattenJSONLogField.simps [simp del]

fun parserParamsLoop :: "string list \<Rightarrow> gomap \<Rightarrow> gomap" where
  "parserParamsLoop [] out = out"
| "parserParamsLoop (part0 # parts) out = (let part = trimSpace part0 in
     if part = [] then parserParamsLoop parts out
     else case indexOf part ''='' of None \<Rightarrow> parserParamsLoop parts out
     | Some idx \<Rightarrow>
         (case unquoteLogQLString (trimSpace (drop (idx + 1) part)) of Inl e \<Rightarrow> parserParamsLoop parts out
          | Inr value \<Rightarrow> parserParamsLoop parts (AList.update (trimSpace (take idx part)) value out)))"

definition parseParserParams :: "string \<Rightarrow> gomap" where
  "parseParserParams params0 = (let params = trimSpace params0 in
     if params = [] then [] else parserParamsLoop (splitTopLevel params CHR '','') [])"

datatype logQLJSONPathToken = PathKey string | PathIndex int

definition plainPathByte :: "char \<Rightarrow> bool" where
  "plainPathByte c \<longleftrightarrow> c \<noteq> CHR ''.'' \<and> c \<noteq> CHR ''[''"

text \<open>The loop of parseLogQLJSONPath, on the rest of the path.\<close>

function jsonPathLoop :: "string \<Rightarrow> logQLJSONPathToken list option" where
  "jsonPathLoop path = (case path of [] \<Rightarrow> Some []
   | c # rest \<Rightarrow>
     if c = CHR ''.'' then jsonPathLoop rest
     else if c = CHR ''['' then
       (case findMatching path 0 CHR ''['' CHR '']'' of None \<Rightarrow> None
        | Some close \<Rightarrow> (let inner = trimSpace (take (close - 1) rest) in
            if inner = [] then None
            else if hd inner = dquote \<or> hd inner = backtick then
              (case unquoteLogQLString inner of Inl e \<Rightarrow> None
               | Inr key \<Rightarrow> map_option ((#) (PathKey key)) (jsonPathLoop (drop close rest)))
            else case goAtoi inner of None \<Rightarrow> None
              | Some i \<Rightarrow> map_option ((#) (PathIndex i)) (jsonPathLoop (drop close rest))))
     else (let key = trimSpace (takeWhile plainPathByte path) in
       map_option (\<lambda>ts. if key \<noteq> [] then PathKey key # ts else ts) (jsonPathLoop (dropWhile plainPathByte path))))"
  by pat_completeness auto
termination
proof (relation "measure length", goal_cases)
  case (5 path c rest)
  then show ?case using length_dropWhile_le [of plainPathByte rest] by (auto simp: plainPathByte_def)
qed simp_all

declare jsonPathLoop.simps [simp del]

definition parseLogQLJSONPath :: "string \<Rightarrow> logQLJSONPathToken list option" where
  "parseLogQLJSONPath path0 = (let path = trimSpace (if hasPrefix path0 ''.'' then drop 1 path0 else path0) in
     if path = [] then None
     else case jsonPathLoop path of None \<Rightarrow> None | Some tokens \<Rightarrow> if tokens = [] then None else Some tokens)"

fun walkJSONPath :: "logJSON \<Rightarrow> logQLJSONPathToken list \<Rightarrow> logJSON option" where
  "walkJSONPath current [] = Some current"
| "walkJSONPath current (PathIndex i # tokens) = (case current of
     JArray vs \<Rightarrow> if i < 0 \<or> int (length vs) \<le> i then None else walkJSONPath (vs ! nat i) tokens
   | _ \<Rightarrow> None)"
| "walkJSONPath current (PathKey k # tokens) = (case current of
     JObject members \<Rightarrow> (case map_of members k of None \<Rightarrow> None | Some v \<Rightarrow> walkJSONPath v tokens)
   | _ \<Rightarrow> None)"

definition valueAtJSONPath :: "(string \<times> logJSON) list \<Rightarrow> string \<Rightarrow> logJSON option" where
  "valueAtJSONPath input path = (case parseLogQLJSONPath path of None \<Rightarrow> None
     | Some tokens \<Rightarrow> walkJSONPath (JObject input) tokens)"

definition parseFlatJSONFieldsErr :: "'re engine \<Rightarrow> string \<Rightarrow> string \<Rightarrow> gomap option" where
  "parseFlatJSONFieldsErr en line params = (case enUnmarshal en line of None \<Rightarrow> None
   | Some decoded \<Rightarrow> (let paramMap = parseParserParams params in
       if paramMap \<noteq> [] then
         Some (fold (\<lambda>(label, path) out. case valueAtJSONPath decoded path of None \<Rightarrow> out
                | Some v \<Rightarrow> AList.update label (stringifyLogValue en v) out) paramMap [])
       else Some (fold (\<lambda>(key, v) out. flattenJSONLogField en out (sanitizeLogLabelName key) v) decoded [])))"

definition parseFlatJSONFields :: "'re engine \<Rightarrow> string \<Rightarrow> string \<Rightarrow> gomap" where
  "parseFlatJSONFields en line params = (case parseFlatJSONFieldsErr en line params of None \<Rightarrow> [] | Some m \<Rightarrow> m)"

section \<open>The logfmt parser\<close>

definition logfmtKeyByte :: "char \<Rightarrow> bool" where
  "logfmtKeyByte c \<longleftrightarrow> c \<noteq> CHR ''='' \<and> \<not> spaceByte c"

text \<open>strings.Trim with a set of one byte.\<close>

definition trimByte :: "char \<Rightarrow> string \<Rightarrow> string" where
  "trimByte c s = rev (dropWhile (\<lambda>d. d = c) (rev (dropWhile (\<lambda>d. d = c) s)))"

text \<open>The value after the equals sign, and the rest of the line.\<close>

definition logfmtValue :: "string \<Rightarrow> string \<times> string" where
  "logfmtValue s = (case s of
     [] \<Rightarrow> ([], [])
   | c # body \<Rightarrow>
     if c = dquote then
       (let n = (case closingQuote dquote body False of Some j \<Rightarrow> j + 2 | None \<Rightarrow> length s); raw = take n s in
        (case goUnquote raw of Some v \<Rightarrow> v | None \<Rightarrow> trimByte dquote raw, drop n s))
     else (takeWhile (\<lambda>d. \<not> spaceByte d) s, dropWhile (\<lambda>d. \<not> spaceByte d) s))"

lemma logfmtValue_shorter: "logfmtValue s = (v, r) \<Longrightarrow> length r \<le> length s"
proof (cases s)
  case (Cons c body)
  assume "logfmtValue s = (v, r)"
  then show ?thesis
    using Cons length_dropWhile_le [of "\<lambda>d. \<not> spaceByte d" s]
    by (auto simp: logfmtValue_def Let_def split: if_splits option.splits)
qed (simp add: logfmtValue_def)

function logfmtLoop :: "string \<Rightarrow> gomap \<Rightarrow> gomap" where
  "logfmtLoop line out = (let s = dropWhile spaceByte line in
     if s = [] then out
     else let token = takeWhile logfmtKeyByte s; r = dropWhile logfmtKeyByte s in
       if token = [] \<or> r = [] \<or> hd r \<noteq> CHR ''='' then logfmtLoop (dropWhile (\<lambda>d. \<not> spaceByte d) r) out
       else let (value, rest) = logfmtValue (tl r) in logfmtLoop rest (AList.update (sanitizeLogLabelName token) value out))"
  by pat_completeness auto
termination
proof (relation "measure (length \<circ> fst)", goal_cases)
  case (2 line out s token r)
  obtain c t where s: "s = c # t" using 2(2) by (cases s) auto
  have le: "length s \<le> length line" using 2(1) length_dropWhile_le [of spaceByte line] by simp
  have "\<not> spaceByte c" using 2(1) s by (metis dropWhile_eq_Cons_conv)
  then have "length (dropWhile (\<lambda>d. \<not> spaceByte d) r) < length s"
    using 2(4) s length_dropWhile_le [of logfmtKeyByte t] length_dropWhile_le [of "\<lambda>d. \<not> spaceByte d" r]
      length_dropWhile_le [of "\<lambda>d. \<not> spaceByte d" t]
    by (cases "logfmtKeyByte c") auto
  then show ?case using le by simp
next
  case (3 line out s token r a val rest)
  have "length r \<le> length s" "r \<noteq> []" using 3(4,5) length_dropWhile_le [of logfmtKeyByte s] by auto
  moreover have "length rest \<le> length (tl r)" using 3(6,7) logfmtValue_shorter by metis
  moreover have "length s \<le> length line" using 3(1) length_dropWhile_le [of spaceByte line] by simp
  ultimately show ?case by (cases r) simp_all
qed simp

declare logfmtLoop.simps [simp del]

definition parseLogfmtFields :: "string \<Rightarrow> gomap" where
  "parseLogfmtFields line = logfmtLoop line []"

section \<open>Templates\<close>

text \<open>The functions of logQLTemplateFuncs that are not functions of the library.\<close>

definition templateDefault :: "string \<Rightarrow> string \<Rightarrow> string" where
  "templateDefault defaultValue input = (if input = [] then defaultValue else input)"

definition runeString :: "(nat \<times> string) list \<Rightarrow> string" where
  "runeString rs = concat (map (encodeRune \<circ> fst) rs)"

definition templateTrunc :: "int \<Rightarrow> string \<Rightarrow> string" where
  "templateTrunc n input = (let rs = runes input in
     if int (length rs) \<le> max n 0 then input else runeString (take (nat (max n 0)) rs))"

definition templateSubstr :: "int \<Rightarrow> int \<Rightarrow> string \<Rightarrow> string" where
  "templateSubstr start0 end0 input = (let rs = runes input; start = max start0 0;
       end' = (if end0 < 0 \<or> int (length rs) < end0 then int (length rs) else end0) in
     if end' < start \<or> int (length rs) \<le> start then []
     else runeString (take (nat (end' - start)) (drop (nat start) rs)))"

definition wordStart :: "char \<Rightarrow> bool" where
  "wordStart c \<longleftrightarrow> (let n = code c in (65 \<le> n \<and> n \<le> 90) \<or> (97 \<le> n \<and> n \<le> 122) \<or> n = 95)"

definition wordRest :: "char \<Rightarrow> bool" where
  "wordRest c \<longleftrightarrow> wordStart c \<or> digitByte c \<or> c = CHR ''.''"

definition patternSpace :: "char \<Rightarrow> bool" where
  "patternSpace c \<longleftrightarrow> c \<in> {CHR 9, CHR 10, CHR 12, CHR 13, CHR 32}"

text \<open>A match of the expression for a placeholder at the front of the text: the name and the rest. The
  classes of neighbouring parts are disjoint, so a greedy scan finds what the expression matches.\<close>

definition placeholder :: "string \<Rightarrow> (string \<times> string) option" where
  "placeholder s = (if \<not> hasPrefix s ''{{'' then None
     else let a = dropWhile patternSpace (drop 2 s); b = (if hasPrefix a ''.'' then drop 1 a else a) in
       if b = [] \<or> \<not> wordStart (hd b) then None
       else let rest = dropWhile patternSpace (dropWhile wordRest b) in
         if hasPrefix rest ''}}'' then Some (takeWhile wordRest b, drop 2 rest) else None)"

lemma placeholder_shorter: "placeholder s = Some (n, r) \<Longrightarrow> length r < length s"
proof -
  assume a: "placeholder s = Some (n, r)"
  define p where "p = dropWhile patternSpace (drop 2 s)"
  define b where "b = (if hasPrefix p ''.'' then drop 1 p else p)"
  have "r = drop 2 (dropWhile patternSpace (dropWhile wordRest b))" and "hasPrefix s ''{{''"
    using a by (auto simp: placeholder_def Let_def p_def b_def split: if_splits)
  then have "length r \<le> length b" "length b \<le> length p" "length p \<le> length s - 2" "s \<noteq> []"
    using length_dropWhile_le [of patternSpace "dropWhile wordRest b"] length_dropWhile_le [of wordRest b]
      length_dropWhile_le [of patternSpace "drop 2 s"]
    by (auto simp: b_def p_def hasPrefix_def)
  then show ?thesis by (cases s) auto
qed

function replacePlaceholders :: "logRow \<Rightarrow> string \<Rightarrow> string" where
  "replacePlaceholders row s = (case s of [] \<Rightarrow> []
   | c # t \<Rightarrow> (case placeholder s of
       Some (name, rest) \<Rightarrow> rowValue row name @ replacePlaceholders row rest
     | None \<Rightarrow> c # replacePlaceholders row t))"
  by pat_completeness auto
termination
  by (relation "measure (length \<circ> snd)") (auto dest: placeholder_shorter)

declare replacePlaceholders.simps [simp del]

text \<open>float64(tsNS) / 1e9.\<close>

definition unixSeconds :: "int \<Rightarrow> f64" where
  "unixSeconds ns = fDiv (fOfInt ns) (fOfInt 1000000000)"

definition templateData :: "'re engine \<Rightarrow> logRow \<Rightarrow> gomap" where
  "templateData en row = (let base = fold (\<lambda>(k, v). AList.update k v) (rowLabels row) (fold (\<lambda>(k, v). AList.update k v) (rowFields row) []) in
     AList.update ''timestamp'' (enFormat en (unixSeconds (tsNS row)))
       (AList.update ''line'' (lineText row) (AList.update ''__line__'' (lineText row) (AList.update ''_entry'' (lineText row) base))))"

definition renderLogQLTemplate :: "'re engine \<Rightarrow> string \<Rightarrow> logRow \<Rightarrow> string" where
  "renderLogQLTemplate en tpl row = (case enTemplate en tpl (templateData en row) (lineText row) of
     Some text' \<Rightarrow> text' | None \<Rightarrow> replacePlaceholders row tpl)"

section \<open>Colour codes\<close>

text \<open>A match of ansiEscapeRE at the front of the text: the rest after it.\<close>

definition ansiEscape :: "string \<Rightarrow> string option" where
  "ansiEscape s = (if \<not> hasPrefix s [CHR 27, CHR ''['' ] then None
     else let rest = dropWhile (\<lambda>c. 32 \<le> code c \<and> code c \<le> 47)
         (dropWhile (\<lambda>c. digitByte c \<or> c = CHR '';'' \<or> c = CHR ''?'') (drop 2 s)) in
       if rest \<noteq> [] \<and> 64 \<le> code (hd rest) \<and> code (hd rest) \<le> 126 then Some (drop 1 rest) else None)"

lemma ansiEscape_shorter: "ansiEscape s = Some r \<Longrightarrow> length r < length s"
proof -
  assume a: "ansiEscape s = Some r"
  let ?p = "\<lambda>c. digitByte c \<or> c = CHR '';'' \<or> c = CHR ''?''"
  let ?q = "\<lambda>c. 32 \<le> code c \<and> code c \<le> 47"
  have "r = drop 1 (dropWhile ?q (dropWhile ?p (drop 2 s)))" "s \<noteq> []"
    using a by (auto simp: ansiEscape_def Let_def hasPrefix_def split: if_splits)
  then show ?thesis
    using length_dropWhile_le [of ?q "dropWhile ?p (drop 2 s)"] length_dropWhile_le [of ?p "drop 2 s"]
    by (cases s) auto
qed

function decolorizeLogLine :: "string \<Rightarrow> string" where
  "decolorizeLogLine s = (case s of [] \<Rightarrow> []
   | c # t \<Rightarrow> (case ansiEscape s of Some rest \<Rightarrow> decolorizeLogLine rest | None \<Rightarrow> c # decolorizeLogLine t))"
  by pat_completeness auto
termination
  by (relation "measure length") (auto dest: ansiEscape_shorter)

declare decolorizeLogLine.simps [simp del]

section \<open>Stages\<close>

text \<open>row.fields[key] = value; row.labels[key] = value.\<close>

definition setField :: "string \<times> string \<Rightarrow> logRow \<Rightarrow> logRow" where
  "setField kv row = row\<lparr>rowLabels := AList.update (fst kv) (snd kv) (rowLabels row),
     rowFields := AList.update (fst kv) (snd kv) (rowFields row)\<rparr>"

definition setIfEmpty :: "string \<Rightarrow> string \<Rightarrow> gomap \<Rightarrow> gomap" where
  "setIfEmpty k v m = (if labelGet m k = [] then AList.update k v m else m)"

definition setLogQLParserError :: "string \<Rightarrow> logRow \<Rightarrow> logRow" where
  "setLogQLParserError v row = row\<lparr>rowLabels := setIfEmpty ''__error__'' v (rowLabels row),
     rowFields := setIfEmpty ''__error__'' v (rowFields row)\<rparr>"

definition applyNamedCaptureParser :: "'re engine \<Rightarrow> 're \<Rightarrow> logRow \<Rightarrow> logRow" where
  "applyNamedCaptureParser en re row = (case enSubmatch en re (lineText row) of None \<Rightarrow> row
   | Some groups \<Rightarrow> fold (\<lambda>(name, v) row. if name = [] then row else setField (sanitizeLogLabelName name, v) row) groups row)"

definition applyParser :: "'re engine \<Rightarrow> string \<Rightarrow> string \<Rightarrow> logRow \<Rightarrow> logRow" where
  "applyParser en parser param row =
     (if parser = ''json'' then
        (case parseFlatJSONFieldsErr en (lineText row) param of
           None \<Rightarrow> setLogQLParserError ''JSONParserErr'' row
         | Some fs \<Rightarrow> fold setField fs row)
      else if parser = ''logfmt'' then fold setField (parseLogfmtFields (lineText row)) row
      else if parser = ''regexp'' then
        (case enCompile en param of None \<Rightarrow> row | Some re \<Rightarrow> applyNamedCaptureParser en re row)
      else if parser = ''pattern'' then
        (case compileLogQLPattern (enCompile en) param of Inl e \<Rightarrow> row | Inr re \<Rightarrow> applyNamedCaptureParser en re row)
      else row)"

text \<open>Duration.Seconds.\<close>

definition durationSeconds :: "int \<Rightarrow> f64" where
  "durationSeconds d = fAdd (fOfInt (d sdiv 1000000000)) (fDiv (fOfInt (d smod 1000000000)) (fOfInt 1000000000))"

definition parseLogQLUnwrapValue :: "string \<Rightarrow> string \<Rightarrow> f64 option" where
  "parseLogQLUnwrapValue s conversion =
     (if conversion = [] then parseFloat s
      else if conversion = ''bytes'' then parseLogQLBytesValue s
      else if conversion = ''duration'' \<or> conversion = ''duration_seconds'' then
        (case parseLogQLDuration s of Inl e \<Rightarrow> None | Inr d \<Rightarrow> Some (durationSeconds d))
      else None)"

definition applyLabelFormat :: "'re engine \<Rightarrow> logQLLabelFormat \<Rightarrow> logRow \<Rightarrow> logRow" where
  "applyLabelFormat en f row = (case f of
     FormatConst name v \<Rightarrow> row\<lparr>rowLabels := AList.update name v (rowLabels row)\<rparr>
   | FormatTemplate name tpl \<Rightarrow> row\<lparr>rowLabels := AList.update name (renderLogQLTemplate en tpl row) (rowLabels row)\<rparr>
   | FormatSource name src \<Rightarrow> row\<lparr>rowLabels := AList.update name (rowValue row src) (rowLabels row)\<rparr>)"

definition applyUnwrap :: "string \<Rightarrow> string \<Rightarrow> logRow \<Rightarrow> logRow" where
  "applyUnwrap label conversion row = (case parseLogQLUnwrapValue (rowValue row label) conversion of
     Some v \<Rightarrow> if isNaN v then setLogQLParserError ''SampleExtractionErr'' row
       else row\<lparr>unwrapped := v, haveUnwrap := True\<rparr>
   | None \<Rightarrow> setLogQLParserError ''SampleExtractionErr'' row)"

text \<open>One stage; None drops the row.\<close>

definition applyStage :: "'re engine \<Rightarrow> 're logQLStage \<Rightarrow> logRow \<Rightarrow> logRow option" where
  "applyStage en st row = (case st of
     LineFilterStage f \<Rightarrow> if lineMatches en f (lineText row) then Some row else None
   | ParserStage parser param \<Rightarrow> Some (applyParser en parser param row)
   | LabelFilterStage fs \<Rightarrow> if matchesLogQLLabelFilters en fs row then Some row else None
   | LineFormatStage tpl \<Rightarrow> Some (row\<lparr>lineText := renderLogQLTemplate en tpl row\<rparr>)
   | LabelFormatStage fs \<Rightarrow> Some (fold (applyLabelFormat en) fs row)
   | DropStage ls \<Rightarrow> Some (row\<lparr>rowLabels := filter (\<lambda>kv. fst kv \<notin> set ls) (rowLabels row),
        rowFields := filter (\<lambda>kv. fst kv \<notin> set ls) (rowFields row)\<rparr>)
   | KeepStage ls \<Rightarrow> Some (row\<lparr>rowLabels := filter (\<lambda>kv. fst kv \<in> set ls) (rowLabels row),
        rowFields := filter (\<lambda>kv. fst kv \<in> set ls) (rowFields row)\<rparr>)
   | DecolorizeStage \<Rightarrow> Some (row\<lparr>lineText := decolorizeLogLine (lineText row)\<rparr>)
   | UnwrapStage label conversion \<Rightarrow> Some (applyUnwrap label conversion row))"

fun applyStages :: "'re engine \<Rightarrow> 're logQLStage list \<Rightarrow> logRow \<Rightarrow> logRow option" where
  "applyStages en [] row = Some row"
| "applyStages en (st # sts) row = (case applyStage en st row of None \<Rightarrow> None | Some row' \<Rightarrow> applyStages en sts row')"

text \<open>The matcher loop of logQLSelector.apply: a label of the stream, or a field.\<close>

definition selectorAccepts :: "'re engine \<Rightarrow> 're logQLSelector \<Rightarrow> logRow \<Rightarrow> bool" where
  "selectorAccepts en s row = (let streamLabels = (if rowStreamLabels row = [] then rowLabels row else rowStreamLabels row) in
     list_all (\<lambda>m. let v = logQLMatcherLabelValue streamLabels (lmName m) in
       matchesValue en m (if v = [] then labelGet (rowFields row) (lmName m) else v)) (selMatchers s))"

definition applySelector :: "'re engine \<Rightarrow> 're logQLSelector \<Rightarrow> logRow \<Rightarrow> logRow option" where
  "applySelector en s row = (if selectorAccepts en s row then applyStages en (selStages s) row else None)"

definition applyLogQLSelector :: "'re engine \<Rightarrow> logRow list \<Rightarrow> 're logQLSelector \<Rightarrow> logRow list" where
  "applyLogQLSelector en rows s = List.map_filter (applySelector en s) rows"

end
