(* ===== verification/LogStreams.thy ===== *)
theory LogStreams
  imports LogQLRow "HOL-Library.Product_Lexorder"
begin

text \<open>
  From the columns of a log query to the streams of a response (src/internal/snuffle/logql.go,
  scanLogRows to logStreamResults, with labelsKey and stableLabelMap): the labels of a row, the
  lean scan that shares them between the rows of a stream, the labels that equality matchers add, and
  the grouping of sorted rows into streams. The rows that ClickHouse returns are the input.
\<close>

section \<open>Label sets\<close>

definition labelsKey :: "gomap \<Rightarrow> string" where
  "labelsKey labels = concat (map (\<lambda>k. k @ ''='' @ labelGet labels k @ [CHR 0xFF]) (appendSortedMapKeys labels))"

definition stableLabelMap :: "gomap \<Rightarrow> gomap" where
  "stableLabelMap labels = filter (\<lambda>kv. fst kv \<noteq> [] \<and> \<not> hasPrefix (fst kv) ''__'') labels"

section \<open>Columns\<close>

text \<open>The columns that a row of a log query has.\<close>

record logColumns =
  colTime :: int
  colObserved :: int
  colBody :: string
  colService :: string
  colSeverity :: string
  colTrace :: string
  colSpan :: string
  colResource :: gomap
  colAttrs :: gomap

definition legacyLokiStreamLabelsAttributeKey :: string where
  "legacyLokiStreamLabelsAttributeKey = ''_loki_stream_labels__str''"

definition legacyLokiEntryMetadataAttributeKey :: string where
  "legacyLokiEntryMetadataAttributeKey = ''_loki_entry_metadata__str''"

text \<open>Writes to a map under some keys, when the value is set.\<close>

definition setNonEmpty :: "string list \<Rightarrow> string \<Rightarrow> gomap \<Rightarrow> gomap" where
  "setNonEmpty ks v m = (if v = [] then m else fold (\<lambda>k. AList.update k v) ks m)"

definition setCoreColumns :: "logColumns \<Rightarrow> gomap \<Rightarrow> gomap" where
  "setCoreColumns c m = setNonEmpty [''span_id''] (colSpan c) (setNonEmpty [''trace_id''] (colTrace c)
     (setNonEmpty [''level'', ''severity_text'', ''detected_level''] (colSeverity c)
       (setNonEmpty [''service_name'', ''service.name''] (colService c) m)))"

definition logLabelsFromCoreColumns :: "logColumns \<Rightarrow> gomap" where
  "logLabelsFromCoreColumns c = setCoreColumns c []"

text \<open>The label that an attribute becomes.\<close>

definition attributeLabel :: "string \<Rightarrow> string option" where
  "attributeLabel key =
     (if key = legacyLokiStreamLabelsAttributeKey \<or> key = legacyLokiEntryMetadataAttributeKey then None
      else let k = trimSuffix key ''__str'' in if k = [] then None else Some k)"

fun copyAttributes :: "gomap \<Rightarrow> gomap \<Rightarrow> gomap" where
  "copyAttributes [] m = m"
| "copyAttributes ((key, v) # attrs) m =
     copyAttributes attrs (case attributeLabel key of None \<Rightarrow> m | Some k \<Rightarrow> AList.update k v m)"

fun copyResource :: "gomap \<Rightarrow> gomap \<Rightarrow> gomap" where
  "copyResource [] m = m"
| "copyResource ((key, v) # attrs) m = copyResource attrs (if key = [] then m else AList.update key v m)"

text \<open>The labels and the fields of a row.\<close>

definition labelsAndFieldsFromLogColumns :: "logColumns \<Rightarrow> gomap \<times> gomap" where
  "labelsAndFieldsFromLogColumns c =
     (copyAttributes (colAttrs c) (logLabelsFromCoreColumns c),
      copyAttributes (colAttrs c) (setCoreColumns c (copyResource (colResource c) [])))"

definition scanLogRow :: "logColumns \<Rightarrow> logRow" where
  "scanLogRow c = (let (labels, fs) = labelsAndFieldsFromLogColumns c in
     \<lparr>tsNS = colTime c, observedNS = colObserved c, lineText = colBody c, rowLabels = labels,
      rowStreamLabels = labels, rowFields = fs, streamKey = [], unwrapped = 0, haveUnwrap = False\<rparr>)"

definition scanLogRows :: "logColumns list \<Rightarrow> logRow list" where
  "scanLogRows cols = map scanLogRow cols"

section \<open>Labels of pushed equality matchers\<close>

text \<open>labels[name] = value for every equality matcher whose name is not there yet.\<close>

fun addEqualities :: "'re logQLLabelMatcher list \<Rightarrow> gomap \<Rightarrow> gomap" where
  "addEqualities [] m = m"
| "addEqualities (matcher # ms) m =
     addEqualities ms (if lmOp matcher = ''='' \<and> map_of m (lmName matcher) = None
       then AList.update (lmName matcher) (lmValue matcher) m else m)"

definition annotateLogQLPushedEqualityMatchers :: "logRow list \<Rightarrow> 're logQLSelector \<Rightarrow> logRow list" where
  "annotateLogQLPushedEqualityMatchers rows s = map (\<lambda>row. row\<lparr>
     rowLabels := addEqualities (selMatchers s) (rowLabels row),
     rowFields := addEqualities (selMatchers s) (rowFields row)\<rparr>) rows"

definition finalizeLogQLRowsAfterSQLFilter ::
  "'re engine \<Rightarrow> logRow list \<Rightarrow> 're logQLSelector \<Rightarrow> bool \<Rightarrow> logRow list" where
  "finalizeLogQLRowsAfterSQLFilter en rows s fullyPushed =
     (if \<not> fullyPushed then applyLogQLSelector en rows s else annotateLogQLPushedEqualityMatchers rows s)"

section \<open>The lean scan\<close>

text \<open>The key of a stream: its parts, each ended by a zero byte.\<close>

definition streamParts :: "logColumns \<Rightarrow> string list" where
  "streamParts c = [colService c, colSeverity c, colTrace c, colSpan c]
     @ concat (map (\<lambda>k. [k, labelGet (colAttrs c) k]) (appendSortedMapKeys (colAttrs c)))"

definition streamCacheKey :: "logColumns \<Rightarrow> string" where
  "streamCacheKey c = concat (map (\<lambda>p. p @ [CHR 0x00]) (streamParts c))"

definition leanLabels :: "'re logQLSelector \<Rightarrow> logColumns \<Rightarrow> gomap" where
  "leanLabels s c = addEqualities (selMatchers s) (copyAttributes (colAttrs c) (logLabelsFromCoreColumns c))"

definition leanRow :: "logColumns \<Rightarrow> gomap \<times> string \<Rightarrow> logRow" where
  "leanRow c entry = \<lparr>tsNS = colTime c, observedNS = colObserved c, lineText = colBody c, rowLabels = fst entry,
     rowStreamLabels = [], rowFields = [], streamKey = snd entry, unwrapped = 0, haveUnwrap = False\<rparr>"

fun scanStreamLoop :: "'re logQLSelector \<Rightarrow> (string \<times> gomap \<times> string) list \<Rightarrow> logColumns list \<Rightarrow> logRow list" where
  "scanStreamLoop s cache [] = []"
| "scanStreamLoop s cache (c # cols) = (case map_of cache (streamCacheKey c) of
     Some entry \<Rightarrow> leanRow c entry # scanStreamLoop s cache cols
   | None \<Rightarrow> (let labels = leanLabels s c; entry = (labels, labelsKey labels) in
       leanRow c entry # scanStreamLoop s ((streamCacheKey c, entry) # cache) cols))"

definition scanLogStreamRows :: "logColumns list \<Rightarrow> 're logQLSelector \<Rightarrow> logRow list" where
  "scanLogStreamRows cols s = scanStreamLoop s [] cols"

section \<open>Streams\<close>

definition responseKey :: "logRow \<Rightarrow> string" where
  "responseKey row = (if streamKey row = [] then labelsKey (rowLabels row) else streamKey row)"

text \<open>sort.SliceStable by time and then by the time of observation.\<close>

definition sortRows :: "bool \<Rightarrow> logRow list \<Rightarrow> logRow list" where
  "sortRows backward rows = (if backward then sort_key (\<lambda>r. (- tsNS r, - observedNS r)) rows
     else sort_key (\<lambda>r. (tsNS r, observedNS r)) rows)"

definition valuePair :: "logRow \<Rightarrow> string list" where
  "valuePair row = [intDec (tsNS row), lineText row]"

text \<open>The result under a key gets the pair; a new key gets a new result at the end.\<close>

definition addToStream :: "logRow \<Rightarrow> (string \<times> gomap \<times> string list list) list \<Rightarrow> (string \<times> gomap \<times> string list list) list" where
  "addToStream row = AList.map_default (responseKey row) (stableLabelMap (rowLabels row), [valuePair row])
     (\<lambda>(stream, pairs). (stream, pairs @ [valuePair row]))"

definition logStreamResults :: "logRow list \<Rightarrow> int \<Rightarrow> string \<Rightarrow> logStreamResult list" where
  "logStreamResults rows limit direction =
     (let sorted = sortRows (toLower direction = ''backward'') rows;
          limited = (if 0 < limit \<and> limit < int (length sorted) then take (nat limit) sorted else sorted) in
      map (\<lambda>(key, stream, pairs). \<lparr>lsrStream = Some stream, lsrValues = Some (map Some pairs)\<rparr>)
        (fold addToStream limited []))"

section \<open>Keys of label sets and of streams\<close>

lemma split_first: "e \<notin> set k \<Longrightarrow> e \<notin> set k' \<Longrightarrow> k @ e # r = k' @ e # r' \<Longrightarrow> k = k' \<and> r = r'"
proof (induction k arbitrary: k')
  case Nil
  then show ?case by (cases k') auto
next
  case (Cons c k)
  then show ?case by (cases k') auto
qed

lemma terminated_inj:
  assumes "\<forall>p\<in>set xs. t \<notin> set p" "\<forall>p\<in>set ys. t \<notin> set p"
    and "concat (map (\<lambda>p. p @ [t]) xs) = concat (map (\<lambda>p. p @ [t]) ys)"
  shows "xs = ys"
  using assms
proof (induction xs arbitrary: ys)
  case Nil
  then show ?case by (cases ys) auto
next
  case (Cons x xs)
  then obtain y ys' where ys: "ys = y # ys'" by (cases ys) auto
  have eq: "x @ t # concat (map (\<lambda>p. p @ [t]) xs) = y @ t # concat (map (\<lambda>p. p @ [t]) ys')"
    using Cons.prems(3) ys by simp
  have "t \<notin> set x" "t \<notin> set y" using Cons.prems ys by auto
  then have "x = y \<and> concat (map (\<lambda>p. p @ [t]) xs) = concat (map (\<lambda>p. p @ [t]) ys')"
    using eq by (rule split_first)
  moreover from this have "xs = ys'" using Cons.IH [of ys'] Cons.prems(1,2) ys by simp
  ultimately show ?case using ys by simp
qed

lemma appendSortedMapKeys_cong:
  "distinct (map fst m) \<Longrightarrow> distinct (map fst m') \<Longrightarrow> map_of m = map_of m' \<Longrightarrow> appendSortedMapKeys m = appendSortedMapKeys m'"
  unfolding appendSortedMapKeys_def
  by (metis distinct_remdups_id dom_map_of_conv_image_fst list.set_map sorted_list_of_set_sort_remdups)

lemma labelsKey_cong:
  assumes "distinct (map fst m)" "distinct (map fst m')" "map_of m = map_of m'"
  shows "labelsKey m = labelsKey m'"
proof -
  have "labelGet m = labelGet m'" using assms(3) by (simp add: labelGet_def fun_eq_iff)
  then show ?thesis using appendSortedMapKeys_cong [OF assms] by (simp add: labelsKey_def)
qed

definition keyed :: "gomap \<Rightarrow> bool" where
  "keyed m \<longleftrightarrow> distinct (map fst m) \<and> (\<forall>kv\<in>set m. CHR ''='' \<notin> set (fst kv) \<and> CHR 0xFF \<notin> set (fst kv) \<union> set (snd kv))"

lemma set_appendSortedMapKeys [simp]: "set (appendSortedMapKeys m) = fst ` set m"
  by (simp add: appendSortedMapKeys_def)

lemma labelGet_in: "k \<in> fst ` set m \<Longrightarrow> (k, labelGet m k) \<in> set m"
  by (cases "map_of m k") (auto simp: labelGet_def map_of_eq_None_iff dest: map_of_SomeD)

text \<open>A label set can be read off its sorted entries.\<close>

lemma map_of_keyed:
  assumes "distinct (map fst m)" "distinct (map fst m')"
    and "map (\<lambda>k. (k, labelGet m k)) (appendSortedMapKeys m) = map (\<lambda>k. (k, labelGet m' k)) (appendSortedMapKeys m')"
  shows "map_of m = map_of m'"
proof -
  have "set (map (\<lambda>k. (k, labelGet n k)) (appendSortedMapKeys n)) = set n" if "distinct (map fst n)" for n
  proof (intro equalityI subsetI)
    fix x assume "x \<in> set n"
    then have "map_of n (fst x) = Some (snd x)" using that by (simp add: map_of_is_SomeI)
    then have "snd x = labelGet n (fst x)" "fst x \<in> fst ` set n"
      using \<open>x \<in> set n\<close> by (simp_all add: labelGet_def)
    then have "x = (\<lambda>k. (k, labelGet n k)) (fst x)" by (simp add: prod_eq_iff)
    then show "x \<in> set (map (\<lambda>k. (k, labelGet n k)) (appendSortedMapKeys n))"
      using \<open>fst x \<in> fst ` set n\<close> by (simp del: image_iff)
  qed (auto dest: labelGet_in [OF imageI])
  then have "set m = set m'" using assms by metis
  then show ?thesis using map_of_inject_set [OF assms(1,2)] by simp
qed

lemma labelsKey_terminated:
  "labelsKey m = concat (map (\<lambda>p. p @ [CHR 0xFF]) (map (\<lambda>k. k @ ''='' @ labelGet m k) (appendSortedMapKeys m)))"
  by (simp add: labelsKey_def comp_def)

lemma keyed_entry:
  assumes "keyed m" "p \<in> set (map (\<lambda>k. k @ ''='' @ labelGet m k) (appendSortedMapKeys m))"
  shows "CHR 0xFF \<notin> set p"
proof -
  obtain k where k: "k \<in> fst ` set m" "p = k @ ''='' @ labelGet m k" using assms(2) by auto
  from labelGet_in [OF k(1)] assms(1) have "CHR 0xFF \<notin> set k \<union> set (labelGet m k)"
    by (fastforce simp: keyed_def)
  then show ?thesis by (simp add: k(2))
qed

lemma entries_split:
  assumes "\<forall>k\<in>set ks. e \<notin> set k" "\<forall>k\<in>set ks'. e \<notin> set k"
    and "map (\<lambda>k. k @ e # f k) ks = map (\<lambda>k. k @ e # g k) ks'"
  shows "map (\<lambda>k. (k, f k)) ks = map (\<lambda>k. (k, g k)) ks'"
  using assms
proof (induction ks arbitrary: ks')
  case (Cons k ks)
  then obtain k' ks'' where ks': "ks' = k' # ks''" by (cases ks') auto
  then have "k @ e # f k = k' @ e # g k'" using Cons.prems(3) by simp
  then have "k = k' \<and> f k = g k'" using Cons.prems(1,2) ks' by (auto dest: split_first)
  then show ?case using Cons ks' by auto
qed simp

lemma labelsKey_iff:
  assumes "keyed m" "keyed m'"
  shows "labelsKey m = labelsKey m' \<longleftrightarrow> map_of m = map_of m'"
proof
  let ?e = "\<lambda>m. map (\<lambda>k. k @ ''='' @ labelGet m k) (appendSortedMapKeys m)"
  assume "labelsKey m = labelsKey m'"
  then have "?e m = ?e m'"
    unfolding labelsKey_terminated using keyed_entry assms by (intro terminated_inj [where t = "CHR 0xFF"]) blast+
  moreover have "\<forall>k\<in>set (appendSortedMapKeys n). CHR ''='' \<notin> set k" if "keyed n" for n
    using that by (auto simp: keyed_def)
  ultimately have "map (\<lambda>k. (k, labelGet m k)) (appendSortedMapKeys m) = map (\<lambda>k. (k, labelGet m' k)) (appendSortedMapKeys m')"
    using assms by (intro entries_split [where e = "CHR ''=''"]) simp_all
  then show "map_of m = map_of m'" using assms by (intro map_of_keyed) (simp_all add: keyed_def)
qed (use assms labelsKey_cong in \<open>auto simp: keyed_def\<close>)

text \<open>labelsKey tells label sets apart: two sets, in any iteration order, have the same key only if they are
  equal as maps, as long as no label name contains an equals sign and no name or value contains the byte 0xff, which
  valid UTF-8 never does. Equal sets always have the same key.\<close>

theorem labels_key_separates:
  assumes "keyed m" "keyed m'"
  shows "labelsKey m = labelsKey m' \<longleftrightarrow> map_of m = map_of m'"
  using assms by (rule labelsKey_iff)

theorem labels_key_separates_witness:
  "labelsKey [(''level'', ''warn''), (''app'', ''web'')] = labelsKey [(''app'', ''web''), (''level'', ''warn'')]
   \<and> labelsKey [(''app'', ''web'')] \<noteq> labelsKey [(''app'', ''we'')]"
proof -
  have k: "keyed [(''level'', ''warn''), (''app'', ''web'')]" "keyed [(''app'', ''web''), (''level'', ''warn'')]"
    "keyed [(''app'', ''web'')]" "keyed [(''app'', ''we'')]" by (simp_all add: keyed_def)
  show ?thesis
    using labels_key_separates [OF k(1,2)] labels_key_separates [OF k(3,4)] by (auto simp: fun_eq_iff)
qed

text \<open>An equals sign in a label name is enough to confuse it.\<close>

lemma labels_key_confused:
  "labelsKey [(''a=b'', ''c'')] = labelsKey [(''a'', ''b=c'')] \<and> map_of [(''a=b'', ''c'')] \<noteq> map_of [(''a'', ''b=c'')]"
  by (simp add: labelsKey_def appendSortedMapKeys_def labelGet_def fun_eq_iff) (rule exI [of _ "''a''"], simp)

section \<open>The lean scan agrees with the full one\<close>

text \<open>Columns as both log layouts give them: attribute keys end in __str, and no part contains a zero byte.\<close>

definition plainColumns :: "logColumns \<Rightarrow> bool" where
  "plainColumns c \<longleftrightarrow> (\<forall>p\<in>set (streamParts c). CHR 0x00 \<notin> set p) \<and> distinct (map fst (colAttrs c))
     \<and> (\<forall>kv\<in>set (colAttrs c). hasSuffix (fst kv) ''__str'')"

lemma hasSuffix_iff: "hasSuffix s p \<longleftrightarrow> (\<exists>k. s = k @ p)"
  unfolding hasSuffix_def by (metis append_take_drop_id append_eq_conv_conj diff_add_inverse2 length_append le_add2)

lemma map_of_copyAttributes:
  assumes "distinct (map fst attrs)" "\<forall>kv\<in>set attrs. hasSuffix (fst kv) ''__str''"
  shows "map_of (copyAttributes attrs m) k =
    (if attributeLabel (k @ ''__str'') = None then map_of m k
     else case map_of attrs (k @ ''__str'') of Some v \<Rightarrow> Some v | None \<Rightarrow> map_of m k)"
  using assms
proof (induction attrs arbitrary: m)
  case (Cons kv attrs)
  obtain key v where kv: "kv = (key, v)" by (cases kv)
  then obtain j where j: "key = j @ ''__str''" using Cons.prems(2) by (auto simp: hasSuffix_iff)
  have al: "attributeLabel key = None \<or> attributeLabel key = Some j"
    by (simp add: attributeLabel_def j)
  have fresh: "map_of attrs (j @ ''__str'') = None"
    using Cons.prems(1) kv j by (auto simp: map_of_eq_None_iff)
  show ?case
  proof (cases "attributeLabel key")
    case None
    then show ?thesis using Cons kv j by (auto simp: update_conv)
  next
    case (Some x)
    then have x: "x = j" using al by simp
    show ?thesis using Cons kv j Some x fresh by (auto simp: update_conv split: option.splits)
  qed
qed simp

lemma map_of_addEqualities_cong:
  "map_of m = map_of m' \<Longrightarrow> map_of (addEqualities ms m) = map_of (addEqualities ms m')"
proof (induction ms arbitrary: m m')
  case (Cons x ms)
  show ?case unfolding addEqualities.simps by (rule Cons.IH) (simp add: Cons.prems update_conv)
qed simp

lemma distinct_addEqualities: "distinct (map fst m) \<Longrightarrow> distinct (map fst (addEqualities ms m))"
  by (induction ms arbitrary: m) (simp_all add: distinct_update)

lemma distinct_copyAttributes: "distinct (map fst m) \<Longrightarrow> distinct (map fst (copyAttributes attrs m))"
  by (induction attrs m rule: copyAttributes.induct) (auto simp: distinct_update split: option.splits)

lemma distinct_setNonEmpty: "distinct (map fst m) \<Longrightarrow> distinct (map fst (setNonEmpty ks v m))"
proof -
  have "distinct (map fst m) \<Longrightarrow> distinct (map fst (fold (\<lambda>k. AList.update k v) ks m))" for m
    by (induction ks arbitrary: m) (simp_all add: distinct_update)
  then show "distinct (map fst m) \<Longrightarrow> distinct (map fst (setNonEmpty ks v m))" by (simp add: setNonEmpty_def)
qed

lemma distinct_leanLabels: "distinct (map fst (leanLabels s c))"
  by (simp add: leanLabels_def logLabelsFromCoreColumns_def setCoreColumns_def distinct_addEqualities
      distinct_copyAttributes distinct_setNonEmpty)

lemma pairs_concat_inj:
  "concat (map (\<lambda>k. [k, f k]) ks) = concat (map (\<lambda>k. [k, g k]) ks') \<Longrightarrow> map (\<lambda>k. (k, f k)) ks = map (\<lambda>k. (k, g k)) ks'"
proof (induction ks arbitrary: ks')
  case Nil
  then show ?case by (cases ks') auto
next
  case (Cons k ks)
  then show ?case by (cases ks') auto
qed

lemma cacheKey_same_labels:
  assumes "plainColumns c" "plainColumns c'" "streamCacheKey c = streamCacheKey c'"
  shows "map_of (leanLabels s c) = map_of (leanLabels s c')"
proof -
  have parts: "streamParts c = streamParts c'"
    using assms terminated_inj [of "streamParts c" "CHR 0x00" "streamParts c'"]
    by (simp add: plainColumns_def streamCacheKey_def)
  then have core: "logLabelsFromCoreColumns c = logLabelsFromCoreColumns c'"
    by (simp add: streamParts_def logLabelsFromCoreColumns_def setCoreColumns_def)
  have "map (\<lambda>k. (k, labelGet (colAttrs c) k)) (appendSortedMapKeys (colAttrs c))
      = map (\<lambda>k. (k, labelGet (colAttrs c') k)) (appendSortedMapKeys (colAttrs c'))"
    using parts by (intro pairs_concat_inj) (simp add: streamParts_def)
  then have "map_of (colAttrs c) = map_of (colAttrs c')"
    using assms(1,2) by (intro map_of_keyed) (simp_all add: plainColumns_def)
  then have "map_of (copyAttributes (colAttrs c) m) = map_of (copyAttributes (colAttrs c') m)" for m
    using assms(1,2) by (simp add: fun_eq_iff map_of_copyAttributes plainColumns_def)
  then show ?thesis unfolding leanLabels_def core by (intro map_of_addEqualities_cong)
qed

text \<open>Entries of the cache hold the labels of the columns that have their key.\<close>

definition cacheOK :: "'re logQLSelector \<Rightarrow> (string \<times> gomap \<times> string) list \<Rightarrow> bool" where
  "cacheOK s cache \<longleftrightarrow> (\<forall>(k, labels, key)\<in>set cache.
     \<exists>c. plainColumns c \<and> k = streamCacheKey c \<and> labels = leanLabels s c \<and> key = labelsKey labels)"

definition sameRow :: "logRow \<Rightarrow> logRow \<Rightarrow> bool" where
  "sameRow lean full \<longleftrightarrow> tsNS lean = tsNS full \<and> observedNS lean = observedNS full \<and> lineText lean = lineText full
     \<and> map_of (rowLabels lean) = map_of (rowLabels full) \<and> streamKey lean = labelsKey (rowLabels full)"

lemma scanStreamLoop_rows:
  assumes "cacheOK s cache" "\<forall>c\<in>set cols. plainColumns c"
  shows "list_all2 sameRow (scanStreamLoop s cache cols) (map (\<lambda>c. leanRow c (leanLabels s c, [])) cols)"
  using assms
proof (induction cols arbitrary: cache)
  case (Cons c cols)
  show ?case
  proof (cases "map_of cache (streamCacheKey c)")
    case None
    then have "cacheOK s ((streamCacheKey c, leanLabels s c, labelsKey (leanLabels s c)) # cache)"
      using Cons.prems by (auto simp: cacheOK_def)
    then show ?thesis using Cons None by (simp add: Let_def sameRow_def leanRow_def)
  next
    case (Some entry)
    then have "(streamCacheKey c, entry) \<in> set cache" by (rule map_of_SomeD)
    then obtain c' where c': "plainColumns c'" "streamCacheKey c = streamCacheKey c'" "fst entry = leanLabels s c'"
      "snd entry = labelsKey (leanLabels s c')"
      using Cons.prems(1) by (cases entry) (fastforce simp: cacheOK_def)
    then have eq: "map_of (leanLabels s c') = map_of (leanLabels s c)"
      using cacheKey_same_labels Cons.prems(2) by (metis list.set_intros(1))
    then have "labelsKey (leanLabels s c') = labelsKey (leanLabels s c)"
      by (intro labelsKey_cong distinct_leanLabels)
    then show ?thesis using Cons Some c' eq by (simp add: sameRow_def leanRow_def)
  qed
qed simp

lemma scanLogRow_simps:
  "tsNS (scanLogRow c) = colTime c" "observedNS (scanLogRow c) = colObserved c" "lineText (scanLogRow c) = colBody c"
  "rowLabels (scanLogRow c) = copyAttributes (colAttrs c) (logLabelsFromCoreColumns c)"
  unfolding scanLogRow_def labelsAndFieldsFromLogColumns_def Let_def prod.case by (simp_all only: logRow.select_convs)


definition demoColumns :: "int \<Rightarrow> string \<Rightarrow> logColumns" where
  "demoColumns ts body = \<lparr>colTime = ts, colObserved = ts, colBody = body, colService = ''web'', colSeverity = ''warn'',
     colTrace = [], colSpan = [], colResource = [(''host'', ''a'')], colAttrs = [(''app__str'', ''shop'')]\<rparr>"

definition demoSelector :: "string \<Rightarrow> unit logQLSelector" where
  "demoSelector host = \<lparr>selMatchers = [\<lparr>lmName = ''host'', lmOp = ''='', lmValue = host, lmRe = None\<rparr>], selStages = []\<rparr>"


section \<open>Streams of a response\<close>

text \<open>The distinct elements of a list, in the order of their first occurrence.\<close>

definition firsts :: "'a list \<Rightarrow> 'a list" where
  "firsts xs = rev (remdups (rev xs))"

lemma firsts_snoc: "firsts (xs @ [x]) = (if x \<in> set xs then firsts xs else firsts xs @ [x])"
  by (simp add: firsts_def)

lemma set_firsts [simp]: "set (firsts xs) = set xs" and distinct_firsts [simp]: "distinct (firsts xs)"
  by (simp_all add: firsts_def)

text \<open>A map that is filled in the order of a list, under the key of each element: an entry starts with the
  first element of its key and is updated with the others.\<close>

definition buildGroup :: "('a \<Rightarrow> 'b) \<Rightarrow> ('a \<Rightarrow> 'b \<Rightarrow> 'b) \<Rightarrow> 'a list \<Rightarrow> 'b" where
  "buildGroup new upd g = fold upd (tl g) (new (hd g))"

lemma map_default_new: "k \<notin> fst ` set m \<Longrightarrow> AList.map_default k v f m = m @ [(k, v)]"
  by (induction m) auto

lemma map_default_old:
  "k \<in> set ks \<Longrightarrow> distinct ks \<Longrightarrow>
   AList.map_default k v f (map (\<lambda>k. (k, g k)) ks) = map (\<lambda>j. (j, if j = k then f (g k) else g j)) ks"
proof (induction ks)
  case (Cons j ks)
  then show ?case by (cases "j = k") (auto intro!: map_cong)
qed simp

lemma buildGroup_snoc: "g \<noteq> [] \<Longrightarrow> buildGroup new upd (g @ [x]) = upd x (buildGroup new upd g)"
  by (cases g) (simp_all add: buildGroup_def)

lemma fold_map_default:
  "fold (\<lambda>x. AList.map_default (key x) (new x) (upd x)) xs []
   = map (\<lambda>k. (k, buildGroup new upd (filter (\<lambda>x. key x = k) xs))) (firsts (map key xs))"
proof (induction xs rule: rev_induct)
  case (snoc x xs)
  let ?b = "\<lambda>xs k. buildGroup new upd (filter (\<lambda>x. key x = k) xs)"
  let ?m = "map (\<lambda>k. (k, ?b xs k)) (firsts (map key xs))"
  show ?case
  proof (cases "key x \<in> key ` set xs")
    case True
    then have ne: "filter (\<lambda>y. key y = key x) xs \<noteq> []" by (auto simp: filter_empty_conv)
    have "AList.map_default (key x) (new x) (upd x) ?m
        = map (\<lambda>j. (j, if j = key x then upd x (?b xs (key x)) else ?b xs j)) (firsts (map key xs))"
      using True by (intro map_default_old) simp_all
    also have "\<dots> = map (\<lambda>j. (j, ?b (xs @ [x]) j)) (firsts (map key xs))"
      using ne by (intro map_cong refl) (simp add: buildGroup_snoc)
    finally show ?thesis using snoc True by (simp add: firsts_snoc)
  next
    case False
    then have "filter (\<lambda>y. key y = key x) xs = []" by (metis (mono_tags, lifting) filter_False image_eqI)
    then have "?b (xs @ [x]) (key x) = new x" by (simp add: buildGroup_def)
    moreover have "map (\<lambda>j. (j, ?b (xs @ [x]) j)) (firsts (map key xs)) = ?m"
    proof (intro map_cong refl)
      fix j assume "j \<in> set (firsts (map key xs))"
      then have "key x \<noteq> j" using False by (metis set_firsts set_map)
      then show "(j, ?b (xs @ [x]) j) = (j, ?b xs j)" by simp
    qed
    moreover have "key x \<notin> fst ` set ?m" using False by (simp add: image_image)
    ultimately show ?thesis using snoc False by (simp add: firsts_snoc map_default_new)
  qed
qed (simp add: firsts_def)

definition limitRows :: "int \<Rightarrow> logRow list \<Rightarrow> logRow list" where
  "limitRows limit rows = (if 0 < limit \<and> limit < int (length rows) then take (nat limit) rows else rows)"

lemma stream_group:
  "g \<noteq> [] \<Longrightarrow> buildGroup (\<lambda>row. (stableLabelMap (rowLabels row), [valuePair row]))
     (\<lambda>row (stream, pairs). (stream, pairs @ [valuePair row])) g
   = (stableLabelMap (rowLabels (hd g)), map valuePair g)"
proof (induction g rule: rev_induct)
  case (snoc x xs)
  then show ?case by (cases "xs = []") (simp_all add: buildGroup_snoc, simp add: buildGroup_def)
qed simp

lemma streams_of_rows:
  "fold addToStream rows [] = map (\<lambda>k. (k, stableLabelMap (rowLabels (hd (filter (\<lambda>r. responseKey r = k) rows))),
     map valuePair (filter (\<lambda>r. responseKey r = k) rows))) (firsts (map responseKey rows))"
  unfolding addToStream_def fold_map_default
proof (intro map_cong refl)
  fix k assume "k \<in> set (firsts (map responseKey rows))"
  then have "filter (\<lambda>r. responseKey r = k) rows \<noteq> []" by (auto simp: filter_empty_conv)
  from stream_group [OF this]
  show "(k, buildGroup (\<lambda>row. (stableLabelMap (rowLabels row), [valuePair row]))
      (\<lambda>row (stream, pairs). (stream, pairs @ [valuePair row])) (filter (\<lambda>r. responseKey r = k) rows))
    = (k, stableLabelMap (rowLabels (hd (filter (\<lambda>r. responseKey r = k) rows))), map valuePair (filter (\<lambda>r. responseKey r = k) rows))"
    by simp
qed

text \<open>C23. The streams of a response partition its rows: after the stable sort by time in the direction of the query
  and the limit, there is one stream for every label set, in the order of its first row, with the labels of that row
  and the time and line of exactly its rows, in order.\<close>

theorem stream_results_partition:
  "let backward = (toLower d = ''backward''); sorted_rows = sortRows backward rows; limited = limitRows limit sorted_rows in
     logStreamResults rows limit d =
       map (\<lambda>k. \<lparr>lsrStream = Some (stableLabelMap (rowLabels (hd (filter (\<lambda>r. responseKey r = k) limited)))),
                 lsrValues = Some (map (Some \<circ> valuePair) (filter (\<lambda>r. responseKey r = k) limited))\<rparr>)
         (firsts (map responseKey limited))
     \<and> mset sorted_rows = mset rows
     \<and> sorted (map (\<lambda>r. if backward then (- tsNS r, - observedNS r) else (tsNS r, observedNS r)) sorted_rows)"
  by (simp add: logStreamResults_def streams_of_rows Let_def limitRows_def sortRows_def comp_def)

end
