(* ===== verification/LogQLEval.thy ===== *)
theory LogQLEval
  imports LogStreams LogQLText
begin

text \<open>
  Evaluation of LogQL metric expressions on fetched rows (src/internal/snuffle/logql.go,
  evaluateLogQLInstantMetric to rangeAggregationLabels). A step of the evaluation that panics is
  None. What Go leaves open is a parameter: the order in which a map is iterated and the order that
  sort.Slice gives to equal elements are those of \<open>evRows\<close> and \<open>evSamples\<close>, and
  math.Pow is \<open>evPow\<close>.
\<close>

section \<open>Samples\<close>

record logMetricSample =
  smpLabels :: gomap
  smpValue :: f64

record 're evaluator =
  evEngine :: "'re engine"
  evPow :: "f64 \<Rightarrow> f64 \<Rightarrow> f64"
  evRows :: "logRow list \<Rightarrow> logRow list"
  evSamples :: "logMetricSample list \<Rightarrow> logMetricSample list"

definition sample :: "gomap \<Rightarrow> f64 \<Rightarrow> logMetricSample" where
  "sample labels v = \<lparr>smpLabels = labels, smpValue = v\<rparr>"

section \<open>Grouping\<close>

text \<open>A map from keys to the elements with that key, filled in the order of the list.\<close>

definition groupInto :: "('a \<Rightarrow> string) \<Rightarrow> 'a list \<Rightarrow> (string \<times> 'a list) list" where
  "groupInto key xs = fold (\<lambda>x. AList.map_default (key x) [x] (\<lambda>g. g @ [x])) xs []"

text \<open>out[label] = src[label] for the labels that src has.\<close>

definition includeLabels :: "string list \<Rightarrow> gomap \<Rightarrow> gomap \<Rightarrow> gomap" where
  "includeLabels ls src out = fold (\<lambda>label out. case map_of src label of None \<Rightarrow> out | Some v \<Rightarrow> AList.update label v out) ls out"

definition groupingLabels :: "gomap \<Rightarrow> logQLGrouping option \<Rightarrow> gomap" where
  "groupingLabels input grouping = (case grouping of None \<Rightarrow> []
   | Some g \<Rightarrow>
       if grpWithout g then filter (\<lambda>kv. fst kv \<noteq> ''__name__'' \<and> fst kv \<notin> set (grpLabels g)) input
       else includeLabels (grpLabels g) input [])"

definition rangeAggregationLabels :: "gomap \<Rightarrow> logQLGrouping option \<Rightarrow> gomap" where
  "rangeAggregationLabels input grouping = (if grouping = None then stableLabelMap input else groupingLabels input grouping)"

section \<open>Values of a group\<close>

definition fSum :: "f64 list \<Rightarrow> f64" where
  "fSum vs = foldl fAdd 0 vs"

definition unwrappedValues :: "logRow list \<Rightarrow> f64 list" where
  "unwrappedValues rows = map unwrapped (filter haveUnwrap rows)"

definition fVariance :: "f64 list \<Rightarrow> f64" where
  "fVariance vs = (let n = fOfInt (int (length vs)); mean = fDiv (fSum vs) n in
     fDiv (foldl (\<lambda>acc v. let delta = fSub v mean in fAdd acc (fMul delta delta)) 0 vs) n)"

text \<open>The rank of a quantile; None is an index out of range. int of a value that does not fit is
  the least int64 (amd64).\<close>

definition floorIndex :: "f64 \<Rightarrow> int" where
  "floorIndex x = (if isNaN x \<or> isInf x \<or> \<not> in_i64 (fFloor x) then - (2 ^ 63) else fFloor x)"

definition quantileOf :: "f64 \<Rightarrow> f64 list \<Rightarrow> f64 option" where
  "quantileOf param vs0 = (let vs = sort_key fKey vs0; n = int (length vs);
       rank = fMul param (fOfInt (n - 1)); lower = floorIndex rank in
     if n - 1 \<le> lower then Some (last vs)
     else if lower < 0 then None
     else let weight = fSub rank (fOfInt lower) in
       Some (fAdd (fMul (vs ! nat lower) (fSub (fOfInt 1) weight)) (fMul (vs ! (nat lower + 1)) weight)))"

definition firstUnwrapped :: "logRow list \<Rightarrow> f64" where
  "firstUnwrapped rows = (case find haveUnwrap rows of Some r \<Rightarrow> unwrapped r | None \<Rightarrow> goNaN)"

definition totalBytes :: "logRow list \<Rightarrow> int" where
  "totalBytes rows = sum_list (map (\<lambda>r. int (length (lineText r))) rows)"

definition orNaN :: "f64 list \<Rightarrow> f64 \<Rightarrow> f64" where
  "orNaN vs v = (if vs = [] then goNaN else v)"

definition fLeast :: "f64 list \<Rightarrow> f64" where
  "fLeast vs = (let v = foldl (\<lambda>m v. if fLess v m then v else m) (goInf False) vs in if v = goInf False then goNaN else v)"

definition fGreatest :: "f64 list \<Rightarrow> f64" where
  "fGreatest vs = (let v = foldl (\<lambda>m v. if fLess m v then v else m) (goInf True) vs in if v = goInf True then goNaN else v)"

definition rangeAggregationValue :: "'re evaluator \<Rightarrow> string \<Rightarrow> logRow list \<Rightarrow> int \<Rightarrow> f64 \<Rightarrow> f64 option" where
  "rangeAggregationValue ev fn rows window param =
     (let count = fOfInt (int (length rows)); vs = unwrappedValues rows in
      if fn = ''count_over_time'' then Some count
      else if fn = ''rate'' then Some (fDiv count (durationSeconds window))
      else if fn = ''bytes_over_time'' then Some (fOfInt (totalBytes rows))
      else if fn = ''bytes_rate'' then Some (fDiv (fOfInt (totalBytes rows)) (durationSeconds window))
      else if fn = ''sum_over_time'' then Some (fSum vs)
      else if fn = ''avg_over_time'' then Some (orNaN vs (fDiv (fSum vs) (fOfInt (int (length vs)))))
      else if fn = ''min_over_time'' then Some (fLeast vs)
      else if fn = ''max_over_time'' then Some (fGreatest vs)
      else if fn = ''first_over_time'' then Some (firstUnwrapped (sort_key tsNS (evRows ev rows)))
      else if fn = ''last_over_time'' then Some (firstUnwrapped (sort_key (\<lambda>r. - tsNS r) (evRows ev rows)))
      else if fn = ''stdvar_over_time'' then Some (orNaN vs (fVariance vs))
      else if fn = ''stddev_over_time'' then Some (orNaN vs (fSqrt (fVariance vs)))
      else if fn = ''quantile_over_time'' then (if vs = [] then Some goNaN else quantileOf param vs)
      else Some goNaN)"

definition aggregateValues :: "string \<Rightarrow> f64 list \<Rightarrow> f64" where
  "aggregateValues fn vs =
     (if vs = [] then goNaN
      else if fn = ''sum'' then fSum vs
      else if fn = ''count'' then fOfInt (int (length vs))
      else if fn = ''avg'' then fDiv (fSum vs) (fOfInt (int (length vs)))
      else if fn = ''min'' then foldl (\<lambda>m v. if fLess v m then v else m) (hd vs) (tl vs)
      else if fn = ''max'' then foldl (\<lambda>m v. if fLess m v then v else m) (hd vs) (tl vs)
      else if fn = ''stdvar'' then fVariance vs
      else if fn = ''stddev'' then fSqrt (fVariance vs)
      else goNaN)"

section \<open>Range aggregations\<close>

text \<open>Whether a row is in the window that ends at a time: tsNS > start and not after the end, in int64.\<close>

definition inWindow :: "'re logQLRangeAggregation \<Rightarrow> int \<Rightarrow> logRow \<Rightarrow> bool" where
  "inWindow agg ts row \<longleftrightarrow> wrap64 (wrap64 (ts - raWindow agg) - raOffset agg) < tsNS row \<and> tsNS row \<le> wrap64 (ts - raOffset agg)"

definition windowRows :: "'re engine \<Rightarrow> 're logQLRangeAggregation \<Rightarrow> logRow list \<Rightarrow> int \<Rightarrow> logRow list" where
  "windowRows en agg rows ts = applyLogQLSelector en (filter (inWindow agg ts) rows) (raSelector agg)"

definition rowGroupLabels :: "'re logQLRangeAggregation \<Rightarrow> logRow \<Rightarrow> gomap" where
  "rowGroupLabels agg row = rangeAggregationLabels (rowLabels row) (raGrouping agg)"

text \<open>The samples of the groups; a group whose value is NaN has none.\<close>

fun groupSamples :: "('b \<Rightarrow> gomap) \<Rightarrow> ('b list \<Rightarrow> f64 option) \<Rightarrow> (string \<times> 'b list) list \<Rightarrow> logMetricSample list option" where
  "groupSamples labelsOf f [] = Some []"
| "groupSamples labelsOf f ((key, g) # gs) = (case f g of None \<Rightarrow> None
   | Some v \<Rightarrow> (case groupSamples labelsOf f gs of None \<Rightarrow> None
       | Some rest \<Rightarrow> Some (if isNaN v then rest else sample (labelsOf (last g)) v # rest)))"

definition evaluateLogQLRangeAggregation ::
  "'re evaluator \<Rightarrow> 're logQLRangeAggregation \<Rightarrow> logRow list \<Rightarrow> int \<Rightarrow> logMetricSample list option" where
  "evaluateLogQLRangeAggregation ev agg rows ts =
     (let groups = groupInto (labelsKey \<circ> rowGroupLabels agg) (windowRows (evEngine ev) agg rows ts) in
      if raFn agg = ''absent_over_time'' \<and> groups = [] then Some [sample [] (fOfInt 1)]
      else map_option (evSamples ev)
        (groupSamples (rowGroupLabels agg) (\<lambda>g. rangeAggregationValue ev (raFn agg) g (raWindow agg) (raParam agg)) groups))"

section \<open>Aggregations and selections of samples\<close>

definition evaluateLogQLAggregation ::
  "'re evaluator \<Rightarrow> string \<Rightarrow> logQLGrouping option \<Rightarrow> logMetricSample list \<Rightarrow> logMetricSample list" where
  "evaluateLogQLAggregation ev fn grouping child = evSamples ev
     (map (\<lambda>(key, g). sample (groupingLabels (smpLabels (last g)) grouping) (aggregateValues fn (map smpValue g)))
       (groupInto (\<lambda>s. labelsKey (groupingLabels (smpLabels s) grouping)) child))"

text \<open>Insertion sort, as sort.Slice does it on short slices: an element moves left past those it is less than.\<close>

fun insertBack :: "('a \<Rightarrow> 'a \<Rightarrow> bool) \<Rightarrow> 'a \<Rightarrow> 'a list \<Rightarrow> 'a list" where
  "insertBack lt x [] = [x]"
| "insertBack lt x (y # ys) = (if lt x y then y # insertBack lt x ys else x # y # ys)"

definition insertionSort :: "('a \<Rightarrow> 'a \<Rightarrow> bool) \<Rightarrow> 'a list \<Rightarrow> 'a list" where
  "insertionSort lt xs = rev (foldl (\<lambda>acc x. insertBack lt x acc) [] xs)"

definition evaluateLogQLTopK :: "'re evaluator \<Rightarrow> int \<Rightarrow> bool \<Rightarrow> logMetricSample list \<Rightarrow> logMetricSample list" where
  "evaluateLogQLTopK ev k isTop samples =
     (let sorted_samples = insertionSort (\<lambda>a b. if isTop then fLess (smpValue b) (smpValue a) else fLess (smpValue a) (smpValue b))
          (evSamples ev samples) in
      if k < int (length sorted_samples) then take (nat k) sorted_samples else sorted_samples)"

definition replaceLabel :: "'re engine \<Rightarrow> string \<Rightarrow> string \<Rightarrow> string \<Rightarrow> 're \<Rightarrow> logMetricSample \<Rightarrow> logMetricSample" where
  "replaceLabel en dst replacement src re s = (case enExpand en re replacement (labelGet (smpLabels s) src) of
     None \<Rightarrow> s | Some v \<Rightarrow> sample (AList.update dst v (smpLabels s)) (smpValue s))"

definition joinLabels :: "string \<Rightarrow> string \<Rightarrow> string list \<Rightarrow> logMetricSample \<Rightarrow> logMetricSample" where
  "joinLabels dst separator srcs s =
     sample (AList.update dst (joinWith separator (map (labelGet (smpLabels s)) srcs)) (smpLabels s)) (smpValue s)"

definition filterLogQLComparison :: "logQLComparison option \<Rightarrow> logMetricSample list \<Rightarrow> logMetricSample list" where
  "filterLogQLComparison cmp samples = (case cmp of None \<Rightarrow> samples
     | Some c \<Rightarrow> filter (\<lambda>s. compareFloats (cmpOp c) (smpValue s) (cmpValue c)) samples)"

section \<open>Binary operations\<close>

definition applyLogQLBinaryValue :: "'re evaluator \<Rightarrow> string \<Rightarrow> f64 \<Rightarrow> f64 \<Rightarrow> bool \<Rightarrow> f64 option" where
  "applyLogQLBinaryValue ev op left right boolModifier =
     (if op = ''+'' then Some (fAdd left right)
      else if op = ''-'' then Some (fSub left right)
      else if op = ''*'' then Some (fMul left right)
      else if op = ''/'' then Some (fDiv left right)
      else if op = ''%'' then Some (fMod left right)
      else if op = ''^'' then Some (evPow ev left right)
      else if isLogQLComparisonOp op then
        (if boolModifier then Some (if compareFloats op left right then fOfInt 1 else 0)
         else if compareFloats op left right then Some left else None)
      else None)"

definition logQLBinaryMatchKey :: "gomap \<Rightarrow> logQLVectorMatching option \<Rightarrow> string" where
  "logQLBinaryMatchKey labels matching = (case matching of None \<Rightarrow> labelsKey labels
   | Some m \<Rightarrow>
       if vmOn m then labelsKey (includeLabels (vmLabels m) labels [])
       else labelsKey (filter (\<lambda>kv. fst kv \<notin> set (vmLabels m)) labels))"

definition logQLBinaryOutputLabels :: "gomap \<Rightarrow> gomap \<Rightarrow> logQLVectorMatching option \<Rightarrow> gomap" where
  "logQLBinaryOutputLabels lhs rhs matching = (case matching of None \<Rightarrow> lhs
   | Some m \<Rightarrow> if vmGroup m = ''right'' then includeLabels (vmInclude m) lhs rhs
       else if vmGroup m = ''left'' then includeLabels (vmInclude m) rhs lhs else lhs)"

text \<open>logQLScalarSample: the value of a scalar operand.\<close>

definition logQLScalarSample :: "'re logQLExpr \<Rightarrow> logMetricSample list \<Rightarrow> f64 option" where
  "logQLScalarSample e samples = (case e of
     Scalar v \<Rightarrow> (case samples of [s] \<Rightarrow> if smpLabels s = [] then Some (smpValue s) else None | _ \<Rightarrow> None)
   | _ \<Rightarrow> None)"

definition evaluateLogQLScalarVectorBinary ::
  "'re evaluator \<Rightarrow> string \<Rightarrow> bool \<Rightarrow> f64 \<Rightarrow> logMetricSample list \<Rightarrow> bool \<Rightarrow> logMetricSample list" where
  "evaluateLogQLScalarVectorBinary ev op boolModifier scalar samples scalarOnLeft = List.map_filter (\<lambda>s.
     let (left, right) = (if scalarOnLeft then (scalar, smpValue s) else (smpValue s, scalar)) in
     map_option (sample (smpLabels s)) (applyLogQLBinaryValue ev op left right boolModifier)) samples"

text \<open>The inner loop over the right-hand samples with the key of the left one. Without a group modifier it
  stops at the first that is kept.\<close>

fun matchRight ::
  "'re evaluator \<Rightarrow> string \<Rightarrow> bool \<Rightarrow> logQLVectorMatching option \<Rightarrow> logMetricSample \<Rightarrow> logMetricSample list \<Rightarrow> logMetricSample list" where
  "matchRight ev op boolModifier matching left [] = []"
| "matchRight ev op boolModifier matching left (right # rights) =
     (case applyLogQLBinaryValue ev op (smpValue left) (smpValue right) boolModifier of
        None \<Rightarrow> matchRight ev op boolModifier matching left rights
      | Some v \<Rightarrow> sample (logQLBinaryOutputLabels (smpLabels left) (smpLabels right) matching) v
          # (if (case matching of None \<Rightarrow> True | Some m \<Rightarrow> vmGroup m = []) then []
             else matchRight ev op boolModifier matching left rights))"

definition evaluateLogQLVectorBinary ::
  "'re evaluator \<Rightarrow> string \<Rightarrow> bool \<Rightarrow> logQLVectorMatching option \<Rightarrow> logMetricSample list \<Rightarrow> logMetricSample list \<Rightarrow> logMetricSample list" where
  "evaluateLogQLVectorBinary ev op boolModifier matching lhs rhs = concat (map (\<lambda>left.
     matchRight ev op boolModifier matching left
       (filter (\<lambda>right. logQLBinaryMatchKey (smpLabels right) matching = logQLBinaryMatchKey (smpLabels left) matching) rhs)) lhs)"

definition evaluateLogQLSetBinary ::
  "string \<Rightarrow> logQLVectorMatching option \<Rightarrow> logMetricSample list \<Rightarrow> logMetricSample list \<Rightarrow> logMetricSample list" where
  "evaluateLogQLSetBinary op matching lhs rhs =
     (let key = (\<lambda>s. logQLBinaryMatchKey (smpLabels s) matching); rhsKeys = set (map key rhs); lhsKeys = set (map key lhs) in
      if op = ''and'' then filter (\<lambda>s. key s \<in> rhsKeys) lhs
      else if op = ''unless'' then filter (\<lambda>s. key s \<notin> rhsKeys) lhs
      else if op = ''or'' then lhs @ filter (\<lambda>s. key s \<notin> lhsKeys) rhs
      else [])"

definition evaluateLogQLBinaryOp ::
  "'re evaluator \<Rightarrow> string \<Rightarrow> 're logQLExpr \<Rightarrow> 're logQLExpr \<Rightarrow> bool \<Rightarrow> logQLVectorMatching option
     \<Rightarrow> logMetricSample list \<Rightarrow> logMetricSample list \<Rightarrow> logMetricSample list" where
  "evaluateLogQLBinaryOp ev op le re boolModifier matching lhs rhs =
     (case (logQLScalarSample le lhs, logQLScalarSample re rhs) of
        (Some l, Some r) \<Rightarrow> (case applyLogQLBinaryValue ev op l r boolModifier of None \<Rightarrow> [] | Some v \<Rightarrow> [sample [] v])
      | (Some l, None) \<Rightarrow> evaluateLogQLScalarVectorBinary ev op boolModifier l rhs True
      | (None, Some r) \<Rightarrow> evaluateLogQLScalarVectorBinary ev op boolModifier r lhs False
      | (None, None) \<Rightarrow>
          if isLogQLSetOp op then evaluateLogQLSetBinary op matching lhs rhs
          else evaluateLogQLVectorBinary ev op boolModifier matching lhs rhs)"

section \<open>Expressions\<close>

fun evaluateLogQLMetricAt :: "'re evaluator \<Rightarrow> 're logQLExpr \<Rightarrow> logRow list \<Rightarrow> int \<Rightarrow> logMetricSample list option" where
  "evaluateLogQLMetricAt ev (LogSelector s) rows ts = Some []"
| "evaluateLogQLMetricAt ev (RangeAgg agg cmp) rows ts =
     map_option (filterLogQLComparison cmp) (evaluateLogQLRangeAggregation ev agg rows ts)"
| "evaluateLogQLMetricAt ev (Aggregation fn grouping child cmp) rows ts =
     map_option (\<lambda>samples. filterLogQLComparison cmp (evaluateLogQLAggregation ev fn grouping samples)) (evaluateLogQLMetricAt ev child rows ts)"
| "evaluateLogQLMetricAt ev (TopK fn k child isTop cmp) rows ts =
     map_option (\<lambda>samples. filterLogQLComparison cmp (evaluateLogQLTopK ev k isTop samples)) (evaluateLogQLMetricAt ev child rows ts)"
| "evaluateLogQLMetricAt ev (LabelReplace child dst replacement src re) rows ts =
     map_option (map (replaceLabel (evEngine ev) dst replacement src re)) (evaluateLogQLMetricAt ev child rows ts)"
| "evaluateLogQLMetricAt ev (LabelJoin child dst separator srcs) rows ts =
     map_option (map (joinLabels dst separator srcs)) (evaluateLogQLMetricAt ev child rows ts)"
| "evaluateLogQLMetricAt ev (BinaryOp op le re boolModifier matching) rows ts =
     (case (evaluateLogQLMetricAt ev le rows ts, evaluateLogQLMetricAt ev re rows ts) of
        (Some lhs, Some rhs) \<Rightarrow> Some (evaluateLogQLBinaryOp ev op le re boolModifier matching lhs rhs)
      | _ \<Rightarrow> None)"
| "evaluateLogQLMetricAt ev (Scalar v) rows ts = Some [sample [] v]"
| "evaluateLogQLMetricAt ev (VectorExpr v) rows ts = Some [sample [] v]"

section \<open>Results\<close>

definition formatSample :: "'re engine \<Rightarrow> f64 \<Rightarrow> string" where
  "formatSample en v = (if isNaN v then ''NaN'' else if isInf v then (if fSign v then ''-Inf'' else ''+Inf'') else enFormat en v)"

record logMetricVectorResult =
  vecMetric :: gomap
  vecTime :: f64
  vecValue :: string

record logMetricMatrixResult =
  matMetric :: gomap
  matValues :: "(f64 \<times> string) list"

definition metricSamplesToVector :: "'re evaluator \<Rightarrow> logMetricSample list \<Rightarrow> int \<Rightarrow> logMetricVectorResult list" where
  "metricSamplesToVector ev samples ts = sort_key (\<lambda>r. labelsKey (vecMetric r))
     (map (\<lambda>s. \<lparr>vecMetric = stableLabelMap (smpLabels s), vecTime = unixSeconds ts,
        vecValue = formatSample (evEngine ev) (smpValue s)\<rparr>) (evSamples ev samples))"

definition evaluateLogQLInstantMetric ::
  "'re evaluator \<Rightarrow> 're logQLExpr \<Rightarrow> logRow list \<Rightarrow> int \<Rightarrow> logMetricVectorResult list option" where
  "evaluateLogQLInstantMetric ev e rows ts = map_option (\<lambda>samples. metricSamplesToVector ev samples ts) (evaluateLogQLMetricAt ev e rows ts)"

text \<open>uint64(end - start) / uint64(step) + 1; the difference of two int64 fits in a uint64. A zero step is a
  division by zero, which panics: a caller that can have one checks for it first.\<close>

definition logQLRangePoints :: "int \<Rightarrow> int \<Rightarrow> int \<Rightarrow> nat" where
  "logQLRangePoints startNS endNS stepNS = (if endNS < startNS then 0 else nat (((endNS - startNS) div (if stepNS < 0 then stepNS + 2 ^ 64 else stepNS) + 1) mod 2 ^ 64))"

definition addPoint :: "'re engine \<Rightarrow> int \<Rightarrow> logMetricSample \<Rightarrow> (string \<times> logMetricMatrixResult) list \<Rightarrow> (string \<times> logMetricMatrixResult) list" where
  "addPoint en ts s series = (let p = (unixSeconds ts, formatSample en (smpValue s)) in
     AList.map_default (labelsKey (smpLabels s)) \<lparr>matMetric = stableLabelMap (smpLabels s), matValues = [p]\<rparr>
       (\<lambda>r. r\<lparr>matValues := matValues r @ [p]\<rparr>) series)"

fun rangePointsLoop ::
  "'re evaluator \<Rightarrow> 're logQLExpr \<Rightarrow> logRow list \<Rightarrow> int list \<Rightarrow> (string \<times> logMetricMatrixResult) list
     \<Rightarrow> (string \<times> logMetricMatrixResult) list option" where
  "rangePointsLoop ev e rows [] series = Some series"
| "rangePointsLoop ev e rows (ts # tss) series = (case evaluateLogQLMetricAt ev e rows ts of None \<Rightarrow> None
   | Some samples \<Rightarrow> rangePointsLoop ev e rows tss (fold (addPoint (evEngine ev) ts) samples series))"

definition gridTimes :: "int \<Rightarrow> int \<Rightarrow> int \<Rightarrow> int list" where
  "gridTimes startNS endNS stepNS = map (\<lambda>i. wrap64 (startNS + int i * stepNS)) [0..<logQLRangePoints startNS endNS stepNS]"

definition evaluateLogQLRangeMetric ::
  "'re evaluator \<Rightarrow> 're logQLExpr \<Rightarrow> logRow list \<Rightarrow> int \<Rightarrow> int \<Rightarrow> int \<Rightarrow> logMetricMatrixResult list option" where
  "evaluateLogQLRangeMetric ev e rows startNS endNS step0 =
     (let step = (if step0 \<le> 0 then 60000000000 else step0) in
      map_option (\<lambda>series. sort_key (\<lambda>r. labelsKey (matMetric r)) (map snd series))
        (rangePointsLoop ev e rows (gridTimes startNS endNS step) []))"

section \<open>Facts on groups and sorting\<close>

lemma groupInto_eq:
  "groupInto key xs = map (\<lambda>k. (k, filter (\<lambda>x. key x = k) xs)) (firsts (map key xs))"
proof -
  have b: "g \<noteq> [] \<Longrightarrow> buildGroup (\<lambda>x. [x]) (\<lambda>x g. g @ [x]) g = g" for g :: "'a list"
  proof (induction g rule: rev_induct)
    case (snoc x xs)
    then show ?case by (cases "xs = []") (simp_all add: buildGroup_snoc, simp add: buildGroup_def)
  qed simp
  show ?thesis
    unfolding groupInto_def fold_map_default
  proof (intro map_cong refl)
    fix k assume "k \<in> set (firsts (map key xs))"
    then have "filter (\<lambda>x. key x = k) xs \<noteq> []" by (auto simp: filter_empty_conv)
    then show "(k, buildGroup (\<lambda>x. [x]) (\<lambda>x g. g @ [x]) (filter (\<lambda>x. key x = k) xs)) = (k, filter (\<lambda>x. key x = k) xs)"
      by (simp add: b)
  qed
qed

lemma groupInto_nonempty: "(k, g) \<in> set (groupInto key xs) \<Longrightarrow> g \<noteq> [] \<and> set g \<subseteq> set xs"
  by (auto simp: groupInto_eq filter_empty_conv)

lemma groupInto_eq_Nil [simp]: "groupInto key xs = [] \<longleftrightarrow> xs = []"
  by (auto simp: groupInto_eq firsts_def)

lemma sum_group_lengths:
  "finite A \<Longrightarrow> key ` set xs \<subseteq> A \<Longrightarrow> (\<Sum>k\<in>A. length (filter (\<lambda>x. key x = k) xs)) = length xs"
proof (induction xs)
  case (Cons x xs)
  have "(\<Sum>k\<in>A. length (filter (\<lambda>y. key y = k) (x # xs)))
      = (\<Sum>k\<in>A. (if key x = k then 1 else 0) + length (filter (\<lambda>y. key y = k) xs))"
    by (intro sum.cong) auto
  also have "\<dots> = 1 + length xs" using Cons by (simp add: sum.distrib)
  finally show ?case by simp
qed simp

lemma group_lengths: "sum_list (map (length \<circ> snd) (groupInto key xs)) = length xs"
proof -
  have "sum_list (map (length \<circ> snd) (groupInto key xs)) = (\<Sum>k\<in>set (map key xs). length (filter (\<lambda>x. key x = k) xs))"
    by (simp add: groupInto_eq comp_def sum_list_distinct_conv_sum_set)
  then show ?thesis using sum_group_lengths [of "set (map key xs)" key xs] by simp
qed

lemma mset_insertBack: "mset (insertBack lt x ys) = add_mset x (mset ys)"
  by (induction ys) simp_all

lemma mset_insertionSort: "mset (insertionSort lt xs) = mset xs"
proof -
  have "mset (foldl (\<lambda>acc x. insertBack lt x acc) acc xs) = mset acc + mset xs" for acc
    by (induction xs arbitrary: acc) (simp_all add: mset_insertBack)
  from this [of "[]"] show ?thesis by (simp add: insertionSort_def)
qed

lemma set_insertionSort [simp]: "set (insertionSort lt xs) = set xs"
  by (metis mset_insertionSort set_mset_mset)

lemma insertBack_sorted:
  assumes "\<forall>a\<in>insert x (set ys). \<forall>b\<in>insert x (set ys). lt a b \<longleftrightarrow> (f a :: int) < f b"
    and "sorted_wrt (\<lambda>a b. f b \<le> f a) ys"
  shows "sorted_wrt (\<lambda>a b. f b \<le> f a) (insertBack lt x ys)"
  using assms
proof (induction ys)
  case (Cons y ys)
  have "set (insertBack lt x ys) = insert x (set ys)" by (metis mset_insertBack set_mset_add_mset_insert set_mset_mset)
  then show ?case using Cons by (auto simp: not_less)
qed simp

text \<open>With a comparison by a key, insertion sort sorts.\<close>

lemma insertionSort_sorted:
  assumes "\<forall>a\<in>set xs. \<forall>b\<in>set xs. lt a b \<longleftrightarrow> (f a :: int) < f b"
  shows "sorted_wrt (\<lambda>a b. f a \<le> f b) (insertionSort lt xs)"
proof -
  have "sorted_wrt (\<lambda>a b. f b \<le> f a) (foldl (\<lambda>acc x. insertBack lt x acc) acc zs)"
    if "sorted_wrt (\<lambda>a b. f b \<le> f a) acc" "set acc \<union> set zs \<subseteq> set xs" for acc zs
    using that
  proof (induction zs arbitrary: acc)
    case (Cons z zs)
    have "set (insertBack lt z acc) = insert z (set acc)" by (metis mset_insertBack set_mset_add_mset_insert set_mset_mset)
    moreover have "sorted_wrt (\<lambda>a b. f b \<le> f a) (insertBack lt z acc)"
    proof (rule insertBack_sorted)
      have "insert z (set acc) \<subseteq> set xs" using Cons.prems(2) by simp
      then show "\<forall>a\<in>insert z (set acc). \<forall>b\<in>insert z (set acc). lt a b \<longleftrightarrow> f a < f b" using assms by blast
    qed (rule Cons.prems(1))
    ultimately show ?case using Cons by simp
  qed simp
  from this [of "[]" xs] show ?thesis by (simp add: insertionSort_def sorted_wrt_rev)
qed

text \<open>The orders that Go leaves open permute.\<close>

definition permutes :: "'re evaluator \<Rightarrow> bool" where
  "permutes ev \<longleftrightarrow> (\<forall>xs. mset (evSamples ev xs) = mset xs) \<and> (\<forall>rs. mset (evRows ev rs) = mset rs)"

section \<open>Properties\<close>

text \<open>topk and bottomk return the right number of the samples of their argument, sorted, and no sample left out beats one that
  is returned, whatever order the map iteration gives them, as long as no value is NaN.\<close>

theorem topk_selects:
  assumes "permutes ev" "0 \<le> k" "\<forall>s\<in>set samples. \<not> isNaN (smpValue s)"
  shows "\<exists>rest. let result = evaluateLogQLTopK ev k isTop samples in
      mset result + mset rest = mset samples \<and> length result = min (nat k) (length samples)
      \<and> sorted_wrt (\<lambda>a b. if isTop then fLessEq (smpValue b) (smpValue a) else fLessEq (smpValue a) (smpValue b)) (result @ rest)"
proof -
  let ?lt = "\<lambda>a b. if isTop then fLess (smpValue b) (smpValue a) else fLess (smpValue a) (smpValue b)"
  let ?f = "\<lambda>s. if isTop then - fKey (smpValue s) else fKey (smpValue s)"
  define xs where "xs = insertionSort ?lt (evSamples ev samples)"
  have m: "mset xs = mset samples" using assms(1) by (simp add: xs_def mset_insertionSort permutes_def)
  then have s: "set xs = set samples" "set (evSamples ev samples) = set samples" "length xs = length samples"
    using assms(1) by (metis set_mset_mset, metis permutes_def set_mset_mset, metis size_mset)
  have "sorted_wrt (\<lambda>a b. ?f a \<le> ?f b) xs"
    unfolding xs_def using assms(3) s(2) by (intro insertionSort_sorted) (simp add: fLess_def)
  then have "sorted_wrt (\<lambda>a b. if isTop then fLessEq (smpValue b) (smpValue a) else fLessEq (smpValue a) (smpValue b)) xs"
    using assms(3) s(1) by (auto simp: fLessEq_def intro: sorted_wrt_mono_rel [rotated])
  moreover have "evaluateLogQLTopK ev k isTop samples = take (nat k) xs"
    using assms(2) by (auto simp: evaluateLogQLTopK_def xs_def Let_def)
  moreover have "mset (take (nat k) xs) + mset (drop (nat k) xs) = mset samples"
    by (simp flip: m mset_append)
  ultimately show ?thesis by (intro exI [of _ "drop (nat k) xs"]) (simp add: s(3) Let_def)
qed

definition demoLogEngine :: "unit engine" where
  "demoLogEngine = \<lparr>enCompile = \<lambda>_. None, enSource = \<lambda>_. [], enMatch = \<lambda>_ _. False, enSubmatch = \<lambda>_ _. None,
     enExpand = \<lambda>_ _ _. None, enUnmarshal = \<lambda>_. None, enMarshal = \<lambda>_. [], enFormat = \<lambda>_. [], enTemplate = \<lambda>_ _ _. None\<rparr>"

definition demoEvaluator :: "unit evaluator" where
  "demoEvaluator = \<lparr>evEngine = demoLogEngine, evPow = \<lambda>x y. x, evRows = rev, evSamples = rev\<rparr>"

lemma permutes_demo: "permutes demoEvaluator"
  by (simp add: permutes_def demoEvaluator_def)

theorem topk_selects_witness:
  "length (evaluateLogQLTopK demoEvaluator 1 True [sample [] 0x3FF0000000000000, sample [] 0x4008000000000000]) = 1"
proof -
  have "\<forall>s\<in>set [sample [] 0x3FF0000000000000, sample [] 0x4008000000000000]. \<not> isNaN (smpValue s)"
    by (simp add: sample_def isNaN_def fMagnitude_def fInfBits_def)
  from topk_selects [OF permutes_demo _ this, of 1 True] show ?thesis
    by (auto simp: Let_def)
qed

section \<open>Vector matching\<close>

lemma map_of_includeLabels:
  "map_of (includeLabels ls src out) l = (if l \<in> set ls \<and> map_of src l \<noteq> None then map_of src l else map_of out l)"
proof (induction ls arbitrary: out)
  case (Cons x ls)
  then show ?case by (auto simp: includeLabels_def update_conv split: option.splits)
qed (simp add: includeLabels_def)

lemma includeLabels_only: "map_of (includeLabels ls src []) l = (if l \<in> set ls then map_of src l else None)"
  by (simp add: map_of_includeLabels)

lemma keyed_update:
  assumes "keyed m" "keyed [(k, v)]"
  shows "keyed (AList.update k v m)"
proof -
  have "set (AList.update k v m) \<subseteq> insert (k, v) (set m)"
    by (induction m) auto
  then have "x \<in> insert (k, v) (set m)" if "x \<in> set (AList.update k v m)" for x using that by blast
  then show ?thesis using assms unfolding keyed_def by (force simp: distinct_update)
qed

lemma keyed_includeLabels: "keyed src \<Longrightarrow> keyed out \<Longrightarrow> keyed (includeLabels ls src out)"
proof (induction ls arbitrary: out)
  case (Cons x ls)
  have "keyed (AList.update x v out)" if "map_of src x = Some v" for v
    using Cons.prems map_of_SomeD [OF that] by (intro keyed_update) (auto simp: keyed_def)
  then show ?case using Cons by (auto simp: includeLabels_def split: option.splits)
qed (simp add: includeLabels_def)

lemma keyed_filter: "keyed m \<Longrightarrow> keyed (filter P m)"
  by (auto simp: keyed_def distinct_map_filter)

lemma map_of_filter_keys: "map_of (filter (\<lambda>kv. P (fst kv)) m) l = (if P l then map_of m l else None)"
  by (induction m) auto

text \<open>What a vector matching compares: all labels, those of \<open>on\<close>, or all but those of \<open>ignoring\<close>.\<close>

definition sameLabels :: "logQLVectorMatching option \<Rightarrow> gomap \<Rightarrow> gomap \<Rightarrow> bool" where
  "sameLabels matching a b \<longleftrightarrow> (case matching of None \<Rightarrow> map_of a = map_of b
     | Some m \<Rightarrow> if vmOn m then \<forall>l\<in>set (vmLabels m). map_of a l = map_of b l
         else \<forall>l. l \<in> set (vmLabels m) \<or> map_of a l = map_of b l)"

lemma match_key:
  assumes "keyed a" "keyed b"
  shows "logQLBinaryMatchKey a matching = logQLBinaryMatchKey b matching \<longleftrightarrow> sameLabels matching a b"
proof -
  have sep: "keyed m \<Longrightarrow> keyed m' \<Longrightarrow> labelsKey m = labelsKey m' \<longleftrightarrow> map_of m = map_of m'" for m m'
    by (rule labelsKey_iff)
  show ?thesis
  proof (cases matching)
    case None
    then show ?thesis using sep [OF assms] by (simp add: logQLBinaryMatchKey_def sameLabels_def)
  next
    case (Some m)
    have k: "keyed []" by (simp add: keyed_def)
    have "map_of (includeLabels (vmLabels m) a []) = map_of (includeLabels (vmLabels m) b [])
        \<longleftrightarrow> (\<forall>l\<in>set (vmLabels m). map_of a l = map_of b l)"
      unfolding fun_eq_iff includeLabels_only by auto
    moreover have "map_of (filter (\<lambda>kv. fst kv \<notin> set (vmLabels m)) a) = map_of (filter (\<lambda>kv. fst kv \<notin> set (vmLabels m)) b)
        \<longleftrightarrow> (\<forall>l. l \<in> set (vmLabels m) \<or> map_of a l = map_of b l)"
      unfolding fun_eq_iff map_of_filter_keys [of "\<lambda>l. l \<notin> set (vmLabels m)"] by auto
    ultimately show ?thesis
      using Some sep [OF keyed_includeLabels [OF assms(1) k] keyed_includeLabels [OF assms(2) k]]
        sep [OF keyed_filter [OF assms(1)] keyed_filter [OF assms(2)]]
      by (simp add: logQLBinaryMatchKey_def sameLabels_def)
  qed
qed

text \<open>The set operators on samples compare exactly the labels that the vector matching names: \<open>and\<close> keeps the left samples with a partner
  on the right, \<open>unless\<close> the others, so that the two partition the left side, and \<open>or\<close> is the
  left side followed by the right samples without a partner on the left.\<close>

theorem set_operators_spec:
  assumes "\<forall>s\<in>set lhs \<union> set rhs. keyed (smpLabels s)"
  shows "evaluateLogQLSetBinary ''and'' m lhs rhs = filter (\<lambda>s. \<exists>r\<in>set rhs. sameLabels m (smpLabels s) (smpLabels r)) lhs
    \<and> evaluateLogQLSetBinary ''unless'' m lhs rhs = filter (\<lambda>s. \<not> (\<exists>r\<in>set rhs. sameLabels m (smpLabels s) (smpLabels r))) lhs
    \<and> evaluateLogQLSetBinary ''or'' m lhs rhs = lhs @ filter (\<lambda>r. \<not> (\<exists>s\<in>set lhs. sameLabels m (smpLabels r) (smpLabels s))) rhs
    \<and> mset (evaluateLogQLSetBinary ''and'' m lhs rhs) + mset (evaluateLogQLSetBinary ''unless'' m lhs rhs) = mset lhs"
proof -
  let ?key = "\<lambda>s. logQLBinaryMatchKey (smpLabels s) m"
  have key: "?key s \<in> ?key ` set xs \<longleftrightarrow> (\<exists>r\<in>set xs. sameLabels m (smpLabels s) (smpLabels r))"
    if "s \<in> set lhs \<union> set rhs" "set xs \<subseteq> set lhs \<union> set rhs" for s xs
    using that assms match_key [of "smpLabels s" _ m] by (auto simp: image_iff)
  have "mset (filter P lhs) + mset (filter (\<lambda>s. \<not> P s) lhs) = mset lhs" for P
    using multiset_partition [of "mset lhs" P] by simp
  moreover have "filter (\<lambda>s. ?key s \<in> set (map ?key rhs)) lhs = filter (\<lambda>s. \<exists>r\<in>set rhs. sameLabels m (smpLabels s) (smpLabels r)) lhs"
    using key [of _ rhs] by (intro filter_cong) auto
  moreover have "filter (\<lambda>s. ?key s \<notin> set (map ?key rhs)) lhs = filter (\<lambda>s. \<not> (\<exists>r\<in>set rhs. sameLabels m (smpLabels s) (smpLabels r))) lhs"
    using key [of _ rhs] by (intro filter_cong) auto
  moreover have "filter (\<lambda>s. ?key s \<notin> set (map ?key lhs)) rhs = filter (\<lambda>r. \<not> (\<exists>s\<in>set lhs. sameLabels m (smpLabels r) (smpLabels s))) rhs"
    using key [of _ lhs] by (intro filter_cong) auto
  ultimately show ?thesis by (simp only: evaluateLogQLSetBinary_def Let_def) simp
qed

theorem set_operators_spec_witness:
  "evaluateLogQLSetBinary ''and'' (Some \<lparr>vmOn = True, vmLabels = [''app''], vmGroup = [], vmInclude = []\<rparr>)
     [sample [(''app'', ''a''), (''host'', ''x'')] 0, sample [(''app'', ''b'')] 0] [sample [(''app'', ''a'')] 0]
   = [sample [(''app'', ''a''), (''host'', ''x'')] 0]"
proof -
  have k: "\<forall>s\<in>set [sample [(''app'', ''a''), (''host'', ''x'')] 0, sample [(''app'', ''b'')] 0] \<union> set [sample [(''app'', ''a'')] 0].
      keyed (smpLabels s)"
    by (simp add: keyed_def sample_def)
  show ?thesis using set_operators_spec [OF k] by (simp add: sameLabels_def sample_def)
qed

section \<open>Counting\<close>

lemma groupSamples_total:
  "\<forall>(k, g)\<in>set gs. f g = Some (h g) \<and> \<not> isNaN (h g) \<Longrightarrow>
   groupSamples labelsOf f gs = Some (map (\<lambda>(k, g). sample (labelsOf (last g)) (h g)) gs)"
  by (induction labelsOf f gs rule: groupSamples.induct) auto

lemma firsts_Nil [simp]: "firsts [] = []"
  by (simp add: firsts_def)

lemma firsts_const: "firsts (map (\<lambda>x. c) xs) = (if xs = [] then [] else [c])"
proof (induction xs rule: rev_induct)
  case (snoc x xs)
  have "c \<in> set (map (\<lambda>x. c) xs) \<longleftrightarrow> xs \<noteq> []" by (cases xs) simp_all
  then show ?case using snoc by (simp add: firsts_snoc del: set_map)
qed (simp add: firsts_def)

text \<open>The whole number that a float stands for.\<close>

definition wholeOf :: "f64 \<Rightarrow> int" where
  "wholeOf v = fUnits v div 2 ^ 1074"

lemma wholeOf_int: "0 \<le> a \<Longrightarrow> a \<le> 2 ^ 53 \<Longrightarrow> wholeOf (fOfInt a) = a"
  by (simp add: wholeOf_def fOfInt_whole)

lemma fSum_whole:
  assumes "\<forall>v\<in>set vs. v = fOfInt (wholeOf v) \<and> 0 \<le> wholeOf v" "sum_list (map wholeOf vs) \<le> 2 ^ 53"
  shows "fSum vs = fOfInt (sum_list (map wholeOf vs))"
proof -
  have "foldl fAdd (fOfInt a) vs = fOfInt (a + sum_list (map wholeOf vs))"
    if "0 \<le> a" "a + sum_list (map wholeOf vs) \<le> 2 ^ 53" for a
    using that assms(1)
  proof (induction vs arbitrary: a)
    case (Cons v vs)
    have v: "v = fOfInt (wholeOf v)" "0 \<le> wholeOf v" using Cons.prems(3) by simp_all
    have "0 \<le> sum_list (map wholeOf vs)" using Cons.prems(3) by (intro sum_list_nonneg) auto
    then have "a + wholeOf v \<le> 2 ^ 53" using Cons.prems(2) by simp
    then have "fAdd (fOfInt a) v = fOfInt (a + wholeOf v)"
      using fAdd_whole [OF Cons.prems(1) v(2)] v(1) by simp
    then show ?case using Cons v(2) by (simp add: add.assoc)
  qed simp
  from this [of 0] assms(2) show ?thesis by (simp add: fSum_def fOfInt_0)
qed

lemma permutes_single: "permutes ev \<Longrightarrow> evSamples ev [x] = [x]"
  unfolding permutes_def by (metis mset_single_iff mset.simps)

lemma permutes_Nil: "permutes ev \<Longrightarrow> evSamples ev [] = []"
  unfolding permutes_def by (metis mset.simps(1) mset_zero_iff)

text \<open>C25. The total of a count is exact: the sum over all groups of count_over_time is the number of rows in the window that the selector accepts,
  whatever the grouping and the order of the maps, as long as that number is a float64
  exactly; without rows there is no sample.\<close>

theorem total_count_exact:
  assumes "permutes ev" "raFn agg = ''count_over_time''" "length (windowRows (evEngine ev) agg rows ts) \<le> 2 ^ 53"
  shows "evaluateLogQLMetricAt ev (Aggregation ''sum'' None (RangeAgg agg None) None) rows ts
    = Some (if windowRows (evEngine ev) agg rows ts = [] then []
        else [sample [] (fOfInt (int (length (windowRows (evEngine ev) agg rows ts))))])"
proof -
  let ?rows = "windowRows (evEngine ev) agg rows ts"
  let ?gs = "groupInto (labelsKey \<circ> rowGroupLabels agg) ?rows"
  let ?s = "map (\<lambda>(k, g). sample (rowGroupLabels agg (last g)) (fOfInt (int (length g)))) ?gs"
  have total: "sum_list (map (length \<circ> snd) ?gs) = length ?rows" by (rule group_lengths)
  have size: "length g \<le> 2 ^ 53" if "(k, g) \<in> set ?gs" for k g
  proof -
    have "length g \<in> set (map (length \<circ> snd) ?gs)" using that by force
    from member_le_sum_list [OF this] show ?thesis using total assms(3) by simp
  qed
  have "groupSamples (rowGroupLabels agg) (\<lambda>g. rangeAggregationValue ev (raFn agg) g (raWindow agg) (raParam agg)) ?gs = Some ?s"
    by (rule groupSamples_total) (use size in \<open>auto simp: rangeAggregationValue_def Let_def assms(2) fOfInt_whole\<close>)
  then have ra: "evaluateLogQLRangeAggregation ev agg rows ts = Some (evSamples ev ?s)"
    by (simp add: evaluateLogQLRangeAggregation_def Let_def assms(2))
  have perm: "mset (evSamples ev ?s) = mset ?s" using assms(1) by (simp add: permutes_def)
  have vals: "map (wholeOf \<circ> smpValue) ?s = map (int \<circ> length \<circ> snd) ?gs"
    using size by (auto simp: sample_def wholeOf_int intro!: map_cong)
  have sum_int: "sum_list (map (int \<circ> length \<circ> snd) xs) = int (sum_list (map (length \<circ> snd) xs))" for xs :: "(string \<times> logRow list) list"
    by (induction xs) simp_all
  have "sum_list (map (wholeOf \<circ> smpValue) xs) = sum_list (map (wholeOf \<circ> smpValue) ys)" if "mset xs = mset ys" for xs ys
    unfolding sum_mset_sum_list [symmetric] mset_map that by (rule refl)
  from this [OF perm]
  have "sum_list (map (wholeOf \<circ> smpValue) (evSamples ev ?s)) = sum_list (map (wholeOf \<circ> smpValue) ?s)" .
  also have "\<dots> = int (length ?rows)" by (simp only: vals sum_int total)
  finally have s1: "sum_list (map wholeOf (map smpValue (evSamples ev ?s))) = int (length ?rows)"
    by (simp only: map_map)
  have "\<forall>x\<in>set ?s. smpValue x = fOfInt (wholeOf (smpValue x)) \<and> 0 \<le> wholeOf (smpValue x)"
    using size by (auto simp: sample_def wholeOf_int)
  then have W: "\<forall>v\<in>set (map smpValue (evSamples ev ?s)). v = fOfInt (wholeOf v) \<and> 0 \<le> wholeOf v"
    unfolding set_map mset_eq_setD [OF perm] by blast
  have L: "int (length ?rows) \<le> 2 ^ 53" using assms(3) by simp
  have fs: "fSum (map smpValue (evSamples ev ?s)) = fOfInt (int (length ?rows))"
    by (rule fSum_whole [OF W, unfolded s1, OF L])
  have empty: "evSamples ev ?s = [] \<longleftrightarrow> ?rows = []"
  proof -
    have "evSamples ev ?s = [] \<longleftrightarrow> ?s = []" unfolding mset_zero_iff [symmetric] perm by (rule refl)
    then show ?thesis by (simp only: map_is_Nil_conv groupInto_eq_Nil)
  qed
  show ?thesis
  proof (cases "?rows = []")
    case True
    then show ?thesis using ra empty assms(1)
      by (simp add: evaluateLogQLAggregation_def groupInto_eq firsts_def filterLogQLComparison_def permutes_Nil)
  next
    case False
    then have "groupInto (\<lambda>s. labelsKey (groupingLabels (smpLabels s) None)) (evSamples ev ?s)
        = [(labelsKey [], evSamples ev ?s)]"
      using empty by (simp add: groupInto_eq groupingLabels_def firsts_const)
    then show ?thesis using False ra fs empty assms(1)
      by (simp add: evaluateLogQLAggregation_def aggregateValues_def groupingLabels_def permutes_single filterLogQLComparison_def)
  qed
qed

definition demoCount :: "unit logQLRangeAggregation" where
  "demoCount = \<lparr>raFn = ''count_over_time'', raSelector = \<lparr>selMatchers = [], selStages = []\<rparr>, raWindow = 10, raOffset = 0,
     raGrouping = None, raParam = 0\<rparr>"

lemma demoCount_rows: "windowRows demoLogEngine demoCount (scanLogRows [demoColumns 1 ''x'', demoColumns 2 ''y'', demoColumns 7 ''z'']) 5
    = scanLogRows [demoColumns 1 ''x'', demoColumns 2 ''y'']"
  by (simp add: windowRows_def demoCount_def applyLogQLSelector_def scanLogRows_def inWindow_def scanLogRow_simps
      demoColumns_def List.map_filter_def applySelector_def selectorAccepts_def wrap64_id in_i64_def)

theorem total_count_exact_witness:
  "evaluateLogQLMetricAt demoEvaluator (Aggregation ''sum'' None (RangeAgg demoCount None) None)
     (scanLogRows [demoColumns 1 ''x'', demoColumns 2 ''y'', demoColumns 7 ''z'']) 5 = Some [sample [] (fOfInt 2)]"
proof -
  have e: "evEngine demoEvaluator = demoLogEngine" by (simp add: demoEvaluator_def)
  have c: "raFn demoCount = ''count_over_time''" by (simp add: demoCount_def)
  show ?thesis
    using total_count_exact [OF permutes_demo c, of "scanLogRows [demoColumns 1 ''x'', demoColumns 2 ''y'', demoColumns 7 ''z'']" 5]
    unfolding e demoCount_rows by (simp add: scanLogRows_def)
qed

section \<open>Panics\<close>

text \<open>A quantile that the parser lets through: its check refuses the numbers below 0 and above 1.\<close>

definition quantileChecked :: "f64 \<Rightarrow> bool" where
  "quantileChecked p \<longleftrightarrow> \<not> fLess p 0 \<and> \<not> fLess (fOfInt 1) p"

fun allAggs :: "('re logQLRangeAggregation \<Rightarrow> bool) \<Rightarrow> 're logQLExpr \<Rightarrow> bool" where
  "allAggs P (LogSelector s) = True"
| "allAggs P (RangeAgg agg cmp) = P agg"
| "allAggs P (Aggregation fn g child cmp) = allAggs P child"
| "allAggs P (TopK fn k child isTop cmp) = allAggs P child"
| "allAggs P (LabelReplace child dst repl src re) = allAggs P child"
| "allAggs P (LabelJoin child dst separator srcs) = allAggs P child"
| "allAggs P (BinaryOp op le re b m) = (allAggs P le \<and> allAggs P re)"
| "allAggs P (Scalar v) = True"
| "allAggs P (VectorExpr v) = True"

lemma mkFloat_parts:
  assumes "M < 2 ^ 63"
  shows "fMagnitude (mkFloat s M) = M" "fSign (mkFloat s M) = s"
proof -
  have "unat (of_nat k :: 64 word) = k" if "k < 2 ^ 64" for k using that by (simp add: unat_of_nat)
  then have un: "unat (mkFloat s M) = (if s then 2 ^ 63 else 0) + M" using assms by (simp add: mkFloat_def del: of_nat_add)
  show "fMagnitude (mkFloat s M) = M" using un assms by (simp add: fMagnitude_def)
  show "fSign (mkFloat s M) = s" using un assms by (simp add: fSign_def)
qed

lemma roundBits_bound:
  assumes "n div d < 2 ^ w" "53 \<le> w"
  shows "roundBits n d \<le> (w - 53) * 2 ^ 52 + 2 ^ 53"
proof -
  let ?q = "n div d" and ?u = "lastPlace n d"
  have u: "?u \<le> w - 53 \<and> ?q < 2 ^ (?u + 53)"
  proof (cases "?q < 2 ^ 53")
    case False
    then have "?q \<noteq> 0" by (metis zero_less_numeral zero_less_power)
    then have q: "0 < int ?q" by simp
    have b: "2 ^ nat (bitlen (int ?q) - 1) \<le> ?q" "?q < 2 ^ nat (bitlen (int ?q))"
      using bitlen_bounds [OF q] by (simp_all add: of_nat_power [symmetric] del: of_nat_power)
    have "nat (bitlen (int ?q) - 1) < w"
      using b(1) assms(1) power_less_imp_less_exp [of "2 :: nat" "nat (bitlen (int ?q) - 1)" w] by linarith
    moreover have "53 < nat (bitlen (int ?q))"
      using b(2) False power_less_imp_less_exp [of "2 :: nat" 53 "nat (bitlen (int ?q))"] by (metis leI le_less_trans power_increasing_iff one_less_numeral_iff semiring_norm(76) not_less_iff_gr_or_eq nat_less_le)
    ultimately show ?thesis using False b(2) by (simp add: lastPlace_def Let_def)
  qed (use assms in \<open>simp add: lastPlace_def\<close>)
  have "n div (d * 2 ^ ?u) < 2 ^ 53"
    using u by (simp add: div_mult2_eq less_mult_imp_div_less power_add mult.commute)
  then have "nearestEven n (d * 2 ^ ?u) \<le> 2 ^ 53" by (simp add: nearestEven_def Let_def)
  moreover have "?u * 2 ^ 52 \<le> (w - 53) * 2 ^ 52" using u by (intro mult_le_mono1) simp
  ultimately show ?thesis by (simp add: roundBits_def Let_def)
qed

lemma roundBits_0: "roundBits 0 d = 0"
  by (simp add: roundBits_def lastPlace_def nearestEven_def)

lemma fRound_bound:
  assumes "n div d < 2 ^ w" "53 \<le> w" "w \<le> 1500" "x = fRound s n d"
  shows "\<not> isNaN x" "\<not> isInf x" "fSign x = s" "fMantissa x * 2 ^ fExponent x < 2 ^ (w + 2)"
proof -
  let ?M = "roundBits n d"
  have "?M \<le> (w - 53) * 2 ^ 52 + 2 ^ 53" using assms(1,2) by (rule roundBits_bound)
  then have M: "?M \<le> (w - 51) * 2 ^ 52" using assms(2) by simp
  moreover have "(w - 51) * 2 ^ 52 \<le> 1500 * 2 ^ 52" using assms(3) by (intro mult_le_mono1) simp
  ultimately have B: "?M \<le> 1500 * 2 ^ 52" by linarith
  then have lt: "?M < 2 ^ 63" by simp
  have mag: "fMagnitude x = ?M" "fSign x = s" using mkFloat_parts [OF lt, of s] by (simp_all add: assms(4) fRound_def)
  show "\<not> isNaN x" "\<not> isInf x" "fSign x = s" using B mag by (simp_all add: isNaN_def isInf_def fInfBits_def)
  have "?M div 2 ^ 52 \<le> w - 51" using M div_le_mono [of ?M "(w - 51) * 2 ^ 52" "2 ^ 52"] by simp
  then have "?M div 2 ^ 52 - 1 \<le> w - 52" using assms(2) by linarith
  then have e: "fExponent x \<le> w - 52" by (simp add: fExponent_def mag Let_def)
  have m: "fMantissa x < 2 ^ 53"
  proof -
    have "?M mod 2 ^ 52 < 2 ^ 52" by simp
    then show ?thesis by (simp add: fMantissa_def mag Let_def)
  qed
  have "fMantissa x * 2 ^ fExponent x \<le> 2 ^ 53 * 2 ^ (w - 52)"
    using m e by (intro mult_le_mono power_increasing) simp_all
  also have "\<dots> = 2 ^ (53 + (w - 52))" by (simp only: power_add)
  also have "53 + (w - 52) = w + 1" using assms(2) by simp
  also have "(2 :: nat) ^ (w + 1) < 2 ^ (w + 2)" by simp
  finally show "fMantissa x * 2 ^ fExponent x < 2 ^ (w + 2)" .
qed

lemma fKey_one: "fKey (fOfInt 1) = 1023 * 2 ^ 52"
proof -
  have "roundBits (2 ^ 52 * 2 ^ 1022) 1 = 1022 * 2 ^ 52 + 2 ^ 52" by (rule roundBits_normal) simp_all
  moreover have "(2 :: nat) ^ 1074 = 2 ^ 52 * 2 ^ 1022" by (simp flip: power_add)
  ultimately have "fOfInt 1 = mkFloat False (1022 * 2 ^ 52 + 2 ^ 52)"
    by (simp only: fOfInt_def fRound_def abs_one nat_one_as_int [symmetric] nat_1 mult_1) simp
  then show ?thesis using mkFloat_parts [of "1022 * 2 ^ 52 + 2 ^ 52" False] by (simp add: fKey_def)
qed

lemma fKey_zero: "fKey 0 = 0"
  by (simp add: fKey_def fMagnitude_def)

lemma checked_quantile:
  assumes "\<not> isNaN p" "quantileChecked p"
  shows "\<not> isInf p" "fMantissa p * 2 ^ fExponent p \<le> 2 ^ 1075" "fSign p \<Longrightarrow> fMantissa p = 0"
proof -
  have k: "0 \<le> fKey p" "fKey p \<le> 1023 * 2 ^ 52"
    using assms zero_float(2) fOfInt_whole(2) [of 1] fKey_one fKey_zero
    by (simp_all add: quantileChecked_def fLess_def)
  then have m: "fMagnitude p \<le> 1023 * 2 ^ 52" by (auto simp: fKey_def split: if_splits)
  then show "\<not> isInf p" by (simp add: isInf_def fInfBits_def)
  show "fSign p \<Longrightarrow> fMantissa p = 0" using k(1) by (simp add: fKey_def fMantissa_def Let_def)
  have "fMagnitude p div 2 ^ 52 \<le> 1023" using m div_le_mono [of "fMagnitude p" "1023 * 2 ^ 52" "2 ^ 52"] by simp
  then have "fMagnitude p div 2 ^ 52 - 1 \<le> 1022" by linarith
  then have e: "fExponent p \<le> 1022" by (simp add: fExponent_def Let_def)
  have "fMagnitude p mod 2 ^ 52 < 2 ^ 52" by simp
  then have "fMantissa p \<le> 2 ^ 53" by (simp add: fMantissa_def Let_def)
  then have "fMantissa p * 2 ^ fExponent p \<le> 2 ^ 53 * 2 ^ 1022"
    using e by (intro mult_le_mono power_increasing) simp_all
  also have "\<dots> = 2 ^ 1075" by (simp flip: power_add)
  finally show "fMantissa p * 2 ^ fExponent p \<le> 2 ^ 1075" .
qed

lemma div_less_mult:
  assumes "(a :: int) < b * p" "0 < p"
  shows "a div p < b"
proof (rule ccontr)
  assume "\<not> a div p < b"
  then have "b * p \<le> a div p * p" using assms(2) by (intro mult_right_mono) simp_all
  moreover have "a div p * p + a mod p = a" by (rule div_mult_mod_eq)
  moreover have "0 \<le> a mod p" using assms(2) by simp
  ultimately show False using assms(1) by linarith
qed

text \<open>The rank of such a quantile among at most \<open>2 ^ 53\<close> values is a small number that is not negative.\<close>

lemma rank_in_range:
  assumes "\<not> isNaN p" "quantileChecked p" "0 \<le> k" "k \<le> 2 ^ 53"
  shows "0 \<le> floorIndex (fMul p (fOfInt k))"
proof -
  let ?q = "fOfInt k" and ?x = "fMul p (fOfInt k)"
  note q = fOfInt_whole [OF assms(3,4)] and pq = checked_quantile [OF assms(1,2)]
  let ?mp = "fMantissa p * 2 ^ fExponent p" and ?mq = "fMantissa ?q * 2 ^ fExponent ?q"
  define N where "N = fMantissa p * fMantissa ?q * 2 ^ (fExponent p + fExponent ?q)"
  have N: "N = ?mp * ?mq" by (simp add: N_def power_add)
  have "int ?mq = k * 2 ^ 1074" using q(1,4) by (simp add: fUnits_def)
  then have "?mq = nat k * 2 ^ 1074" using assms(3)
    by (metis nat_int nat_mult_distrib nat_numeral nat_power_eq zero_le_numeral)
  moreover have "nat k \<le> 2 ^ 53" using assms(4) by simp
  ultimately have "?mq \<le> 2 ^ 53 * 2 ^ 1074" by (metis mult_le_mono1)
  then have "N \<le> 2 ^ 1075 * (2 ^ 53 * 2 ^ 1074)" unfolding N using pq(2) by (rule mult_le_mono [rotated])
  also have "\<dots> = 2 ^ 1128 * 2 ^ 1074" by (simp flip: power_add)
  finally have "N \<le> 2 ^ 1128 * 2 ^ 1074" .
  from div_le_mono [OF this, of "2 ^ 1074"] have "N div 2 ^ 1074 \<le> 2 ^ 1128"
    by (simp only: nonzero_mult_div_cancel_right power_not_zero zero_neq_numeral not_False_eq_True)
  moreover have "(2 :: nat) ^ 1128 < 2 ^ 1129" by (rule power_strict_increasing) simp_all
  ultimately have b: "N div 2 ^ 1074 < 2 ^ 1129" by (rule le_less_trans)
  have x: "?x = fRound (fSign p) N (2 ^ 1074)"
    using assms(1) pq(1) q(2-4) by (simp add: fMul_def Let_def N_def)
  note fb = fRound_bound [OF b _ _ x]
  have sgn: "fSign p \<Longrightarrow> fUnits ?x = 0"
  proof -
    assume "fSign p"
    then have "N = 0" using pq(3) by (simp add: N_def)
    then have "?x = mkFloat (fSign p) 0" using x by (simp add: fRound_def roundBits_0)
    then have "fMagnitude ?x = 0" using mkFloat_parts(1) [of 0] by simp
    then show ?thesis by (simp add: fUnits_def fMantissa_def)
  qed
  have "0 \<le> fUnits ?x" using sgn fb(3) by (cases "fSign p") (simp_all add: fUnits_def)
  moreover have "fUnits ?x < 2 ^ 57 * 2 ^ 1074"
  proof -
    have "fUnits ?x \<le> int (fMantissa ?x * 2 ^ fExponent ?x)" by (simp add: fUnits_def)
    also have "\<dots> < int (2 ^ (1129 + 2))" using fb(4) by (simp only: of_nat_less_iff)
    also have "int (2 ^ (1129 + 2)) = 2 ^ (1129 + 2)" by (simp only: of_nat_power of_nat_numeral)
    also have "(2 :: int) ^ (1129 + 2) = 2 ^ 57 * 2 ^ 1074" by (simp flip: power_add)
    finally show ?thesis .
  qed
  moreover have p: "0 < (2 :: int) ^ 1074" by (rule zero_less_power) simp
  ultimately have "0 \<le> fFloor ?x" "fFloor ?x < 2 ^ 57"
    unfolding fFloor_def pos_imp_zdiv_nonneg_iff [OF p] using div_less_mult [OF _ p] by blast+
  moreover from this have "in_i64 (fFloor ?x)" by (simp add: in_i64_def)
  ultimately show ?thesis using fb(1,2) by (simp add: floorIndex_def)
qed

lemma evaluation_total:
  assumes "allAggs (\<lambda>agg. \<not> isNaN (raParam agg) \<and> quantileChecked (raParam agg)) e" "length rows \<le> 2 ^ 53"
  shows "evaluateLogQLMetricAt ev e rows ts \<noteq> None"
  using assms(1)
proof (induction e)
  case (RangeAgg agg cmp)
  have quantile: "quantileOf (raParam agg) vs \<noteq> None" if "vs \<noteq> []" "length vs \<le> 2 ^ 53" for vs
  proof -
    have "0 \<le> int (length vs) - 1" "int (length vs) - 1 \<le> 2 ^ 53" using that by (cases vs; simp)+
    then have "0 \<le> floorIndex (fMul (raParam agg) (fOfInt (int (length vs) - 1)))"
      using rank_in_range RangeAgg by simp
    then show ?thesis by (auto simp: quantileOf_def Let_def)
  qed
  have rav: "rangeAggregationValue ev (raFn agg) g (raWindow agg) (raParam agg) \<noteq> None" if "length g \<le> 2 ^ 53" for g
  proof -
    have "length (unwrappedValues g) \<le> 2 ^ 53"
      using that length_filter_le [of haveUnwrap g] by (simp add: unwrappedValues_def del: length_filter_le)
    then show ?thesis using quantile by (simp add: rangeAggregationValue_def Let_def)
  qed
  have some: "\<forall>(k, g)\<in>set gs. f g \<noteq> None \<Longrightarrow> groupSamples labelsOf f gs \<noteq> None" for labelsOf gs and f :: "logRow list \<Rightarrow> f64 option"
    by (induction labelsOf f gs rule: groupSamples.induct) (auto split: option.splits)
  let ?w = "windowRows (evEngine ev) agg rows ts"
  have "length ?w \<le> length rows"
    unfolding windowRows_def applyLogQLSelector_def
    by (metis (no_types, lifting) List.map_filter_def length_filter_le length_map order_trans)
  then have "length (filter P ?w) \<le> 2 ^ 53" for P
    using assms(2) length_filter_le [of P ?w] by linarith
  then have "\<forall>(k, g)\<in>set (groupInto (labelsKey \<circ> rowGroupLabels agg) ?w).
      rangeAggregationValue ev (raFn agg) g (raWindow agg) (raParam agg) \<noteq> None"
    using rav by (auto simp: groupInto_eq)
  from some [OF this] show ?case by (simp add: evaluateLogQLRangeAggregation_def Let_def)
next
  case (BinaryOp op le re b m)
  then show ?case by (auto split: option.splits)
qed auto

lemma quantileChecked_0: "quantileChecked 0"
  by (simp add: quantileChecked_def fLess_def fKey_zero fKey_one)

abbreviation checkedAggs :: "'re logQLExpr \<Rightarrow> bool" where
  "checkedAggs \<equiv> allAggs (\<lambda>agg. quantileChecked (raParam agg))"

lemma range_checked: "noTail (parseLogQLRangeAggregation re name rest) = Inr e \<Longrightarrow> checkedAggs e"
  by (auto simp: noTail_def parseLogQLRangeAggregation_def andThen_Inr quantileChecked_0 split: if_split_asm)

lemma quantile_checked:
  assumes "noTail (parseLogQLQuantileOverTime re rest) = Inr e"
  shows "checkedAggs e"
proof -
  obtain inner tail t where "parseLogQLQuantileOverTime re rest = Inr (e, t)"
    and p: "parseParenthesized (trimSpace rest) = Inr (inner, tail)"
    using assms by (auto simp: noTail_def parseLogQLQuantileOverTime_def andThen_Inr split: if_split_asm)
  then show ?thesis
    by (auto simp: parseLogQLQuantileOverTime_def p quantileChecked_def andThen_Inr split: list.split_asm option.split_asm if_split_asm)
qed

lemma topk_checked:
  assumes "parseLogQLTopK parse name rest = Inr e" "\<And>child e. parse child = Inr e \<Longrightarrow> checkedAggs e"
  shows "checkedAggs e"
proof -
  obtain inner tail where p: "parseParenthesized (trimSpace rest) = Inr (inner, tail)"
    using assms(1) by (auto simp: parseLogQLTopK_def andThen_Inr)
  show ?thesis
    using assms(1) by (auto simp: parseLogQLTopK_def p andThen_Inr assms(2) split: list.split_asm option.split_asm if_split_asm)
qed

lemma label_functions_checked:
  assumes "parseLogQLLabelReplace re parse rest = Inr e \<or> parseLogQLLabelJoin parse rest = Inr e"
    and "\<And>child e. parse child = Inr e \<Longrightarrow> checkedAggs e"
  shows "checkedAggs e"
proof -
  obtain inner tail where p: "parseParenthesized (trimSpace rest) = Inr (inner, tail)"
    using assms(1) by (auto simp: parseLogQLLabelReplace_def parseLogQLLabelJoin_def andThen_Inr)
  show ?thesis
    using assms(1) by (auto simp: parseLogQLLabelReplace_def parseLogQLLabelJoin_def p andThen_Inr assms(2)
        split: list.split_asm option.split_asm if_split_asm)
qed

lemma aggregation_checked:
  "parseLogQLAggregation parse name rest = Inr e \<Longrightarrow> (\<And>child e. parse child = Inr e \<Longrightarrow> checkedAggs e) \<Longrightarrow> checkedAggs e"
  by (auto simp: parseLogQLAggregation_def andThen_Inr split: if_split_asm)

lemma vector_checked: "parseLogQLVector rest = Inr e \<Longrightarrow> checkedAggs e"
  by (auto simp: parseLogQLVector_def andThen_Inr split: if_split_asm option.split_asm)

lemma primary_checked:
  assumes "\<And>child e. parse child = Inr e \<Longrightarrow> checkedAggs e"
    and "parseLogQLPrimary re parse input = Inr e"
  shows "checkedAggs e"
proof -
  obtain name rest where r: "readIdentifier (trimLogQLOuterParens (trimSpace input)) = (name, rest)" by force
  show ?thesis
    using assms(2) unfolding parseLogQLPrimary_def Let_def r prod.case
    by (auto simp: andThen_Inr split: if_split_asm option.split_asm
        dest: range_checked quantile_checked vector_checked topk_checked [OF _ assms(1)]
          label_functions_checked [OF disjI1 assms(1)] label_functions_checked [OF disjI2 assms(1)] aggregation_checked [OF _ assms(1)])
qed

lemma parsed_quantiles_checked:
  "parseLogQLBinary fuel re input p = Inr e \<Longrightarrow> checkedAggs e"
proof (induction fuel arbitrary: input p e)
  case (Suc fuel)
  obtain i mp where t: "trimLogQLOuterParensForBinary (trimSpace input) p = (i, mp)" by force
  show ?case
  proof (cases "findTopLevelLogQLBinaryOp i mp")
    case None
    show ?thesis
      by (rule primary_checked [where re = re and input = i])
        (use Suc t None in \<open>auto simp: Let_def split: if_splits\<close>)
  next
    case (Some op)
    then show ?thesis using Suc t by (cases op) (auto simp: andThen_Inr)
  qed
qed simp

lemma allAggs_conj: "allAggs P e \<Longrightarrow> allAggs Q e \<Longrightarrow> allAggs (\<lambda>agg. P agg \<and> Q agg) e"
  by (induction e) auto



text \<open>A quantile written NaN passes the check of the parser, because NaN is neither below 0 nor above 1, and
  evaluating it over any row with a value panics: the rank is NaN, its conversion to an index is negative.\<close>

theorem nan_quantile_panics:
  "parseFloat ''NaN'' = Some goNaN \<and> quantileChecked goNaN \<and> quantileOf goNaN (v # vs) = None"
proof -
  have n: "isNaN goNaN" by (simp add: isNaN_def goNaN_def fMagnitude_def fInfBits_def)
  have "char_of (110 :: nat) = CHR ''n''" by code_simp
  then have "parseFloat ''NaN'' = Some goNaN" by (simp add: parseFloat_def specialFloat_def lowerAscii_def)
  then show ?thesis
    by (simp add: n quantileChecked_def fLess_def quantileOf_def Let_def fMul_def floorIndex_def)
qed

end
