(* ===== verification/LogQLSql.thy ===== *)
theory LogQLSql
  imports LogQLEval MatcherSql
begin

text \<open>
  The text of the queries that LogQL runs on ClickHouse (src/internal/snuffle/logql.go from
  logQLRawSelectSQL to chTimeNanos, and the builders of logql_sql.go).

  The expression that reads a label in SQL is a small tree, \<open>sqlExpr\<close>: its
  \<open>sqlText\<close> is the text that the code emits and \<open>sqlValue\<close> is what ClickHouse
  documents that text to compute on a row. So a builder is one definition, with both its text
  and its meaning. The query builders return None where tableName panics on a table name that
  is not an identifier.
\<close>

section \<open>Expressions over a row\<close>

text \<open>A column or other plain text, a key of a map column, the empty text, and the conditional forms that the
  builders use: the first expression unless it is empty, the key of a map when the map has it, and multiIf
  over keys of one map.\<close>

datatype sqlExpr =
    Column string
  | MapAt string string
  | EmptyText
  | IfSet sqlExpr sqlExpr
  | IfHas string string sqlExpr
  | FirstOf string "string list" sqlExpr

fun sqlText :: "sqlExpr \<Rightarrow> string" where
  "sqlText (Column c) = c"
| "sqlText (MapAt m k) = m @ ''['' @ sqlString k @ '']''"
| "sqlText EmptyText = sqlString []"
| "sqlText (IfSet a b) = ''if('' @ sqlText a @ '' != '' @ sqlString [] @ '', '' @ sqlText a @ '', '' @ sqlText b @ '')''"
| "sqlText (IfHas m k b) = ''if(mapContains('' @ m @ '', '' @ sqlString k @ ''), '' @ m @ ''['' @ sqlString k @ ''], '' @ sqlText b @ '')''"
| "sqlText (FirstOf m ks b) = ''multiIf('' @ concat (map (\<lambda>k. ''mapContains('' @ m @ '', '' @ sqlString k @ ''), ''
     @ m @ ''['' @ sqlString k @ ''], '') ks) @ sqlText b @ '')''"

text \<open>A row of the query: its text columns and its map columns.\<close>

record sqlRow =
  rowColumn :: "string \<Rightarrow> string"
  rowMap :: "string \<Rightarrow> gomap"

fun sqlValue :: "sqlRow \<Rightarrow> sqlExpr \<Rightarrow> string" where
  "sqlValue r (Column c) = rowColumn r c"
| "sqlValue r (MapAt m k) = labelGet (rowMap r m) k"
| "sqlValue r EmptyText = []"
| "sqlValue r (IfSet a b) = (if sqlValue r a \<noteq> [] then sqlValue r a else sqlValue r b)"
| "sqlValue r (IfHas m k b) = (case map_of (rowMap r m) k of Some v \<Rightarrow> v | None \<Rightarrow> sqlValue r b)"
| "sqlValue r (FirstOf m ks b) = (case find (\<lambda>k. map_of (rowMap r m) k \<noteq> None) ks of
     Some k \<Rightarrow> labelGet (rowMap r m) k | None \<Rightarrow> sqlValue r b)"

section \<open>Labels\<close>

definition logQLSnuffleLabelValueExpr :: "string \<Rightarrow> sqlExpr" where
  "logQLSnuffleLabelValueExpr name =
     (if name = ''service_name'' then IfSet (Column ''stream_service_name'')
        (IfHas ''fields'' ''service_name'' (MapAt ''fields'' ''service.name''))
      else if name = ''service.name'' then IfSet (Column ''stream_service_name'')
        (IfHas ''fields'' ''service.name'' (MapAt ''fields'' ''service_name''))
      else if name \<in> set severityNames then IfSet (Column ''stream_severity_text'')
        (FirstOf ''fields'' [''level'', ''severity_text''] (MapAt ''fields'' ''detected_level''))
      else if name = ''trace_id'' then IfHas ''labels'' ''trace_id'' (MapAt ''fields'' ''trace_id'')
      else if name = ''span_id'' then IfHas ''labels'' ''span_id'' (MapAt ''fields'' ''span_id'')
      else IfHas ''labels'' name (IfHas ''fields'' name (MapAt ''resource_attributes'' name)))"

definition logQLPostHogAttributeExpr :: "string \<Rightarrow> sqlExpr" where
  "logQLPostHogAttributeExpr name = MapAt ''attributes_map_str'' (name @ ''__str'')"

definition logQLStreamLabelValueExpr :: "Config \<Rightarrow> string \<Rightarrow> sqlExpr" where
  "logQLStreamLabelValueExpr cfg name =
     (if \<not> postHogLogSchemaLayout cfg then logQLSnuffleLabelValueExpr name
      else if name = ''service_name'' then Column ''service_name''
      else if name = ''service.name'' then IfSet (Column ''service_name'') (MapAt ''resource_attributes'' ''service.name'')
      else if name = ''detected_level'' then IfSet (MapAt ''attributes_map_str'' ''detected_level__str'') (Column ''severity_text'')
      else if name \<in> set severityNames then Column ''severity_text''
      else if name = ''trace_id'' then Column ''trace_id''
      else if name = ''span_id'' then Column ''span_id''
      else IfSet (logQLPostHogAttributeExpr name) (MapAt ''resource_attributes'' name))"

definition logQLLabelValueExpr :: "Config \<Rightarrow> string \<Rightarrow> sqlExpr" where
  "logQLLabelValueExpr cfg name = logQLStreamLabelValueExpr cfg name"

definition logQLSnuffleAttributesMapExpr :: string where
  "logQLSnuffleAttributesMapExpr = ''mapApply((k, v) -> (concat(k, '' @ sqlString ''__str'' @ ''), v), mapConcat(labels, fields))''"

definition logQLSnuffleStreamOnlyLabelValueExpr :: "string \<Rightarrow> sqlExpr" where
  "logQLSnuffleStreamOnlyLabelValueExpr name =
     (if name \<in> set serviceNames then IfHas ''labels'' ''service_name''
        (IfHas ''labels'' ''service.name'' (MapAt ''resource_attributes'' ''service.name''))
      else if name \<in> set severityNames then FirstOf ''labels'' [''level'', ''severity_text'', ''detected_level''] EmptyText
      else if name = ''trace_id'' then MapAt ''labels'' ''trace_id''
      else if name = ''span_id'' then MapAt ''labels'' ''span_id''
      else IfHas ''labels'' name (MapAt ''resource_attributes'' name))"

definition logQLSnuffleStreamLabelKeyCondition :: "string \<Rightarrow> string \<Rightarrow> string" where
  "logQLSnuffleStreamLabelKeyCondition e name =
     (if name \<in> set serviceNames then e @ '' IN ('' @ sqlString ''service_name'' @ '', '' @ sqlString ''service.name'' @ '')''
      else if name \<in> set severityNames then e @ '' IN ('' @ sqlString ''level'' @ '', '' @ sqlString ''severity_text''
        @ '', '' @ sqlString ''detected_level'' @ '')''
      else e @ '' = '' @ sqlString name)"

section \<open>Conditions\<close>

text \<open>The conditions on a row, as their text and as what they compute; \<open>re\<close> is ClickHouse's match.\<close>

datatype rowCond =
    CondEq sqlExpr string
  | CondNe sqlExpr string
  | CondMatch sqlExpr string
  | CondNotMatch sqlExpr string
  | CondHas string
  | CondHasNot string
  | CondAll

fun condText :: "rowCond \<Rightarrow> string" where
  "condText (CondEq e v) = sqlText e @ '' = '' @ sqlString v"
| "condText (CondNe e v) = sqlText e @ '' != '' @ sqlString v"
| "condText (CondMatch e v) = ''match('' @ sqlText e @ '', '' @ sqlString v @ '')''"
| "condText (CondNotMatch e v) = ''NOT match('' @ sqlText e @ '', '' @ sqlString v @ '')''"
| "condText (CondHas v) = ''position(body, '' @ sqlString v @ '') > 0''"
| "condText (CondHasNot v) = ''position(body, '' @ sqlString v @ '') = 0''"
| "condText CondAll = ''1''"

fun rowHolds :: "(string \<Rightarrow> string \<Rightarrow> bool) \<Rightarrow> sqlRow \<Rightarrow> rowCond \<Rightarrow> bool" where
  "rowHolds re r (CondEq e v) = (sqlValue r e = v)"
| "rowHolds re r (CondNe e v) = (sqlValue r e \<noteq> v)"
| "rowHolds re r (CondMatch e v) = re v (sqlValue r e)"
| "rowHolds re r (CondNotMatch e v) = (\<not> re v (sqlValue r e))"
| "rowHolds re r (CondHas v) = containsText (rowColumn r ''body'') v"
| "rowHolds re r (CondHasNot v) = (\<not> containsText (rowColumn r ''body'') v)"
| "rowHolds re r CondAll = True"

definition logQLStringCondition :: "sqlExpr \<Rightarrow> string \<Rightarrow> string \<Rightarrow> bool \<Rightarrow> rowCond" where
  "logQLStringCondition e op v anchorRegex =
     (if op = ''='' then CondEq e v
      else if op = ''!='' then CondNe e v
      else if op = ''=~'' then CondMatch e (if anchorRegex then promRegexToCH v else v)
      else if op = ''!~'' then CondNotMatch e (if anchorRegex then promRegexToCH v else v)
      else CondAll)"

definition logQLMatcherCondition :: "Config \<Rightarrow> 're logQLLabelMatcher \<Rightarrow> rowCond" where
  "logQLMatcherCondition cfg m = logQLStringCondition (logQLStreamLabelValueExpr cfg (lmName m)) (lmOp m) (lmValue m) True"

definition logQLLineFilterCondition :: "'re engine \<Rightarrow> 're logQLLineFilter \<Rightarrow> rowCond" where
  "logQLLineFilterCondition en f = (let body = Column ''body'' in
     if lfOp f = ''|='' then CondHas (lfValue f)
     else if lfOp f = ''!='' then CondHasNot (lfValue f)
     else if lfOp f = ''|~'' then CondMatch body (lfValue f)
     else if lfOp f = ''|>'' then (case lfRe f of None \<Rightarrow> CondAll | Some r \<Rightarrow> CondMatch body (enSource en r))
     else if lfOp f = ''!~'' then CondNotMatch body (lfValue f)
     else if lfOp f = ''!>'' then (case lfRe f of None \<Rightarrow> CondAll | Some r \<Rightarrow> CondNotMatch body (enSource en r))
     else CondAll)"

definition chTimeNanos :: "int \<Rightarrow> string" where
  "chTimeNanos ns = ''fromUnixTimestamp64Nano('' @ intDec ns @ '', '' @ sqlString ''UTC'' @ '')''"

definition logTimeFilters :: "Config \<Rightarrow> int \<Rightarrow> int \<Rightarrow> string list" where
  "logTimeFilters cfg startNS endNS = [teamFilter cfg, ''timestamp >= '' @ chTimeNanos startNS, ''timestamp <= '' @ chTimeNanos endNS,
     ''time_bucket >= toStartOfDay('' @ chTimeNanos startNS @ '')'', ''time_bucket <= toStartOfDay('' @ chTimeNanos endNS @ '')'']"

text \<open>Line filters are pushed until the first line_format.\<close>

fun pushedLineFilters :: "'re engine \<Rightarrow> 're logQLStage list \<Rightarrow> rowCond list" where
  "pushedLineFilters en [] = []"
| "pushedLineFilters en (stage # stages) = (case stage of
     LineFormatStage tpl \<Rightarrow> []
   | LineFilterStage f \<Rightarrow> logQLLineFilterCondition en f # pushedLineFilters en stages
   | _ \<Rightarrow> pushedLineFilters en stages)"

text \<open>The conditions that logQLBaseFilters adds after the ones on team and time.\<close>

definition selectorConditions :: "Config \<Rightarrow> 're engine \<Rightarrow> 're logQLSelector \<Rightarrow> rowCond list" where
  "selectorConditions cfg en s = map (logQLMatcherCondition cfg) (selMatchers s) @ pushedLineFilters en (selStages s)"

definition logQLBaseFilters :: "Config \<Rightarrow> 're engine \<Rightarrow> 're logQLSelector \<Rightarrow> int \<Rightarrow> int \<Rightarrow> string list" where
  "logQLBaseFilters cfg en s startNS endNS = logTimeFilters cfg startNS endNS @ map condText (selectorConditions cfg en s)"

section \<open>Raw selects\<close>

definition logQLSnuffleFullSortingMergeJoinSettings :: "Config \<Rightarrow> string" where
  "logQLSnuffleFullSortingMergeJoinSettings cfg = (if postHogLogSchemaLayout cfg then []
     else '' SETTINGS join_algorithm = '' @ sqlString ''full_sorting_merge'' @ '', max_rows_in_set_to_optimize_join = 0'')"

definition logQLLogsTableSQL :: "Config \<Rightarrow> string option" where
  "logQLLogsTableSQL cfg = (if postHogLogSchemaLayout cfg then tableName (CHDatabase cfg) (LogsTable cfg)
     else do { logs \<leftarrow> tableName (CHDatabase cfg) (LogsTable cfg);
       streams \<leftarrow> tableName (CHDatabase cfg) (LogStreamsTable cfg);
       Some (''(SELECT logs.team_id AS team_id, logs.timestamp AS timestamp, logs.time_bucket AS time_bucket, logs.observed_ns AS observed_ns, logs.body AS body, logs.stream_id AS stream_id, logs.fields AS fields, streams.resource_attributes AS resource_attributes, streams.labels AS labels, streams.service_name AS stream_service_name, streams.severity_text AS stream_severity_text FROM ''
         @ logs @ '' AS logs ALL INNER JOIN (SELECT team_id, stream_id, labels, resource_attributes, service_name, severity_text FROM ''
         @ streams @ '' FINAL) AS streams USING (team_id, stream_id)'' @ logQLSnuffleFullSortingMergeJoinSettings cfg @ '')'') })"

text \<open>The core columns, selected from the label expressions of the native layout.\<close>

definition snuffleCoreSelects :: string where
  "snuffleCoreSelects = concat (map (\<lambda>n. sqlText (logQLSnuffleLabelValueExpr n) @ '' AS '' @ n @ '', '')
     [''service_name'', ''severity_text'', ''trace_id'', ''span_id''])"

definition selectOrder :: "string \<Rightarrow> string" where
  "selectOrder direction = (if toLower direction = ''backward'' then ''DESC'' else ''ASC'')"

definition configMaxRows :: "Config \<Rightarrow> int" where
  "configMaxRows cfg = (if LogQueryMaxRows cfg \<le> 0 then 100000 else LogQueryMaxRows cfg)"

definition clampLimit :: "Config \<Rightarrow> int \<Rightarrow> int" where
  "clampLimit cfg limit = (if limit \<le> 0 \<or> configMaxRows cfg < limit then configMaxRows cfg else limit)"

definition orderLimit :: "string \<Rightarrow> int \<Rightarrow> string" where
  "orderLimit direction limit = '' ORDER BY ts_ns '' @ selectOrder direction @ '', observed_ns DESC LIMIT '' @ intDec limit"

text \<open>A raw select, with the resource attributes or without them.\<close>

definition rawSelect :: "Config \<Rightarrow> 're engine \<Rightarrow> string \<Rightarrow> 're logQLSelector \<Rightarrow> int \<Rightarrow> int \<Rightarrow> int \<Rightarrow> string \<Rightarrow> string option" where
  "rawSelect cfg en resource s startNS endNS limit direction =
     (let wher = joinWith '' AND '' (logQLBaseFilters cfg en s startNS endNS) in
      if postHogLogSchemaLayout cfg then
        do { t \<leftarrow> tableName (CHDatabase cfg) (LogsTable cfg);
             Some (''SELECT toInt64(toUnixTimestamp64Nano(timestamp)) AS ts_ns, toInt64(toUnixTimestamp64Nano(observed_timestamp)) AS observed_ns, body, service_name, severity_text, trace_id, span_id, ''
               @ resource @ ''attributes_map_str FROM '' @ t @ '' WHERE '' @ wher @ orderLimit direction (clampLimit cfg limit)) }
      else
        do { t \<leftarrow> logQLLogsTableSQL cfg;
             Some (''SELECT toInt64(toUnixTimestamp64Nano(timestamp)) AS ts_ns, observed_ns, body, '' @ snuffleCoreSelects
               @ resource @ logQLSnuffleAttributesMapExpr @ '' AS attributes_map_str FROM '' @ t @ '' WHERE '' @ wher
               @ orderLimit direction (clampLimit cfg limit)) })"

definition logQLRawSelectSQL :: "Config \<Rightarrow> 're engine \<Rightarrow> 're logQLSelector \<Rightarrow> int \<Rightarrow> int \<Rightarrow> int \<Rightarrow> string \<Rightarrow> string option" where
  "logQLRawSelectSQL cfg en = rawSelect cfg en ''resource_attributes, ''"

definition logQLSelectSQL :: "Config \<Rightarrow> 're engine \<Rightarrow> 're logQLSelector \<Rightarrow> int \<Rightarrow> int \<Rightarrow> int \<Rightarrow> string \<Rightarrow> string option" where
  "logQLSelectSQL = logQLRawSelectSQL"

definition logQLRawStreamSelectSQL :: "Config \<Rightarrow> 're engine \<Rightarrow> 're logQLSelector \<Rightarrow> int \<Rightarrow> int \<Rightarrow> int \<Rightarrow> string \<Rightarrow> string option" where
  "logQLRawStreamSelectSQL cfg en = rawSelect cfg en []"

text \<open>The source of the metric queries.\<close>

definition logQLLogsSourceSQL :: "Config \<Rightarrow> string list \<Rightarrow> string option" where
  "logQLLogsSourceSQL cfg filters = (let wher = joinWith '' AND '' filters in
     if postHogLogSchemaLayout cfg then
       do { t \<leftarrow> tableName (CHDatabase cfg) (LogsTable cfg);
            Some (''(SELECT toInt64(toUnixTimestamp64Nano(timestamp)) AS ts_ns, body, service_name, severity_text, trace_id, span_id, resource_attributes, attributes_map_str FROM ''
              @ t @ '' WHERE '' @ wher @ '')'') }
     else
       do { t \<leftarrow> logQLLogsTableSQL cfg;
            Some (''(SELECT toInt64(toUnixTimestamp64Nano(timestamp)) AS ts_ns, body, labels, fields, stream_service_name, stream_severity_text, ''
              @ snuffleCoreSelects @ ''resource_attributes, '' @ logQLSnuffleAttributesMapExpr @ '' AS attributes_map_str FROM ''
              @ t @ '' WHERE '' @ wher @ '')'') })"

section \<open>Pipelines in SQL\<close>

text \<open>Regexp.SubexpNames and strconv.FormatFloat with 'g' and -1, beside the engine.\<close>

record 're sqlEngine =
  sqEngine :: "'re engine"
  sqNames :: "'re \<Rightarrow> string list"
  sqFormatG :: "f64 \<Rightarrow> string"

record logQLSQLParser =
  spKind :: string
  spPaths :: gomap
  spRegex :: string
  spGroups :: "(string \<times> int) list"

definition noParser :: logQLSQLParser where
  "noParser = \<lparr>spKind = [], spPaths = [], spRegex = [], spGroups = []\<rparr>"

fun captureGroupsLoop :: "(string \<times> int) list \<Rightarrow> int \<Rightarrow> string list \<Rightarrow> (string \<times> int) list" where
  "captureGroupsLoop out i [] = out"
| "captureGroupsLoop out i (n # ns) =
     captureGroupsLoop (if i = 0 \<or> n = [] then out else AList.update (sanitizeLogLabelName n) i out) (i + 1) ns"

definition logQLSQLNamedCaptureGroups :: "'re sqlEngine \<Rightarrow> string \<Rightarrow> (string \<times> int) list option" where
  "logQLSQLNamedCaptureGroups sq pattern = (case enCompile (sqEngine sq) pattern of None \<Rightarrow> None
     | Some r \<Rightarrow> (let out = captureGroupsLoop [] 0 (sqNames sq r) in if out = [] then None else Some out))"

definition logQLJSONSQLPath :: "string \<Rightarrow> string" where
  "logQLJSONSQLPath path0 = (let path = trimSpace path0 in
     if path = [] then ''$'' else if hasPrefix path ''$'' then path
     else if hasPrefix path ''.'' \<or> hasPrefix path ''['' then ''$'' @ path
     else ''$.'' @ path)"

definition logQLMetricLabelFilterValueExpr :: "Config \<Rightarrow> string \<Rightarrow> sqlExpr" where
  "logQLMetricLabelFilterValueExpr cfg label =
     (if postHogLogSchemaLayout cfg \<and> label \<in> set serviceNames then Column ''service_name''
      else if postHogLogSchemaLayout cfg \<and> label \<in> set severityNames then Column ''severity_text''
      else if postHogLogSchemaLayout cfg \<and> label = ''trace_id'' then Column ''trace_id''
      else if postHogLogSchemaLayout cfg \<and> label = ''span_id'' then Column ''span_id''
      else logQLStreamLabelValueExpr cfg label)"

definition logQLMetricGroupLabelValueExpr :: "Config \<Rightarrow> string \<Rightarrow> sqlExpr" where
  "logQLMetricGroupLabelValueExpr cfg label =
     (if postHogLogSchemaLayout cfg \<and> label = ''service_name'' then Column ''service_name''
      else if postHogLogSchemaLayout cfg \<and> label \<in> set severityNames then Column ''severity_text''
      else if postHogLogSchemaLayout cfg \<and> label = ''trace_id'' then Column ''trace_id''
      else if postHogLogSchemaLayout cfg \<and> label = ''span_id'' then Column ''span_id''
      else logQLLabelValueExpr cfg label)"

definition logQLMetricMatcherCondition :: "Config \<Rightarrow> 're logQLLabelMatcher \<Rightarrow> rowCond" where
  "logQLMetricMatcherCondition cfg m =
     logQLStringCondition (logQLMetricLabelFilterValueExpr cfg (lmName m)) (lmOp m) (lmValue m) True"

text \<open>The value of a label after a parser, as text.\<close>

definition logQLSQLPipelineLabelValueExpr :: "Config \<Rightarrow> string \<Rightarrow> logQLSQLParser \<Rightarrow> bool \<Rightarrow> string option" where
  "logQLSQLPipelineLabelValueExpr cfg label p withFallback =
     (let fallback = sqlText (logQLMetricLabelFilterValueExpr cfg label);
          orElse = (\<lambda>parsed. ''ifNull(nullIf('' @ parsed @ '', '' @ sqlString [] @ ''), '' @ fallback @ '')'') in
      if spKind p = ''logfmt'' \<or> spKind p = ''json'' then
        (let path = (if labelGet (spPaths p) label = [] then label else labelGet (spPaths p) label);
             parsed = (if spKind p = ''logfmt'' then ''extractKeyValuePairs(body, '' @ sqlString ''='' @ '', '' @ sqlString '' '' @ '')['' @ sqlString label @ '']''
               else ''JSON_VALUE(body, '' @ sqlString (logQLJSONSQLPath path) @ '')'');
             parsed' = (if withFallback then orElse parsed else parsed);
             attr = sqlText (logQLPostHogAttributeExpr label) in
         Some (if postHogLogSchemaLayout cfg \<and> labelGet (spPaths p) label = []
           then ''if('' @ attr @ '' != '' @ sqlString [] @ '', '' @ attr @ '', '' @ parsed' @ '')'' else parsed'))
      else if spKind p = ''regexp'' \<or> spKind p = ''pattern'' then
        (case map_of (spGroups p) label of
           None \<Rightarrow> if withFallback then Some fallback else None
         | Some i \<Rightarrow> (let parsed = ''arrayElement(extractGroups(body, '' @ sqlString (spRegex p) @ ''), '' @ intDec i @ '')'' in
             Some (if withFallback then orElse parsed else parsed)))
      else if spKind p = [] then Some fallback
      else None)"

definition micro :: string where "micro = [CHR 0xC2, CHR 0xB5]"
definition mu :: string where "mu = [CHR 0xCE, CHR 0xBC]"

definition durationPattern :: string where
  "durationPattern = ''^'' @ [bslash] @ ''s*[+-]?(?:[0-9]+(?:'' @ [bslash] @ ''.[0-9]*)?|'' @ [bslash] @ ''.[0-9]+)(?:ns|us|''
     @ micro @ ''s|'' @ mu @ ''s|ms|s|m|h|d|w)?'' @ [bslash] @ ''s*$''"

definition logQLSQLDurationSecondsExpr :: "string \<Rightarrow> string" where
  "logQLSQLDurationSecondsExpr e = ''if(match('' @ e @ '', '' @ sqlString durationPattern @ ''), parseTimeDelta(replaceAll('' @ e @ '', ''
     @ sqlString (mu @ ''s'') @ '', '' @ sqlString ''us'' @ '')), CAST(NULL, '' @ sqlString ''Nullable(Float64)'' @ ''))''"

definition bytesNumber :: string where
  "bytesNumber = ''([+-]?(?:[0-9]+(?:'' @ [bslash] @ ''.[0-9]*)?|'' @ [bslash] @ ''.[0-9]+))''"

definition bytesUnitPattern :: string where
  "bytesUnitPattern = ''^[+-]?(?:[0-9]+(?:'' @ [bslash] @ ''.[0-9]*)?|'' @ [bslash] @ ''.[0-9]+)'' @ [bslash] @ ''s*([A-Za-z]+)''
     @ [bslash] @ ''s*$''"

definition logQLSQLBytesValueExpr :: "string \<Rightarrow> string" where
  "logQLSQLBytesValueExpr e =
     (let trimmed = ''trim('' @ e @ '')'';
          number = ''toFloat64OrNull(extract('' @ trimmed @ '', '' @ sqlString (''^'' @ [bslash] @ ''s*'' @ bytesNumber) @ ''))'';
          unit = ''lowerUTF8(extract('' @ trimmed @ '', '' @ sqlString bytesUnitPattern @ ''))'';
          branch = (\<lambda>(us, n). unit @ '' IN ('' @ joinWith '', '' (map sqlString us) @ ''), '' @ n @ '', '') in
      number @ '' * multiIf('' @ concat (map branch [([[], ''b''], ''1.0''), ([''kb'', ''k''], ''1000.0''), ([''mb'', ''m''], ''1000000.0''),
        ([''gb'', ''g''], ''1000000000.0''), ([''tb'', ''t''], ''1000000000000.0''), ([''kib'', ''ki''], ''1024.0''),
        ([''mib'', ''mi''], ''1048576.0''), ([''gib'', ''gi''], ''1073741824.0''), ([''tib'', ''ti''], ''1099511627776.0'')])
        @ ''CAST(NULL, '' @ sqlString ''Nullable(Float64)'' @ ''))'')"

definition logQLSQLUnwrapValueExpr :: "string \<Rightarrow> string \<Rightarrow> string option" where
  "logQLSQLUnwrapValueExpr e conversion =
     (if conversion = [] then Some (''toFloat64OrNull('' @ e @ '')'')
      else if conversion = ''duration'' \<or> conversion = ''duration_seconds'' then Some (logQLSQLDurationSecondsExpr e)
      else if conversion = ''bytes'' then Some (logQLSQLBytesValueExpr e)
      else None)"

definition logQLSQLComparableValueExpr :: "string \<Rightarrow> string \<Rightarrow> string" where
  "logQLSQLComparableValueExpr e valueType =
     (if valueType = ''duration'' then ''('' @ logQLSQLDurationSecondsExpr e @ '' * 1000000000)''
      else if valueType = ''bytes'' then logQLSQLBytesValueExpr e
      else ''toFloat64OrNull('' @ e @ '')'')"

definition stringFilter :: "string \<Rightarrow> 're logQLLabelFilter \<Rightarrow> string option" where
  "stringFilter e f =
     (if fltOp f = ''='' \<or> fltOp f = ''=='' then Some (condText (logQLStringCondition (Column e) ''='' (fltValue f) True))
      else if fltOp f \<in> {''!='', ''=~'', ''!~''} then Some (condText (logQLStringCondition (Column e) (fltOp f) (fltValue f) True))
      else None)"

definition logQLSQLLabelFilterCondition :: "Config \<Rightarrow> 're sqlEngine \<Rightarrow> 're logQLLabelFilter \<Rightarrow> logQLSQLParser \<Rightarrow> string option" where
  "logQLSQLLabelFilterCondition cfg sq f p =
     (if fltName f = ''__error__'' then
        stringFilter (if spKind p = ''json'' then ''if(isValidJSON(body), '' @ sqlString [] @ '', '' @ sqlString ''JSONParserErr'' @ '')''
          else sqlString []) f
      else case logQLSQLPipelineLabelValueExpr cfg (fltName f) p True of None \<Rightarrow> None
      | Some e \<Rightarrow>
          if fltNumeric f \<and> fltOp f \<in> {''=='', ''!='', ''>'', ''>='', ''<'', ''<=''} then
            Some (logQLSQLComparableValueExpr e (fltValueType f) @ '' '' @ (if fltOp f = ''=='' then ''='' else fltOp f) @ '' ''
              @ sqFormatG sq (fltNumValue f))
          else stringFilter e f)"

fun labelFiltersConditionLoop :: "string \<Rightarrow> string \<Rightarrow> (string \<times> string option) list \<Rightarrow> string option" where
  "labelFiltersConditionLoop condition connector [] = Some condition"
| "labelFiltersConditionLoop condition connector ((connector', next') # rest) = (case next' of None \<Rightarrow> None
     | Some c \<Rightarrow> labelFiltersConditionLoop
         (''('' @ condition @ '' '' @ (if connector = ''or'' then ''OR'' else ''AND'') @ '' '' @ c @ '')'') connector' rest)"

definition logQLSQLLabelFiltersCondition :: "Config \<Rightarrow> 're sqlEngine \<Rightarrow> 're logQLLabelFilter list \<Rightarrow> logQLSQLParser \<Rightarrow> string option" where
  "logQLSQLLabelFiltersCondition cfg sq fs p = (case fs of [] \<Rightarrow> Some []
     | f # fs' \<Rightarrow> (case logQLSQLLabelFilterCondition cfg sq f p of None \<Rightarrow> None
       | Some c \<Rightarrow> labelFiltersConditionLoop c (fltConnector f)
           (map (\<lambda>f. (fltConnector f, logQLSQLLabelFilterCondition cfg sq f p)) fs')))"

text \<open>The parser of a parser stage: None when SQL has no form of it.\<close>

definition sqlParserOf :: "'re sqlEngine \<Rightarrow> string \<Rightarrow> string \<Rightarrow> logQLSQLParser option" where
  "sqlParserOf sq kind param =
     (if kind = ''json'' then Some (noParser\<lparr>spKind := ''json'', spPaths := parseParserParams param\<rparr>)
      else if kind = ''logfmt'' then (if trimSpace param \<noteq> [] then None else Some (noParser\<lparr>spKind := ''logfmt''\<rparr>))
      else if kind = ''regexp'' then map_option (\<lambda>gs. noParser\<lparr>spKind := ''regexp'', spRegex := param, spGroups := gs\<rparr>)
        (logQLSQLNamedCaptureGroups sq param)
      else if kind = ''pattern'' then (case compileLogQLPattern (enCompile (sqEngine sq)) param of
          Inl e \<Rightarrow> None
        | Inr r \<Rightarrow> map_option (\<lambda>gs. noParser\<lparr>spKind := ''pattern'', spRegex := enSource (sqEngine sq) r, spGroups := gs\<rparr>)
            (logQLSQLNamedCaptureGroups sq (enSource (sqEngine sq) r)))
      else None)"

fun sqlPipelineLoop :: "Config \<Rightarrow> 're sqlEngine \<Rightarrow> logQLSQLParser \<Rightarrow> string list \<Rightarrow> string \<Rightarrow> 're logQLStage list \<Rightarrow> (string list \<times> string) option" where
  "sqlPipelineLoop cfg sq p filters unwrap [] = Some (filters, unwrap)"
| "sqlPipelineLoop cfg sq p filters unwrap (stage # stages) = (case stage of
     LineFilterStage f \<Rightarrow> sqlPipelineLoop cfg sq p (filters @ [condText (logQLLineFilterCondition (sqEngine sq) f)]) unwrap stages
   | ParserStage kind param \<Rightarrow>
       (if spKind p \<noteq> [] then None
        else case sqlParserOf sq kind param of None \<Rightarrow> None | Some p' \<Rightarrow> sqlPipelineLoop cfg sq p' filters unwrap stages)
   | LabelFilterStage fs \<Rightarrow> (case logQLSQLLabelFiltersCondition cfg sq fs p of None \<Rightarrow> None
       | Some c \<Rightarrow> sqlPipelineLoop cfg sq p (if c = [] then filters else filters @ [c]) unwrap stages)
   | UnwrapStage label fn \<Rightarrow> (case logQLSQLPipelineLabelValueExpr cfg label p False of None \<Rightarrow> None
       | Some e \<Rightarrow> (case logQLSQLUnwrapValueExpr e fn of None \<Rightarrow> None
         | Some u \<Rightarrow> sqlPipelineLoop cfg sq p filters u stages))
   | _ \<Rightarrow> None)"

definition logQLSQLPipeline :: "Config \<Rightarrow> 're sqlEngine \<Rightarrow> 're logQLStage list \<Rightarrow> (string list \<times> string) option" where
  "logQLSQLPipeline cfg sq stages = sqlPipelineLoop cfg sq noParser [] [] stages"

section \<open>The metric plan\<close>

record 're logQLMetricSQLPlan =
  plAgg :: "'re logQLRangeAggregation"
  plGrouping :: "logQLGrouping option"
  plOuterAgg :: string
  plValueExpr :: string
  plGroupLabels :: "string list"
  plGroupExprs :: "string list"
  plComparison :: "logQLComparison option"
  plTopK :: int
  plHasTopK :: bool
  plTopKIsTop :: bool
  plUnwrapExpr :: string
  plFilters :: "string list"

definition logQLSQLGroupingExprs :: "Config \<Rightarrow> logQLGrouping option \<Rightarrow> string list \<times> string list" where
  "logQLSQLGroupingExprs cfg grouping = (case grouping of None \<Rightarrow> ([], [])
     | Some g \<Rightarrow> if grpWithout g then ([], []) else
         (let labels = filter (\<lambda>l. l \<noteq> [] \<and> \<not> hasPrefix l ''__'') (grpLabels g) in
          (labels, map (\<lambda>l. sqlText (logQLMetricGroupLabelValueExpr cfg l)) labels)))"

definition formatDurationSeconds :: "'re sqlEngine \<Rightarrow> int \<Rightarrow> string" where
  "formatDurationSeconds sq d = enFormat (sqEngine sq) (durationSeconds d)"

definition unwrapFunctions :: "string list" where
  "unwrapFunctions = [''sum_over_time'', ''avg_over_time'', ''min_over_time'', ''max_over_time'', ''stdvar_over_time'',
     ''stddev_over_time'', ''first_over_time'', ''last_over_time'', ''quantile_over_time'']"

definition buildLogQLUnwrapMetricSQL :: "Config \<Rightarrow> 're sqlEngine \<Rightarrow> 're logQLRangeAggregation \<Rightarrow> (string \<times> string list) option" where
  "buildLogQLUnwrapMetricSQL cfg sq agg =
     (if raFn agg \<notin> set unwrapFunctions then None
      else case logQLSQLPipeline cfg sq (selStages (raSelector agg)) of None \<Rightarrow> None
      | Some (filters, unwrap) \<Rightarrow> if unwrap = [] then None else Some (unwrap, filters))"

definition countValueExpr :: "'re sqlEngine \<Rightarrow> 're logQLRangeAggregation \<Rightarrow> string option" where
  "countValueExpr sq agg = (let perSecond = '' / '' @ formatDurationSeconds sq (raWindow agg) in
     if raFn agg = ''count_over_time'' then Some ''toFloat64(sum(log_count))''
     else if raFn agg = ''rate'' then Some (''toFloat64(sum(log_count))'' @ perSecond)
     else if raFn agg = ''bytes_over_time'' then Some ''toFloat64(sum(byte_count))''
     else if raFn agg = ''bytes_rate'' then Some (''toFloat64(sum(byte_count))'' @ perSecond)
     else None)"

definition buildLogQLRangeAggSQLPlan ::
  "Config \<Rightarrow> 're sqlEngine \<Rightarrow> 're logQLRangeAggregation \<Rightarrow> logQLGrouping option \<Rightarrow> string \<Rightarrow> 're logQLMetricSQLPlan option" where
  "buildLogQLRangeAggSQLPlan cfg sq agg grouping0 outerAgg =
     (let grouping = (if grouping0 = None then raGrouping agg else grouping0);
          (labels, exprs) = logQLSQLGroupingExprs cfg grouping;
          plan = \<lparr>plAgg = agg, plGrouping = grouping, plOuterAgg = outerAgg, plValueExpr = [], plGroupLabels = labels,
            plGroupExprs = exprs, plComparison = None, plTopK = 0, plHasTopK = False, plTopKIsTop = False, plUnwrapExpr = [],
            plFilters = []\<rparr> in
      if (case grouping of Some g \<Rightarrow> grpWithout g | None \<Rightarrow> False) then None
      else if outerAgg = [] \<and> grouping = None then None
      else case countValueExpr sq agg of
        None \<Rightarrow> map_option (\<lambda>(unwrap, filters). plan\<lparr>plUnwrapExpr := unwrap, plFilters := filters\<rparr>)
          (buildLogQLUnwrapMetricSQL cfg sq agg)
      | Some v \<Rightarrow> (case logQLSQLPipeline cfg sq (selStages (raSelector agg)) of None \<Rightarrow> None
          | Some (filters, unwrap) \<Rightarrow> if unwrap \<noteq> [] then None else Some (plan\<lparr>plValueExpr := v, plFilters := filters\<rparr>)))"

fun comparisonOf :: "'re logQLExpr \<Rightarrow> logQLComparison option" where
  "comparisonOf (RangeAgg agg cmp) = cmp"
| "comparisonOf (Aggregation fn g child cmp) = cmp"
| "comparisonOf (TopK fn k child isTop cmp) = cmp"
| "comparisonOf e = None"

fun buildLogQLMetricSQLPlan :: "Config \<Rightarrow> 're sqlEngine \<Rightarrow> 're logQLExpr \<Rightarrow> 're logQLMetricSQLPlan option" where
  "buildLogQLMetricSQLPlan cfg sq (RangeAgg agg cmp) =
     map_option (\<lambda>p. p\<lparr>plComparison := cmp\<rparr>) (buildLogQLRangeAggSQLPlan cfg sq agg None [])"
| "buildLogQLMetricSQLPlan cfg sq (Aggregation fn grouping (RangeAgg agg None) cmp) =
     (if fn \<noteq> ''sum'' then None
      else map_option (\<lambda>p. p\<lparr>plComparison := cmp\<rparr>) (buildLogQLRangeAggSQLPlan cfg sq agg grouping fn))"
| "buildLogQLMetricSQLPlan cfg sq (TopK fn k child isTop cmp) =
     (if comparisonOf child \<noteq> None then None
      else case buildLogQLMetricSQLPlan cfg sq child of None \<Rightarrow> None
      | Some p \<Rightarrow> if plHasTopK p then None
          else Some (p\<lparr>plTopK := k, plHasTopK := True, plTopKIsTop := isTop, plComparison := cmp\<rparr>))"
| "buildLogQLMetricSQLPlan cfg sq e = None"

section \<open>Queries over the grid of evaluation times\<close>

definition labelAlias :: "nat \<Rightarrow> string" where
  "labelAlias i = ''label_'' @ natDec i"

definition planAliases :: "'re logQLMetricSQLPlan \<Rightarrow> string list" where
  "planAliases p = map labelAlias [0..<length (plGroupExprs p)]"

definition aliasedExprs :: "'re logQLMetricSQLPlan \<Rightarrow> string list" where
  "aliasedExprs p = map (\<lambda>(e, a). e @ '' AS '' @ a) (zip (plGroupExprs p) (planAliases p))"

definition commaList :: "string list \<Rightarrow> string" where
  "commaList = joinWith '', ''"

definition logQLMetricBaseFilters :: "Config \<Rightarrow> 're logQLMetricSQLPlan \<Rightarrow> int \<Rightarrow> int \<Rightarrow> string list" where
  "logQLMetricBaseFilters cfg p startNS endNS = logTimeFilters cfg startNS endNS
     @ map (condText \<circ> logQLMetricMatcherCondition cfg) (selMatchers (raSelector (plAgg p))) @ plFilters p"

definition logQLSQLComparisonCondition :: "'re sqlEngine \<Rightarrow> logQLComparison \<Rightarrow> string" where
  "logQLSQLComparisonCondition sq cmp = ''value '' @ cmpOp cmp @ '' '' @ sqFormatG sq (cmpValue cmp)"

definition logQLMetricResultOrderBy :: "'re logQLMetricSQLPlan \<Rightarrow> string" where
  "logQLMetricResultOrderBy p = commaList (map labelAlias [0..<length (plGroupLabels p)] @ [''eval_ns''])"

definition logQLMetricResultSQL :: "'re sqlEngine \<Rightarrow> string \<Rightarrow> 're logQLMetricSQLPlan \<Rightarrow> string" where
  "logQLMetricResultSQL sq sql p =
     (if plComparison p = None \<and> \<not> plHasTopK p then sql
      else let compared = (case plComparison p of None \<Rightarrow> sql
             | Some cmp \<Rightarrow> ''SELECT * FROM ('' @ sql @ '') WHERE '' @ logQLSQLComparisonCondition sq cmp);
             limited = (if plHasTopK p then ''SELECT * FROM (SELECT * FROM ('' @ compared @ '') ORDER BY eval_ns ASC, value ''
               @ (if plTopKIsTop p then ''DESC'' else ''ASC'') @ '' LIMIT '' @ intDec (plTopK p) @ '' BY eval_ns)'' else compared) in
        ''SELECT * FROM ('' @ limited @ '') ORDER BY '' @ logQLMetricResultOrderBy p)"

definition gridPoints :: "int \<Rightarrow> int \<Rightarrow> int \<Rightarrow> int" where
  "gridPoints startNS endNS step = (let points = (if startNS < endNS then wrap64 (wrap64 (endNS - startNS) sdiv step + 1) else 1) in
     if points < 1 then 1 else points)"

text \<open>The rows of a source joined with every evaluation time whose window holds them.\<close>

definition crossJoinSQL :: "'re logQLMetricSQLPlan \<Rightarrow> string \<Rightarrow> string \<Rightarrow> int \<Rightarrow> int \<Rightarrow> int \<Rightarrow> string" where
  "crossJoinSQL p valueExpr source startNS endNS step =
     ''WITH toInt64('' @ intDec startNS @ '') AS start_ns, toInt64('' @ intDec step @ '') AS step_ns, toInt64(''
       @ intDec (raWindow (plAgg p)) @ '') AS window_ns SELECT ''
       @ commaList (''eval_ns'' # planAliases p @ [valueExpr @ '' AS value'']) @ '' FROM '' @ source
       @ '' AS logs CROSS JOIN (SELECT start_ns + (toInt64(number) * step_ns) AS eval_ns FROM numbers(''
       @ intDec (gridPoints startNS endNS step)
       @ '')) AS grid WHERE logs.ts_ns > eval_ns - window_ns AND logs.ts_ns <= eval_ns GROUP BY ''
       @ commaList (''eval_ns'' # planAliases p) @ '' ORDER BY '' @ commaList (planAliases p @ [''eval_ns''])"

definition fetchStart :: "'re logQLMetricSQLPlan \<Rightarrow> int \<Rightarrow> int" where
  "fetchStart p startNS = wrap64 (wrap64 (startNS - raWindow (plAgg p)) - raOffset (plAgg p))"

definition fetchEnd :: "'re logQLMetricSQLPlan \<Rightarrow> int \<Rightarrow> int" where
  "fetchEnd p endNS = wrap64 (endNS - raOffset (plAgg p))"

definition countMetricSQL :: "Config \<Rightarrow> 're sqlEngine \<Rightarrow> 're logQLMetricSQLPlan \<Rightarrow> int \<Rightarrow> int \<Rightarrow> int \<Rightarrow> string option" where
  "countMetricSQL cfg sq p startNS endNS step =
     do { source \<leftarrow> logQLLogsSourceSQL cfg (logQLMetricBaseFilters cfg p (fetchStart p startNS) (fetchEnd p endNS));
          let preAgg = ''(SELECT '' @ commaList ([''ts_ns'', ''count() AS log_count'', ''sum(length(body)) AS byte_count''] @ aliasedExprs p)
            @ '' FROM '' @ source @ '' GROUP BY '' @ commaList (''ts_ns'' # planAliases p) @ '')'';
          Some (logQLMetricResultSQL sq (crossJoinSQL p (plValueExpr p) preAgg startNS endNS step) p) }"

definition logQLUnwrapMetricSourceSQL :: "Config \<Rightarrow> 're logQLMetricSQLPlan \<Rightarrow> string list \<Rightarrow> string option" where
  "logQLUnwrapMetricSourceSQL cfg p filters = map_option (\<lambda>source.
     ''(SELECT '' @ commaList ([''ts_ns'', plUnwrapExpr p @ '' AS unwrap_value''] @ aliasedExprs p) @ '' FROM '' @ source
       @ '' WHERE isNotNull(unwrap_value))'') (logQLLogsSourceSQL cfg filters)"

definition logQLUnwrapWindowAggregateExpr :: "'re sqlEngine \<Rightarrow> 're logQLRangeAggregation \<Rightarrow> string" where
  "logQLUnwrapWindowAggregateExpr sq agg = (let fn = raFn agg in
     if fn = ''quantile_over_time'' then ''toFloat64(assumeNotNull(quantileExactInclusive('' @ sqFormatG sq (raParam agg) @ '')(unwrap_value)))''
     else if fn = ''sum_over_time'' then ''toFloat64(assumeNotNull(sum(unwrap_value)))''
     else if fn = ''avg_over_time'' then ''toFloat64(assumeNotNull(avg(unwrap_value)))''
     else if fn = ''min_over_time'' then ''toFloat64(assumeNotNull(min(unwrap_value)))''
     else if fn = ''max_over_time'' then ''toFloat64(assumeNotNull(max(unwrap_value)))''
     else if fn = ''first_over_time'' then ''toFloat64(assumeNotNull(argMin(unwrap_value, ts_ns)))''
     else if fn = ''last_over_time'' then ''toFloat64(assumeNotNull(argMax(unwrap_value, ts_ns)))''
     else if fn = ''stdvar_over_time'' then ''toFloat64(greatest(0.0, assumeNotNull(varPop(unwrap_value))))''
     else if fn = ''stddev_over_time'' then ''toFloat64(sqrt(greatest(0.0, assumeNotNull(varPop(unwrap_value)))))''
     else ''toFloat64(0)'')"

definition logQLUnwrapBucketAggregateExpr :: "string \<Rightarrow> string" where
  "logQLUnwrapBucketAggregateExpr fn =
     (let mean = ''assumeNotNull(sum(value_sum)) / sum(value_count)'';
          variance = ''greatest(0.0, assumeNotNull(sum(value_sum_squares)) / sum(value_count) - pow('' @ mean @ '', 2))'' in
      if fn = ''sum_over_time'' then ''toFloat64(assumeNotNull(sum(value_sum)))''
      else if fn = ''avg_over_time'' then ''toFloat64('' @ mean @ '')''
      else if fn = ''min_over_time'' then ''toFloat64(assumeNotNull(min(value_min)))''
      else if fn = ''max_over_time'' then ''toFloat64(assumeNotNull(max(value_max)))''
      else if fn = ''stdvar_over_time'' then ''toFloat64('' @ variance @ '')''
      else if fn = ''stddev_over_time'' then ''toFloat64(sqrt('' @ variance @ ''))''
      else ''toFloat64(0)'')"

section \<open>Fan-out of buckets\<close>

text \<open>How often a bucket is repeated: once per step of the window, at most once per evaluation time.\<close>

definition fanoutRepeats :: "int \<Rightarrow> int \<Rightarrow> int \<Rightarrow> int \<Rightarrow> int" where
  "fanoutRepeats windowSteps startNS endNS step =
     (let points = wrap64 (int (logQLRangePoints startNS endNS step));
          repeats = (if points < windowSteps then points else windowSteps) in
      if repeats < 1 then 1 else repeats)"

definition logQLWindowFanoutSQL :: "string \<Rightarrow> int \<Rightarrow> int \<Rightarrow> int \<Rightarrow> int \<Rightarrow> string" where
  "logQLWindowFanoutSQL source windowSteps startNS endNS step =
     ''(SELECT * FROM (SELECT *, start_ns + (intDiv(greatest(bucket_ns - start_ns, toInt64(0)) + step_ns - 1, step_ns) * step_ns) + (toInt64(offset) * step_ns) AS eval_ns FROM ''
       @ source @ '' ARRAY JOIN range(toUInt64('' @ intDec (fanoutRepeats windowSteps startNS endNS step)
       @ '')) AS offset) WHERE eval_ns >= start_ns AND eval_ns <= end_ns AND bucket_ns > eval_ns - window_ns AND bucket_ns <= eval_ns)''"

definition fanoutSelectSQL :: "'re logQLMetricSQLPlan \<Rightarrow> string \<Rightarrow> string \<Rightarrow> int \<Rightarrow> int \<Rightarrow> int \<Rightarrow> string" where
  "fanoutSelectSQL p valueExpr source startNS endNS step =
     ''WITH toInt64('' @ intDec startNS @ '') AS start_ns, toInt64('' @ intDec endNS @ '') AS end_ns, toInt64('' @ intDec step
       @ '') AS step_ns, toInt64('' @ intDec (raWindow (plAgg p)) @ '') AS window_ns SELECT ''
       @ commaList (''eval_ns'' # planAliases p @ [valueExpr @ '' AS value'']) @ '' FROM ''
       @ logQLWindowFanoutSQL source (raWindow (plAgg p) sdiv step) startNS endNS step
       @ '' GROUP BY '' @ commaList (''eval_ns'' # planAliases p) @ '' ORDER BY '' @ commaList (planAliases p @ [''eval_ns''])"

definition logQLMetricBucketSQLSafe :: "'re logQLMetricSQLPlan \<Rightarrow> int \<Rightarrow> bool" where
  "logQLMetricBucketSQLSafe p step \<longleftrightarrow> 0 < step
     \<and> raFn (plAgg p) \<in> {''count_over_time'', ''rate'', ''bytes_over_time'', ''bytes_rate''}
     \<and> raWindow (plAgg p) smod step = 0 \<and> raOffset (plAgg p) = 0"

definition logQLUnwrapMetricBucketSQLSafe :: "'re logQLMetricSQLPlan \<Rightarrow> int \<Rightarrow> bool" where
  "logQLUnwrapMetricBucketSQLSafe p step \<longleftrightarrow> plUnwrapExpr p \<noteq> [] \<and> 0 < step
     \<and> raFn (plAgg p) \<in> {''sum_over_time'', ''avg_over_time'', ''min_over_time'', ''max_over_time'', ''stdvar_over_time'', ''stddev_over_time''}
     \<and> raWindow (plAgg p) smod step = 0 \<and> raOffset (plAgg p) = 0"

definition bucketTime :: "string \<Rightarrow> string" where
  "bucketTime ts = ''intDiv('' @ ts @ '' + step_ns - 1, step_ns) * step_ns AS bucket_ns''"

definition bucketMetricSQL :: "Config \<Rightarrow> 're sqlEngine \<Rightarrow> 're logQLMetricSQLPlan \<Rightarrow> int \<Rightarrow> int \<Rightarrow> int \<Rightarrow> string option" where
  "bucketMetricSQL cfg sq p startNS endNS step =
     do { table \<leftarrow> logQLLogsTableSQL cfg;
          let filters = logQLMetricBaseFilters cfg p (wrap64 (startNS - raWindow (plAgg p))) endNS;
          let bucket = ''(SELECT '' @ commaList ([bucketTime ''toInt64(toUnixTimestamp64Nano(timestamp))'', ''count() AS log_count'',
            ''sum(length(body)) AS byte_count''] @ aliasedExprs p) @ '' FROM '' @ table @ '' WHERE '' @ joinWith '' AND '' filters
            @ '' GROUP BY '' @ commaList (''bucket_ns'' # planAliases p) @ '')'';
          Some (logQLMetricResultSQL sq (fanoutSelectSQL p (plValueExpr p) bucket startNS endNS step) p) }"

definition unwrapBucketMetricSQL :: "Config \<Rightarrow> 're sqlEngine \<Rightarrow> 're logQLMetricSQLPlan \<Rightarrow> int \<Rightarrow> int \<Rightarrow> int \<Rightarrow> string option" where
  "unwrapBucketMetricSQL cfg sq p startNS endNS step =
     do { source \<leftarrow> logQLUnwrapMetricSourceSQL cfg p (logQLMetricBaseFilters cfg p (wrap64 (startNS - raWindow (plAgg p))) endNS);
          let bucket = ''(SELECT '' @ commaList ([bucketTime ''ts_ns'', ''count() AS value_count'', ''sum(unwrap_value) AS value_sum'',
            ''sum(unwrap_value * unwrap_value) AS value_sum_squares'', ''min(unwrap_value) AS value_min'', ''max(unwrap_value) AS value_max'']
            @ planAliases p) @ '' FROM '' @ source @ '' GROUP BY '' @ commaList (''bucket_ns'' # planAliases p) @ '')'';
          Some (logQLMetricResultSQL sq (fanoutSelectSQL p (logQLUnwrapBucketAggregateExpr (raFn (plAgg p))) bucket startNS endNS step) p) }"

definition unwrapMetricSQL :: "Config \<Rightarrow> 're sqlEngine \<Rightarrow> 're logQLMetricSQLPlan \<Rightarrow> int \<Rightarrow> int \<Rightarrow> int \<Rightarrow> string option" where
  "unwrapMetricSQL cfg sq p startNS endNS step =
     (if logQLUnwrapMetricBucketSQLSafe p step then unwrapBucketMetricSQL cfg sq p startNS endNS step
      else do { source \<leftarrow> logQLUnwrapMetricSourceSQL cfg p (logQLMetricBaseFilters cfg p (fetchStart p startNS) (fetchEnd p endNS));
        let v = logQLUnwrapWindowAggregateExpr sq (plAgg p);
        Some (logQLMetricResultSQL sq
          (if raWindow (plAgg p) smod step = 0 \<and> raOffset (plAgg p) = 0
           then fanoutSelectSQL p v (''(SELECT *, '' @ bucketTime ''ts_ns'' @ '' FROM '' @ source @ '')'') startNS endNS step
           else crossJoinSQL p v source startNS endNS step) p) })"

section \<open>The statistics of the streams\<close>

definition logQLSnuffleStatsLabelSafe :: "string \<Rightarrow> bool" where
  "logQLSnuffleStatsLabelSafe label \<longleftrightarrow> label \<noteq> ''trace_id'' \<and> label \<noteq> ''span_id''"

definition logQLSnuffleStatsCoreLabel :: "string \<Rightarrow> bool" where
  "logQLSnuffleStatsCoreLabel label \<longleftrightarrow> label \<in> set serviceNames \<or> label \<in> set severityNames"

definition logQLMetricSnuffleStatsSQLSafe :: "Config \<Rightarrow> 're logQLMetricSQLPlan \<Rightarrow> int \<Rightarrow> bool" where
  "logQLMetricSnuffleStatsSQLSafe cfg p step \<longleftrightarrow>
     \<not> (postHogLogSchemaLayout cfg \<or> LogStreamStatsTable cfg = [] \<or> LogStreamsTable cfg = [])
     \<and> logQLMetricBucketSQLSafe p step \<and> 60000000000 \<le> step \<and> step smod 60000000000 = 0
     \<and> selStages (raSelector (plAgg p)) = []
     \<and> list_all (\<lambda>m. logQLSnuffleStatsLabelSafe (lmName m)) (selMatchers (raSelector (plAgg p)))
     \<and> list_all logQLSnuffleStatsLabelSafe (plGroupLabels p)"

definition logQLSnuffleStatsLabelValueExpr :: "string \<Rightarrow> sqlExpr" where
  "logQLSnuffleStatsLabelValueExpr label =
     (if label \<in> set serviceNames then Column ''stream_service_name''
      else if label \<in> set severityNames then Column ''stream_severity_text''
      else logQLSnuffleStreamOnlyLabelValueExpr label)"

definition logQLSnuffleStatsLabelIndexMatcherSafe :: "'re engine \<Rightarrow> 're logQLLabelMatcher \<Rightarrow> bool" where
  "logQLSnuffleStatsLabelIndexMatcherSafe en m \<longleftrightarrow> logQLSnuffleStatsLabelSafe (lmName m)
     \<and> (if lmOp m = ''='' then lmValue m \<noteq> []
        else if lmOp m = ''=~'' then (case enCompile en (promRegexToCH (lmValue m)) of None \<Rightarrow> False | Some r \<Rightarrow> \<not> enMatch en r [])
        else False)"

definition logQLSnuffleStatsLabelIndexJoinCount :: "Config \<Rightarrow> 're engine \<Rightarrow> 're logQLMetricSQLPlan \<Rightarrow> nat" where
  "logQLSnuffleStatsLabelIndexJoinCount cfg en p =
     (let ms = selMatchers (raSelector (plAgg p)) in
      if postHogLogSchemaLayout cfg \<or> LogStreamLabelsTable cfg = [] then 0
      else if list_all (\<lambda>l. logQLSnuffleStatsLabelSafe l \<and> \<not> logQLSnuffleStatsCoreLabel l) (plGroupLabels p)
         \<and> list_all (logQLSnuffleStatsLabelIndexMatcherSafe en) ms
      then length (plGroupLabels p) + length ms else 0)"

definition logQLSnuffleStatsLabelIndexMatcherCondition :: "'re logQLLabelMatcher \<Rightarrow> string" where
  "logQLSnuffleStatsLabelIndexMatcherCondition m =
     (if lmOp m = ''='' then ''label_value = '' @ sqlString (lmValue m)
      else if lmOp m = ''=~'' then ''match(label_value, '' @ sqlString (promRegexToCH (lmValue m)) @ '')''
      else ''1'')"

text \<open>The joins of the stream label index: one per group label, one per matcher.\<close>

definition logQLSnuffleStatsIndexedTableSQL :: "Config \<Rightarrow> 're logQLMetricSQLPlan \<Rightarrow> string option" where
  "logQLSnuffleStatsIndexedTableSQL cfg p =
     do { stats \<leftarrow> tableName (CHDatabase cfg) (LogStreamStatsTable cfg);
          labels \<leftarrow> tableName (CHDatabase cfg) (LogStreamLabelsTable cfg);
          let groupJoin = (\<lambda>(i, label). ''ANY LEFT JOIN (SELECT team_id, stream_id, label_value AS '' @ labelAlias i @ '' FROM '' @ labels
            @ '' WHERE '' @ teamFilter cfg @ '' AND label_name = '' @ sqlString label @ '') AS group_label_'' @ natDec i
            @ '' USING (team_id, stream_id)'');
          let filterJoin = (\<lambda>(i, m). ''ALL INNER JOIN (SELECT DISTINCT team_id, stream_id FROM '' @ labels @ '' WHERE '' @ teamFilter cfg
            @ '' AND '' @ logQLSnuffleStreamLabelKeyCondition ''label_name'' (lmName m) @ '' AND ''
            @ logQLSnuffleStatsLabelIndexMatcherCondition m @ '') AS filter_label_'' @ natDec i @ '' USING (team_id, stream_id)'');
          Some (stats @ '' AS stats '' @ joinWith '' '' (map groupJoin (enumerate 0 (plGroupLabels p))
            @ map filterJoin (enumerate 0 (selMatchers (raSelector (plAgg p)))))) }"

definition logQLSnuffleStatsTableSQL :: "Config \<Rightarrow> string option" where
  "logQLSnuffleStatsTableSQL cfg =
     do { stats \<leftarrow> tableName (CHDatabase cfg) (LogStreamStatsTable cfg);
          streams \<leftarrow> tableName (CHDatabase cfg) (LogStreamsTable cfg);
          Some (''(SELECT stats.team_id AS team_id, stats.bucket AS bucket, stats.stream_id AS stream_id, stats.log_count AS log_count, stats.byte_count AS byte_count, streams.labels AS labels, streams.resource_attributes AS resource_attributes, streams.service_name AS stream_service_name, streams.severity_text AS stream_severity_text FROM ''
            @ stats @ '' AS stats ALL INNER JOIN (SELECT team_id, stream_id, labels, resource_attributes, service_name, severity_text FROM ''
            @ streams @ '' FINAL) AS streams USING (team_id, stream_id)'' @ logQLSnuffleFullSortingMergeJoinSettings cfg @ '')'') }"

definition logQLSnuffleStatsTimeFilters :: "Config \<Rightarrow> int \<Rightarrow> int \<Rightarrow> string list" where
  "logQLSnuffleStatsTimeFilters cfg startNS endNS = [teamFilter cfg, ''bucket >= toStartOfMinute('' @ chTimeNanos startNS @ '')'',
     ''bucket <= toStartOfMinute('' @ chTimeNanos endNS @ '')'']"

definition logQLSnuffleStatsBaseFilters :: "Config \<Rightarrow> 're logQLSelector \<Rightarrow> int \<Rightarrow> int \<Rightarrow> string list" where
  "logQLSnuffleStatsBaseFilters cfg s startNS endNS = logQLSnuffleStatsTimeFilters cfg startNS endNS
     @ map (\<lambda>m. condText (logQLStringCondition (logQLSnuffleStatsLabelValueExpr (lmName m)) (lmOp m) (lmValue m) True)) (selMatchers s)"

text \<open>The counts of a minute are taken at its end.\<close>

definition minuteEndNS :: string where
  "minuteEndNS = ''(toInt64(toUnixTimestamp(bucket)) * 1000000000 + 60000000000)''"

definition statsBucketSQL :: "Config \<Rightarrow> 're engine \<Rightarrow> 're logQLMetricSQLPlan \<Rightarrow> int \<Rightarrow> int \<Rightarrow> string option" where
  "statsBucketSQL cfg en p startNS endNS =
     (let joins = logQLSnuffleStatsLabelIndexJoinCount cfg en p; fetchStartNS = wrap64 (startNS - raWindow (plAgg p));
          aliases = map labelAlias [0..<length (plGroupLabels p)];
          exprs = (if 0 < joins then aliases else map (sqlText \<circ> logQLSnuffleStatsLabelValueExpr) (plGroupLabels p)) in
      do { source \<leftarrow> (if 0 < joins then logQLSnuffleStatsIndexedTableSQL cfg p else logQLSnuffleStatsTableSQL cfg);
           Some (''SELECT '' @ commaList ([bucketTime minuteEndNS, ''sum(log_count) AS log_count'', ''sum(byte_count) AS byte_count'']
               @ map (\<lambda>(e, a). e @ '' AS '' @ a) (zip exprs aliases))
             @ '' FROM '' @ source @ '' WHERE '' @ joinWith '' AND '' (if 0 < joins then logQLSnuffleStatsTimeFilters cfg fetchStartNS endNS
                 else logQLSnuffleStatsBaseFilters cfg (raSelector (plAgg p)) fetchStartNS endNS)
             @ '' GROUP BY '' @ commaList (''bucket_ns'' # aliases)
             @ (if joins = 0 then [] else if joins = 1 then logQLSnuffleFullSortingMergeJoinSettings cfg
                else '' SETTINGS join_algorithm = '' @ sqlString ''hash'')) })"

definition statsValueExpr :: "'re sqlEngine \<Rightarrow> 're logQLRangeAggregation \<Rightarrow> string" where
  "statsValueExpr sq agg =
     (if raFn agg = ''rate'' then ''toFloat64(window_log_count) / '' @ formatDurationSeconds sq (raWindow agg)
      else if raFn agg = ''bytes_over_time'' then ''toFloat64(window_byte_count)''
      else if raFn agg = ''bytes_rate'' then ''toFloat64(window_byte_count) / '' @ formatDurationSeconds sq (raWindow agg)
      else ''toFloat64(window_log_count)'')"

text \<open>The windows as frames of a window function over a grid of the groups.\<close>

definition statsFrameSQL :: "'re sqlEngine \<Rightarrow> 're logQLMetricSQLPlan \<Rightarrow> string \<Rightarrow> int \<Rightarrow> int \<Rightarrow> int \<Rightarrow> int \<Rightarrow> string" where
  "statsFrameSQL sq p bucketSQL windowFrame startNS endNS step =
     (let aliases = map labelAlias [0..<length (plGroupLabels p)];
          outer = commaList (''eval_ns'' # aliases);
          groupsSQL = (if aliases = [] then ''SELECT 1 AS group_key'' else ''SELECT DISTINCT '' @ commaList aliases @ '' FROM buckets'');
          partition = (if aliases = [] then [] else ''PARTITION BY '' @ commaList aliases @ '' '');
          frame = (\<lambda>column. ''sum(ifNull('' @ column @ '', 0)) OVER ('' @ partition @ ''ORDER BY eval_ns ROWS BETWEEN ''
            @ intDec windowFrame @ '' PRECEDING AND CURRENT ROW) AS window_'' @ column) in
      ''WITH toInt64('' @ intDec (wrap64 (startNS - wrap64 (windowFrame * step))) @ '') AS start_ns, toInt64('' @ intDec step
        @ '') AS step_ns, buckets AS ('' @ bucketSQL @ ''), groups AS ('' @ groupsSQL @ '') SELECT '' @ outer @ '', ''
        @ statsValueExpr sq (plAgg p) @ '' AS value FROM (SELECT '' @ outer @ '', '' @ frame ''log_count'' @ '', '' @ frame ''byte_count''
        @ '' FROM (SELECT '' @ commaList (''start_ns + (toInt64(n.number) * step_ns) AS eval_ns'' # aliases)
        @ '' FROM groups CROSS JOIN numbers('' @ intDec (wrap64 (gridPoints startNS endNS step + windowFrame)) @ '') AS n) AS grid LEFT JOIN buckets ON ''
        @ joinWith '' AND '' (''buckets.bucket_ns = grid.eval_ns'' # map (\<lambda>a. ''buckets.'' @ a @ '' = grid.'' @ a) aliases)
        @ '') WHERE eval_ns >= '' @ intDec startNS @ '' AND window_log_count > 0 ORDER BY '' @ commaList (aliases @ [''eval_ns'']))"

definition statsMetricSQL :: "Config \<Rightarrow> 're sqlEngine \<Rightarrow> 're logQLMetricSQLPlan \<Rightarrow> int \<Rightarrow> int \<Rightarrow> int \<Rightarrow> string option" where
  "statsMetricSQL cfg sq p startNS endNS step =
     (let quotient = raWindow (plAgg p) sdiv step; windowSteps = (if quotient < 1 then 1 else quotient);
          aliases = map labelAlias [0..<length (plGroupLabels p)] in
      do { bucketSQL \<leftarrow> statsBucketSQL cfg (sqEngine sq) p startNS endNS;
           Some (logQLMetricResultSQL sq
             (if raFn (plAgg p) = ''count_over_time'' \<and> plGroupLabels p \<noteq> [] \<and> \<not> plHasTopK p
              then ''WITH toInt64('' @ intDec startNS @ '') AS start_ns, toInt64('' @ intDec endNS @ '') AS end_ns, toInt64('' @ intDec step
                @ '') AS step_ns, toInt64('' @ intDec (raWindow (plAgg p)) @ '') AS window_ns SELECT '' @ commaList (''eval_ns'' # aliases)
                @ '', toFloat64(sum(log_count)) AS value FROM '' @ logQLWindowFanoutSQL (''('' @ bucketSQL @ '')'') windowSteps startNS endNS step
                @ '' GROUP BY '' @ commaList (''eval_ns'' # aliases) @ '' ORDER BY '' @ commaList (aliases @ [''eval_ns''])
              else statsFrameSQL sq p bucketSQL (windowSteps - 1) startNS endNS step) p) })"

section \<open>Running a metric query\<close>

text \<open>The text of the query that queryLogQLMetricSQL runs.\<close>

definition logQLMetricSQL :: "Config \<Rightarrow> 're sqlEngine \<Rightarrow> 're logQLMetricSQLPlan \<Rightarrow> int \<Rightarrow> int \<Rightarrow> int \<Rightarrow> string option" where
  "logQLMetricSQL cfg sq p startNS endNS step0 =
     (let step = (if step0 \<le> 0 then 60000000000 else step0) in
      if plUnwrapExpr p \<noteq> [] then unwrapMetricSQL cfg sq p startNS endNS step
      else if logQLMetricSnuffleStatsSQLSafe cfg p step then statsMetricSQL cfg sq p startNS endNS step
      else if logQLMetricBucketSQLSafe p step then bucketMetricSQL cfg sq p startNS endNS step
      else countMetricSQL cfg sq p startNS endNS step)"

text \<open>A row of a metric query: its evaluation time, the values of the group labels and its value.\<close>

type_synonym metricSQLRow = "int \<times> string list \<times> f64"

definition logQLGroupValuesKey :: "string list \<Rightarrow> string" where
  "logQLGroupValuesKey groupValues = concat (map (\<lambda>v. v @ [CHR 0xFF]) groupValues)"

definition logQLLabelsFromGroupValues :: "string list \<Rightarrow> string list \<Rightarrow> gomap" where
  "logQLLabelsFromGroupValues groupLabels groupValues =
     stableLabelMap (fold (\<lambda>(l, v) m. if v = [] then m else AList.update l v m) (zip groupLabels groupValues) [])"

definition addMetricSQLRow :: "'re engine \<Rightarrow> string list \<Rightarrow> metricSQLRow \<Rightarrow> (string \<times> logMetricMatrixResult) list \<Rightarrow> (string \<times> logMetricMatrixResult) list" where
  "addMetricSQLRow en groupLabels row series = (case row of (evalNS, groupValues, v) \<Rightarrow>
     let p = (unixSeconds evalNS, formatSample en v) in
     AList.map_default (logQLGroupValuesKey groupValues)
       \<lparr>matMetric = logQLLabelsFromGroupValues groupLabels groupValues, matValues = [p]\<rparr>
       (\<lambda>r. r\<lparr>matValues := matValues r @ [p]\<rparr>) series)"

text \<open>The results; those with one labels key keep an order that depends on the iteration of a Go map.\<close>

definition scanLogQLMetricSQLResults :: "'re engine \<Rightarrow> string list \<Rightarrow> metricSQLRow list \<Rightarrow> logMetricMatrixResult list" where
  "scanLogQLMetricSQLResults en groupLabels rows =
     sort_key (\<lambda>r. labelsKey (matMetric r)) (map snd (fold (addMetricSQLRow en groupLabels) rows []))"

text \<open>ClickHouse is a parameter: the rows of a query, or its error.\<close>

definition queryLogQLMetricSQL ::
  "(string \<Rightarrow> string + metricSQLRow list) \<Rightarrow> Config \<Rightarrow> 're sqlEngine \<Rightarrow> 're logQLMetricSQLPlan \<Rightarrow> int \<Rightarrow> int \<Rightarrow> int
     \<Rightarrow> (string + logMetricMatrixResult list) option" where
  "queryLogQLMetricSQL ch cfg sq p startNS endNS step =
     map_option (\<lambda>sql. map_sum id (scanLogQLMetricSQLResults (sqEngine sq) (plGroupLabels p)) (ch sql)) (logQLMetricSQL cfg sq p startNS endNS step)"

definition tryLogQLRangeMetricSQL ::
  "(string \<Rightarrow> string + metricSQLRow list) \<Rightarrow> Config \<Rightarrow> 're sqlEngine \<Rightarrow> 're logQLExpr \<Rightarrow> int \<Rightarrow> int \<Rightarrow> int
     \<Rightarrow> (string + logMetricMatrixResult list) option option" where
  "tryLogQLRangeMetricSQL ch cfg sq e startNS endNS step =
     map_option (\<lambda>p. queryLogQLMetricSQL ch cfg sq p startNS endNS step) (buildLogQLMetricSQLPlan cfg sq e)"

definition tryLogQLInstantMetricSQL ::
  "(string \<Rightarrow> string + metricSQLRow list) \<Rightarrow> Config \<Rightarrow> 're sqlEngine \<Rightarrow> 're logQLExpr \<Rightarrow> int
     \<Rightarrow> (string + logMetricVectorResult list) option option" where
  "tryLogQLInstantMetricSQL ch cfg sq e ts = map_option (\<lambda>p. map_option (map_sum id (\<lambda>rows.
       map (\<lambda>r. \<lparr>vecMetric = matMetric r, vecTime = fst (last (matValues r)), vecValue = snd (last (matValues r))\<rparr>) (filter (\<lambda>r. matValues r \<noteq> []) rows)))
     (queryLogQLMetricSQL ch cfg sq p ts ts 1000000000)) (buildLogQLMetricSQLPlan cfg sq e)"

end
