(* ===== verification/LogQLWindow.thy ===== *)
theory LogQLWindow
  imports LogQLSql
begin

text \<open>
  What the windows of the metric queries in SQL hold (src/internal/snuffle/logql_sql.go): the
  join with the grid of evaluation times, the fan-out of the buckets of a step and the minutes
  of the stream statistics. Each definition is the arithmetic of one piece of the emitted text,
  over times far from the ends of int64; \<open>crossJoinSQL\<close>, \<open>logQLWindowFanoutSQL\<close>,
  \<open>bucketTime\<close> and \<open>minuteEndNS\<close> hold that text.

  The reference is the evaluation in memory: the window of an evaluation time
  (\<open>inWindow\<close>) excludes its start and includes its end, and is moved back by the offset.
\<close>

section \<open>The pieces of the text\<close>

text \<open>The grid: start_ns + toInt64(number) * step_ns over numbers(points).\<close>

definition sqlGrid :: "int \<Rightarrow> int \<Rightarrow> int \<Rightarrow> int list" where
  "sqlGrid startNS step points = map (\<lambda>n. startNS + int n * step) [0..<nat points]"

text \<open>logs.ts_ns > eval_ns - window_ns AND logs.ts_ns <= eval_ns.\<close>

definition windowHolds :: "int \<Rightarrow> int \<Rightarrow> int \<Rightarrow> bool" where
  "windowHolds window eval ts \<longleftrightarrow> eval - window < ts \<and> ts \<le> eval"

text \<open>The time filters of a query over rows from one time to another, both included.\<close>

definition fetched :: "int \<Rightarrow> int \<Rightarrow> int \<Rightarrow> bool" where
  "fetched startNS endNS ts \<longleftrightarrow> startNS \<le> ts \<and> ts \<le> endNS"

text \<open>intDiv(ts + step_ns - 1, step_ns) * step_ns.\<close>

definition bucketNS :: "int \<Rightarrow> int \<Rightarrow> int" where
  "bucketNS step ts = (ts + step - 1) sdiv step * step"

text \<open>The evaluation times that a bucket is fanned out to.\<close>

definition fanoutTimes :: "int \<Rightarrow> int \<Rightarrow> int \<Rightarrow> int \<Rightarrow> int \<Rightarrow> int \<Rightarrow> int list" where
  "fanoutTimes startNS endNS step window repeats bucket =
     filter (\<lambda>eval. startNS \<le> eval \<and> eval \<le> endNS \<and> windowHolds window eval bucket)
       (map (\<lambda>off. startNS + (max (bucket - startNS) 0 + step - 1) sdiv step * step + int off * step) [0..<nat repeats])"

text \<open>The end of the minute of a row in the stream statistics.\<close>

definition minuteEnd :: "int \<Rightarrow> int" where
  "minuteEnd ts = ts div 60000000000 * 60000000000 + 60000000000"

section \<open>The grid join\<close>

lemma sdiv_div: "0 \<le> (x :: int) \<Longrightarrow> 0 < s \<Longrightarrow> x sdiv s = x div s"
  by (cases "x = 0") (simp_all add: signed_divide_int_def sgn_mult)

lemma ceil_mult:
  assumes "0 < (s :: int)"
  shows "(x + s - 1) div s * s < x + s" "x \<le> (x + s - 1) div s * s"
proof -
  have "(x + s - 1) div s * s = x + s - 1 - (x + s - 1) mod s"
    by (simp add: minus_mod_eq_div_mult)
  then show "(x + s - 1) div s * s < x + s" "x \<le> (x + s - 1) div s * s"
    using pos_mod_bound [OF assms, of "x + s - 1"] pos_mod_sign [OF assms, of "x + s - 1"] by linarith+
qed

text \<open>A multiple of the step is past a time exactly when it is past the end of its bucket.\<close>

lemma bucketNS_le:
  assumes "0 < step" "0 \<le> ts" "step dvd eval"
  shows "bucketNS step ts \<le> eval \<longleftrightarrow> ts \<le> eval"
proof -
  obtain k where e: "eval = step * k" using assms(3) by (auto elim: dvdE)
  have b: "bucketNS step ts = (ts + step - 1) div step * step"
    using assms by (simp add: bucketNS_def sdiv_div)
  show ?thesis
  proof
    assume "bucketNS step ts \<le> eval"
    then show "ts \<le> eval" using ceil_mult(2) [OF assms(1), of ts] by (simp add: b)
  next
    assume "ts \<le> eval"
    then have "(ts + step - 1) div step \<le> (step * k + (step - 1)) div step"
      using assms(1) by (intro zdiv_mono1) (simp_all add: e)
    also have "\<dots> = k" using assms(1) by (simp add: div_pos_pos_trivial)
    finally have "(ts + step - 1) div step * step \<le> k * step"
      using assms(1) by (intro mult_right_mono) simp_all
    then show "bucketNS step ts \<le> eval" by (simp only: b e mult.commute [of k])
  qed
qed

lemma bucketNS_window:
  assumes "0 < step" "0 \<le> ts" "step dvd eval" "step dvd window"
  shows "windowHolds window eval (bucketNS step ts) \<longleftrightarrow> windowHolds window eval ts"
proof -
  have "step dvd eval - window" using assms(3,4) by simp
  from bucketNS_le [OF assms(1,2) this] bucketNS_le [OF assms(1-3)] show ?thesis
    by (auto simp: windowHolds_def not_le [symmetric])
qed

lemma set_sqlGrid: "t \<in> set (sqlGrid startNS step points) \<longleftrightarrow> (\<exists>n::nat. int n < points \<and> t = startNS + int n * step)"
  proof
  assume "t \<in> set (sqlGrid startNS step points)"
  then obtain n where "n < nat points" "t = startNS + int n * step" by (auto simp: sqlGrid_def)
  then have "int n < points \<and> t = startNS + int n * step" by simp
  then show "\<exists>n::nat. int n < points \<and> t = startNS + int n * step" by blast
next
  assume "\<exists>n::nat. int n < points \<and> t = startNS + int n * step"
  then obtain n :: nat where "int n < points" "t = startNS + int n * step" by blast
  then have "n < nat points" by simp
  then show "t \<in> set (sqlGrid startNS step points)" by (auto simp: sqlGrid_def \<open>t = _\<close>)
qed

section \<open>Fan-out\<close>

lemma dvd_between:
  assumes "0 < (step :: int)" "step dvd x" "step dvd y" "x < y + step" "y < x + step"
  shows "x = y"
proof -
  have "step dvd x - y" using assms(2,3) by simp
  then obtain k where k: "x - y = step * k" by (auto elim: dvdE)
  have "step * k < step * 1" "step * (- 1) < step * k" using assms(4,5) k by linarith+
  then have "k < 1" "- 1 < k" using assms(1) mult_less_cancel_left_pos [OF assms(1)] by blast+
  then have "k = 0" by linarith
  then show ?thesis using k by simp
qed

text \<open>The fan-out of a bucket on the grid of the start: exactly the evaluation times whose window holds it.\<close>

lemma fanoutTimes_spec:
  assumes "0 < step" "step dvd startNS" "step dvd bucket" "step dvd window" "0 < window"
    and "min (window div step) ((endNS - startNS) div step + 1) \<le> repeats"
  shows "set (fanoutTimes startNS endNS step window repeats bucket)
      = {eval. step dvd eval \<and> startNS \<le> eval \<and> eval \<le> endNS \<and> windowHolds window eval bucket}"
    "distinct (fanoutTimes startNS endNS step window repeats bucket)"
proof -
  define base where "base = max bucket startNS"
  have base: "step dvd base" using assms(2,3) by (simp add: base_def max_def)
  have first: "startNS + (max (bucket - startNS) 0 + step - 1) sdiv step * step = base"
  proof -
    let ?x = "max (bucket - startNS) 0"
    have x: "?x = base - startNS" by (simp add: base_def max_def)
    have "(?x + step - 1) sdiv step = (?x + step - 1) div step"
      using assms(1) by (intro sdiv_div) simp_all
    moreover have "(?x + step - 1) div step * step = ?x"
    proof (rule dvd_between [OF assms(1)])
      show "step dvd ?x" unfolding x using base assms(2) by simp
      show "(?x + step - 1) div step * step < ?x + step" "?x < (?x + step - 1) div step * step + step"
        using ceil_mult [OF assms(1), of ?x] assms(1) by linarith+
    qed simp
    ultimately show ?thesis by (simp add: x)
  qed
  have times: "fanoutTimes startNS endNS step window repeats bucket
      = filter (\<lambda>eval. startNS \<le> eval \<and> eval \<le> endNS \<and> windowHolds window eval bucket)
          (map (\<lambda>off. base + int off * step) [0..<nat repeats])"
    by (simp add: fanoutTimes_def first)
  show "distinct (fanoutTimes startNS endNS step window repeats bucket)"
    using assms(1) by (simp add: times distinct_map inj_on_def)
  have "eval \<in> (\<lambda>off. base + int off * step) ` {0..<nat repeats}"
    if e: "step dvd eval" "startNS \<le> eval" "eval \<le> endNS" "windowHolds window eval bucket" for eval
  proof -
    have "step dvd eval - base" "0 \<le> eval - base" using e base by (simp_all add: windowHolds_def base_def)
    then obtain k where k: "eval - base = step * k" by (auto elim!: dvdE)
    then have "0 \<le> step * k" using \<open>0 \<le> eval - base\<close> by simp
    then have k0: "0 \<le> k" using assms(1) by (simp add: zero_le_mult_iff)
    obtain w where w: "window = step * w" using assms(4) by (auto elim: dvdE)
    have "bucket \<le> base" by (simp add: base_def)
    then have "step * k < step * w" using e(4) k w unfolding windowHolds_def by linarith
    then have "k < window div step" using assms(1) w by simp
    moreover have "step * k \<le> endNS - startNS" using e(3) k by (simp add: base_def)
    then have "k \<le> (endNS - startNS) div step"
      using assms(1) zdiv_mono1 [of "step * k" "endNS - startNS" step] by simp
    ultimately have "k < repeats" using assms(6) by linarith
    then have "nat k < nat repeats \<and> eval = base + int (nat k) * step" using k k0 by (simp add: mult.commute)
    then show ?thesis by (intro image_eqI [of _ _ "nat k"]) simp_all
  qed
  moreover have "step dvd base + int n * step" for n using base by simp
  ultimately have "x \<in> (\<lambda>off. base + int off * step) ` {0..<nat repeats} \<and> startNS \<le> x \<and> x \<le> endNS \<and> windowHolds window x bucket
      \<longleftrightarrow> step dvd x \<and> startNS \<le> x \<and> x \<le> endNS \<and> windowHolds window x bucket" for x
    by blast
  then show "set (fanoutTimes startNS endNS step window repeats bucket)
      = {eval. step dvd eval \<and> startNS \<le> eval \<and> eval \<le> endNS \<and> windowHolds window eval bucket}"
    unfolding times set_filter set_map set_upt by blast
qed

section \<open>The windows of the queries\<close>


definition demoPlan :: "string \<Rightarrow> int \<Rightarrow> int \<Rightarrow> unit logQLMetricSQLPlan" where
  "demoPlan fn window off = \<lparr>plAgg = \<lparr>raFn = fn, raSelector = \<lparr>selMatchers = [], selStages = []\<rparr>, raWindow = window, raOffset = off,
       raGrouping = None, raParam = 0\<rparr>, plGrouping = None, plOuterAgg = ''sum'', plValueExpr = ''toFloat64(sum(log_count))'',
     plGroupLabels = [], plGroupExprs = [], plComparison = None, plTopK = 0, plHasTopK = False, plTopKIsTop = False,
     plUnwrapExpr = [], plFilters = []\<rparr>"


text \<open>A query that joins its rows with the grid, as every query with an offset does, returns nothing at an
  instant when the offset is not shorter than the window: it fetches the rows of the moved window and then joins
  them with the window that is not moved. In memory, a row in the moved window counts.\<close>

theorem offset_join_is_empty:
  assumes "raWindow (plAgg p) \<le> raOffset (plAgg p)" "0 < raWindow (plAgg p)"
    and "in_i64 (ts - raWindow (plAgg p))" "in_i64 (ts - raWindow (plAgg p) - raOffset (plAgg p))" "in_i64 (ts - raOffset (plAgg p))"
  shows "(\<nexists>row. fetched (fetchStart p ts) (fetchEnd p ts) row
       \<and> (\<exists>eval \<in> set (sqlGrid ts step (gridPoints ts ts step)). windowHolds (raWindow (plAgg p)) eval row))
    \<and> inWindow (plAgg p) ts (row\<lparr>tsNS := ts - raOffset (plAgg p)\<rparr>)"
proof -
  have grid: "sqlGrid ts step (gridPoints ts ts step) = [ts]" by (simp add: sqlGrid_def gridPoints_def)
  have "wrap64 (ts - raWindow (plAgg p)) = ts - raWindow (plAgg p)" "wrap64 (ts - raOffset (plAgg p)) = ts - raOffset (plAgg p)"
    "wrap64 (ts - raWindow (plAgg p) - raOffset (plAgg p)) = ts - raWindow (plAgg p) - raOffset (plAgg p)"
    using assms(3-5) by (simp_all add: wrap64_id)
  then show ?thesis
    using assms(1,2) unfolding grid
    by (auto simp: fetched_def fetchStart_def fetchEnd_def windowHolds_def inWindow_def)
qed

theorem offset_join_is_empty_witness:
  "\<nexists>row. fetched (fetchStart (demoPlan ''count_over_time'' 300 3600) 10000) (fetchEnd (demoPlan ''count_over_time'' 300 3600) 10000) row
     \<and> (\<exists>eval \<in> set (sqlGrid 10000 1 (gridPoints 10000 10000 1)). windowHolds 300 eval row)"
  using offset_join_is_empty [of "demoPlan ''count_over_time'' 300 3600" 10000 1 "scanLogRow (demoColumns 1 ''x'')"]
  by (simp add: demoPlan_def in_i64_def)

text \<open>An instant query is evaluated at its own time with a step of one second, so its start need not be a multiple
  of the step: then the buckets do not match the windows. A row 0.3 s before an evaluation at 10.5 s is in its window
  and is not counted; a row at 5.2 s is before the window of 5 s and is counted.\<close>

theorem instant_fanout_misaligned:
  "windowHolds 5000000000 10500000000 10200000000
     \<and> 10500000000 \<notin> set (fanoutTimes 10500000000 10500000000 1000000000 5000000000
         (fanoutRepeats (5000000000 sdiv 1000000000) 10500000000 10500000000 1000000000) (bucketNS 1000000000 10200000000))
   \<and> \<not> windowHolds 5000000000 10500000000 5200000000
     \<and> 10500000000 \<in> set (fanoutTimes 10500000000 10500000000 1000000000 5000000000
         (fanoutRepeats (5000000000 sdiv 1000000000) 10500000000 10500000000 1000000000) (bucketNS 1000000000 5200000000))"
proof -
  have r: "fanoutRepeats (5000000000 sdiv 1000000000) 10500000000 10500000000 1000000000 = 1"
    by (simp add: fanoutRepeats_def logQLRangePoints_def signed_divide_int_def wrap64_id in_i64_def Let_def)
  show ?thesis
    unfolding r by (simp add: fanoutTimes_def windowHolds_def bucketNS_def signed_divide_int_def)
qed

section \<open>The minutes of the stream statistics\<close>

lemma minute_le:
  assumes "0 < c" "(ts :: int) mod c \<noteq> 0"
  shows "ts div c * c + c \<le> c * k \<longleftrightarrow> ts \<le> c * k"
proof -
  have ts: "ts = ts div c * c + ts mod c" by simp
  have m: "0 < ts mod c" "ts mod c < c" using assms pos_mod_sign [of c ts] pos_mod_bound [of c ts] by linarith+
  show ?thesis
  proof
    assume "ts div c * c + c \<le> c * k"
    then show "ts \<le> c * k" using ts m by linarith
  next
    assume "ts \<le> c * k"
    then have "c * (ts div c) < c * k" using ts m by (simp only: mult.commute [of c "ts div c"])
    then have "ts div c + 1 \<le> k" using assms(1) by simp
    then have "c * (ts div c + 1) \<le> c * k" using assms(1) by (intro mult_left_mono) simp_all
    then show "ts div c * c + c \<le> c * k" by (simp add: algebra_simps)
  qed
qed

text \<open>The stream statistics place a row in the windows that hold the end of its minute. For a row inside a minute
  these are its own windows, at evaluation times and windows of whole minutes. For a row on the boundary of a
  minute they are not: the evaluation at that very time includes the row in memory and misses it here.\<close>

theorem minute_windows:
  assumes "60000000000 dvd eval" "60000000000 dvd window" "0 < window"
  shows "(ts mod 60000000000 \<noteq> 0 \<longrightarrow> windowHolds window eval (minuteEnd ts) = windowHolds window eval ts)
    \<and> (\<not> windowHolds window eval (minuteEnd eval) \<and> windowHolds window eval eval)"
proof -
  have e: "minuteEnd eval = eval + 60000000000" using assms(1) by (simp add: minuteEnd_def)
  have "windowHolds window eval (minuteEnd ts) = windowHolds window eval ts" if m: "ts mod 60000000000 \<noteq> 0"
  proof -
    have "minuteEnd ts \<le> x \<longleftrightarrow> ts \<le> x" if "60000000000 dvd x" for x
      using that minute_le [OF _ m] unfolding minuteEnd_def by (auto elim!: dvdE)
    from this [OF assms(1)] this [of "eval - window"] show ?thesis
      using assms(1,2) by (auto simp: windowHolds_def not_le [symmetric])
  qed
  then show ?thesis using assms(3) by (simp add: e windowHolds_def)
qed

theorem minute_windows_witness:
  "windowHolds 300000000000 600000000000 (minuteEnd 420000000001) = windowHolds 300000000000 600000000000 420000000001
     \<and> \<not> windowHolds 300000000000 600000000000 (minuteEnd 600000000000)"
  using minute_windows [of 600000000000 300000000000 420000000001] by simp

end
