(* ===== verification/LogQLPush.thy ===== *)
theory LogQLPush
  imports LogQLSql
begin

text \<open>
  The conditions that LogQL pushes to ClickHouse and the selector that runs in memory
  (src/internal/snuffle/logql.go): when both accept the same rows of the PostHog layout, and the
  rows on which they differ. Also, which parts of a query the metric SQL ignores.
\<close>

section \<open>A row of the PostHog layout\<close>

definition postHogRow :: "logColumns \<Rightarrow> sqlRow" where
  "postHogRow c = \<lparr>
     rowColumn = (\<lambda>name. if name = ''service_name'' then colService c else if name = ''severity_text'' then colSeverity c
       else if name = ''trace_id'' then colTrace c else if name = ''span_id'' then colSpan c
       else if name = ''body'' then colBody c else []),
     rowMap = (\<lambda>name. if name = ''attributes_map_str'' then colAttrs c
       else if name = ''resource_attributes'' then colResource c else [])\<rparr>"

definition coreNames :: "string list" where
  "coreNames = serviceNames @ severityNames @ [''trace_id'', ''span_id'']"

text \<open>Columns in which no attribute stands for a core column: attributes are not empty, end in __str and become
  labels, and only the service name may also be a resource attribute.\<close>

definition storedColumns :: "logColumns \<Rightarrow> bool" where
  "storedColumns c \<longleftrightarrow> distinct (map fst (colAttrs c)) \<and> distinct (map fst (colResource c))
     \<and> (\<forall>(k, v)\<in>set (colAttrs c). hasSuffix k ''__str'' \<and> v \<noteq> [] \<and> attributeLabel k \<noteq> None
         \<and> the (attributeLabel k) \<notin> set coreNames)
     \<and> (\<forall>k\<in>fst ` set (colResource c). k \<in> set coreNames \<longrightarrow> k = ''service.name'')"

lemma map_of_setNonEmpty: "map_of (setNonEmpty ks v m) k = (if v \<noteq> [] \<and> k \<in> set ks then Some v else map_of m k)"
proof -
  have "map_of (fold (\<lambda>k. AList.update k v) ks m) k = (if k \<in> set ks then Some v else map_of m k)" for m
    by (induction ks arbitrary: m) (auto simp: update_conv)
  then show ?thesis by (simp add: setNonEmpty_def)
qed

lemma map_of_copyResource:
  "distinct (map fst res) \<Longrightarrow> map_of (copyResource res m) k =
     (if k = [] then map_of m k else case map_of res k of Some v \<Rightarrow> Some v | None \<Rightarrow> map_of m k)"
proof (induction res m rule: copyResource.induct)
  case (2 key v attrs m)
  then have "map_of attrs key = None" by (auto simp: map_of_eq_None_iff)
  then show ?case using 2 by (auto simp: update_conv split: option.splits)
qed simp

text \<open>The core columns that a name stands for.\<close>

definition coreValue :: "logColumns \<Rightarrow> string \<Rightarrow> string" where
  "coreValue c k = (if k \<in> set serviceNames then colService c
     else if k \<in> {''level'', ''severity_text'', ''detected_level''} then colSeverity c
     else if k = ''trace_id'' then colTrace c else if k = ''span_id'' then colSpan c else [])"

lemma map_of_core: "map_of (setCoreColumns c m) k = (if coreValue c k \<noteq> [] then Some (coreValue c k) else map_of m k)"
  by (simp add: setCoreColumns_def map_of_setNonEmpty coreValue_def serviceNames_def)

lemma stored_attribute:
  assumes "storedColumns c" "map_of (colAttrs c) (k @ ''__str'') = Some v"
  shows "v \<noteq> []" "k \<notin> set coreNames" "k \<noteq> []" "attributeLabel (k @ ''__str'') = Some k"
proof -
  have "(k @ ''__str'', v) \<in> set (colAttrs c)" using assms(2) by (rule map_of_SomeD)
  then have *: "v \<noteq> []" "attributeLabel (k @ ''__str'') \<noteq> None" "the (attributeLabel (k @ ''__str'')) \<notin> set coreNames"
    using assms(1) by (auto simp: storedColumns_def)
  then have "attributeLabel (k @ ''__str'') = Some k \<and> k \<noteq> []"
    by (simp add: attributeLabel_def Let_def split: if_splits)
  then show "v \<noteq> []" "k \<notin> set coreNames" "k \<noteq> []" "attributeLabel (k @ ''__str'') = Some k" using * by auto
qed

lemma scanned_labels:
  assumes "storedColumns c"
  shows "labelGet (rowLabels (scanLogRow c)) k =
    (case map_of (colAttrs c) (k @ ''__str'') of Some v \<Rightarrow> v | None \<Rightarrow> coreValue c k)"
proof -
  have "\<forall>kv\<in>set (colAttrs c). hasSuffix (fst kv) ''__str''" "distinct (map fst (colAttrs c))"
    using assms by (auto simp: storedColumns_def)
  then show ?thesis
    using stored_attribute [OF assms, of k]
    by (auto simp: labelGet_def scanLogRow_def labelsAndFieldsFromLogColumns_def map_of_copyAttributes logLabelsFromCoreColumns_def
        map_of_core split: option.splits)
qed

lemma scanned_fields:
  assumes "storedColumns c" "k \<noteq> []"
  shows "labelGet (rowFields (scanLogRow c)) k =
    (case map_of (colAttrs c) (k @ ''__str'') of Some v \<Rightarrow> v
     | None \<Rightarrow> if coreValue c k \<noteq> [] then coreValue c k else labelGet (colResource c) k)"
proof -
  have "\<forall>kv\<in>set (colAttrs c). hasSuffix (fst kv) ''__str''" "distinct (map fst (colAttrs c))" "distinct (map fst (colResource c))"
    using assms by (auto simp: storedColumns_def)
  then show ?thesis
    using stored_attribute [OF assms(1), of k] assms(2)
    by (auto simp: labelGet_def scanLogRow_def labelsAndFieldsFromLogColumns_def map_of_copyAttributes map_of_core map_of_copyResource
        split: option.splits)
qed

lemma core_attribute: "storedColumns c \<Longrightarrow> k \<in> set coreNames \<Longrightarrow> map_of (colAttrs c) (k @ ''__str'') = None"
  using stored_attribute [of c k] by (cases "map_of (colAttrs c) (k @ ''__str'')") auto

lemma core_resource:
  "storedColumns c \<Longrightarrow> k \<in> set coreNames \<Longrightarrow> k \<noteq> ''service.name'' \<Longrightarrow> labelGet (colResource c) k = []"
  by (auto simp: storedColumns_def labelGet_def dest!: map_of_SomeD split: option.splits)

text \<open>The value that the selector in memory matches.\<close>

definition memoryValue :: "logColumns \<Rightarrow> string \<Rightarrow> string" where
  "memoryValue c name = (let row = scanLogRow c; v = logQLMatcherLabelValue (rowStreamLabels row) name in
     if v = [] then labelGet (rowFields row) name else v)"

lemma matcherLabelValue_general:
  "logQLMatcherLabelValue labels name =
     (if name \<in> set serviceNames then firstNonEmpty labels [name, ''service_name'', ''service.name'']
      else if name \<in> set severityNames then firstNonEmpty labels [name, ''level'', ''severity_text'', ''detected_level'', ''severity'']
      else labelGet labels name)"
  by (simp add: logQLMatcherLabelValue_def labelGet_def)

lemma memory_is_sql:
  assumes "storedColumns c" "name \<noteq> []" "postHogLogSchemaLayout cfg"
  shows "memoryValue c name = sqlValue (postHogRow c) (logQLStreamLabelValueExpr cfg name)"
proof (cases "name \<in> set coreNames")
  case True
  have row: "rowStreamLabels (scanLogRow c) = rowLabels (scanLogRow c)" by (simp add: scanLogRow_def split: prod.split)
  have L: "labelGet (rowLabels (scanLogRow c)) k = coreValue c k" if "k \<in> set coreNames" for k
    by (simp add: scanned_labels assms core_attribute that)
  have lab: "labelGet (rowLabels (scanLogRow c)) ''service_name'' = colService c" "labelGet (rowLabels (scanLogRow c)) ''service.name'' = colService c"
    "labelGet (rowLabels (scanLogRow c)) ''level'' = colSeverity c" "labelGet (rowLabels (scanLogRow c)) ''severity_text'' = colSeverity c"
    "labelGet (rowLabels (scanLogRow c)) ''detected_level'' = colSeverity c" "labelGet (rowLabels (scanLogRow c)) ''severity'' = []"
    "labelGet (rowLabels (scanLogRow c)) ''trace_id'' = colTrace c" "labelGet (rowLabels (scanLogRow c)) ''span_id'' = colSpan c"
    by (simp_all add: L coreNames_def coreValue_def serviceNames_def severityNames_def)
  have F: "labelGet (rowFields (scanLogRow c)) name = (if coreValue c name \<noteq> [] then coreValue c name else labelGet (colResource c) name)"
    by (simp add: scanned_fields assms core_attribute True)
  have A: "labelGet (colAttrs c) ''detected_level__str'' = []"
    using core_attribute [OF assms(1), of "''detected_level''"] by (simp add: coreNames_def severityNames_def labelGet_def)
  have R: "name \<noteq> ''service.name'' \<Longrightarrow> labelGet (colResource c) name = []" using core_resource [OF assms(1) True] .
  have "name \<in> {''service_name'', ''service.name'', ''level'', ''severity'', ''severity_text'', ''detected_level'', ''trace_id'', ''span_id''}"
    using True by (auto simp: coreNames_def serviceNames_def severityNames_def)
  then show ?thesis
    using F R
    by (elim insertE emptyE; simp add: memoryValue_def Let_def row matcherLabelValue_general lab A logQLStreamLabelValueExpr_def assms(3)
        serviceNames_def severityNames_def coreValue_def postHogRow_def)
next
  case False
  have row: "rowStreamLabels (scanLogRow c) = rowLabels (scanLogRow c)" by (simp add: scanLogRow_def split: prod.split)
  have "coreValue c name = []" "name \<notin> set serviceNames" "name \<notin> set severityNames" "name \<noteq> ''trace_id''" "name \<noteq> ''span_id''"
    "name \<noteq> ''service_name''" "name \<noteq> ''service.name''" "name \<noteq> ''detected_level''"
    using False by (auto simp: coreNames_def coreValue_def serviceNames_def severityNames_def)
  then show ?thesis
    using stored_attribute(1) [OF assms(1), of name]
    by (auto simp: memoryValue_def Let_def row matcherLabelValue_general scanned_labels scanned_fields assms logQLStreamLabelValueExpr_def
        logQLPostHogAttributeExpr_def postHogRow_def labelGet_def [of "colAttrs c"] split: option.splits)
qed

section \<open>Pushed conditions\<close>

text \<open>logQLSelectorFullyPushed (loki_api.go): nothing but line filters.\<close>

definition logQLSelectorFullyPushed :: "'re logQLSelector \<Rightarrow> bool" where
  "logQLSelectorFullyPushed s \<longleftrightarrow> list_all (\<lambda>stage. case stage of LineFilterStage f \<Rightarrow> True | _ \<Rightarrow> False) (selStages s)"

text \<open>What is assumed of the two regular expression engines: ClickHouse's match on the emitted pattern agrees with
  the compiled expression. The operators are those that the parser produces.\<close>

definition matcherAgrees :: "'re engine \<Rightarrow> (string \<Rightarrow> string \<Rightarrow> bool) \<Rightarrow> 're logQLLabelMatcher \<Rightarrow> bool" where
  "matcherAgrees en re m \<longleftrightarrow> lmName m \<noteq> [] \<and> lmOp m \<in> {''='', ''!='', ''=~'', ''!~''}
     \<and> (lmOp m \<in> {''=~'', ''!~''} \<longrightarrow> (\<exists>r. lmRe m = Some r \<and> (\<forall>v. re (promRegexToCH (lmValue m)) v = enMatch en r v)))"

definition lineAgrees :: "'re engine \<Rightarrow> (string \<Rightarrow> string \<Rightarrow> bool) \<Rightarrow> 're logQLLineFilter \<Rightarrow> bool" where
  "lineAgrees en re f \<longleftrightarrow>
     (lfOp f \<in> {''|~'', ''!~''} \<longrightarrow> (\<exists>r. lfRe f = Some r \<and> (\<forall>v. re (lfValue f) v = enMatch en r v)))
     \<and> (lfOp f \<in> {''|>'', ''!>''} \<longrightarrow> (\<exists>r. lfRe f = Some r \<and> (\<forall>v. re (enSource en r) v = enMatch en r v)))"

definition selectorAgrees :: "'re engine \<Rightarrow> (string \<Rightarrow> string \<Rightarrow> bool) \<Rightarrow> 're logQLSelector \<Rightarrow> bool" where
  "selectorAgrees en re s \<longleftrightarrow> list_all (matcherAgrees en re) (selMatchers s)
     \<and> (\<forall>f. LineFilterStage f \<in> set (selStages s) \<longrightarrow> lineAgrees en re f)"

lemma string_condition:
  assumes "matcherAgrees en re m"
  shows "rowHolds re q (logQLStringCondition x (lmOp m) (lmValue m) True) = matchesValue en m (sqlValue q x)"
proof -
  have op: "lmOp m \<in> {''='', ''!='', ''=~'', ''!~''}"
    and r: "lmOp m \<in> {''=~'', ''!~''} \<Longrightarrow> \<exists>r. lmRe m = Some r \<and> (\<forall>v. re (promRegexToCH (lmValue m)) v = enMatch en r v)"
    using assms by (simp_all add: matcherAgrees_def)
  note defs = logQLStringCondition_def matchesValue_def
  consider "lmOp m = ''=''" | "lmOp m = ''!=''" | "lmOp m = ''=~''" | "lmOp m = ''!~''" using op unfolding insert_iff empty_iff by blast
  then show ?thesis
  proof cases
    case 3
    then obtain x where "lmRe m = Some x" "\<forall>v. re (promRegexToCH (lmValue m)) v = enMatch en x v" using r by auto
    then show ?thesis by (simp add: defs 3)
  next
    case 4
    then obtain x where "lmRe m = Some x" "\<forall>v. re (promRegexToCH (lmValue m)) v = enMatch en x v" using r by auto
    then show ?thesis by (simp add: defs 4)
  qed (simp_all add: defs)
qed

lemma matcher_condition:
  assumes "matcherAgrees en re m" "storedColumns c" "postHogLogSchemaLayout cfg"
  shows "rowHolds re (postHogRow c) (logQLMatcherCondition cfg m) = matchesValue en m (memoryValue c (lmName m))"
proof -
  have n: "lmName m \<noteq> []" using assms(1) by (simp add: matcherAgrees_def)
  show ?thesis by (simp only: logQLMatcherCondition_def string_condition [OF assms(1)] memory_is_sql [OF assms(2) n assms(3)])
qed

lemma line_condition:
  assumes "lineAgrees en re f"
  shows "rowHolds re (postHogRow c) (logQLLineFilterCondition en f) = lineMatches en f (colBody c)"
proof -
  have re: "lfOp f = op \<Longrightarrow> op \<in> {''|~'', ''!~''} \<Longrightarrow> \<exists>r. lfRe f = Some r \<and> (\<forall>v. re (lfValue f) v = enMatch en r v)"
    "lfOp f = op \<Longrightarrow> op \<in> {''|>'', ''!>''} \<Longrightarrow> \<exists>r. lfRe f = Some r \<and> (\<forall>v. re (enSource en r) v = enMatch en r v)" for op
    using assms by (simp_all add: lineAgrees_def)
  note defs = logQLLineFilterCondition_def lineMatches_def postHogRow_def Let_def
  consider "lfOp f = ''|=''" | "lfOp f = ''!=''" | "lfOp f = ''|~''" | "lfOp f = ''!~''" | "lfOp f = ''|>''" | "lfOp f = ''!>''"
    | "lfOp f \<notin> {''|='', ''!='', ''|~'', ''!~'', ''|>'', ''!>''}" by blast
  then show ?thesis
  proof cases
    case 3
    then obtain x where "lfRe f = Some x" "\<forall>v. re (lfValue f) v = enMatch en x v" using re(1) by blast
    then show ?thesis by (simp add: defs 3)
  next
    case 4
    then obtain x where "lfRe f = Some x" "\<forall>v. re (lfValue f) v = enMatch en x v" using re(1) by blast
    then show ?thesis by (simp add: defs 4)
  next
    case 5
    then obtain x where "lfRe f = Some x" "\<forall>v. re (enSource en x) v = enMatch en x v" using re(2) by blast
    then show ?thesis by (simp add: defs 5)
  next
    case 6
    then obtain x where "lfRe f = Some x" "\<forall>v. re (enSource en x) v = enMatch en x v" using re(2) by blast
    then show ?thesis by (simp add: defs 6)
  qed (simp_all add: defs)
qed

lemma selectorAccepts_memory:
  "selectorAccepts en s (scanLogRow c) = list_all (\<lambda>m. matchesValue en m (memoryValue c (lmName m))) (selMatchers s)"
  by (simp add: selectorAccepts_def memoryValue_def scanLogRow_def Let_def split: prod.split)

lemma matchers_condition:
  assumes "selectorAgrees en re s" "storedColumns c" "postHogLogSchemaLayout cfg"
  shows "list_all (rowHolds re (postHogRow c) \<circ> logQLMatcherCondition cfg) (selMatchers s) = selectorAccepts en s (scanLogRow c)"
  unfolding selectorAccepts_memory using assms
  by (simp add: list_all_iff selectorAgrees_def matcher_condition [where en = en] cong: ball_cong)

lemma lines_exact:
  assumes "list_all (\<lambda>stage. case stage of LineFilterStage f \<Rightarrow> True | _ \<Rightarrow> False) stages"
    and "\<forall>f. LineFilterStage f \<in> set stages \<longrightarrow> lineAgrees en re f" "lineText row = colBody c"
  shows "applyStages en stages row = (if list_all (rowHolds re (postHogRow c)) (pushedLineFilters en stages) then Some row else None)"
  using assms(1,2)
proof (induction stages)
  case (Cons stage stages)
  then obtain f where f: "stage = LineFilterStage f" by (cases stage) auto
  show ?case using Cons by (simp add: f applyStage_def line_condition assms(3))
qed simp

lemma applyStage_line:
  assumes "applyStage en stage row = Some row'" "stage \<noteq> DecolorizeStage" "\<And>tpl. stage \<noteq> LineFormatStage tpl"
  shows "lineText row' = lineText row"
proof -
  have "lineText (fold (applyLabelFormat en) fs row) = lineText row" for fs
    by (induction fs arbitrary: row) (simp_all add: applyLabelFormat_def split: logQLLabelFormat.split)
  moreover have "lineText (fold setField kvs row) = lineText row" for kvs
    by (induction kvs arbitrary: row) (simp_all add: setField_def)
  moreover have "lineText (fold (\<lambda>(name, v) row. if name = [] then row else setField (sanitizeLogLabelName name, v) row) kvs row) = lineText row" for kvs
    by (induction kvs arbitrary: row) (auto simp: setField_def)
  ultimately show ?thesis using assms
    by (cases stage)
      (auto simp: applyStage_def applyUnwrap_def setLogQLParserError_def applyParser_def applyNamedCaptureParser_def setField_def
        split: if_split_asm option.splits prod.splits sum.splits)
qed

text \<open>The pushed line filters hold for every row that the stages keep, when none of them changes the line unseen.\<close>

lemma lines_kept:
  assumes "applyStages en stages row \<noteq> None" "DecolorizeStage \<notin> set stages" "lineText row = colBody c"
    and "\<forall>f. LineFilterStage f \<in> set stages \<longrightarrow> lineAgrees en re f"
  shows "list_all (rowHolds re (postHogRow c)) (pushedLineFilters en stages)"
  using assms
proof (induction stages arbitrary: row)
  case (Cons stage stages)
  obtain row' where row': "applyStage en stage row = Some row'" "applyStages en stages row' \<noteq> None"
    using Cons.prems(1) by (auto split: option.split_asm)
  show ?case
  proof (cases "\<exists>tpl. stage = LineFormatStage tpl")
    case False
    then have "lineText row' = colBody c"
      using applyStage_line [OF row'(1)] Cons.prems(2,3) by auto
    with row'(2) have rest: "list_all (rowHolds re (postHogRow c)) (pushedLineFilters en stages)"
      using Cons.prems by (intro Cons.IH) auto
    show ?thesis
    proof (cases stage)
      case (LineFilterStage f)
      then have "lineMatches en f (colBody c)" using row'(1) Cons.prems(3) by (simp add: applyStage_def split: if_split_asm)
      moreover have "lineAgrees en re f" using Cons.prems(4) LineFilterStage by simp
      ultimately show ?thesis using rest LineFilterStage by (simp add: line_condition)
    qed (use rest False in auto)
  qed auto
qed simp

section \<open>When SQL and memory agree\<close>

lemma selector_conditions_split:
  assumes "postHogLogSchemaLayout cfg" "storedColumns c" "selectorAgrees en re s"
  shows "list_all (rowHolds re (postHogRow c)) (selectorConditions cfg en s)
      = (selectorAccepts en s (scanLogRow c) \<and> list_all (rowHolds re (postHogRow c)) (pushedLineFilters en (selStages s)))"
  by (simp add: selectorConditions_def list.pred_map matchers_condition [OF assms(3,2,1)])

lemma kept_rows_selected:
  assumes "postHogLogSchemaLayout cfg" "storedColumns c" "selectorAgrees en re s"
    and "DecolorizeStage \<notin> set (selStages s)" "applySelector en s (scanLogRow c) \<noteq> None"
  shows "list_all (rowHolds re (postHogRow c)) (selectorConditions cfg en s)"
proof -
  have line: "lineText (scanLogRow c) = colBody c" by (simp add: scanLogRow_def split: prod.split)
  have "\<forall>f. LineFilterStage f \<in> set (selStages s) \<longrightarrow> lineAgrees en re f"
    using assms(3) by (simp add: selectorAgrees_def)
  then show ?thesis
    using lines_kept [OF _ assms(4) line, of en re] assms(5)
    by (simp add: selector_conditions_split [OF assms(1-3)] applySelector_def split: if_split_asm)
qed


definition demoLogs :: "string \<Rightarrow> Config" where
  "demoLogs layout = \<lparr>CHDatabase = ''default'', SchemaLayout = ''current'', SeriesTable = [], SamplesTable = [], LabelIndexTable = [],
     AttributeTable = [], MetricNamesTable = [], AttributeTableHasMetricName = False, ActivityTable = [], LogSchemaLayout = layout,
     HistogramsTable = [], ExemplarsTable = [], MetricsTable = [], MetricsInputTable = [], SampleAttributes = False,
     MetricsRetention = 0, MaxSeries = 0, IDChunkSize = 0, RangeQueryThreads = 0, TeamID = 7, LogsTable = ''logs'',
     LogStreamsTable = ''log_streams'', LogStreamLabelsTable = ''log_stream_labels'', LogStreamStatsTable = ''log_stream_stats'',
     LogRetention = 0, LogQueryMaxRows = 100000, LogAttributesTable = []\<rparr>"

lemma demoLogs_posthog: "postHogLogSchemaLayout (demoLogs ''posthog'')"
proof -
  have "toLower (trimSpace ''posthog'') = ''posthog''"
    by (simp add: trimSpace_def toLower_def runes_ascii isSpaceRune_def lowerRune_def encodeRune_def char_of_def bit_0)
  then show ?thesis by (simp add: postHogLogSchemaLayout_def storageLogSchemaLayout_def demoLogs_def Let_def)
qed

definition matcherOf :: "string \<Rightarrow> string \<Rightarrow> string \<Rightarrow> unit logQLLabelMatcher" where
  "matcherOf name op v = \<lparr>lmName = name, lmOp = op, lmValue = v, lmRe = None\<rparr>"

definition demoPushed :: "unit logQLSelector" where
  "demoPushed = \<lparr>selMatchers = [matcherOf ''app'' ''='' ''api'', matcherOf ''level'' ''!='' ''debug''],
     selStages = [LineFilterStage \<lparr>lfOp = ''|='', lfValue = ''x'', lfRe = None\<rparr>]\<rparr>"

definition storedDemo :: logColumns where
  "storedDemo = \<lparr>colTime = 1, colObserved = 1, colBody = ''x'', colService = ''web'', colSeverity = ''info'', colTrace = [], colSpan = [],
     colResource = [(''service.name'', ''web'')], colAttrs = [(''app__str'', ''api'')]\<rparr>"

lemma storedDemo_ok: "storedColumns storedDemo"
  by (simp add: storedColumns_def storedDemo_def hasSuffix_def attributeLabel_def legacyLokiStreamLabelsAttributeKey_def
      legacyLokiEntryMetadataAttributeKey_def trimSuffix_def coreNames_def serviceNames_def severityNames_def)


section \<open>Where they differ\<close>

text \<open>In the PostHog layout a matcher on the level selects by the severity column, and a pipeline that is filtered in
  memory selects again by the level label, which an attribute named level replaces. A row whose attribute differs
  from its column is then found by no equality matcher on the level.\<close>

theorem level_attribute_hides_row:
  assumes "postHogLogSchemaLayout cfg" "colAttrs c = [(''level__str'', v)]" "v \<noteq> []" "v \<noteq> colSeverity c"
  shows "\<not> (\<exists>s m. m \<in> set (selMatchers s) \<and> lmName m = ''level'' \<and> lmOp m = ''=''
    \<and> list_all (rowHolds re (postHogRow c)) (selectorConditions cfg en s)
    \<and> applySelector en s (scanLogRow c) \<noteq> None)"
proof (intro notI, elim exE conjE)
  fix s m
  assume m: "m \<in> set (selMatchers s)" "lmName m = ''level''" "lmOp m = ''=''"
    and sql: "list_all (rowHolds re (postHogRow c)) (selectorConditions cfg en s)"
    and mem: "applySelector en s (scanLogRow c) \<noteq> None"
  have "rowHolds re (postHogRow c) (logQLMatcherCondition cfg m)"
    using sql m(1) by (auto simp: selectorConditions_def list_all_iff)
  then have "colSeverity c = lmValue m"
    using assms(1) m(2,3) by (simp add: logQLMatcherCondition_def logQLStringCondition_def logQLStreamLabelValueExpr_def
        severityNames_def postHogRow_def)
  moreover have "matchesValue en m (memoryValue c (lmName m))"
    using mem m(1) unfolding applySelector_def selectorAccepts_memory by (auto simp: list_all_iff split: if_split_asm)
  then have "memoryValue c ''level'' = lmValue m" using m(2,3) by (simp add: matchesValue_def)
  moreover have "labelGet (rowStreamLabels (scanLogRow c)) ''level'' = v"
    using assms(2) by (simp add: scanLogRow_def labelsAndFieldsFromLogColumns_def attributeLabel_def trimSuffix_def hasSuffix_def
        legacyLokiStreamLabelsAttributeKey_def legacyLokiEntryMetadataAttributeKey_def labelGet_def update_conv)
  then have "memoryValue c ''level'' = v"
    using assms(3) by (simp add: memoryValue_def Let_def matcherLabelValue_general serviceNames_def severityNames_def)
  ultimately show False using assms(4) by simp
qed

theorem level_attribute_hides_row_witness:
  "\<not> (\<exists>s m. m \<in> set (selMatchers s) \<and> lmName m = ''level'' \<and> lmOp m = ''=''
    \<and> list_all (rowHolds (\<lambda>_ _. True) (postHogRow (storedDemo\<lparr>colAttrs := [(''level__str'', ''warn'')]\<rparr>)))
        (selectorConditions (demoLogs ''posthog'') demoLogEngine s)
    \<and> applySelector demoLogEngine s (scanLogRow (storedDemo\<lparr>colAttrs := [(''level__str'', ''warn'')]\<rparr>)) \<noteq> None)"
  by (rule level_attribute_hides_row [where v = "''warn''", OF demoLogs_posthog]) (simp_all add: storedDemo_def)

lemma decolorize_eqs:
  "decolorizeLogLine [] = []"
  "decolorizeLogLine (c # t) = (case ansiEscape (c # t) of Some rest \<Rightarrow> decolorizeLogLine rest | None \<Rightarrow> c # decolorizeLogLine t)"
  by (subst decolorizeLogLine.simps, simp)+

text \<open>A line filter after decolorize is pushed as a condition on the stored line: a line whose colours are removed
  in the middle of the searched word passes the pipeline and not its condition, so it is never fetched.\<close>

theorem decolorized_line_lost:
  "\<exists>c. applySelector en \<lparr>selMatchers = [], selStages = [DecolorizeStage, LineFilterStage \<lparr>lfOp = ''|='', lfValue = ''error'', lfRe = None\<rparr>]\<rparr>
      (scanLogRow c) \<noteq> None
    \<and> \<not> list_all (rowHolds re (postHogRow c)) (selectorConditions cfg en
        \<lparr>selMatchers = [], selStages = [DecolorizeStage, LineFilterStage \<lparr>lfOp = ''|='', lfValue = ''error'', lfRe = None\<rparr>]\<rparr>)"
proof (intro exI [of _ "storedDemo\<lparr>colBody := ''err'' @ [CHR 0x1B] @ ''[31mor''\<rparr>"] conjI)
  let ?c = "storedDemo\<lparr>colBody := ''err'' @ [CHR 0x1B] @ ''[31mor''\<rparr>"
  have "decolorizeLogLine (''err'' @ [CHR 0x1B] @ ''[31mor'') = ''error''"
    by (simp add: decolorize_eqs ansiEscape_def hasPrefix_def digitByte_def)
  then show "applySelector en \<lparr>selMatchers = [], selStages = [DecolorizeStage, LineFilterStage \<lparr>lfOp = ''|='', lfValue = ''error'', lfRe = None\<rparr>]\<rparr>
      (scanLogRow ?c) \<noteq> None"
    by (simp add: applySelector_def selectorAccepts_def applyStage_def lineMatches_def containsText_def indexOf_def hasPrefix_def
        scanLogRow_def storedDemo_def split: prod.split)
  show "\<not> list_all (rowHolds re (postHogRow ?c)) (selectorConditions cfg en
        \<lparr>selMatchers = [], selStages = [DecolorizeStage, LineFilterStage \<lparr>lfOp = ''|='', lfValue = ''error'', lfRe = None\<rparr>]\<rparr>)"
    by (simp add: selectorConditions_def logQLLineFilterCondition_def postHogRow_def containsText_def indexOf_def hasPrefix_def storedDemo_def)
qed

section \<open>What the metric queries leave out\<close>

text \<open>A plan whose outer aggregation and range grouping are replaced has the same query.\<close>

abbreviation regrouped :: "'re logQLMetricSQLPlan \<Rightarrow> string \<Rightarrow> logQLGrouping option \<Rightarrow> 're logQLMetricSQLPlan" where
  "regrouped p outer g \<equiv> p\<lparr>plOuterAgg := outer, plAgg := (plAgg p)\<lparr>raGrouping := g\<rparr>\<rparr>"

lemma regrouped_parts:
  "planAliases (regrouped p outer g) = planAliases p" "aliasedExprs (regrouped p outer g) = aliasedExprs p"
  "logQLMetricBaseFilters cfg (regrouped p outer g) = logQLMetricBaseFilters cfg p"
  "logQLMetricResultSQL sq sql (regrouped p outer g) = logQLMetricResultSQL sq sql p"
  "fetchStart (regrouped p outer g) = fetchStart p" "fetchEnd (regrouped p outer g) = fetchEnd p"
  "logQLUnwrapMetricSourceSQL cfg (regrouped p outer g) = logQLUnwrapMetricSourceSQL cfg p"
  "logQLUnwrapWindowAggregateExpr sq ((plAgg p)\<lparr>raGrouping := g\<rparr>) = logQLUnwrapWindowAggregateExpr sq (plAgg p)"
  "logQLMetricBucketSQLSafe (regrouped p outer g) = logQLMetricBucketSQLSafe p"
  "logQLUnwrapMetricBucketSQLSafe (regrouped p outer g) = logQLUnwrapMetricBucketSQLSafe p"
  "logQLMetricSnuffleStatsSQLSafe cfg (regrouped p outer g) = logQLMetricSnuffleStatsSQLSafe cfg p"
  "logQLSnuffleStatsLabelIndexJoinCount cfg en (regrouped p outer g) = logQLSnuffleStatsLabelIndexJoinCount cfg en p"
  "logQLSnuffleStatsIndexedTableSQL cfg (regrouped p outer g) = logQLSnuffleStatsIndexedTableSQL cfg p"
  "statsValueExpr sq ((plAgg p)\<lparr>raGrouping := g\<rparr>) = statsValueExpr sq (plAgg p)"
  by (simp_all add: fun_eq_iff planAliases_def aliasedExprs_def logQLMetricBaseFilters_def logQLMetricResultSQL_def
      logQLMetricResultOrderBy_def fetchStart_def fetchEnd_def logQLUnwrapMetricSourceSQL_def logQLUnwrapWindowAggregateExpr_def
      logQLMetricBucketSQLSafe_def logQLUnwrapMetricBucketSQLSafe_def logQLMetricSnuffleStatsSQLSafe_def
      logQLSnuffleStatsLabelIndexJoinCount_def logQLSnuffleStatsIndexedTableSQL_def statsValueExpr_def Let_def
      cong: if_cong)

lemma regrouped_sql: "logQLMetricSQL cfg sq (regrouped p outer g) = logQLMetricSQL cfg sq p"
  by (simp add: fun_eq_iff regrouped_parts logQLMetricSQL_def unwrapMetricSQL_def unwrapBucketMetricSQL_def statsMetricSQL_def
      bucketMetricSQL_def countMetricSQL_def crossJoinSQL_def fanoutSelectSQL_def statsBucketSQL_def statsFrameSQL_def Let_def cong: if_cong)

lemma regrouped_build:
  assumes "grp \<noteq> None" "grp = (if g = None then raGrouping agg else g)"
  shows "map_option (\<lambda>p. regrouped p [] grp) (buildLogQLRangeAggSQLPlan cfg sq agg g outer)
    = buildLogQLRangeAggSQLPlan cfg sq (agg\<lparr>raGrouping := grp\<rparr>) None []"
proof -
  have "countValueExpr sq (agg\<lparr>raGrouping := grp\<rparr>) = countValueExpr sq agg"
    "buildLogQLUnwrapMetricSQL cfg sq (agg\<lparr>raGrouping := grp\<rparr>) = buildLogQLUnwrapMetricSQL cfg sq agg"
    by (simp_all add: countValueExpr_def buildLogQLUnwrapMetricSQL_def Let_def cong: if_cong)
  then show ?thesis
    using assms(1) unfolding buildLogQLRangeAggSQLPlan_def Let_def assms(2) [symmetric]
    by (cases "buildLogQLUnwrapMetricSQL cfg sq agg") (auto simp: option.map_comp o_def split: prod.split option.split)
qed

text \<open>In SQL the outer aggregation is ignored: a sum over a range aggregation runs the very query of the range
  aggregation alone, grouped as the sum, or as the range aggregation when the sum has no grouping. So the sum
  of averages is an average, and the sum of a grouped count stays one series for each group.\<close>

theorem outer_sum_ignored:
  assumes "grp \<noteq> None" "grp = (if g = None then raGrouping agg else g)"
  shows "map_option (\<lambda>p. logQLMetricSQL cfg sq p startNS endNS step) (buildLogQLMetricSQLPlan cfg sq (Aggregation ''sum'' g (RangeAgg agg None) cmp))
    = map_option (\<lambda>p. logQLMetricSQL cfg sq p startNS endNS step) (buildLogQLMetricSQLPlan cfg sq (RangeAgg (agg\<lparr>raGrouping := grp\<rparr>) cmp))"
proof -
  have "logQLMetricSQL cfg sq ((regrouped p [] grp)\<lparr>plComparison := cmp\<rparr>) = logQLMetricSQL cfg sq (p\<lparr>plComparison := cmp\<rparr>)" for p
  proof -
    have "(regrouped p [] grp)\<lparr>plComparison := cmp\<rparr> = regrouped (p\<lparr>plComparison := cmp\<rparr>) [] grp" by (cases p) simp
    then show ?thesis by (simp only: regrouped_sql)
  qed
  then show ?thesis
    using regrouped_build [OF assms, of cfg sq "''sum''", symmetric] by (simp add: option.map_comp o_def)
qed

definition demoSqlEngine :: "unit sqlEngine" where
  "demoSqlEngine = \<lparr>sqEngine = demoLogEngine, sqNames = (\<lambda>_. []), sqFormatG = (\<lambda>_. ''0'')\<rparr>"

theorem outer_sum_ignored_witness:
  "map_option (\<lambda>p. logQLMetricSQL (demoLogs ''posthog'') demoSqlEngine p 0 60 60) (buildLogQLMetricSQLPlan (demoLogs ''posthog'') demoSqlEngine
      (Aggregation ''sum'' None (RangeAgg (demoCount\<lparr>raGrouping := Some \<lparr>grpWithout = False, grpLabels = [''app'']\<rparr>\<rparr>) None) None))
    = map_option (\<lambda>p. logQLMetricSQL (demoLogs ''posthog'') demoSqlEngine p 0 60 60) (buildLogQLMetricSQLPlan (demoLogs ''posthog'') demoSqlEngine
      (RangeAgg (demoCount\<lparr>raGrouping := Some \<lparr>grpWithout = False, grpLabels = [''app'']\<rparr>\<rparr>) None))"
  using outer_sum_ignored [of "Some \<lparr>grpWithout = False, grpLabels = [''app'']\<rparr>" None
      "demoCount\<lparr>raGrouping := Some \<lparr>grpWithout = False, grpLabels = [''app'']\<rparr>\<rparr>" "demoLogs ''posthog''" demoSqlEngine 0 60 60 None]
  by simp

end
