(* ===== verification/LogQLFetch.thy ===== *)
theory LogQLFetch
  imports LogQLWindow LogQLPush
begin

text \<open>
  Fetching the rows of a LogQL query (src/internal/snuffle/loki_api.go, queryLogQLRows to
  ceilUnixNanoTime): how many rows are asked for, which selectors and which time range are read for a
  metric query, and the alignment of a range to its step. ClickHouse is a parameter of the
  functions: a query text is answered with the columns of its rows, or with an error. A value None is
  the panic of an invalid table name. What a query returns is a hypothesis of the theorems: the
  rows of the table that satisfy its conditions, in its order, up to its limit.
\<close>

type_synonym logStore = "string \<Rightarrow> logQLError + logColumns list"

section \<open>Streams\<close>

definition logQLCandidateLimit :: "'re logQLSelector \<Rightarrow> int \<Rightarrow> int \<Rightarrow> int" where
  "logQLCandidateLimit s limit maxRows =
     (if limit \<le> 0 \<or> maxRows < limit then maxRows
      else if \<not> logQLSelectorFullyPushed s then maxRows
      else let candidateLimit = wrap64 (limit + (if limit < 256 then limit else 256)) in
        if maxRows < candidateLimit then maxRows else candidateLimit)"

text \<open>The rows of one query, and how many there were before the selector ran.\<close>

definition fetchCandidates ::
  "logStore \<Rightarrow> Config \<Rightarrow> 're engine \<Rightarrow> 're logQLSelector \<Rightarrow> int \<Rightarrow> int \<Rightarrow> string \<Rightarrow> int \<Rightarrow> (logQLError + (int \<times> logRow list)) option" where
  "fetchCandidates ch cfg en s startNS endNS direction candidateLimit =
     (if logQLSelectorFullyPushed s then
        map_option (\<lambda>sql. map_sum id (\<lambda>cols. let rows = scanLogStreamRows cols s in (int (length rows), rows)) (ch sql))
          (logQLRawStreamSelectSQL cfg en s startNS endNS candidateLimit direction)
      else
        map_option (\<lambda>sql. map_sum id (\<lambda>cols. let rows = scanLogRows cols in (int (length rows), applyLogQLSelector en rows s)) (ch sql))
          (logQLRawSelectSQL cfg en s startNS endNS candidateLimit direction))"

definition nextCandidateLimit :: "int \<Rightarrow> int \<Rightarrow> int" where
  "nextCandidateLimit maxRows candidateLimit =
     (let next = wrap64 (candidateLimit * 2); next = (if next \<le> candidateLimit then maxRows else next) in
      if maxRows < next then maxRows else next)"

lemma nextCandidateLimit_progress: "c < maxRows \<Longrightarrow> c < nextCandidateLimit maxRows c \<and> nextCandidateLimit maxRows c \<le> maxRows"
  by (simp add: nextCandidateLimit_def Let_def)

text \<open>The loop: a query returns the rows, or the next limit is tried. The limits grow up to the maximum.\<close>

function queryRowsLoop :: "(int \<Rightarrow> (logQLError + (int \<times> logRow list)) option) \<Rightarrow> int \<Rightarrow> int \<Rightarrow> int \<Rightarrow> (logQLError + logRow list) option" where
  "queryRowsLoop run limit maxRows candidateLimit = (case run candidateLimit of
     None \<Rightarrow> None
   | Some (Inl e) \<Rightarrow> Some (Inl e)
   | Some (Inr (rawCount, rows)) \<Rightarrow>
       if limit \<le> int (length rows) \<or> rawCount < candidateLimit \<or> maxRows \<le> candidateLimit
       then Some (Inr (if limit < int (length rows) then take (nat limit) rows else rows))
       else queryRowsLoop run limit maxRows (nextCandidateLimit maxRows candidateLimit))"
  by pat_completeness auto
termination
  by (relation "measure (\<lambda>(run, limit, maxRows, candidateLimit). nat (maxRows - candidateLimit))")
    (use nextCandidateLimit_progress in \<open>force simp: not_le\<close>)+

declare queryRowsLoop.simps [simp del]

definition queryLogQLRows ::
  "logStore \<Rightarrow> Config \<Rightarrow> 're engine \<Rightarrow> 're logQLSelector \<Rightarrow> int \<Rightarrow> int \<Rightarrow> int \<Rightarrow> string \<Rightarrow> (logQLError + logRow list) option" where
  "queryLogQLRows ch cfg en s startNS endNS limit0 direction =
     (let maxRows = configMaxRows cfg; limit = clampLimit cfg limit0 in
      queryRowsLoop (fetchCandidates ch cfg en s startNS endNS direction) limit maxRows (logQLCandidateLimit s limit maxRows))"

section \<open>Metrics\<close>

fun firstLogQLSelector :: "'re logQLExpr \<Rightarrow> 're logQLSelector option" where
  "firstLogQLSelector (LogSelector s) = Some s"
| "firstLogQLSelector (RangeAgg agg cmp) = Some (raSelector agg)"
| "firstLogQLSelector (Aggregation fn g child cmp) = firstLogQLSelector child"
| "firstLogQLSelector (TopK fn k child isTop cmp) = firstLogQLSelector child"
| "firstLogQLSelector (LabelReplace child dst repl src re) = firstLogQLSelector child"
| "firstLogQLSelector (LabelJoin child dst separator srcs) = firstLogQLSelector child"
| "firstLogQLSelector (BinaryOp op le re b m) = (case firstLogQLSelector le of Some s \<Rightarrow> Some s | None \<Rightarrow> firstLogQLSelector re)"
| "firstLogQLSelector _ = None"

fun collectLogQLSelectors :: "'re logQLExpr \<Rightarrow> 're logQLSelector list" where
  "collectLogQLSelectors (LogSelector s) = [s]"
| "collectLogQLSelectors (RangeAgg agg cmp) = [raSelector agg]"
| "collectLogQLSelectors (Aggregation fn g child cmp) = collectLogQLSelectors child"
| "collectLogQLSelectors (TopK fn k child isTop cmp) = collectLogQLSelectors child"
| "collectLogQLSelectors (LabelReplace child dst repl src re) = collectLogQLSelectors child"
| "collectLogQLSelectors (LabelJoin child dst separator srcs) = collectLogQLSelectors child"
| "collectLogQLSelectors (BinaryOp op le re b m) = collectLogQLSelectors le @ collectLogQLSelectors re"
| "collectLogQLSelectors _ = []"

text \<open>The fields kind, lineFilter, parser, parserParam and lineFormat of a stage.\<close>

fun stageKind :: "'re logQLStage \<Rightarrow> string" where
  "stageKind (LineFilterStage f) = ''line_filter''"
| "stageKind (ParserStage p q) = ''parser''"
| "stageKind (LabelFilterStage fs) = ''label_filter''"
| "stageKind (LineFormatStage tpl) = ''line_format''"
| "stageKind (LabelFormatStage fs) = ''label_format''"
| "stageKind (DropStage ls) = ''drop''"
| "stageKind (KeepStage ls) = ''keep''"
| "stageKind DecolorizeStage = ''decolorize''"
| "stageKind (UnwrapStage l f) = ''unwrap''"

definition stageKey :: "'re logQLStage \<Rightarrow> string" where
  "stageKey stage = stageKind stage @ [CHR 0x00]
     @ (case stage of LineFilterStage f \<Rightarrow> lfOp f @ [CHR 0x00] @ lfValue f | _ \<Rightarrow> []) @ [CHR 0x00]
     @ (case stage of ParserStage p q \<Rightarrow> p | _ \<Rightarrow> []) @ [CHR 0x00]
     @ (case stage of ParserStage p q \<Rightarrow> q | _ \<Rightarrow> []) @ [CHR 0x00]
     @ (case stage of LineFormatStage tpl \<Rightarrow> tpl | _ \<Rightarrow> []) @ [CHR 0xFF]"

definition logQLSelectorKey :: "'re logQLSelector \<Rightarrow> string" where
  "logQLSelectorKey s = concat (map (\<lambda>m. lmName m @ [CHR 0x00] @ lmOp m @ [CHR 0x00] @ lmValue m @ [CHR 0x00]) (selMatchers s))
     @ [CHR 0xFF] @ concat (map stageKey (selStages s))"

text \<open>The loop over the selectors: one query for each key, its rows appended.\<close>

definition tooManyRows :: "int \<Rightarrow> logQLError" where
  "tooManyRows maxRows = Err ''query needs more than %d log lines evaluated outside ClickHouse'' [intDec maxRows]"

fun metricRowsLoop ::
  "('re logQLSelector \<Rightarrow> (logQLError + logColumns list) option) \<Rightarrow> int \<Rightarrow> string list \<Rightarrow> logRow list \<Rightarrow> 're logQLSelector list
     \<Rightarrow> (logQLError + logRow list) option" where
  "metricRowsLoop run maxRows seen allRows [] = Some (Inr allRows)"
| "metricRowsLoop run maxRows seen allRows (s # ss) =
     (if logQLSelectorKey s \<in> set seen then metricRowsLoop run maxRows seen allRows ss
      else case run s of
        None \<Rightarrow> None
      | Some (Inl e) \<Rightarrow> Some (Inl e)
      | Some (Inr cols) \<Rightarrow> (let rows = scanLogRows cols in
          if maxRows < int (length rows) then Some (Inl (tooManyRows maxRows))
          else metricRowsLoop run maxRows (logQLSelectorKey s # seen) (allRows @ rows) ss))"

definition queryLogQLMetricRows ::
  "logStore \<Rightarrow> Config \<Rightarrow> 're engine \<Rightarrow> 're logQLExpr \<Rightarrow> int \<Rightarrow> int \<Rightarrow> (logQLError + logRow list) option" where
  "queryLogQLMetricRows ch cfg en e startNS endNS =
     (let maxRows = configMaxRows cfg; fetchCfg = cfg\<lparr>LogQueryMaxRows := maxRows + 1\<rparr> in
      metricRowsLoop (\<lambda>s. map_option ch (logQLSelectSQL fetchCfg en s startNS endNS (maxRows + 1) ''forward'')) maxRows [] []
        (collectLogQLSelectors e))"

definition maxDuration :: "int \<Rightarrow> int \<Rightarrow> int" where
  "maxDuration a b = (if b < a then a else b)"

fun maxLogQLWindow :: "'re logQLExpr \<Rightarrow> int" where
  "maxLogQLWindow (RangeAgg agg cmp) = raWindow agg"
| "maxLogQLWindow (Aggregation fn g child cmp) = maxLogQLWindow child"
| "maxLogQLWindow (TopK fn k child isTop cmp) = maxLogQLWindow child"
| "maxLogQLWindow (LabelReplace child dst repl src re) = maxLogQLWindow child"
| "maxLogQLWindow (LabelJoin child dst separator srcs) = maxLogQLWindow child"
| "maxLogQLWindow (BinaryOp op le re b m) = maxDuration (maxLogQLWindow le) (maxLogQLWindow re)"
| "maxLogQLWindow _ = 0"

fun maxLogQLOffset :: "'re logQLExpr \<Rightarrow> int" where
  "maxLogQLOffset (RangeAgg agg cmp) = raOffset agg"
| "maxLogQLOffset (Aggregation fn g child cmp) = maxLogQLOffset child"
| "maxLogQLOffset (TopK fn k child isTop cmp) = maxLogQLOffset child"
| "maxLogQLOffset (LabelReplace child dst repl src re) = maxLogQLOffset child"
| "maxLogQLOffset (LabelJoin child dst separator srcs) = maxLogQLOffset child"
| "maxLogQLOffset (BinaryOp op le re b m) = maxDuration (maxLogQLOffset le) (maxLogQLOffset re)"
| "maxLogQLOffset _ = 0"

definition logQLMetricFetchBounds :: "'re logQLExpr \<Rightarrow> int \<Rightarrow> int \<Rightarrow> int \<times> int" where
  "logQLMetricFetchBounds e startNS endNS =
     (wrap64 (wrap64 (startNS - maxLogQLWindow e) - maxLogQLOffset e), wrap64 (endNS - maxLogQLOffset e))"

section \<open>Alignment of a range\<close>

text \<open>A time.Time by its nanoseconds since 1970, of any size. UnixNano is exact in the range of an int64, and
  time.Unix(0, value) gives back such a value.\<close>

definition ceilUnixNanoTime :: "int \<Rightarrow> int \<Rightarrow> logQLError + int" where
  "ceilUnixNanoTime t stepNS =
     (let v = wrap64 t in
      if v \<noteq> t then Inl (Err ''timestamp out of range'' [])
      else let rem = v smod stepNS in
        if 0 < rem then
          (if 2 ^ 63 - 1 - (stepNS - rem) < v then Inl (Err ''timestamp out of range'' [])
           else Inr (v + (stepNS - rem)))
        else Inr (v - rem))"

definition alignLogQLMetricRange :: "int \<Rightarrow> int \<Rightarrow> int \<Rightarrow> logQLError + (int \<times> int)" where
  "alignLogQLMetricRange startT endT step0 =
     (let step = (if step0 \<le> 0 then 60000000000 else step0) in
      case ceilUnixNanoTime startT step of
        Inl e \<Rightarrow> Inl (Err ''invalid start: %w'' [])
      | Inr alignedStart \<Rightarrow> (case ceilUnixNanoTime endT step of
          Inl e \<Rightarrow> Inl (Err ''invalid end: %w'' [])
        | Inr alignedEnd \<Rightarrow> Inr (alignedStart, alignedEnd)))"

section \<open>Streams: one query is enough\<close>

lemma scanStreamLoop_take: "take n (scanStreamLoop s cache cols) = scanStreamLoop s cache (take n cols)"
  by (induction s cache cols arbitrary: n rule: scanStreamLoop.induct) (auto simp: Let_def take_Cons' split: option.splits)

lemma scanStreamLoop_length: "length (scanStreamLoop s cache cols) = length cols"
  by (induction s cache cols rule: scanStreamLoop.induct) (auto simp: Let_def split: option.splits)

definition candidateSQL :: "Config \<Rightarrow> 're engine \<Rightarrow> 're logQLSelector \<Rightarrow> int \<Rightarrow> int \<Rightarrow> string \<Rightarrow> int \<Rightarrow> string option" where
  "candidateSQL cfg en s startNS endNS direction limit =
     (if logQLSelectorFullyPushed s then logQLRawStreamSelectSQL cfg en s startNS endNS limit direction
      else logQLRawSelectSQL cfg en s startNS endNS limit direction)"

lemma clampLimit_bounds: "0 < clampLimit cfg limit \<and> clampLimit cfg limit \<le> configMaxRows cfg"
  by (simp add: clampLimit_def configMaxRows_def)

text \<open>A log query asks ClickHouse once, and the answer is complete: the limit of the first query is large enough
  that the doubling loop ends there. A selector of matchers and line filters gives the first rows of the
  table that satisfy its conditions, up to the limit of the request; any other gives the first rows that its
  pipeline keeps among the most rows that a query may return, up to that limit.\<close>

theorem one_query_for_streams:
  assumes "configMaxRows cfg < 2 ^ 62" "L = clampLimit cfg limit" "C = logQLCandidateLimit s L (configMaxRows cfg)"
    and "candidateSQL cfg en s startNS endNS direction C = Some sql" "ch sql = Inr (take (nat C) found)"
  shows "queryLogQLRows ch cfg en s startNS endNS limit direction = Some (Inr
    (if logQLSelectorFullyPushed s then scanLogStreamRows (take (nat L) found) s
     else take (nat L) (applyLogQLSelector en (scanLogRows (take (nat (configMaxRows cfg)) found)) s)))"
proof -
  have L: "0 < L" "L \<le> configMaxRows cfg" using clampLimit_bounds [of cfg limit] assms(2) by simp_all
  show ?thesis
  proof (cases "logQLSelectorFullyPushed s")
    case True
    have small: "in_i64 (L + L)" "in_i64 (L + 256)" using L assms(1) by (simp_all add: in_i64_def)
    then have C: "L \<le> C" using L True by (auto simp: assms(3) logQLCandidateLimit_def Let_def)
    have run: "fetchCandidates ch cfg en s startNS endNS direction C
        = Some (Inr (int (length (take (nat C) found)), scanLogStreamRows (take (nat C) found) s))"
      using assms(4,5) True by (simp add: fetchCandidates_def candidateSQL_def scanLogStreamRows_def scanStreamLoop_length)
    let ?rows = "scanLogStreamRows (take (nat C) found) s"
    have len: "length ?rows = length (take (nat C) found)" by (simp add: scanLogStreamRows_def scanStreamLoop_length)
    have stop: "L \<le> int (length ?rows) \<or> int (length (take (nat C) found)) < C"
      using C by (auto simp: len min_def)
    have cut: "(if L < int (length ?rows) then take (nat L) ?rows else ?rows) = take (nat L) ?rows" by simp
    have "take (nat L) ?rows = scanLogStreamRows (take (nat L) found) s"
      using C by (simp add: scanLogStreamRows_def scanStreamLoop_take min_absorb1)
    then show ?thesis
      using stop True by (simp add: queryLogQLRows_def Let_def assms(2,3) [symmetric] queryRowsLoop.simps [of _ L _ C] run cut del: take_all_iff) auto
  next
    case False
    then have C: "C = configMaxRows cfg" by (simp add: assms(3) logQLCandidateLimit_def)
    have run: "fetchCandidates ch cfg en s startNS endNS direction C
        = Some (Inr (int (length (take (nat C) found)), applyLogQLSelector en (scanLogRows (take (nat C) found)) s))"
      using assms(4,5) False by (simp add: fetchCandidates_def candidateSQL_def scanLogRows_def Let_def)
    then show ?thesis
      using False by (simp add: queryLogQLRows_def Let_def assms(2,3) [symmetric] queryRowsLoop.simps [of _ L "configMaxRows cfg" "configMaxRows cfg"] C)
  qed
qed

lemma demo_candidate:
  "candidateSQL (demoLogs ''posthog'') demoLogEngine demoPushed 0 9 ''forward'' 2 \<noteq> None"
  by (simp add: candidateSQL_def logQLRawStreamSelectSQL_def logQLRawSelectSQL_def rawSelect_def demoLogs_posthog Let_def)
    (simp add: demoLogs_def tableName_def quoteIdent_def identifierRE_def isLetter_def isDigit_def)

theorem one_query_for_streams_witness:
  "queryLogQLRows (\<lambda>_. Inr (take 2 [storedDemo])) (demoLogs ''posthog'') demoLogEngine demoPushed 0 9 1 ''forward''
     = Some (Inr (scanLogStreamRows [storedDemo] demoPushed))"
proof -
  have c: "clampLimit (demoLogs ''posthog'') 1 = 1" "configMaxRows (demoLogs ''posthog'') = 100000"
    by (simp_all add: clampLimit_def configMaxRows_def demoLogs_def)
  have p: "logQLSelectorFullyPushed demoPushed" by (simp add: logQLSelectorFullyPushed_def demoPushed_def)
  have l: "logQLCandidateLimit demoPushed 1 100000 = 2" by (simp add: logQLCandidateLimit_def p in_i64_def)
  obtain sql where sql: "candidateSQL (demoLogs ''posthog'') demoLogEngine demoPushed 0 9 ''forward'' 2 = Some sql"
    using demo_candidate by blast
  have "queryLogQLRows (\<lambda>_. Inr (take 2 [storedDemo])) (demoLogs ''posthog'') demoLogEngine demoPushed 0 9 1 ''forward''
    = Some (Inr (if logQLSelectorFullyPushed demoPushed then scanLogStreamRows (take (nat 1) [storedDemo]) demoPushed
       else take (nat 1) (applyLogQLSelector demoLogEngine (scanLogRows (take (nat (configMaxRows (demoLogs ''posthog''))) [storedDemo])) demoPushed)))"
    by (rule one_query_for_streams [where C = 2 and sql = sql]) (simp_all only: c l sql nat_numeral, simp)
  then show ?thesis by (simp only: p if_True) (simp only: nat_one_as_int [symmetric] One_nat_def take_Suc_Cons take_0)
qed

section \<open>Metrics: when the rows suffice\<close>

lemma same_windows:
  assumes "allAggs (\<lambda>agg. windowRows (evEngine ev) agg rows t = windowRows (evEngine ev) agg rows' t) e"
  shows "evaluateLogQLMetricAt ev e rows t = evaluateLogQLMetricAt ev e rows' t"
  using assms by (induction e) (auto simp: evaluateLogQLRangeAggregation_def)

lemma allAggs_mono: "allAggs P e \<Longrightarrow> (\<And>agg. P agg \<Longrightarrow> Q agg) \<Longrightarrow> allAggs Q e"
  by (induction e) auto

lemma allAggs_collect: "allAggs (\<lambda>agg. raSelector agg \<in> set (collectLogQLSelectors e)) e"
  by (induction e) (auto elim: allAggs_mono)

lemma allAggs_window: "allAggs (\<lambda>agg. raWindow agg \<le> maxLogQLWindow e) e"
  by (induction e) (auto simp: maxDuration_def elim: allAggs_mono)

lemma allAggs_offset: "allAggs (\<lambda>agg. raOffset agg \<le> maxLogQLOffset e) e"
  by (induction e) (auto simp: maxDuration_def elim: allAggs_mono)

lemma maxLogQLWindow_bounds: "allAggs (\<lambda>agg. 0 \<le> raWindow agg \<and> raWindow agg \<le> B) e \<Longrightarrow> 0 \<le> B \<Longrightarrow> 0 \<le> maxLogQLWindow e \<and> maxLogQLWindow e \<le> B"
  by (induction e) (auto simp: maxDuration_def)

lemma maxLogQLOffset_bounds: "allAggs (\<lambda>agg. 0 \<le> raOffset agg \<and> raOffset agg \<le> B) e \<Longrightarrow> 0 \<le> B \<Longrightarrow> 0 \<le> maxLogQLOffset e \<and> maxLogQLOffset e \<le> B"
  by (induction e) (auto simp: maxDuration_def)

lemma windowRows_filtered:
  assumes "\<And>c. c \<in> set cols \<Longrightarrow> inWindow agg t (scanLogRow c) \<Longrightarrow> applySelector en (raSelector agg) (scanLogRow c) \<noteq> None \<Longrightarrow> P c"
  shows "windowRows en agg (scanLogRows (filter P cols)) t = windowRows en agg (scanLogRows cols) t"
  using assms
proof (induction cols)
  case (Cons c cols)
  have IH: "windowRows en agg (scanLogRows (filter P cols)) t = windowRows en agg (scanLogRows cols) t"
    using Cons.prems by (intro Cons.IH) auto
  show ?case
  proof (cases "inWindow agg t (scanLogRow c) \<and> applySelector en (raSelector agg) (scanLogRow c) \<noteq> None")
    case True
    then have "P c" using Cons.prems by simp
    then show ?thesis using IH by (auto simp: windowRows_def scanLogRows_def applyLogQLSelector_def List.map_filter_simps split: option.splits)
  next
    case False
    then show ?thesis using IH
      by (auto simp: windowRows_def scanLogRows_def applyLogQLSelector_def List.map_filter_simps split: option.splits)
  qed
qed (simp add: scanLogRows_def)

text \<open>When all selectors are one, the loop over the selectors makes one query.\<close>

lemma metricRows_one:
  assumes "set ss \<subseteq> {s}" "logQLSelectorKey s \<in> set seen"
  shows "metricRowsLoop run maxRows seen rows ss = Some (Inr rows)"
  using assms by (induction ss) auto

lemma inWindow_fetched:
  assumes "inWindow agg t row" "0 \<le> raWindow agg" "raWindow agg \<le> W" "W < 2 ^ 60" "raOffset agg = off" "0 \<le> off" "off < 2 ^ 60"
    and "startNS \<le> t" "t \<le> endNS" "- (2 ^ 61) \<le> startNS" "endNS < 2 ^ 61"
  shows "fetched (wrap64 (wrap64 (startNS - W) - off)) (wrap64 (endNS - off)) (tsNS row)"
proof -
  have "in_i64 (startNS - W)" "in_i64 (startNS - W - off)" "in_i64 (endNS - off)" "in_i64 (t - raWindow agg)"
    "in_i64 (t - raWindow agg - off)" "in_i64 (t - off)"
    using assms by (simp_all add: in_i64_def)
  then show ?thesis using assms by (simp add: fetched_def inWindow_def)
qed

text \<open>A metric query that is evaluated in memory is evaluated as if on the whole table, when its range
  aggregations have one selector and one offset and the selector has no decolorize stage: either the query
  fails because it needs too many rows, or at every time of its range the rows that were fetched give the very samples
  that all rows of the table would give.\<close>

theorem fetched_rows_suffice:
  assumes "postHogLogSchemaLayout cfg" "\<forall>c\<in>set store. storedColumns c" "selectorAgrees (evEngine ev) re s" "DecolorizeStage \<notin> set (selStages s)"
    and "collectLogQLSelectors e = s # ss" "set ss \<subseteq> {s}"
    and "allAggs (\<lambda>agg. 0 \<le> raWindow agg \<and> raWindow agg < 2 ^ 60 \<and> raOffset agg = off) e" "0 \<le> off" "off < 2 ^ 60"
    and "- (2 ^ 61) \<le> startNS" "startNS \<le> t" "t \<le> endNS" "endNS < 2 ^ 61"
    and "logQLMetricFetchBounds e startNS endNS = (lo, hi)" "M = configMaxRows cfg"
    and "logQLSelectSQL (cfg\<lparr>LogQueryMaxRows := M + 1\<rparr>) (evEngine ev) s lo hi (M + 1) ''forward'' = Some sql"
    and "ch sql = Inr (take (nat (M + 1)) (sort_key colTime
      (filter (\<lambda>c. fetched lo hi (colTime c) \<and> list_all (rowHolds re (postHogRow c)) (selectorConditions cfg (evEngine ev) s)) store)))"
    and "queryLogQLMetricRows ch cfg (evEngine ev) e lo hi = Some (Inr rows)"
  shows "evaluateLogQLMetricAt ev e rows t = evaluateLogQLMetricAt ev e (scanLogRows (sort_key colTime store)) t"
proof -
  let ?en = "evEngine ev" and ?S = "sort_key colTime store"
  let ?P = "\<lambda>c. fetched lo hi (colTime c) \<and> list_all (rowHolds re (postHogRow c)) (selectorConditions cfg (evEngine ev) s)"
  have M: "0 < M" by (simp add: assms(15) configMaxRows_def)
  let ?cols = "take (nat (M + 1)) (filter ?P ?S)"
  have cols: "ch sql = Inr ?cols" using assms(17) by (simp add: filter_sort)
  have "metricRowsLoop (\<lambda>s. map_option ch (logQLSelectSQL (cfg\<lparr>LogQueryMaxRows := M + 1\<rparr>) ?en s lo hi (M + 1) ''forward'')) M [] [] (s # ss)
    = Some (Inr rows)"
    using assms(18) unfolding queryLogQLMetricRows_def Let_def assms(15) [symmetric] assms(5) .
  then have few: "\<not> M < int (length (scanLogRows ?cols))" and rows: "rows = scanLogRows ?cols"
    using assms(16) cols metricRows_one [OF assms(6)] by (auto simp: Let_def simp del: length_take split: if_split_asm)
  from few have "length ?cols \<le> nat M" by (simp add: scanLogRows_def del: length_take)
  then have "length (filter ?P ?S) \<le> nat M" using M by (simp add: nat_add_distrib)
  then have "?cols = filter ?P ?S" by (intro take_all) (use M in linarith)
  with rows have rows: "rows = scanLogRows (filter ?P ?S)" by simp
  have W: "0 \<le> maxLogQLWindow e \<and> maxLogQLWindow e \<le> 2 ^ 60 - 1"
    by (rule maxLogQLWindow_bounds) (auto intro: allAggs_mono [OF assms(7)])
  have O: "0 \<le> maxLogQLOffset e \<and> maxLogQLOffset e \<le> off"
    by (rule maxLogQLOffset_bounds) (use assms(8) in \<open>auto intro: allAggs_mono [OF assms(7)]\<close>)
  have sel: "set (collectLogQLSelectors e) = {s}" using assms(5,6) by auto
  have "allAggs (\<lambda>agg. windowRows ?en agg rows t = windowRows ?en agg (scanLogRows ?S) t) e"
  proof (rule allAggs_mono [OF allAggs_conj [OF allAggs_collect allAggs_conj [OF allAggs_window allAggs_conj [OF allAggs_offset assms(7)]]]])
    fix agg :: "'a logQLRangeAggregation"
    assume "raSelector agg \<in> set (collectLogQLSelectors e) \<and> raWindow agg \<le> maxLogQLWindow e \<and> raOffset agg \<le> maxLogQLOffset e
      \<and> 0 \<le> raWindow agg \<and> raWindow agg < 2 ^ 60 \<and> raOffset agg = off"
    then have agg: "raSelector agg = s" "raWindow agg \<le> maxLogQLWindow e" "maxLogQLOffset e = off" "0 \<le> raWindow agg" "raOffset agg = off"
      using sel O by auto
    have bounds: "lo = wrap64 (wrap64 (startNS - maxLogQLWindow e) - off)" "hi = wrap64 (endNS - off)"
      using assms(14) agg(3) by (auto simp: logQLMetricFetchBounds_def)
    show "windowRows ?en agg rows t = windowRows ?en agg (scanLogRows ?S) t"
      unfolding rows
    proof (rule windowRows_filtered)
      fix c assume c: "c \<in> set ?S" "inWindow agg t (scanLogRow c)" "applySelector ?en (raSelector agg) (scanLogRow c) \<noteq> None"
      have "tsNS (scanLogRow c) = colTime c" by (simp add: scanLogRow_def split: prod.split)
      then have "fetched lo hi (colTime c)"
        using inWindow_fetched [OF c(2) agg(4,2) _ agg(5) assms(8,9,11,12,10,13)] W by (simp add: bounds)
      moreover have "list_all (rowHolds re (postHogRow c)) (selectorConditions cfg ?en s)"
        using c assms(2) by (intro kept_rows_selected [OF assms(1) _ assms(3,4)]) (simp_all add: agg(1))
      ultimately show "?P c" by simp
    qed
  qed
  then show ?thesis by (rule same_windows)
qed

definition demoRange :: "unit logQLSelector \<Rightarrow> int \<Rightarrow> unit logQLRangeAggregation" where
  "demoRange s off = \<lparr>raFn = ''count_over_time'', raSelector = s, raWindow = 300, raOffset = off, raGrouping = None, raParam = 0\<rparr>"

lemma demo_select: "logQLSelectSQL (demoLogs ''posthog''\<lparr>LogQueryMaxRows := 100001\<rparr>) demoLogEngine s lo hi 100001 ''forward'' \<noteq> None"
proof -
  have "postHogLogSchemaLayout (demoLogs ''posthog''\<lparr>LogQueryMaxRows := 100001\<rparr>)"
    using demoLogs_posthog by (simp add: postHogLogSchemaLayout_def storageLogSchemaLayout_def)
  then show ?thesis
    by (simp add: logQLSelectSQL_def logQLRawSelectSQL_def rawSelect_def Let_def)
      (simp add: demoLogs_def tableName_def quoteIdent_def identifierRE_def isLetter_def isDigit_def)
qed

lemma demo_maxRows: "configMaxRows (demoLogs ''posthog'') = 100000"
  by (simp add: configMaxRows_def demoLogs_def)

abbreviation demoFound :: "logColumns list" where
  "demoFound \<equiv> filter (\<lambda>c. fetched (- 200) 100 (colTime c)
     \<and> list_all (rowHolds (\<lambda>_ _. False) (postHogRow c)) (selectorConditions (demoLogs ''posthog'') demoLogEngine demoPushed)) [storedDemo]"

lemma demo_metric_rows:
  assumes "length cols \<le> 1" "collectLogQLSelectors e = [s]"
  shows "queryLogQLMetricRows (\<lambda>_. Inr cols) (demoLogs ''posthog'') demoLogEngine e lo hi = Some (Inr (scanLogRows cols))"
proof -
  obtain sql where "logQLSelectSQL (demoLogs ''posthog''\<lparr>LogQueryMaxRows := 100001\<rparr>) demoLogEngine s lo hi 100001 ''forward'' = Some sql"
    using demo_select by blast
  then show ?thesis using assms by (simp add: queryLogQLMetricRows_def Let_def demo_maxRows scanLogRows_def)
qed

theorem fetched_rows_suffice_witness:
  "evaluateLogQLMetricAt demoEvaluator (RangeAgg (demoRange demoPushed 0) None) (scanLogRows demoFound) 100
     = evaluateLogQLMetricAt demoEvaluator (RangeAgg (demoRange demoPushed 0) None) (scanLogRows [storedDemo]) 100"
proof -
  obtain sql where sql: "logQLSelectSQL (demoLogs ''posthog''\<lparr>LogQueryMaxRows := 100001\<rparr>) demoLogEngine demoPushed (- 200) 100 100001 ''forward'' = Some sql"
    using demo_select by blast
  have en: "evEngine demoEvaluator = demoLogEngine" by (simp add: demoEvaluator_def)
  have agree: "selectorAgrees demoLogEngine (\<lambda>_ _. False) demoPushed"
    by (simp add: selectorAgrees_def demoPushed_def matcherAgrees_def matcherOf_def lineAgrees_def)
  have len: "length demoFound \<le> 1" by (rule order_trans [OF length_filter_le]) simp
  then have found: "take 100001 (sort_key colTime demoFound) = demoFound"
    by (cases demoFound) (auto simp del: filter.simps)
  have dec: "DecolorizeStage \<notin> set (selStages demoPushed)" by (simp add: demoPushed_def)
  have bounds: "logQLMetricFetchBounds (RangeAgg (demoRange demoPushed 0) None) 100 100 = (- 200, 100)"
    by (simp add: logQLMetricFetchBounds_def demoRange_def in_i64_def)
  have rows: "queryLogQLMetricRows (\<lambda>_. Inr demoFound) (demoLogs ''posthog'') demoLogEngine (RangeAgg (demoRange demoPushed 0) None) (- 200) 100
    = Some (Inr (scanLogRows demoFound))"
    by (rule demo_metric_rows [OF len]) (simp add: demoRange_def)
  have one: "sort_key colTime [storedDemo] = [storedDemo]" by simp
  note suffice = fetched_rows_suffice [where cfg = "demoLogs ''posthog''" and store = "[storedDemo]" and ev = demoEvaluator
      and re = "\<lambda>_ _. False" and s = demoPushed and ss = "[]" and off = 0 and startNS = 100 and endNS = 100 and t = 100
      and lo = "- 200" and hi = 100 and M = 100000 and e = "RangeAgg (demoRange demoPushed 0) None" and sql = sql
      and ch = "\<lambda>_. Inr demoFound" and rows = "scanLogRows demoFound", unfolded en one]
  show ?thesis
    by (rule suffice) (rule demoLogs_posthog agree dec bounds rows demo_maxRows [symmetric]
      | simp add: storedDemo_ok demoRange_def sql found del: filter.simps)+
qed

section \<open>Metrics: where the rows do not suffice\<close>

lemma windowRows_append: "windowRows en agg (xs @ ys) t = windowRows en agg xs t @ windowRows en agg ys t"
  by (simp add: windowRows_def applyLogQLSelector_def List.map_filter_def)

text \<open>C28. Two operands with different selectors over one stream count its rows twice: the rows of both queries are
  appended and every operand runs over all of them, so a row that both selectors return is in the window of each
  operand two times. An error rate, the lines that contain a word over all lines, is such a query.\<close>

theorem overlapping_selectors_count_twice:
  assumes "collectLogQLSelectors e = [s1, s2]" "logQLSelectorKey s1 \<noteq> logQLSelectorKey s2" "M = configMaxRows cfg"
    and "logQLSelectSQL (cfg\<lparr>LogQueryMaxRows := M + 1\<rparr>) en s1 lo hi (M + 1) ''forward'' = Some sql1" "ch sql1 = Inr cols1"
    and "logQLSelectSQL (cfg\<lparr>LogQueryMaxRows := M + 1\<rparr>) en s2 lo hi (M + 1) ''forward'' = Some sql2" "ch sql2 = Inr cols2"
    and "int (length cols1) \<le> M" "int (length cols2) \<le> M"
  shows "\<exists>rows. queryLogQLMetricRows ch cfg en e lo hi = Some (Inr rows) \<and> (\<forall>agg t.
    length (windowRows en agg rows t)
      = length (windowRows en agg (scanLogRows cols1) t) + length (windowRows en agg (scanLogRows cols2) t))"
proof -
  have "queryLogQLMetricRows ch cfg en e lo hi = Some (Inr (scanLogRows cols1 @ scanLogRows cols2))"
    using assms by (simp add: queryLogQLMetricRows_def Let_def scanLogRows_def)
  then show ?thesis by (simp add: windowRows_append)
qed

definition demoPlain :: "unit logQLSelector" where
  "demoPlain = demoPushed\<lparr>selStages := []\<rparr>"

lemma scanned_demo:
  "scanLogRow storedDemo = \<lparr>tsNS = 1, observedNS = 1, lineText = ''x'', rowLabels = rowLabels (scanLogRow storedDemo),
     rowStreamLabels = rowLabels (scanLogRow storedDemo), rowFields = rowFields (scanLogRow storedDemo), streamKey = [],
     unwrapped = 0, haveUnwrap = False\<rparr>"
  by (simp add: scanLogRow_def storedDemo_def split: prod.split)

lemma demo_plain_window: "windowRows demoLogEngine (demoRange demoPlain 0) (scanLogRows [storedDemo]) 100 = scanLogRows [storedDemo]"
proof -
  have "memoryValue storedDemo ''app'' = ''api''" "memoryValue storedDemo ''level'' = ''info''"
    by (subst memory_is_sql [OF storedDemo_ok _ demoLogs_posthog];
        simp add: logQLStreamLabelValueExpr_def demoLogs_posthog logQLPostHogAttributeExpr_def postHogRow_def storedDemo_def
          labelGet_def serviceNames_def severityNames_def)+
  then have "applySelector demoLogEngine demoPlain (scanLogRow storedDemo) = Some (scanLogRow storedDemo)"
    by (simp add: applySelector_def selectorAccepts_memory demoPlain_def demoPushed_def matcherOf_def matchesValue_def)
  moreover have "inWindow (demoRange demoPlain 0) 100 (scanLogRow storedDemo)"
    by (subst scanned_demo) (simp add: inWindow_def demoRange_def in_i64_def)
  ultimately show ?thesis by (simp add: windowRows_def scanLogRows_def applyLogQLSelector_def demoRange_def List.map_filter_simps)
qed

theorem overlapping_selectors_count_twice_witness:
  "\<exists>rows. queryLogQLMetricRows (\<lambda>_. Inr [storedDemo]) (demoLogs ''posthog'') demoLogEngine
      (BinaryOp ''/'' (RangeAgg (demoRange demoPushed 0) None) (RangeAgg (demoRange demoPlain 0) None) False None) (- 200) 100 = Some (Inr rows)
    \<and> length (windowRows demoLogEngine (demoRange demoPlain 0) rows 100) = 2"
proof -
  let ?e = "BinaryOp ''/'' (RangeAgg (demoRange demoPushed 0) None) (RangeAgg (demoRange demoPlain 0) None) False None"
  obtain sql1 sql2 where sql: "logQLSelectSQL (demoLogs ''posthog''\<lparr>LogQueryMaxRows := 100001\<rparr>) demoLogEngine demoPushed (- 200) 100 100001 ''forward'' = Some sql1"
    "logQLSelectSQL (demoLogs ''posthog''\<lparr>LogQueryMaxRows := 100001\<rparr>) demoLogEngine demoPlain (- 200) 100 100001 ''forward'' = Some sql2"
    using demo_select by blast
  have ss: "collectLogQLSelectors ?e = [demoPushed, demoPlain]" by (simp add: demoRange_def)
  have keys: "logQLSelectorKey demoPushed \<noteq> logQLSelectorKey demoPlain"
    by (simp add: logQLSelectorKey_def demoPlain_def demoPushed_def stageKey_def)
  have "\<exists>rows. queryLogQLMetricRows (\<lambda>_. Inr [storedDemo]) (demoLogs ''posthog'') demoLogEngine ?e (- 200) 100 = Some (Inr rows)
    \<and> (\<forall>agg t. length (windowRows demoLogEngine agg rows t)
      = length (windowRows demoLogEngine agg (scanLogRows [storedDemo]) t) + length (windowRows demoLogEngine agg (scanLogRows [storedDemo]) t))"
    by (rule overlapping_selectors_count_twice [OF ss keys demo_maxRows [symmetric]]) (simp_all add: sql)
  moreover have "length (scanLogRows [storedDemo]) = 1" by (simp add: scanLogRows_def)
  ultimately show ?thesis by (elim exE) (auto simp: demo_plain_window)
qed

text \<open>An operand without an offset loses its rows when another operand has one: the fetch ends before the evaluation
  time by the largest offset of the query. In an instant query nothing is left of a window that the largest
  offset spans, so that comparing the last minutes with an hour ago, for one, returns nothing.\<close>

theorem smaller_offset_loses_rows:
  assumes "logQLMetricFetchBounds e t t = (lo, hi)" "raOffset agg + raWindow agg \<le> maxLogQLOffset e" "0 \<le> raOffset agg" "0 \<le> raWindow agg"
    and "maxLogQLOffset e < 2 ^ 60" "- (2 ^ 61) \<le> t" "t < 2 ^ 61"
    and "\<And>s sql cols. s \<in> set (collectLogQLSelectors e) \<Longrightarrow>
      logQLSelectSQL (cfg\<lparr>LogQueryMaxRows := configMaxRows cfg + 1\<rparr>) en s lo hi (configMaxRows cfg + 1) ''forward'' = Some sql \<Longrightarrow>
      ch sql = Inr cols \<Longrightarrow> \<forall>c\<in>set cols. fetched lo hi (colTime c)"
    and "queryLogQLMetricRows ch cfg en e lo hi = Some (Inr rows)"
  shows "windowRows en agg rows t = []"
proof -
  let ?run = "\<lambda>s. map_option ch (logQLSelectSQL (cfg\<lparr>LogQueryMaxRows := configMaxRows cfg + 1\<rparr>) en s lo hi (configMaxRows cfg + 1) ''forward'')"
  have loop: "\<forall>row\<in>set all. fetched lo hi (tsNS row) \<Longrightarrow> set ss \<subseteq> set (collectLogQLSelectors e)
    \<Longrightarrow> metricRowsLoop ?run M seen all ss = Some (Inr rows) \<Longrightarrow> \<forall>row\<in>set rows. fetched lo hi (tsNS row)" for M seen all ss
  proof (induction ss arbitrary: seen all)
    case (Cons s ss)
    show ?case
    proof (cases "logQLSelectorKey s \<in> set seen")
      case False
      then obtain sql cols where q: "logQLSelectSQL (cfg\<lparr>LogQueryMaxRows := configMaxRows cfg + 1\<rparr>) en s lo hi (configMaxRows cfg + 1) ''forward'' = Some sql"
        "ch sql = Inr cols" "metricRowsLoop ?run M (logQLSelectorKey s # seen) (all @ scanLogRows cols) ss = Some (Inr rows)"
        using Cons.prems(3) by (auto simp: Let_def split: option.split_asm sum.split_asm if_split_asm)
      then have "\<forall>c\<in>set cols. fetched lo hi (colTime c)" using assms(8) [of s] Cons.prems(2) by auto
      then have "\<forall>row\<in>set (scanLogRows cols). fetched lo hi (tsNS row)" by (auto simp: scanLogRows_def scanLogRow_def split: prod.split)
      then show ?thesis using Cons.prems(1,2) by (intro Cons.IH [OF _ _ q(3)]) auto
    qed (use Cons in auto)
  qed simp
  have "\<forall>row\<in>set rows. fetched lo hi (tsNS row)"
    using loop [of "[]" "collectLogQLSelectors e"] assms(9) by (simp add: queryLogQLMetricRows_def Let_def)
  moreover have "hi = t - maxLogQLOffset e" "wrap64 (wrap64 (t - raWindow agg) - raOffset agg) = t - raWindow agg - raOffset agg"
    using assms by (auto simp: logQLMetricFetchBounds_def in_i64_def)
  ultimately have "\<forall>row\<in>set rows. \<not> inWindow agg t row"
    using assms(2) by (auto simp: inWindow_def fetched_def)
  then show ?thesis by (simp add: windowRows_def applyLogQLSelector_def List.map_filter_def)
qed

theorem smaller_offset_loses_rows_witness:
  "windowRows demoLogEngine (demoRange demoPlain 0) (scanLogRows [storedDemo]) 301 = []"
proof -
  let ?e = "BinaryOp ''/'' (RangeAgg (demoRange demoPlain 0) None) (RangeAgg (demoRange demoPlain 300) None) False None"
  have bounds: "logQLMetricFetchBounds ?e 301 301 = (- 299, 1)"
    by (simp add: logQLMetricFetchBounds_def demoRange_def maxDuration_def in_i64_def)
  have "queryLogQLMetricRows (\<lambda>_. Inr [storedDemo]) (demoLogs ''posthog'') demoLogEngine ?e (- 299) 1 = Some (Inr (scanLogRows [storedDemo]))"
  proof -
    obtain sql where "logQLSelectSQL (demoLogs ''posthog''\<lparr>LogQueryMaxRows := 100001\<rparr>) demoLogEngine demoPlain (- 299) 1 100001 ''forward'' = Some sql"
      using demo_select by blast
    then show ?thesis by (simp add: queryLogQLMetricRows_def Let_def demo_maxRows scanLogRows_def demoRange_def)
  qed
  then show ?thesis
    by (intro smaller_offset_loses_rows [OF bounds])
      (auto simp: demoRange_def maxDuration_def fetched_def storedDemo_def)
qed

section \<open>Alignment\<close>

text \<open>C29. The range of a metric query is aligned to its step exactly: a time is rounded up to the least multiple of the
  step that is not before it, times before 1970 included, and there is an error exactly when the time or that multiple
  is no int64 of nanoseconds.\<close>

theorem alignment_is_ceiling:
  assumes "0 < step" "step < 2 ^ 63"
  shows "ceilUnixNanoTime t step = Inr v \<longleftrightarrow> in_i64 t \<and> in_i64 v \<and> step dvd v \<and> t \<le> v \<and> v < t + step"
proof (cases "in_i64 t")
  case False
  have "wrap64 t \<noteq> t" using False in_i64_wrap64 [of t] by metis
  then show ?thesis using False by (simp add: ceilUnixNanoTime_def Let_def)
next
  case True
  let ?r = "t smod step"
  have r: "step dvd t - ?r" "- step < ?r" "?r < step" "0 < ?r \<longrightarrow> 0 < t" "?r < 0 \<longrightarrow> t < 0"
  proof -
    have m: "?r = sgn t * (\<bar>t\<bar> mod step)"
      using assms(1) by (simp add: signed_modulo_int_def)
    have b: "0 \<le> \<bar>t\<bar> mod step" "\<bar>t\<bar> mod step < step" using assms(1) by simp_all
    show "step dvd t - ?r"
    proof (cases "0 \<le> t")
      case False
      then have "t - ?r = - (\<bar>t\<bar> - \<bar>t\<bar> mod step)" by (simp add: m)
      then show ?thesis by (simp add: minus_mod_eq_mult_div)
    qed (cases "t = 0", simp_all add: m minus_mod_eq_mult_div)
    show "- step < ?r" "?r < step" "0 < ?r \<longrightarrow> 0 < t" "?r < 0 \<longrightarrow> t < 0" using b by (auto simp: m sgn_if)
  qed
  have unique: "v = w" if "step dvd v" "t \<le> v" "v < t + step" "step dvd w" "t \<le> w" "w < t + step" for v w
    using dvd_between [OF assms(1) that(1,4)] that by linarith
  show ?thesis
  proof (cases "0 < ?r")
    case pos: True
    let ?w = "t + (step - ?r)"
    have "(t - ?r) + step = ?w" by simp
    moreover have "step dvd (t - ?r) + step" using r(1) by simp
    ultimately have "step dvd ?w" by metis
    then have w: "step dvd ?w" "t \<le> ?w" "?w < t + step" using r pos by simp_all
    have "in_i64 ?w \<longleftrightarrow> \<not> 2 ^ 63 - 1 - (step - ?r) < t" using True w r pos by (auto simp: in_i64_def)
    moreover have "ceilUnixNanoTime t step = (if 2 ^ 63 - 1 - (step - ?r) < t then Inl (Err ''timestamp out of range'' []) else Inr ?w)"
      using True pos by (simp add: ceilUnixNanoTime_def Let_def)
    ultimately show ?thesis using True w unique [of v ?w] by auto
  next
    case neg: False
    have w: "step dvd t - ?r" "t \<le> t - ?r" "t - ?r < t + step" using r neg by simp_all
    have "in_i64 (t - ?r)"
    proof (cases "?r = 0")
      case False
      then have "t < 0" "?r < 0" using neg r by linarith+
      moreover have "t - ?r \<le> 0"
      proof -
        have "t - ?r < step" using \<open>t < 0\<close> w(3) by linarith
        then show ?thesis using w(1) zdvd_not_zless [of "t - ?r" step] by linarith
      qed
      ultimately show ?thesis using True by (simp add: in_i64_def)
    qed (use True in simp)
    moreover have "ceilUnixNanoTime t step = Inr (t - ?r)"
      using True neg by (simp add: ceilUnixNanoTime_def Let_def)
    ultimately show ?thesis using True w unique [of v "t - ?r"] by auto
  qed
qed

theorem alignment_is_ceiling_witness:
  "ceilUnixNanoTime (- 90) 60 = Inr (- 60) \<and> ceilUnixNanoTime 61 60 = Inr 120"
  using alignment_is_ceiling [of 60 "- 90" "- 60"] alignment_is_ceiling [of 60 61 120] by (simp add: in_i64_def)

end
