(* ===== verification/LokiRow.thy ===== *)
theory LokiRow
  imports LogStreams RemoteInsert "HOL-Library.Multiset"
begin

text \<open>
  The row that is stored for a pushed log line (src/internal/snuffle/loki_api.go, lokiInsertRow,
  addSnuffleLogLabel and snuffleLogStreamID, with the detection of a severity from inferLogSeverity on):
  which labels become columns, attributes, stream labels and fields, and the id of the stream.

  A Go map is an association list, and the order in which a loop ranges over it is chosen anew for each
  row: the map of the row with number \<open>n\<close> is ranged in the order that \<open>peRange\<close> gives. The hashes,
  encoding/json and fmt are parameters too. A time is its nanoseconds since 1970.
\<close>

section \<open>Severity\<close>

definition leftBoundaryBytes :: string where
  "leftBoundaryBytes = [CHR '' '', CHR 0x09, CHR 0x0A, CHR ''['', CHR ''('', CHR ''{'', CHR 0x22, CHR 0x27, CHR ''='', CHR ''|'']"

definition isLeftLogSeverityBoundary :: "string \<Rightarrow> int \<Rightarrow> bool" where
  "isLeftLogSeverityBoundary s pos = (if pos < 0 \<or> int (length s) \<le> pos then True else s ! nat pos \<in> set leftBoundaryBytes)"

definition rightBoundaryBytes :: string where
  "rightBoundaryBytes = [CHR '' '', CHR 0x09, CHR 0x0A, CHR ''['', CHR '']'', CHR ''('', CHR '')'', CHR ''{'', CHR ''}'', CHR '':'',
     CHR '','', CHR ''!'', CHR 0x22, CHR 0x27, CHR ''='', CHR ''|'']"

definition isRightLogSeverityBoundary :: "string \<Rightarrow> int \<Rightarrow> bool" where
  "isRightLogSeverityBoundary s pos = (if pos < 0 \<or> int (length s) \<le> pos then True else s ! nat pos \<in> set rightBoundaryBytes)"

lemma indexLoop_shift: "indexLoop p s i = map_option (\<lambda>j. i + j) (indexLoop p s 0)"
proof (induction s arbitrary: i)
  case (Cons c s)
  have "indexLoop p s (Suc i) = map_option (\<lambda>j. Suc i + j) (indexLoop p s 0)" "indexLoop p s (Suc 0) = map_option (\<lambda>j. Suc 0 + j) (indexLoop p s 0)"
    by (rule Cons.IH)+
  then show ?case by (simp add: option.map_comp o_def)
qed auto

lemma indexOf_Some: "indexOf s p = Some j \<Longrightarrow> j + length p \<le> length s \<and> take (length p) (drop j s) = p \<and> (\<forall>i<j. take (length p) (drop i s) \<noteq> p)"
proof (induction s arbitrary: j)
  case (Cons c s)
  show ?case
  proof (cases "take (length p) (c # s) = p")
    case True
    then have "j = 0" using Cons.prems by (auto simp: indexOf_def hasPrefix_def)
    then show ?thesis using True by (metis (no_types, lifting) add_0 drop0 length_take less_nat_zero_code min.cobounded1)
  next
    case False
    then obtain i where i: "indexOf s p = Some i" "j = Suc i"
      using Cons.prems indexLoop_shift [of p s "Suc 0"] by (auto simp: indexOf_def hasPrefix_def split: if_split_asm)
    from Cons.IH [OF i(1)] False i(2) show ?thesis by (auto simp: less_Suc_eq_0_disj)
  qed
qed (auto simp: indexOf_def hasPrefix_def split: if_splits)

lemma indexOf_None: "indexOf s p = None \<Longrightarrow> take (length p) (drop j s) = p \<Longrightarrow> p = []"
proof (induction s arbitrary: j)
  case (Cons c s)
  then have "indexOf s p = None" "\<not> hasPrefix (c # s) p"
    using indexLoop_shift [of p s "Suc 0"] by (auto simp: indexOf_def split: if_split_asm)
  then show ?case using Cons by (cases j) (auto simp: hasPrefix_def)
qed (auto simp: indexOf_def split: if_splits)

text \<open>The search for a word that stands between boundaries. An offset past the end, which would panic, is never
  reached with a word that is not empty.\<close>

function boundedLoop :: "string \<Rightarrow> string \<Rightarrow> nat \<Rightarrow> nat option" where
  "boundedLoop line word offset = (if length line < offset then None
     else case indexOf (drop offset line) word of
       None \<Rightarrow> None
     | Some pos \<Rightarrow> (let abs = offset + pos in
         if isLeftLogSeverityBoundary line (int abs - 1) \<and> isRightLogSeverityBoundary line (int (abs + length word)) then Some abs
         else boundedLoop line word (abs + 1)))"
  by pat_completeness auto
termination
  by (relation "measure (\<lambda>(line, word, offset). length line + 1 - offset)") auto

declare boundedLoop.simps [simp del]

definition indexOfBoundedLogSeverity :: "string \<Rightarrow> string \<Rightarrow> nat option" where
  "indexOfBoundedLogSeverity line word = boundedLoop line word 0"

definition logSeverityPatterns :: "(string \<times> string) list" where
  "logSeverityPatterns = [(''fatal'', ''fatal''), (''critical'', ''critical''), (''error'', ''error''), (''err'', ''error''), (''info'', ''info'')]"

text \<open>The loop over the patterns with the least position so far; it ends early at position 0.\<close>

fun detectLoop :: "string \<Rightarrow> nat \<Rightarrow> string \<Rightarrow> (string \<times> string) list \<Rightarrow> string" where
  "detectLoop lower idx best [] = best"
| "detectLoop lower idx best ((word, level) # ps) = (case indexOfBoundedLogSeverity lower word of
     None \<Rightarrow> detectLoop lower idx best ps
   | Some pos \<Rightarrow> if idx \<le> pos then detectLoop lower idx best ps
       else if pos = 0 then level else detectLoop lower pos level ps)"

definition detectLogSeverityFromLine :: "string \<Rightarrow> string" where
  "detectLogSeverityFromLine line = (let lower = toLower line in detectLoop lower (length lower) ''unknown'' logSeverityPatterns)"

definition normalizeLogSeverity :: "string \<Rightarrow> string" where
  "normalizeLogSeverity v = (let s = toLower (trimSpace v) in
     if s = ''trace'' then ''trace'' else if s = ''debug'' then ''debug''
     else if s = ''info'' \<or> s = ''information'' then ''info''
     else if s = ''warn'' \<or> s = ''warning'' then ''warn''
     else if s = ''error'' \<or> s = ''err'' then ''error''
     else if s = ''critical'' \<or> s = ''crit'' then ''critical''
     else if s = ''fatal'' then ''fatal'' else if s = ''unknown'' then ''unknown'' else [])"

definition severityNumber :: "string \<Rightarrow> int" where
  "severityNumber v = (let s = toLower v in
     if s = ''trace'' then 1 else if s = ''debug'' then 5
     else if s = ''info'' \<or> s = [] \<or> s = ''unknown'' then 9
     else if s = ''warn'' \<or> s = ''warning'' then 13
     else if s = ''error'' then 17 else if s = ''fatal'' \<or> s = ''critical'' then 21 else 0)"

definition firstSet :: "string list \<Rightarrow> string" where
  "firstSet vs = (case find (\<lambda>v. v \<noteq> []) vs of None \<Rightarrow> [] | Some v \<Rightarrow> v)"

definition explicitLogSeverity :: "'re engine \<Rightarrow> string \<Rightarrow> string" where
  "explicitLogSeverity en line = firstSet (concat (map (\<lambda>m.
     map (\<lambda>key. normalizeLogSeverity (labelGet m key)) [''detected_level'', ''level'', ''severity'', ''severity_text'', ''lvl''])
     [parseFlatJSONFields en line [], parseLogfmtFields line]))"

definition inferLogSeverity :: "'re engine \<Rightarrow> string \<Rightarrow> string" where
  "inferLogSeverity en line = (let v = explicitLogSeverity en line in if v \<noteq> [] then v else detectLogSeverityFromLine line)"

section \<open>Detection finds the first word\<close>

text \<open>A word between boundaries.\<close>

definition boundedAt :: "string \<Rightarrow> string \<Rightarrow> nat \<Rightarrow> bool" where
  "boundedAt line word p \<longleftrightarrow> p + length word \<le> length line \<and> take (length word) (drop p line) = word
     \<and> isLeftLogSeverityBoundary line (int p - 1) \<and> isRightLogSeverityBoundary line (int (p + length word))"

lemma boundedLoop_spec:
  assumes "word \<noteq> []" "offset \<le> length line"
  shows "case boundedLoop line word offset of
      Some p \<Rightarrow> offset \<le> p \<and> boundedAt line word p \<and> (\<forall>q. offset \<le> q \<and> q < p \<longrightarrow> \<not> boundedAt line word q)
    | None \<Rightarrow> (\<forall>q. offset \<le> q \<longrightarrow> \<not> boundedAt line word q)"
  using assms
proof (induction line word offset rule: boundedLoop.induct)
  case (1 line word offset)
  show ?case
  proof (cases "indexOf (drop offset line) word")
    case None
    have "\<not> boundedAt line word q" if "offset \<le> q" for q
    proof
      assume "boundedAt line word q"
      then have "take (length word) (drop (q - offset) (drop offset line)) = word" using that by (simp add: boundedAt_def)
      then show False using indexOf_None [OF None] 1(2) by blast
    qed
    then show ?thesis using None by (simp add: boundedLoop.simps [of line word offset])
  next
    case (Some pos)
    define p where "p = offset + pos"
    have at: "p + length word \<le> length line" "take (length word) (drop p line) = word"
      and before: "\<And>q. offset \<le> q \<Longrightarrow> q < p \<Longrightarrow> take (length word) (drop q line) \<noteq> word"
    proof -
      note s = indexOf_Some [OF Some]
      from conjunct1 [OF s] 1(3) show "p + length word \<le> length line" by (simp add: p_def)
      from s show "take (length word) (drop p line) = word" by (simp add: p_def add.commute)
      fix q assume "offset \<le> q" "q < p"
      then have "q - offset < pos" by (simp add: p_def)
      then have "take (length word) (drop (q - offset) (drop offset line)) \<noteq> word" using s by blast
      then show "take (length word) (drop q line) \<noteq> word" using \<open>offset \<le> q\<close> by simp
    qed
    have len: "p + 1 \<le> length line" using at(1) 1(2) by (cases word) auto
    show ?thesis
    proof (cases "isLeftLogSeverityBoundary line (int p - 1) \<and> isRightLogSeverityBoundary line (int (p + length word))")
      case True
      then have "boundedLoop line word offset = Some p"
        using Some 1(3) by (subst boundedLoop.simps) (simp add: p_def [symmetric])
      then show ?thesis using True at before by (auto simp: boundedAt_def p_def)
    next
      case False
      then have step: "boundedLoop line word offset = boundedLoop line word (p + 1)"
        using Some 1(3) by (subst boundedLoop.simps) (auto simp: p_def [symmetric] Let_def)
      have IH: "case boundedLoop line word (p + 1) of
          Some r \<Rightarrow> p + 1 \<le> r \<and> boundedAt line word r \<and> (\<forall>q. p + 1 \<le> q \<and> q < r \<longrightarrow> \<not> boundedAt line word q)
        | None \<Rightarrow> (\<forall>q. p + 1 \<le> q \<longrightarrow> \<not> boundedAt line word q)"
        by (rule 1(1) [OF _ Some p_def _ 1(2) len]) (use False 1(3) in auto)
      have no: "\<not> boundedAt line word q" if "offset \<le> q" "q < p + 1" for q
        using False before [of q] that by (cases "q = p") (auto simp: boundedAt_def)
      show ?thesis
      proof (cases "boundedLoop line word (p + 1)")
        case None
        then show ?thesis using IH no by (auto simp: step) (metis not_less)
      next
        case (Some r)
        then have r: "p + 1 \<le> r" "boundedAt line word r" "\<And>q. p + 1 \<le> q \<Longrightarrow> q < r \<Longrightarrow> \<not> boundedAt line word q" using IH by auto
        have "offset \<le> r" using r(1) by (simp add: p_def)
        moreover have "\<not> boundedAt line word q" if "offset \<le> q" "q < r" for q
          using no [OF that(1)] r(3) that(2) by (cases "q < p + 1") auto
        ultimately show ?thesis using r(2) Some by (simp add: step)
      qed
    qed
  qed
qed

lemma detectLoop_spec:
  assumes "\<forall>(w, l)\<in>set ps. w \<noteq> []"
  shows "(detectLoop lower idx best ps = best \<and> (\<forall>(w, l)\<in>set ps. \<forall>q<idx. \<not> boundedAt lower w q))
    \<or> (\<exists>w p. (w, detectLoop lower idx best ps) \<in> set ps \<and> boundedAt lower w p \<and> p < idx
         \<and> (\<forall>(w', l')\<in>set ps. \<forall>q<p. \<not> boundedAt lower w' q))"
  using assms
proof (induction lower idx best ps rule: detectLoop.induct)
  case (2 lower idx best w level ps)
  have w: "w \<noteq> []" and ps: "\<forall>(w, l)\<in>set ps. w \<noteq> []" using 2(4) by auto
  note B = boundedLoop_spec [OF w le0, of lower, folded indexOfBoundedLogSeverity_def]
  show ?case
  proof (cases "indexOfBoundedLogSeverity lower w")
    case None
    then have "\<forall>q. \<not> boundedAt lower w q" using B by simp
    then show ?thesis using 2(1) [OF None ps] None by simp blast
  next
    case (Some pos)
    then have pos: "boundedAt lower w pos" "\<forall>q<pos. \<not> boundedAt lower w q" using B by auto
    consider "idx \<le> pos" | "pos < idx" "pos = 0" | "pos < idx" "0 < pos" by linarith
    then show ?thesis
    proof cases
      case 1
      have "\<forall>q<idx. \<not> boundedAt lower w q" using pos(2) 1 by simp
      then show ?thesis using 2(2) [OF Some 1 ps] Some 1 by simp (meson less_trans)
    next
      case 2
      then show ?thesis using pos(1) Some by auto
    next
      case 3
      have "\<not> idx \<le> pos" "pos \<noteq> 0" using 3 by simp_all
      note IH = 2(3) [OF Some this ps]
      have eq: "detectLoop lower idx best ((w, level) # ps) = detectLoop lower pos level ps" using Some 3 by simp
      from IH show ?thesis
      proof
        assume "detectLoop lower pos level ps = level \<and> (\<forall>(w, l)\<in>set ps. \<forall>q<pos. \<not> boundedAt lower w q)"
        then show ?thesis using pos 3 unfolding eq by auto
      next
        assume "\<exists>v p. (v, detectLoop lower pos level ps) \<in> set ps \<and> boundedAt lower v p \<and> p < pos
          \<and> (\<forall>(w', l')\<in>set ps. \<forall>q<p. \<not> boundedAt lower w' q)"
        then obtain v p where v: "(v, detectLoop lower pos level ps) \<in> set ps" "boundedAt lower v p" "p < pos"
          "\<forall>(w', l')\<in>set ps. \<forall>q<p. \<not> boundedAt lower w' q" by blast
        then have "\<forall>(w', l')\<in>set ((w, level) # ps). \<forall>q<p. \<not> boundedAt lower w' q" using pos(2) by auto
        then show ?thesis using v 3 unfolding eq by (intro disjI2 exI [of _ v] exI [of _ p]) auto
      qed
    qed
  qed
qed simp

text \<open>The severity of a line without an explicit one is that of its first severity word: some word of the table stands at a
  position between boundaries and no word of the table does so further left, and that word has the severity; or no word of
  the table stands between boundaries anywhere, and the severity is unknown.\<close>

theorem severity_is_first_word:
  "(\<exists>word p. (word, detectLogSeverityFromLine line) \<in> set logSeverityPatterns \<and> boundedAt (toLower line) word p
      \<and> (\<forall>(word', level)\<in>set logSeverityPatterns. \<forall>q<p. \<not> boundedAt (toLower line) word' q))
   \<or> (detectLogSeverityFromLine line = ''unknown'' \<and> (\<forall>(word, level)\<in>set logSeverityPatterns. \<forall>q. \<not> boundedAt (toLower line) word q))"
proof -
  have ne: "\<forall>(w, l)\<in>set logSeverityPatterns. w \<noteq> []" by (simp add: logSeverityPatterns_def)
  have "q < length (toLower line)" if "boundedAt (toLower line) w q" "w \<noteq> []" for w q
    using that by (cases w) (auto simp: boundedAt_def)
  then have out: "\<forall>(w, l)\<in>set logSeverityPatterns. \<forall>q. boundedAt (toLower line) w q \<longrightarrow> q < length (toLower line)"
    using ne by blast
  show ?thesis
    using detectLoop_spec [OF ne, of "toLower line" "length (toLower line)" "''unknown''"] out
    unfolding detectLogSeverityFromLine_def Let_def by blast
qed

lemma demo_line: "toLower ''error x'' = ''error x''"
  by (simp add: toLower_def runes_ascii lowerRune_def encodeRune_def char_of_def bit_0)

theorem severity_is_first_word_witness:
  "detectLogSeverityFromLine ''error x'' = ''error''"
proof -
  let ?d = "detectLogSeverityFromLine ''error x''" and ?B = "boundedAt ''error x''"
  have err: "?B ''error'' 0" "\<not> ?B ''err'' 0" "\<not> ?B ''info'' 0" "\<not> ?B ''fatal'' 0" "\<not> ?B ''critical'' 0"
    by (simp_all add: boundedAt_def isLeftLogSeverityBoundary_def isRightLogSeverityBoundary_def rightBoundaryBytes_def)
  have pats: "(w, l) \<in> set logSeverityPatterns \<longleftrightarrow> (w, l) \<in> {(''fatal'', ''fatal''), (''critical'', ''critical''), (''error'', ''error''), (''err'', ''error''), (''info'', ''info'')}" for w l
    by (simp add: logSeverityPatterns_def)
  have "(''error'', ''error'') \<in> set logSeverityPatterns" by (simp add: pats)
  then show ?thesis
    using severity_is_first_word [of "''error x''", unfolded demo_line] err
    by (elim disjE exE conjE) (auto simp: pats dest!: bspec elim: allE [of _ 0])
qed

section \<open>Rows\<close>

record lokiLogInsertRow =
  ilTeamID :: int
  ilExpiry :: int
  ilUUID :: string
  ilTraceID :: string
  ilSpanID :: string
  ilTraceFlags :: int
  ilTimestamp :: int
  ilObserved :: int
  ilBody :: string
  ilSeverityText :: string
  ilSeverityNumber :: int
  ilServiceName :: string
  ilResource :: gomap
  ilScope :: string
  ilEventName :: string
  ilAttributes :: gomap
  ilStreamID :: u64
  ilStreamLabels :: gomap
  ilFields :: gomap

record 're pushEngine =
  peEngine :: "'re engine"
  peSum64 :: "string \<Rightarrow> u64"
  peSHA256 :: "string \<Rightarrow> string"
  peHex :: "string \<Rightarrow> string"
  peSprint :: "logJSON \<Rightarrow> string"
  peRFC3339 :: "string \<Rightarrow> int option"
  peRange :: "nat \<Rightarrow> gomap \<Rightarrow> gomap"

definition addSnuffleLogLabel :: "string \<times> string \<Rightarrow> gomap \<Rightarrow> gomap" where
  "addSnuffleLogLabel kv dst = (case kv of (key, v) \<Rightarrow>
     if key = [] then dst
     else if key \<in> {''service_name'', ''service.name''} then AList.update ''service.name'' v (AList.update ''service_name'' v dst)
     else if key \<in> {''level'', ''severity'', ''severity_text'', ''detected_level''} then
       AList.update ''detected_level'' v (AList.update ''severity_text'' v (AList.update ''level'' v dst))
     else AList.update key v dst)"

text \<open>The variables that the closure addLabel writes.\<close>

record rowParts =
  rpService :: string
  rpSeverity :: string
  rpTrace :: string
  rpSpan :: string
  rpAttributes :: gomap

definition addLabel :: "string \<times> string \<Rightarrow> rowParts \<Rightarrow> rowParts" where
  "addLabel kv p = (case kv of (key, v) \<Rightarrow>
     if key = [] then p
     else if key \<in> {''service_name'', ''service.name''} then p\<lparr>rpService := v\<rparr>
     else if key \<in> {''level'', ''severity'', ''severity_text'', ''detected_level''} then
       p\<lparr>rpSeverity := v, rpAttributes := AList.update ''detected_level__str'' v (rpAttributes p)\<rparr>
     else if key = ''trace_id'' then p\<lparr>rpTrace := v, rpAttributes := AList.update (key @ ''__str'') v (rpAttributes p)\<rparr>
     else if key = ''span_id'' then p\<lparr>rpSpan := v, rpAttributes := AList.update (key @ ''__str'') v (rpAttributes p)\<rparr>
     else p\<lparr>rpAttributes := AList.update (key @ ''__str'') v (rpAttributes p)\<rparr>)"

text \<open>The resource attribute that a metadata key names.\<close>

definition resourceKey :: "string \<Rightarrow> string option" where
  "resourceKey key = (if hasPrefix key ''resource_'' then Some (drop (length ''resource_'') key)
     else if hasPrefix key ''resource.'' then Some (drop (length ''resource.'') key) else None)"

text \<open>The loop over the metadata: the parts, the resource attributes and the fields.\<close>

fun metadataLoop :: "gomap \<Rightarrow> rowParts \<times> gomap \<times> gomap \<Rightarrow> rowParts \<times> gomap \<times> gomap" where
  "metadataLoop [] st = st"
| "metadataLoop ((key, v) # kvs) (p, resource, fs) = (case resourceKey key of
     Some k \<Rightarrow> metadataLoop kvs (p, AList.update k v resource, fs)
   | None \<Rightarrow> metadataLoop kvs (addLabel (key, v) p, resource, addSnuffleLogLabel (key, v) fs))"

definition snuffleLogStreamID :: "'re pushEngine \<Rightarrow> gomap \<Rightarrow> gomap \<Rightarrow> u64" where
  "snuffleLogStreamID pe labels resource = peSum64 pe (labelsKey labels @ [CHR 0x00] @ labelsKey resource)"

definition lokiLogUUID :: "'re pushEngine \<Rightarrow> gomap \<Rightarrow> int \<Rightarrow> string \<Rightarrow> string" where
  "lokiLogUUID pe labels ts line = ''loki:'' @ peHex pe (peSHA256 pe
     (labelsKey (stableLabelMap labels) @ [CHR 0x00] @ intDec (wrap64 ts) @ [CHR 0x00] @ line))"

text \<open>The rest of lokiInsertRow after the loops over the labels and the metadata.\<close>

definition finishRow :: "'re pushEngine \<Rightarrow> Config \<Rightarrow> int \<Rightarrow> gomap \<Rightarrow> int \<Rightarrow> string \<Rightarrow> gomap \<Rightarrow> rowParts \<times> gomap \<times> gomap \<Rightarrow> lokiLogInsertRow" where
  "finishRow pe cfg now labels ts line streamLabels0 parts =
     (let (p, resource, fs0) = parts;
          serviceName = (if rpService p = [] then labelGet resource ''service.name'' else rpService p);
          severityText = (if rpSeverity p = [] then inferLogSeverity (peEngine pe) line else rpSeverity p);
          streamLabels1 = (if serviceName \<noteq> [] then addSnuffleLogLabel (''service_name'', serviceName) streamLabels0 else streamLabels0);
          streamLabels2 = (if severityText \<noteq> [] then addSnuffleLogLabel (''level'', severityText) streamLabels1 else streamLabels1);
          fs1 = (if rpTrace p \<noteq> [] \<and> labelGet streamLabels2 ''trace_id'' = [] then AList.update ''trace_id'' (rpTrace p) fs0 else fs0);
          fs2 = (if rpSpan p \<noteq> [] \<and> labelGet streamLabels2 ''span_id'' = [] then AList.update ''span_id'' (rpSpan p) fs1 else fs1);
          streamLabels = stableLabelMap streamLabels2 in
      \<lparr>ilTeamID = toInt32 (TeamID cfg), ilExpiry = ts + LogRetention cfg, ilUUID = lokiLogUUID pe labels ts line,
       ilTraceID = rpTrace p, ilSpanID = rpSpan p, ilTraceFlags = 0, ilTimestamp = ts, ilObserved = now, ilBody = line,
       ilSeverityText = severityText, ilSeverityNumber = severityNumber severityText, ilServiceName = serviceName,
       ilResource = resource, ilScope = [], ilEventName = [], ilAttributes = rpAttributes p,
       ilStreamID = snuffleLogStreamID pe streamLabels resource, ilStreamLabels = streamLabels, ilFields = stableLabelMap fs2\<rparr>)"

definition noParts :: rowParts where
  "noParts = \<lparr>rpService = [], rpSeverity = [], rpTrace = [], rpSpan = [], rpAttributes = []\<rparr>"

definition lokiInsertRow :: "'re pushEngine \<Rightarrow> Config \<Rightarrow> int \<Rightarrow> nat \<Rightarrow> gomap \<Rightarrow> gomap \<Rightarrow> int \<Rightarrow> string \<Rightarrow> lokiLogInsertRow" where
  "lokiInsertRow pe cfg now n labels metadata ts line =
     finishRow pe cfg now labels ts line (fold addSnuffleLogLabel (peRange pe n labels) [])
       (metadataLoop (peRange pe n metadata) (fold addLabel (peRange pe n labels) noParts, [], []))"

section \<open>When a row does not depend on the order of its maps\<close>

definition serviceAliases :: "string set" where
  "serviceAliases = {''service_name'', ''service.name''}"

definition severityAliases :: "string set" where
  "severityAliases = {''level'', ''severity'', ''severity_text'', ''detected_level''}"

text \<open>Two keys that write the same entry.\<close>

definition clashes :: "string \<Rightarrow> string \<Rightarrow> bool" where
  "clashes k k' \<longleftrightarrow> (k \<in> serviceAliases \<and> k' \<in> serviceAliases) \<or> (k \<in> severityAliases \<and> k' \<in> severityAliases)"

definition unambiguous :: "gomap \<Rightarrow> bool" where
  "unambiguous m \<longleftrightarrow> distinct (map fst m) \<and> (\<forall>k\<in>fst ` set m. \<forall>k'\<in>fst ` set m. k \<noteq> k' \<longrightarrow> \<not> clashes k k')"

definition resourcesOnce :: "gomap \<Rightarrow> bool" where
  "resourcesOnce m \<longleftrightarrow> (\<forall>k\<in>fst ` set m. \<forall>k'\<in>fst ` set m. k \<noteq> k' \<longrightarrow> resourceKey k = None \<or> resourceKey k \<noteq> resourceKey k')"

text \<open>A range visits every entry once.\<close>

definition rangesOnce :: "'re pushEngine \<Rightarrow> bool" where
  "rangesOnce pe \<longleftrightarrow> (\<forall>n m. mset (peRange pe n m) = mset m)"

text \<open>The same row, up to the order in which its maps are listed.\<close>

definition sameStored :: "lokiLogInsertRow \<Rightarrow> lokiLogInsertRow \<Rightarrow> bool" where
  "sameStored r r' \<longleftrightarrow> r\<lparr>ilResource := [], ilAttributes := [], ilStreamLabels := [], ilFields := []\<rparr>
       = r'\<lparr>ilResource := [], ilAttributes := [], ilStreamLabels := [], ilFields := []\<rparr>
     \<and> map_of (ilResource r) = map_of (ilResource r') \<and> map_of (ilAttributes r) = map_of (ilAttributes r')
     \<and> map_of (ilStreamLabels r) = map_of (ilStreamLabels r') \<and> map_of (ilFields r) = map_of (ilFields r')"

text \<open>The writes as functions on maps.\<close>

definition writtenKeys :: "string \<Rightarrow> string set" where
  "writtenKeys key = (if key = [] then {} else if key \<in> serviceAliases then serviceAliases
     else if key \<in> severityAliases then severityAliases - {''severity''} else {key})"

definition absAdd :: "string \<times> string \<Rightarrow> (string \<rightharpoonup> string) \<Rightarrow> (string \<rightharpoonup> string)" where
  "absAdd kv M = (\<lambda>k. if k \<in> writtenKeys (fst kv) then Some (snd kv) else M k)"

type_synonym absRow = "string \<times> string \<times> string \<times> string \<times> (string \<rightharpoonup> string)"

definition absParts :: "rowParts \<Rightarrow> absRow" where
  "absParts p = (rpService p, rpSeverity p, rpTrace p, rpSpan p, map_of (rpAttributes p))"

definition absLabel :: "string \<times> string \<Rightarrow> absRow \<Rightarrow> absRow" where
  "absLabel kv r = (case (kv, r) of ((key, v), (sv, se, tr, sp, A)) \<Rightarrow>
     if key = [] then r
     else if key \<in> serviceAliases then (v, se, tr, sp, A)
     else if key \<in> severityAliases then (sv, v, tr, sp, A(''detected_level__str'' \<mapsto> v))
     else (sv, se, if key = ''trace_id'' then v else tr, if key = ''span_id'' then v else sp, A(key @ ''__str'' \<mapsto> v)))"

definition absMeta :: "string \<times> string \<Rightarrow> absRow \<times> (string \<rightharpoonup> string) \<times> (string \<rightharpoonup> string) \<Rightarrow> absRow \<times> (string \<rightharpoonup> string) \<times> (string \<rightharpoonup> string)" where
  "absMeta kv st = (case st of (r, R, F) \<Rightarrow> (case resourceKey (fst kv) of
     Some k \<Rightarrow> (r, R(k \<mapsto> snd kv), F) | None \<Rightarrow> (absLabel kv r, R, absAdd kv F)))"

lemma map_of_addSnuffleLogLabel: "map_of (addSnuffleLogLabel kv m) = absAdd kv (map_of m)"
proof -
  obtain key v where kv: "kv = (key, v)" by (cases kv)
  consider "key = []" | "key \<in> serviceAliases" | "key \<in> severityAliases" | "key \<noteq> []" "key \<notin> serviceAliases" "key \<notin> severityAliases" by blast
  then show ?thesis
  proof cases
    case 4
    then show ?thesis by (auto simp: kv addSnuffleLogLabel_def absAdd_def writtenKeys_def update_conv' serviceAliases_def severityAliases_def fun_eq_iff)
  qed (auto simp: kv addSnuffleLogLabel_def absAdd_def writtenKeys_def update_conv' serviceAliases_def severityAliases_def fun_eq_iff)
qed

lemma absParts_addLabel: "absParts (addLabel kv p) = absLabel kv (absParts p)"
  by (cases kv) (auto simp: addLabel_def absLabel_def absParts_def update_conv' serviceAliases_def severityAliases_def)

lemma fold_abs: "(\<And>x s. h (f x s) = g x (h s)) \<Longrightarrow> h (fold f xs s) = fold g xs (h s)"
  by (induction xs arbitrary: s) simp_all

definition absState :: "rowParts \<times> gomap \<times> gomap \<Rightarrow> absRow \<times> (string \<rightharpoonup> string) \<times> (string \<rightharpoonup> string)" where
  "absState st = (case st of (p, resource, fs) \<Rightarrow> (absParts p, map_of resource, map_of fs))"

lemma absState_metadata: "absState (metadataLoop kvs st) = fold absMeta kvs (absState st)"
proof (induction kvs st rule: metadataLoop.induct)
  case (2 key v kvs p resource fs)
  then show ?case
    by (cases "resourceKey key") (simp_all add: absState_def absMeta_def absParts_addLabel map_of_addSnuffleLogLabel update_conv')
qed simp

lemma aliases_disjoint: "serviceAliases \<inter> severityAliases = {}"
  by (auto simp: serviceAliases_def severityAliases_def)

lemma absAdd_commute:
  assumes "fst x \<noteq> fst y" "\<not> clashes (fst x) (fst y)"
  shows "absAdd x (absAdd y M) = absAdd y (absAdd x M)"
proof -
  have "writtenKeys (fst x) \<inter> writtenKeys (fst y) = {}"
    using assms aliases_disjoint by (auto simp: writtenKeys_def clashes_def split: if_split_asm)
  then show ?thesis by (auto simp: absAdd_def fun_eq_iff)
qed

lemma absLabel_commute:
  assumes "fst x \<noteq> fst y" "\<not> clashes (fst x) (fst y)"
  shows "absLabel x (absLabel y r) = absLabel y (absLabel x r)"
proof -
  obtain k v k' v' sv se tr sp A where x: "x = (k, v)" "y = (k', v')" "r = (sv, se, tr, sp, A)" by (metis prod.collapse)
  have str: "j @ ''__str'' = ''detected_level__str'' \<longleftrightarrow> j = ''detected_level''" for j
    using append_same_eq [of j "''__str''" "''detected_level''"] by simp
  have dl: "''detected_level'' \<in> severityAliases" by (simp add: severityAliases_def)
  have tw: "k \<notin> severityAliases \<Longrightarrow> A(''detected_level__str'' \<mapsto> t, k @ ''__str'' \<mapsto> s) = A(k @ ''__str'' \<mapsto> s, ''detected_level__str'' \<mapsto> t)" for k s t
    using str [of k] dl by (intro fun_upd_twist) auto
  have tw': "A(k @ ''__str'' \<mapsto> s, k' @ ''__str'' \<mapsto> t) = A(k' @ ''__str'' \<mapsto> t, k @ ''__str'' \<mapsto> s)" for s t
    using assms(1) by (intro fun_upd_twist) (simp add: x)
  have "k \<noteq> k'" using assms(1) by (simp add: x)
  then show ?thesis using assms(2) aliases_disjoint
    by (cases "k = []"; cases "k' = []"; cases "k \<in> serviceAliases"; cases "k' \<in> serviceAliases";
        cases "k \<in> severityAliases"; cases "k' \<in> severityAliases"; simp add: x absLabel_def clashes_def tw tw'; fastforce)
qed

lemma absMeta_commute:
  assumes "fst x \<noteq> fst y" "\<not> clashes (fst x) (fst y)" "resourceKey (fst x) = None \<or> resourceKey (fst x) \<noteq> resourceKey (fst y)"
  shows "absMeta x (absMeta y st) = absMeta y (absMeta x st)"
proof -
  obtain r R F where "st = (r, R, F)" by (cases st)
  then show ?thesis
    using assms(3) absAdd_commute [OF assms(1,2), of F] absLabel_commute [OF assms(1,2), of r]
      fun_upd_twist [of "the (resourceKey (fst x))" "the (resourceKey (fst y))" R]
    by (cases "resourceKey (fst x)"; cases "resourceKey (fst y)"; simp add: absMeta_def)
qed

lemma fold_order:
  assumes "mset xs = mset ys" "\<And>x y s. x \<in> set xs \<Longrightarrow> y \<in> set xs \<Longrightarrow> x \<noteq> y \<Longrightarrow> f x (f y s) = f y (f x s)"
  shows "fold f xs = fold f ys"
proof (rule fold_multiset_equiv [OF _ assms(1)])
  fix x y assume "x \<in> set xs" "y \<in> set xs"
  then show "f x \<circ> f y = f y \<circ> f x" using assms(2) by (cases "x = y") (auto simp: fun_eq_iff)
qed

lemma unambiguous_keys:
  assumes "unambiguous m" "x \<in> set m" "y \<in> set m" "x \<noteq> y"
  shows "fst x \<noteq> fst y" "\<not> clashes (fst x) (fst y)"
proof -
  show "fst x \<noteq> fst y" using assms eq_key_imp_eq_value [of m "fst x" "snd x" "snd y"] by (auto simp: unambiguous_def prod_eq_iff)
  then show "\<not> clashes (fst x) (fst y)" using assms(1-3) by (auto simp: unambiguous_def)
qed

lemma ranges_agree:
  assumes "rangesOnce pe" "unambiguous m" "\<And>x y s. x \<in> set m \<Longrightarrow> y \<in> set m \<Longrightarrow> fst x \<noteq> fst y \<Longrightarrow> \<not> clashes (fst x) (fst y) \<Longrightarrow> f x (f y s) = f y (f x s)"
  shows "fold f (peRange pe n m) = fold f (peRange pe n' m)"
proof -
  have set: "set (peRange pe n m) = set m" using assms(1) by (metis rangesOnce_def set_mset_mset)
  have "mset (peRange pe n m) = mset (peRange pe n' m)" using assms(1) by (simp add: rangesOnce_def)
  then show ?thesis
  proof (rule fold_order)
    fix x y s assume "x \<in> set (peRange pe n m)" "y \<in> set (peRange pe n m)" "x \<noteq> y"
    then have xy: "x \<in> set m" "y \<in> set m" "x \<noteq> y" using set by simp_all
    show "f x (f y s) = f y (f x s)" by (rule assms(3) [OF xy(1,2) unambiguous_keys [OF assms(2) xy]])
  qed
qed

lemma map_of_stable: "map_of (stableLabelMap m) k = (if k \<noteq> [] \<and> \<not> hasPrefix k ''__'' then map_of m k else None)"
  unfolding stableLabelMap_def by (induction m) auto

lemma distinct_addSnuffle: "distinct (map fst m) \<Longrightarrow> distinct (map fst (addSnuffleLogLabel kv m))"
  by (cases kv) (simp add: addSnuffleLogLabel_def distinct_update)

lemma distinct_fold_addSnuffle: "distinct (map fst m) \<Longrightarrow> distinct (map fst (fold addSnuffleLogLabel kvs m))"
  by (induction kvs arbitrary: m) (simp_all add: distinct_addSnuffle)

lemma distinct_metadata:
  "distinct (map fst (fst (snd st))) \<Longrightarrow> distinct (map fst (snd (snd st)))
   \<Longrightarrow> distinct (map fst (fst (snd (metadataLoop kvs st)))) \<and> distinct (map fst (snd (snd (metadataLoop kvs st))))"
  by (induction kvs st rule: metadataLoop.induct) (auto simp: distinct_update distinct_addSnuffle split: option.splits)

lemma distinct_stable: "distinct (map fst m) \<Longrightarrow> distinct (map fst (stableLabelMap m))"
  by (simp add: stableLabelMap_def distinct_map_filter)

lemma finishRow_cong:
  assumes "map_of sl = map_of sl'" "absState st = absState st'" "distinct (map fst sl)" "distinct (map fst sl')"
    and "distinct (map fst (fst (snd st)))" "distinct (map fst (fst (snd st')))"
  shows "sameStored (finishRow pe cfg now labels ts line sl st) (finishRow pe cfg now labels ts line sl' st')"
proof -
  obtain p r f p' r' f' where st: "st = (p, r, f)" "st' = (p', r', f')" by (metis prod.collapse)
  have p: "rpService p' = rpService p" "rpSeverity p' = rpSeverity p" "rpTrace p' = rpTrace p" "rpSpan p' = rpSpan p"
    and m: "map_of (rpAttributes p') = map_of (rpAttributes p)" "map_of r' = map_of r" "map_of f' = map_of f"
    using assms(2) by (simp_all add: st absState_def absParts_def)
  have get: "map_of x = map_of y \<Longrightarrow> labelGet x k = labelGet y k" for x y k by (simp add: labelGet_def)
  define sv se where "sv = (if rpService p = [] then labelGet r ''service.name'' else rpService p)"
    and "se = (if rpSeverity p = [] then inferLogSeverity (peEngine pe) line else rpSeverity p)"
  define add where "add s = (let s1 = (if sv \<noteq> [] then addSnuffleLogLabel (''service_name'', sv) s else s) in
    if se \<noteq> [] then addSnuffleLogLabel (''level'', se) s1 else s1)" for s
  define fsOf where "fsOf s f = (let f1 = (if rpTrace p \<noteq> [] \<and> labelGet s ''trace_id'' = [] then AList.update ''trace_id'' (rpTrace p) f else f) in
    if rpSpan p \<noteq> [] \<and> labelGet s ''span_id'' = [] then AList.update ''span_id'' (rpSpan p) f1 else f1)" for s f
  have add_eq: "map_of (add sl) = map_of (add sl')" using assms(1) by (simp add: add_def Let_def map_of_addSnuffleLogLabel)
  have d: "distinct (map fst (stableLabelMap (add s)))" if "distinct (map fst s)" for s
    using that by (simp add: add_def Let_def distinct_addSnuffle distinct_stable)
  have stable: "map_of (stableLabelMap (add sl)) = map_of (stableLabelMap (add sl'))" using add_eq by (simp add: map_of_stable fun_eq_iff)
  have key: "labelsKey (stableLabelMap (add sl)) = labelsKey (stableLabelMap (add sl'))"
    by (rule labelsKey_cong [OF d [OF assms(3)] d [OF assms(4)] stable])
  have rkey: "labelsKey r = labelsKey r'" using assms(5,6) m(2) by (intro labelsKey_cong) (simp_all add: st)
  have fs: "map_of (stableLabelMap (fsOf (add sl) f)) = map_of (stableLabelMap (fsOf (add sl') f'))"
    using get [OF add_eq] m(3) by (simp add: fsOf_def Let_def map_of_stable fun_eq_iff update_conv')
  have row: "finishRow pe cfg now labels ts line s (q, r0, f0) =
      \<lparr>ilTeamID = toInt32 (TeamID cfg), ilExpiry = ts + LogRetention cfg, ilUUID = lokiLogUUID pe labels ts line,
       ilTraceID = rpTrace p, ilSpanID = rpSpan p, ilTraceFlags = 0, ilTimestamp = ts, ilObserved = now, ilBody = line,
       ilSeverityText = se, ilSeverityNumber = severityNumber se, ilServiceName = sv,
       ilResource = r0, ilScope = [], ilEventName = [], ilAttributes = rpAttributes q,
       ilStreamID = snuffleLogStreamID pe (stableLabelMap (add s)) r0, ilStreamLabels = stableLabelMap (add s), ilFields = stableLabelMap (fsOf (add s) f0)\<rparr>"
    if "rpService q = rpService p" "rpSeverity q = rpSeverity p" "rpTrace q = rpTrace p" "rpSpan q = rpSpan p" "map_of r0 = map_of r" for s q r0 f0
  proof -
    have a: "(if rpService q = [] then labelGet r0 ''service.name'' else rpService q) = sv"
      "(if rpSeverity q = [] then inferLogSeverity (peEngine pe) line else rpSeverity q) = se"
      using that get [OF that(5), of "''service.name''"] by (simp_all add: sv_def se_def)
    show ?thesis
      unfolding finishRow_def Let_def prod.case a that(3,4) add_def fsOf_def by (rule refl)
  qed
  show ?thesis
    unfolding st row [OF refl refl refl refl refl] row [OF p m(2)]
    using stable fs key rkey m by (simp add: sameStored_def snuffleLogStreamID_def)
qed

text \<open>C32. The stored row is determined by the pushed line: Go ranges over the labels and the metadata in an arbitrary order,
  and two rows of the same line are still the same, with the same stream id, as long as the labels name the service and
  the severity once each, the metadata do so too, and no two metadata keys name one resource attribute.\<close>

theorem row_order_independent:
  assumes "rangesOnce pe" "unambiguous labels" "unambiguous metadata" "resourcesOnce metadata"
  shows "sameStored (lokiInsertRow pe cfg now n labels metadata ts line) (lokiInsertRow pe cfg now n' labels metadata ts line)"
proof -
  let ?sl = "\<lambda>n. fold addSnuffleLogLabel (peRange pe n labels) []" and ?p = "\<lambda>n. fold addLabel (peRange pe n labels) noParts"
  have sl: "map_of (?sl n) = map_of (?sl n')"
  proof -
    have "fold absAdd (peRange pe n labels) = fold absAdd (peRange pe n' labels)"
      by (rule ranges_agree [OF assms(1,2)]) (rule absAdd_commute)
    then show ?thesis by (simp add: fold_abs [of map_of addSnuffleLogLabel absAdd, OF map_of_addSnuffleLogLabel])
  qed
  have p: "absParts (?p n) = absParts (?p n')"
  proof -
    have "fold absLabel (peRange pe n labels) = fold absLabel (peRange pe n' labels)"
      by (rule ranges_agree [OF assms(1,2)]) (rule absLabel_commute)
    then show ?thesis by (simp add: fold_abs [of absParts addLabel absLabel, OF absParts_addLabel])
  qed
  have "fold absMeta (peRange pe n metadata) = fold absMeta (peRange pe n' metadata)"
    by (rule ranges_agree [OF assms(1,3)], rule absMeta_commute) (use assms(4) in \<open>auto simp: resourcesOnce_def\<close>)
  then have st: "absState (metadataLoop (peRange pe n metadata) (?p n, [], [])) = absState (metadataLoop (peRange pe n' metadata) (?p n', [], []))"
    using p by (simp add: absState_metadata) (simp add: absState_def)
  show ?thesis
    unfolding lokiInsertRow_def
    by (rule finishRow_cong [OF sl st]) (simp_all add: distinct_fold_addSnuffle distinct_metadata)
qed

definition demoPush :: "unit pushEngine" where
  "demoPush = \<lparr>peEngine = \<lparr>enCompile = \<lambda>_. None, enSource = \<lambda>_. [], enMatch = \<lambda>_ _. False, enSubmatch = \<lambda>_ _. None,
       enExpand = \<lambda>_ _ _. None, enUnmarshal = \<lambda>_. None, enMarshal = \<lambda>_. [], enFormat = \<lambda>_. [], enTemplate = \<lambda>_ _ _. None\<rparr>,
     peSum64 = (\<lambda>s. of_nat (length s)), peSHA256 = id, peHex = id, peSprint = (\<lambda>_. []), peRFC3339 = (\<lambda>_. None),
     peRange = (\<lambda>n m. if even n then m else rev m)\<rparr>"

lemma demoPush_ranges: "rangesOnce demoPush"
  by (simp add: rangesOnce_def demoPush_def)

theorem row_order_independent_witness:
  "\<forall>cfg. sameStored
    (lokiInsertRow demoPush cfg 0 0 [(''app'', ''web''), (''level'', ''info'')] [(''trace_id'', ''t1''), (''resource_host'', ''h'')] 5 ''x'')
    (lokiInsertRow demoPush cfg 0 1 [(''app'', ''web''), (''level'', ''info'')] [(''trace_id'', ''t1''), (''resource_host'', ''h'')] 5 ''x'')"
  by (intro allI row_order_independent [OF demoPush_ranges])
    (simp_all add: unambiguous_def clashes_def resourcesOnce_def resourceKey_def hasPrefix_def serviceAliases_def severityAliases_def)

text \<open>Two labels that name the severity with different values make the stream of a line depend on the order in which Go
  ranges over its labels: the later one wins, in the stream labels, whose hash is the id, and in the severity. So
  the lines of one push can be spread over two streams.\<close>

theorem aliased_labels_split_streams:
  assumes "peRange pe n labels = [(''level'', a), (''severity'', b)]" "peRange pe n' labels = [(''severity'', b), (''level'', a)]"
    and "a \<noteq> []" "b \<noteq> []" "\<forall>i. peRange pe i [] = []"
  shows "ilSeverityText (lokiInsertRow pe cfg now n labels [] ts line) = b \<and> ilSeverityText (lokiInsertRow pe cfg now n' labels [] ts line) = a
    \<and> labelGet (ilStreamLabels (lokiInsertRow pe cfg now n labels [] ts line)) ''level'' = b
    \<and> labelGet (ilStreamLabels (lokiInsertRow pe cfg now n' labels [] ts line)) ''level'' = a"
  using assms
  by (simp add: lokiInsertRow_def finishRow_def Let_def addLabel_def addSnuffleLogLabel_def noParts_def labelGet_def map_of_stable
      hasPrefix_def update_conv')

theorem aliased_labels_split_streams_witness:
  "\<forall>cfg. labelGet (ilStreamLabels (lokiInsertRow demoPush cfg 0 0 [(''level'', ''warn''), (''severity'', ''error'')] [] 5 ''x'')) ''level'' = ''error''
    \<and> labelGet (ilStreamLabels (lokiInsertRow demoPush cfg 0 1 [(''level'', ''warn''), (''severity'', ''error'')] [] 5 ''x'')) ''level'' = ''warn''"
proof
  fix cfg
  show "labelGet (ilStreamLabels (lokiInsertRow demoPush cfg 0 0 [(''level'', ''warn''), (''severity'', ''error'')] [] 5 ''x'')) ''level'' = ''error''
    \<and> labelGet (ilStreamLabels (lokiInsertRow demoPush cfg 0 1 [(''level'', ''warn''), (''severity'', ''error'')] [] 5 ''x'')) ''level'' = ''warn''"
    using aliased_labels_split_streams [of demoPush 0 "[(''level'', ''warn''), (''severity'', ''error'')]" "''warn''" "''error''" 1 cfg 0 5 "''x''"]
    by (simp add: demoPush_def)
qed

section \<open>Pushed and read back\<close>

text \<open>The columns that a query of a PostHog logs table reads of an inserted row.\<close>

definition storedColumnsOf :: "lokiLogInsertRow \<Rightarrow> logColumns" where
  "storedColumnsOf r = \<lparr>colTime = ilTimestamp r, colObserved = ilObserved r, colBody = ilBody r, colService = ilServiceName r,
     colSeverity = ilSeverityText r, colTrace = ilTraceID r, colSpan = ilSpanID r, colResource = ilResource r, colAttrs = ilAttributes r\<rparr>"

definition attributesOK :: "gomap \<Rightarrow> bool" where
  "attributesOK A \<longleftrightarrow> distinct (map fst A) \<and> (\<forall>kv\<in>set A. hasSuffix (fst kv) ''__str'')
     \<and> (\<forall>k\<in>(serviceAliases \<union> severityAliases) - {''detected_level''}. map_of A (k @ ''__str'') = None)"

lemma hasSuffix_str: "hasSuffix (k @ ''__str'') ''__str''" "hasSuffix ''detected_level__str'' ''__str''"
  by (simp_all add: hasSuffix_def)

lemma keys_of_update: "kv \<in> set (AList.update k v A) \<Longrightarrow> fst kv = k \<or> kv \<in> set A"
  by (induction A) (auto split: if_split_asm)

lemma attributesOK_update:
  assumes "attributesOK A" "hasSuffix key ''__str''" "\<forall>k\<in>(serviceAliases \<union> severityAliases) - {''detected_level''}. key \<noteq> k @ ''__str''"
  shows "attributesOK (AList.update key v A)"
  using assms keys_of_update [of _ key v A] by (fastforce simp: attributesOK_def distinct_update update_conv')

lemma attributesOK_addLabel:
  assumes "attributesOK (rpAttributes p)"
  shows "attributesOK (rpAttributes (addLabel kv p))"
proof -
  obtain k v where kv: "kv = (k, v)" by (cases kv)
  have dl: "\<forall>j\<in>(serviceAliases \<union> severityAliases) - {''detected_level''}. ''detected_level__str'' \<noteq> j @ ''__str''"
    by (auto simp: serviceAliases_def severityAliases_def)
  consider "k = []" | "k \<in> serviceAliases" | "k \<in> severityAliases" | "k \<noteq> []" "k \<notin> serviceAliases" "k \<notin> severityAliases" by blast
  then show ?thesis
  proof cases
    case 3
    then have "rpAttributes (addLabel kv p) = AList.update ''detected_level__str'' v (rpAttributes p)"
      by (auto simp: kv addLabel_def severityAliases_def)
    then show ?thesis using attributesOK_update [OF assms hasSuffix_str(2) dl] by simp
  next
    case 4
    then have "rpAttributes (addLabel kv p) = AList.update (k @ ''__str'') v (rpAttributes p)"
      by (auto simp: kv addLabel_def serviceAliases_def severityAliases_def)
    moreover have "attributesOK (AList.update (k @ ''__str'') v (rpAttributes p))"
      by (rule attributesOK_update [OF assms hasSuffix_str(1)]) (use 4 in auto)
    ultimately show ?thesis by simp
  qed (use assms in \<open>auto simp: kv addLabel_def serviceAliases_def\<close>)
qed

lemma attributesOK_fold: "attributesOK (rpAttributes p) \<Longrightarrow> attributesOK (rpAttributes (fold addLabel kvs p))"
  by (induction kvs arbitrary: p) (simp_all add: attributesOK_addLabel)

lemma attributesOK_metadata: "attributesOK (rpAttributes (fst st)) \<Longrightarrow> attributesOK (rpAttributes (fst (metadataLoop kvs st)))"
  by (induction kvs st rule: metadataLoop.induct) (auto simp: attributesOK_addLabel split: option.splits)

text \<open>The attribute of a label that is no alias.\<close>

definition plainLabel :: "string \<Rightarrow> bool" where
  "plainLabel k \<longleftrightarrow> k \<noteq> [] \<and> k \<notin> serviceAliases \<and> k \<notin> severityAliases"

lemma attribute_addLabel:
  assumes "plainLabel k"
  shows "map_of (rpAttributes (addLabel (j, v) p)) (k @ ''__str'') = (if j = k then Some v else map_of (rpAttributes p) (k @ ''__str''))"
proof -
  have str: "k @ ''__str'' = ''detected_level__str'' \<longleftrightarrow> k = ''detected_level''"
    using append_same_eq [of k "''__str''" "''detected_level''"] by simp
  have "absParts (addLabel (j, v) p) = absLabel (j, v) (absParts p)" by (rule absParts_addLabel)
  then have "map_of (rpAttributes (addLabel (j, v) p)) = snd (snd (snd (snd (absLabel (j, v) (absParts p)))))"
    by (simp add: absParts_def prod_eq_iff)
  then show ?thesis using assms str
    by (auto simp: absLabel_def absParts_def plainLabel_def severityAliases_def)
qed

lemma attribute_fold:
  assumes "plainLabel k" "distinct (map fst kvs)"
  shows "map_of (rpAttributes (fold addLabel kvs p)) (k @ ''__str'')
    = (case map_of kvs k of Some v \<Rightarrow> Some v | None \<Rightarrow> map_of (rpAttributes p) (k @ ''__str''))"
  using assms(2)
proof (induction kvs arbitrary: p)
  case (Cons kv kvs)
  obtain j v where kv: "kv = (j, v)" by (cases kv)
  then have "j = k \<Longrightarrow> map_of kvs k = None" using Cons.prems by (auto simp: map_of_eq_None_iff)
  then show ?case using Cons assms(1) by (auto simp: kv attribute_addLabel split: option.splits)
qed simp

lemma attribute_metadata:
  assumes "plainLabel k" "resourceKey k = None" "distinct (map fst kvs)"
  shows "map_of (rpAttributes (fst (metadataLoop kvs st))) (k @ ''__str'')
    = (case map_of kvs k of Some v \<Rightarrow> Some v | None \<Rightarrow> map_of (rpAttributes (fst st)) (k @ ''__str''))"
  using assms(3)
proof (induction kvs st rule: metadataLoop.induct)
  case (2 j v kvs p resource fs)
  then have fresh: "j = k \<Longrightarrow> map_of kvs k = None" by (auto simp: map_of_eq_None_iff)
  show ?case
  proof (cases "resourceKey j")
    case None
    then show ?thesis using 2 fresh assms(1) by (auto simp: attribute_addLabel split: option.splits)
  next
    case (Some i)
    then show ?thesis using 2 assms(2) by (auto split: option.splits)
  qed
qed simp

lemma range_map_of:
  assumes "rangesOnce pe" "distinct (map fst m)"
  shows "distinct (map fst (peRange pe n m))" "map_of (peRange pe n m) = map_of m"
proof -
  have m: "mset (peRange pe n m) = mset m" using assms(1) by (simp add: rangesOnce_def)
  then have "mset (map fst (peRange pe n m)) = mset (map fst m)" by (simp add: mset_map)
  then show d: "distinct (map fst (peRange pe n m))" using assms(2) mset_eq_imp_distinct_iff by blast
  show "map_of (peRange pe n m) = map_of m"
    using map_of_inject_set [OF d assms(2)] m by (metis set_mset_mset)
qed



end
