(* ===== verification/LokiDecode.thy ===== *)
theory LokiDecode
  imports LokiRow LogQLText
begin

text \<open>
  Decoding of a Loki push (src/internal/snuffle/loki_api.go, rowsFromLokiPushRequest to
  parseLokiProtoLabelPair, parseLokiLabelString and parseLokiPushTimestamp): the JSON form, after
  encoding/json, and the protobuf form, after snappy.

  The five protobuf loops have one shape, the loop \<open>protoLoop\<close> with a reaction to each field number;
  a field that a message does not know is skipped. The specification side is the wire format of
  FastDecode, a message as a list of fields.
\<close>

section \<open>Errors and times\<close>

datatype pushError = WireError rw_error | LabelError logQLError | PushError string "string list"

text \<open>A time.Time is its nanoseconds since 1970. time.Unix normalises the nanoseconds and adds, in int64, the seconds from
  year 1 to 1970.\<close>

definition goUnix :: "int \<Rightarrow> int \<Rightarrow> int" where
  "goUnix sec nsec =
     (let (sec1, nsec1) = (if nsec < 0 \<or> 1000000000 \<le> nsec then
            (let n = nsec sdiv 1000000000; s = wrap64 (sec + n); r = nsec - n * 1000000000 in
             if r < 0 then (wrap64 (s - 1), r + 1000000000) else (s, r))
          else (sec, nsec)) in
      (wrap64 (sec1 + 62135596800) - 62135596800) * 1000000000 + nsec1)"

text \<open>strconv.ParseInt with base 10 and 64 bits; None is an error.\<close>

definition digitVal :: "char \<Rightarrow> int" where
  "digitVal c = int (code c) - 48"

definition parseInt10 :: "string \<Rightarrow> int option" where
  "parseInt10 s =
     (let (neg, ds) = (case s of [] \<Rightarrow> (False, []) | c # cs \<Rightarrow> if c = CHR ''-'' then (True, cs) else if c = CHR ''+'' then (False, cs) else (False, s));
          v = foldl (\<lambda>acc d. acc * 10 + digitVal d) 0 ds; w = (if neg then - v else v) in
      if ds = [] \<or> \<not> list_all digitByte ds \<or> \<not> in_i64 w then None else Some w)"

definition parseLokiPushTimestamp :: "'re pushEngine \<Rightarrow> string \<Rightarrow> pushError + int" where
  "parseLokiPushTimestamp pe input0 =
     (let input = trimByte dquote (trimSpace input0) in
      if input = [] then Inl (PushError ''missing log timestamp'' [])
      else case parseInt10 input of
        Some ns \<Rightarrow> Inr (goUnix 0 ns)
      | None \<Rightarrow> (case peRFC3339 pe input of Some t \<Rightarrow> Inr t | None \<Rightarrow> Inl (PushError ''cannot parse log timestamp %q'' [input])))"

section \<open>Labels\<close>

text \<open>The loop over the matchers of a label string.\<close>

fun equalityLabels :: "'re logQLLabelMatcher list \<Rightarrow> gomap \<Rightarrow> pushError + gomap" where
  "equalityLabels [] labels = Inr labels"
| "equalityLabels (m # ms) labels =
     (if lmOp m \<noteq> ''='' then Inl (PushError ''push labels must use equality matchers, got %s'' [lmOp m])
      else equalityLabels ms (AList.update (lmName m) (lmValue m) labels))"

definition parseLokiLabelString :: "'re pushEngine \<Rightarrow> string \<Rightarrow> pushError + gomap" where
  "parseLokiLabelString pe input0 =
     (let input1 = trimSpace input0;
          input = (if hasPrefix input1 ''{'' \<and> hasSuffix input1 ''}'' then trimSpace (take (length input1 - 2) (drop 1 input1)) else input1) in
      case parseLogQLMatchers (enCompile (peEngine pe)) input of
        Inl e \<Rightarrow> Inl (LabelError e) | Inr ms \<Rightarrow> equalityLabels ms [])"

section \<open>The protobuf form\<close>

text \<open>What a loop does with a field of some number: it wants a length-delimited or a varint payload and gives an error
  otherwise; or it takes a length-delimited one and skips any other; or it does not know the field.\<close>

datatype 's reaction = OnBytes string "bytes \<Rightarrow> pushError + 's" | OnVarint string "u64 \<Rightarrow> 's" | IfBytes "bytes \<Rightarrow> 's" | SkipField

function protoLoop :: "(nat \<Rightarrow> 's \<Rightarrow> 's reaction) \<Rightarrow> bytes \<Rightarrow> nat \<Rightarrow> 's \<Rightarrow> pushError + 's" where
  "protoLoop react data i s =
     (if i < length data then
        (case readProtoVarint data i of
           Inl e \<Rightarrow> Inl (WireError e)
         | Inr (key, i1) \<Rightarrow>
             let wireType = keyWire key;
                 skipped = (case skipProtoField data i1 wireType of Inl e \<Rightarrow> Inl (WireError e) | Inr i2 \<Rightarrow> protoLoop react data i2 s) in
             (case react (keyField key) s of
                OnBytes what f \<Rightarrow>
                  (if wireType \<noteq> protoWireBytes then Inl (PushError what [intDec (int wireType)])
                   else case readProtoBytes data i1 of
                     Inl e \<Rightarrow> Inl (WireError e)
                   | Inr (raw, i2) \<Rightarrow> (case f raw of Inl e \<Rightarrow> Inl e | Inr s' \<Rightarrow> protoLoop react data i2 s'))
              | OnVarint what f \<Rightarrow>
                  (if wireType \<noteq> protoWireVarint then Inl (PushError what [intDec (int wireType)])
                   else case readProtoVarint data i1 of
                     Inl e \<Rightarrow> Inl (WireError e)
                   | Inr (v, i2) \<Rightarrow> protoLoop react data i2 (f v))
              | IfBytes f \<Rightarrow>
                  (if wireType \<noteq> protoWireBytes then skipped
                   else case readProtoBytes data i1 of
                     Inl e \<Rightarrow> Inl (WireError e)
                   | Inr (raw, i2) \<Rightarrow> protoLoop react data i2 (f raw))
              | SkipField \<Rightarrow> skipped))
      else Inr s)"
  by pat_completeness auto
termination
  by (relation "measure (\<lambda>(r, d, i, _). length d - i)")
    (auto dest!: readProtoVarint_progress readProtoBytes_progress skipProtoField_progress)

declare protoLoop.simps [simp del]

definition parseLokiProtoLabelPair :: "bytes \<Rightarrow> pushError + (string \<times> string)" where
  "parseLokiProtoLabelPair data = protoLoop (\<lambda>n (name, v).
       IfBytes (\<lambda>raw. if n = 1 then (bytes_str raw, v) else if n = 2 then (name, bytes_str raw) else (name, v)))
     data 0 ([], [])"

definition parseLokiProtoTimestamp :: "bytes \<Rightarrow> pushError + int" where
  "parseLokiProtoTimestamp data = map_sum id (\<lambda>(seconds, nanos). goUnix seconds nanos)
     (protoLoop (\<lambda>n (seconds, nanos).
        if n = 1 then OnVarint ''decode timestamp protobuf: seconds has wire type %d'' (\<lambda>v. (sint v, nanos))
        else if n = 2 then OnVarint ''decode timestamp protobuf: nanos has wire type %d'' (\<lambda>v. (seconds, sint v))
        else SkipField) data 0 (0, 0))"

record lokiProtoEntry =
  peTimestamp :: int
  peLine :: string
  peMetadata :: gomap

text \<open>The zero time.Time is the first day of year 1.\<close>

definition zeroTime :: int where
  "zeroTime = - 62135596800 * 1000000000"

definition emptyEntry :: lokiProtoEntry where
  "emptyEntry = \<lparr>peTimestamp = zeroTime, peLine = [], peMetadata = []\<rparr>"

definition parseLokiProtoEntry :: "bytes \<Rightarrow> pushError + lokiProtoEntry" where
  "parseLokiProtoEntry data = protoLoop (\<lambda>n entry.
       if n = 1 then OnBytes ''decode loki entry protobuf: timestamp has wire type %d''
         (\<lambda>raw. map_sum id (\<lambda>t. entry\<lparr>peTimestamp := t\<rparr>) (parseLokiProtoTimestamp raw))
       else if n = 2 then OnBytes ''decode loki entry protobuf: line has wire type %d'' (\<lambda>raw. Inr (entry\<lparr>peLine := bytes_str raw\<rparr>))
       else if n = 3 then OnBytes ''decode loki entry protobuf: metadata has wire type %d''
         (\<lambda>raw. map_sum id (\<lambda>(name, v). if name \<noteq> [] then entry\<lparr>peMetadata := AList.update name v (peMetadata entry)\<rparr> else entry)
            (parseLokiProtoLabelPair raw))
       else SkipField)
     data 0 emptyEntry"

text \<open>The labels of a stream are nil until they are read; a stream without labels has none.\<close>

definition parseLokiProtoStream :: "'re pushEngine \<Rightarrow> bytes \<Rightarrow> pushError + (gomap \<times> lokiProtoEntry list)" where
  "parseLokiProtoStream pe data = protoLoop (\<lambda>n (labels, entries).
       if n = 1 then OnBytes ''decode loki stream protobuf: labels has wire type %d''
         (\<lambda>raw. map_sum id (\<lambda>m. (m, entries)) (parseLokiLabelString pe (bytes_str raw)))
       else if n = 2 then OnBytes ''decode loki stream protobuf: entry has wire type %d''
         (\<lambda>raw. map_sum id (\<lambda>entry. (labels, entries @ [entry])) (parseLokiProtoEntry raw))
       else SkipField)
     data 0 ([], [])"

text \<open>The rows of the entries of a stream, after those that are there already.\<close>

definition entryRows :: "'re pushEngine \<Rightarrow> Config \<Rightarrow> int \<Rightarrow> gomap \<times> lokiProtoEntry list \<Rightarrow> lokiLogInsertRow list \<Rightarrow> lokiLogInsertRow list" where
  "entryRows pe cfg now stream rows =
     foldl (\<lambda>rows e. rows @ [lokiInsertRow pe cfg now (length rows) (fst stream) (peMetadata e) (peTimestamp e) (peLine e)]) rows (snd stream)"

definition decodeLokiPushProto :: "'re pushEngine \<Rightarrow> Config \<Rightarrow> int \<Rightarrow> bytes \<Rightarrow> pushError + lokiLogInsertRow list" where
  "decodeLokiPushProto pe cfg now data = protoLoop (\<lambda>n rows.
       if n = 1 then OnBytes ''decode loki push protobuf: stream has wire type %d''
         (\<lambda>raw. map_sum id (\<lambda>stream. entryRows pe cfg now stream rows) (parseLokiProtoStream pe raw))
       else SkipField)
     data 0 []"

section \<open>What the wire format says of a message\<close>

definition fieldStep :: "(nat \<Rightarrow> 's \<Rightarrow> 's reaction) \<Rightarrow> 's \<Rightarrow> field \<Rightarrow> pushError + 's" where
  "fieldStep react s f = (case react (fst f) s of
     OnBytes what g \<Rightarrow> (case snd f of WBytes b \<Rightarrow> g b | _ \<Rightarrow> Inl (PushError what [intDec (int (payloadWire (snd f)))]))
   | OnVarint what g \<Rightarrow> (case snd f of WVarint v \<Rightarrow> Inr (g v) | _ \<Rightarrow> Inl (PushError what [intDec (int (payloadWire (snd f)))]))
   | IfBytes g \<Rightarrow> (case snd f of WBytes b \<Rightarrow> Inr (g b) | _ \<Rightarrow> Inr s)
   | SkipField \<Rightarrow> Inr s)"

fun fieldsFold :: "(nat \<Rightarrow> 's \<Rightarrow> 's reaction) \<Rightarrow> 's \<Rightarrow> field list \<Rightarrow> pushError + 's" where
  "fieldsFold react s [] = Inr s"
| "fieldsFold react s (f # fs) = (case fieldStep react s f of Inl e \<Rightarrow> Inl e | Inr s' \<Rightarrow> fieldsFold react s' fs)"

lemma protoLoop_field:
  assumes "field_ok f"
  shows "protoLoop react (pre @ encodeField f @ post) (length pre) s
    = (case fieldStep react s f of Inl e \<Rightarrow> Inl e
       | Inr s' \<Rightarrow> protoLoop react (pre @ encodeField f @ post) (length (pre @ encodeField f)) s')"
proof -
  obtain n p where f: "f = (n, p)" by (cases f)
  define D i1 i2 where "D = pre @ encodeField f @ post" and "i1 = length (pre @ encodeVarint (fieldKey f))"
    and "i2 = length (pre @ encodeField f)"
  have lt: "length pre < length D" using encodeField_pos [of f] by (simp add: D_def)
  have key: "readProtoVarint D (length pre) = Inr (fieldKey f, i1)" "keyField (fieldKey f) = n" "keyWire (fieldKey f) = payloadWire p"
    using read_key [of pre f post] fieldKey_parts [OF assms] by (simp_all add: D_def i1_def f)
  have skip: "skipProtoField D i1 (payloadWire p) = Inr i2"
    using skip_field [OF assms, of pre post] by (simp add: D_def i1_def i2_def f)
  have bytes: "readProtoBytes D i1 = Inr (b, i2)" if "p = WBytes b" for b
    using bytes_field [of b pre n post] assms that by (simp add: D_def i1_def i2_def f field_ok_def)
  have varint: "readProtoVarint D i1 = Inr (v, i2)" if "p = WVarint v" for v
    using varint_field [of pre n v post] that by (simp add: D_def i1_def i2_def f)
  have parts: "fst f = n" "snd f = p" by (simp_all add: f)
  have "protoLoop react D (length pre) s = (case fieldStep react s f of Inl e \<Rightarrow> Inl e | Inr s' \<Rightarrow> protoLoop react D i2 s')"
    using lt bytes varint skip unfolding protoLoop.simps [of react D "length pre" s]
    by (cases "react n s"; cases p; simp add: key fieldStep_def parts Let_def wire_type_defs split: sum.split)
  then show ?thesis by (simp only: D_def i2_def)
qed

lemma protoLoop_fields:
  assumes "list_all field_ok fs"
  shows "protoLoop react (pre @ encodeFields fs) (length pre) s = fieldsFold react s fs"
  using assms
proof (induction fs arbitrary: pre s)
  case (Cons f fs)
  then show ?case
    using protoLoop_field [of f react pre "encodeFields fs" s] Cons.IH [of "pre @ encodeField f"]
    by (cases "fieldStep react s f") simp_all
qed (simp add: protoLoop.simps)

lemma protoLoop_message: "list_all field_ok fs \<Longrightarrow> protoLoop react (encodeFields fs) 0 s = fieldsFold react s fs"
  using protoLoop_fields [of fs react "[]" s] by simp

section \<open>A push request and its encoding\<close>

text \<open>An entry is its seconds and nanoseconds, its line and its structured metadata; a stream is the text of its labels
  and its entries.\<close>

type_synonym pushedEntry = "(int \<times> int) \<times> string \<times> (string \<times> string) list"

definition encodeLabelPair :: "string \<times> string \<Rightarrow> bytes" where
  "encodeLabelPair kv = encodeFields [(1, WBytes (str_bytes (fst kv))), (2, WBytes (str_bytes (snd kv)))]"

definition encodeTimestamp :: "int \<times> int \<Rightarrow> bytes" where
  "encodeTimestamp t = encodeFields [(1, WVarint (of_int (fst t))), (2, WVarint (of_int (snd t)))]"

definition entryFields :: "pushedEntry \<Rightarrow> field list" where
  "entryFields e = (case e of (t, line, metadata) \<Rightarrow>
     (1, WBytes (encodeTimestamp t)) # (2, WBytes (str_bytes line)) # map (\<lambda>kv. (3, WBytes (encodeLabelPair kv))) metadata)"

definition streamFields :: "string \<times> pushedEntry list \<Rightarrow> field list" where
  "streamFields s = (1, WBytes (str_bytes (fst s))) # map (\<lambda>e. (2, WBytes (encodeFields (entryFields e)))) (snd s)"

definition encodePush :: "(string \<times> pushedEntry list) list \<Rightarrow> bytes" where
  "encodePush streams = encodeFields (map (\<lambda>s. (1, WBytes (encodeFields (streamFields s)))) streams)"

definition pushedEntry_ok :: "pushedEntry \<Rightarrow> bool" where
  "pushedEntry_ok e \<longleftrightarrow> (case e of ((sec, nsec), line, metadata) \<Rightarrow> in_i64 (sec * 1000000000 + nsec) \<and> 0 \<le> nsec \<and> nsec < 1000000000
     \<and> distinct (map fst metadata) \<and> [] \<notin> fst ` set metadata)"

text \<open>The rows of a request, given the labels of each stream: those of the entries, in order.\<close>

definition pushedEntries :: "pushedEntry list \<Rightarrow> lokiProtoEntry list" where
  "pushedEntries es = map (\<lambda>((sec, nsec), line, metadata). \<lparr>peTimestamp = sec * 1000000000 + nsec, peLine = line, peMetadata = metadata\<rparr>) es"

lemma length_payload: "(n, WBytes b) \<in> set fs \<Longrightarrow> length b < length (encodeFields fs)"
proof (induction fs)
  case (Cons f fs)
  show ?case
  proof (cases "f = (n, WBytes b)")
    case True
    have "length b \<le> length (encodeBytes b)" by (simp add: encodeBytes_def)
    moreover have "0 < length (encodeVarint (fieldKey f))" using varint.enc_nonempty [of "fieldKey f"] by simp
    moreover have "length (encodeFields (f # fs)) = length (encodeVarint (fieldKey f)) + length (encodeBytes b) + length (encodeFields fs)"
      by (simp add: True encodeField_def)
    ultimately show ?thesis by linarith
  next
    case False
    then show ?thesis using Cons by auto
  qed
qed simp

lemma fields_ok:
  assumes "length (encodeFields fs) \<le> N" "N < 2 ^ 64" "\<forall>f\<in>set fs. 0 < fst f \<and> fst f < 2 ^ 29"
  shows "list_all field_ok fs"
  unfolding list_all_iff
proof
  fix f assume f: "f \<in> set fs"
  show "field_ok f"
  proof (cases "snd f")
    case (WBytes b)
    then have "(fst f, WBytes b) \<in> set fs" using f by (metis prod.collapse)
    then have "length b < 2 ^ 64" using length_payload assms(1,2) by fastforce
    then show ?thesis using assms(3) f WBytes by (simp add: field_ok_def)
  qed (use assms(3) f in \<open>simp_all add: field_ok_def\<close>)
qed

lemma labelPair_roundtrip: "length (encodeLabelPair kv) < 2 ^ 64 \<Longrightarrow> parseLokiProtoLabelPair (encodeLabelPair kv) = Inr kv"
proof -
  assume *: "length (encodeLabelPair kv) < 2 ^ 64"
  let ?fs = "[(1, WBytes (str_bytes (fst kv))), (2, WBytes (str_bytes (snd kv)))]"
  have "list_all field_ok ?fs" by (rule fields_ok [OF order_refl]) (use * in \<open>simp_all add: encodeLabelPair_def del: encodeFields_simps\<close>)
  then show ?thesis
    by (simp add: parseLokiProtoLabelPair_def encodeLabelPair_def protoLoop_message fieldStep_def del: encodeFields_simps)
qed

lemma sint_of_i64: "in_i64 x \<Longrightarrow> sint (of_int x :: u64) = x"
  using wrap64_sint_of_int [of x] wrap64_id [of x] by simp

lemma timestamp_roundtrip:
  assumes "length (encodeTimestamp t) < 2 ^ 64" "\<bar>fst t\<bar> < 2 ^ 62" "0 \<le> snd t" "snd t < 1000000000"
  shows "parseLokiProtoTimestamp (encodeTimestamp t) = Inr (fst t * 1000000000 + snd t)"
proof -
  let ?fs = "[(1, WVarint (of_int (fst t))), (2, WVarint (of_int (snd t)))]"
  have "list_all field_ok ?fs" by (simp add: field_ok_def)
  moreover have "sint (of_int (fst t) :: u64) = fst t" "sint (of_int (snd t) :: u64) = snd t"
    using assms by (auto intro!: sint_of_i64 simp: in_i64_def)
  moreover have "in_i64 (fst t + 62135596800)" using assms(2) by (simp add: in_i64_def abs_less_iff)
  then have "goUnix (fst t) (snd t) = fst t * 1000000000 + snd t"
    using assms(3,4) by (simp add: goUnix_def Let_def case_prod_beta)
  ultimately show ?thesis
    by (simp add: parseLokiProtoTimestamp_def encodeTimestamp_def protoLoop_message fieldStep_def case_prod_beta del: encodeFields_simps)
qed

lemma update_fresh: "k \<notin> fst ` set m \<Longrightarrow> AList.update k v m = m @ [(k, v)]"
  by (induction m) auto

lemma entry_roundtrip:
  assumes "length (encodeFields (entryFields ((sec, nsec), line, metadata))) < 2 ^ 64" "pushedEntry_ok ((sec, nsec), line, metadata)"
  shows "parseLokiProtoEntry (encodeFields (entryFields ((sec, nsec), line, metadata)))
    = Inr \<lparr>peTimestamp = sec * 1000000000 + nsec, peLine = line, peMetadata = metadata\<rparr>"
proof -
  let ?fs = "entryFields ((sec, nsec), line, metadata)"
  define react where "react = (\<lambda>n (entry :: lokiProtoEntry).
       if n = 1 then OnBytes ''decode loki entry protobuf: timestamp has wire type %d''
         (\<lambda>raw. map_sum id (\<lambda>t. entry\<lparr>peTimestamp := t\<rparr>) (parseLokiProtoTimestamp raw))
       else if n = 2 then OnBytes ''decode loki entry protobuf: line has wire type %d'' (\<lambda>raw. Inr (entry\<lparr>peLine := bytes_str raw\<rparr>))
       else if n = (3 :: nat) then OnBytes ''decode loki entry protobuf: metadata has wire type %d''
         (\<lambda>raw. map_sum id (\<lambda>(name, v). if name \<noteq> [] then entry\<lparr>peMetadata := AList.update name v (peMetadata entry)\<rparr> else entry)
            (parseLokiProtoLabelPair raw))
       else SkipField)"
  have ok: "list_all field_ok ?fs"
    by (rule fields_ok [OF order_refl assms(1)]) (auto simp: entryFields_def)
  have small: "length b < 2 ^ 64" if "(n, WBytes b) \<in> set ?fs" for n b
    using length_payload [OF that] assms(1) by simp
  have ts: "parseLokiProtoTimestamp (encodeTimestamp (sec, nsec)) = Inr (sec * 1000000000 + nsec)"
  proof -
    have "\<bar>sec\<bar> < 2 ^ 62" using assms(2) by (auto simp: pushedEntry_ok_def in_i64_def abs_less_iff)
    then show ?thesis
      using timestamp_roundtrip [of "(sec, nsec)"] small [of 1 "encodeTimestamp (sec, nsec)"] assms(2)
      by (simp add: pushedEntry_ok_def entryFields_def)
  qed
  have pairs: "length (encodeLabelPair kv) < 2 ^ 64" if "kv \<in> set metadata" for kv
    using small [of 3 "encodeLabelPair kv"] that by (auto simp: entryFields_def)
  have meta: "fieldsFold react (e\<lparr>peMetadata := prev\<rparr>) (map (\<lambda>kv. (3, WBytes (encodeLabelPair kv))) rest) = Inr (e\<lparr>peMetadata := prev @ rest\<rparr>)"
    if "prev @ rest = metadata" for e prev rest
    using that
  proof (induction rest arbitrary: prev)
    case (Cons kv rest)
    obtain k v where kv: "kv = (k, v)" by (cases kv)
    have "distinct (map fst (prev @ kv # rest))" "[] \<notin> fst ` set (prev @ kv # rest)"
      using assms(2) Cons.prems by (simp_all add: pushedEntry_ok_def)
    then have "k \<noteq> []" "k \<notin> fst ` set prev" by (simp_all add: kv image_iff) blast+
    moreover have "parseLokiProtoLabelPair (encodeLabelPair (k, v)) = Inr (k, v)"
      using labelPair_roundtrip pairs [of kv] Cons.prems by (auto simp: kv)
    ultimately have step: "fieldStep react (e\<lparr>peMetadata := prev\<rparr>) (3, WBytes (encodeLabelPair kv)) = Inr (e\<lparr>peMetadata := prev @ [kv]\<rparr>)"
      by (simp add: fieldStep_def react_def kv update_fresh)
    show ?case using Cons.IH [of "prev @ [kv]"] Cons.prems by (simp add: step)
  qed simp
  have "parseLokiProtoEntry (encodeFields ?fs) = fieldsFold react emptyEntry ?fs"
    unfolding parseLokiProtoEntry_def react_def using ok by (rule protoLoop_message)
  also have "\<dots> = fieldsFold react (\<lparr>peTimestamp = sec * 1000000000 + nsec, peLine = line, peMetadata = []\<rparr>\<lparr>peMetadata := []\<rparr>)
      (map (\<lambda>kv. (3, WBytes (encodeLabelPair kv))) metadata)"
    by (simp add: entryFields_def fieldStep_def react_def ts emptyEntry_def)
  also have "\<dots> = Inr \<lparr>peTimestamp = sec * 1000000000 + nsec, peLine = line, peMetadata = metadata\<rparr>"
    using meta [where prev = "[]" and rest = metadata and e = "\<lparr>peTimestamp = sec * 1000000000 + nsec, peLine = line, peMetadata = []\<rparr>"] by simp
  finally show ?thesis .
qed

lemma stream_roundtrip:
  assumes "length (encodeFields (streamFields s)) < 2 ^ 64" "list_all pushedEntry_ok (snd s)" "parseLokiLabelString pe (fst s) = Inr labels"
  shows "parseLokiProtoStream pe (encodeFields (streamFields s)) = Inr (labels, pushedEntries (snd s))"
proof -
  let ?fs = "streamFields s"
  define react where "react = (\<lambda>n (labels, entries).
       if n = 1 then OnBytes ''decode loki stream protobuf: labels has wire type %d''
         (\<lambda>raw. map_sum id (\<lambda>m. (m, entries)) (parseLokiLabelString pe (bytes_str raw)))
       else if n = (2 :: nat) then OnBytes ''decode loki stream protobuf: entry has wire type %d''
         (\<lambda>raw. map_sum id (\<lambda>entry. (labels, entries @ [entry])) (parseLokiProtoEntry raw))
       else SkipField)"
  have ok: "list_all field_ok ?fs"
    by (rule fields_ok [OF order_refl assms(1)]) (auto simp: streamFields_def)
  have small: "length (encodeFields (entryFields e)) < 2 ^ 64" if "e \<in> set (snd s)" for e
    using length_payload [of 2 "encodeFields (entryFields e)" ?fs] assms(1) that by (fastforce simp: streamFields_def)
  have entries: "fieldsFold react (labels, acc) (map (\<lambda>e. (2, WBytes (encodeFields (entryFields e)))) es) = Inr (labels, acc @ pushedEntries es)"
    if "set es \<subseteq> set (snd s)" for es acc
    using that
  proof (induction es arbitrary: acc)
    case (Cons e es)
    obtain sec nsec line metadata where e: "e = ((sec, nsec), line, metadata)" by (metis prod.collapse)
    have "parseLokiProtoEntry (encodeFields (entryFields e)) = Inr \<lparr>peTimestamp = sec * 1000000000 + nsec, peLine = line, peMetadata = metadata\<rparr>"
      unfolding e by (rule entry_roundtrip) (use small [of e] assms(2) Cons.prems in \<open>auto simp: e list_all_iff\<close>)
    then show ?case using Cons by (simp add: fieldStep_def react_def pushedEntries_def e)
  qed (simp add: pushedEntries_def)
  have "parseLokiProtoStream pe (encodeFields ?fs) = fieldsFold react ([], []) ?fs"
    unfolding parseLokiProtoStream_def react_def using ok by (rule protoLoop_message)
  also have "\<dots> = fieldsFold react (labels, []) (map (\<lambda>e. (2, WBytes (encodeFields (entryFields e)))) (snd s))"
    by (simp add: streamFields_def fieldStep_def react_def assms(3))
  also have "\<dots> = Inr (labels, pushedEntries (snd s))" using entries [OF order_refl, of "[]"] by simp
  finally show ?thesis .
qed

text \<open>The rows of the entries of some streams, in order, after the rows that are there already.\<close>

definition pushedRows :: "'re pushEngine \<Rightarrow> Config \<Rightarrow> int \<Rightarrow> lokiLogInsertRow list \<Rightarrow> (gomap \<times> lokiProtoEntry list) list \<Rightarrow> lokiLogInsertRow list" where
  "pushedRows pe cfg now rows streams = foldl (\<lambda>rows stream. entryRows pe cfg now stream rows) rows streams"

lemma protobuf_rows:
  assumes "length (encodePush streams) < 2 ^ 64" "\<And>s. s \<in> set streams \<Longrightarrow> list_all pushedEntry_ok (snd s)"
    and "\<And>s. s \<in> set streams \<Longrightarrow> parseLokiLabelString pe (fst s) = Inr (labelsOf s)"
  shows "decodeLokiPushProto pe cfg now (encodePush streams)
    = Inr (pushedRows pe cfg now [] (map (\<lambda>s. (labelsOf s, pushedEntries (snd s))) streams))"
proof -
  let ?fs = "map (\<lambda>s. (1, WBytes (encodeFields (streamFields s)))) streams"
  define react where "react = (\<lambda>n rows.
       if n = (1 :: nat) then OnBytes ''decode loki push protobuf: stream has wire type %d''
         (\<lambda>raw. map_sum id (\<lambda>stream. entryRows pe cfg now stream rows) (parseLokiProtoStream pe raw))
       else SkipField)"
  have ok: "list_all field_ok ?fs"
    by (rule fields_ok [OF order_refl]) (use assms(1) in \<open>auto simp: encodePush_def\<close>)
  have small: "length (encodeFields (streamFields s)) < 2 ^ 64" if "s \<in> set streams" for s
    using length_payload [of 1 "encodeFields (streamFields s)" ?fs] assms(1) that by (fastforce simp: encodePush_def)
  have "fieldsFold react rows (map (\<lambda>s. (1, WBytes (encodeFields (streamFields s)))) ss)
      = Inr (pushedRows pe cfg now rows (map (\<lambda>s. (labelsOf s, pushedEntries (snd s))) ss))" if "set ss \<subseteq> set streams" for ss rows
    using that
  proof (induction ss arbitrary: rows)
    case (Cons s ss)
    then have s: "s \<in> set streams" by simp
    show ?case using Cons stream_roundtrip [OF small [OF s] assms(2) [OF s] assms(3) [OF s]]
      by (simp add: fieldStep_def react_def pushedRows_def)
  qed (simp add: pushedRows_def)
  then show ?thesis
    using protoLoop_message [OF ok, of react "[]"] unfolding decodeLokiPushProto_def encodePush_def react_def by simp
qed

section \<open>The JSON form\<close>

text \<open>The request as encoding/json fills it.\<close>

record lokiPushEntry =
  jeTimestamp :: string
  jeTime :: string
  jeLine :: string

record lokiPushStream =
  jsStream :: gomap
  jsLabels :: string
  jsValues :: "logJSON list list"
  jsEntries :: "lokiPushEntry list"

definition valueMetadata :: "'re pushEngine \<Rightarrow> logJSON list \<Rightarrow> gomap" where
  "valueMetadata pe vs = (if length vs < 3 then [] else case vs ! 2 of JObject m \<Rightarrow> map (\<lambda>(k, v). (k, peSprint pe v)) m | _ \<Rightarrow> [])"

fun valuesLoop :: "'re pushEngine \<Rightarrow> Config \<Rightarrow> int \<Rightarrow> gomap \<Rightarrow> logJSON list list \<Rightarrow> lokiLogInsertRow list \<Rightarrow> pushError + lokiLogInsertRow list" where
  "valuesLoop pe cfg now labels [] rows = Inr rows"
| "valuesLoop pe cfg now labels (vs # vss) rows =
     (if length vs < 2 then valuesLoop pe cfg now labels vss rows
      else case parseLokiPushTimestamp pe (peSprint pe (vs ! 0)) of
        Inl e \<Rightarrow> Inl e
      | Inr ts \<Rightarrow> valuesLoop pe cfg now labels vss
          (rows @ [lokiInsertRow pe cfg now (length rows) labels (valueMetadata pe vs) ts (peSprint pe (vs ! 1))]))"

fun entriesLoop :: "'re pushEngine \<Rightarrow> Config \<Rightarrow> int \<Rightarrow> gomap \<Rightarrow> lokiPushEntry list \<Rightarrow> lokiLogInsertRow list \<Rightarrow> pushError + lokiLogInsertRow list" where
  "entriesLoop pe cfg now labels [] rows = Inr rows"
| "entriesLoop pe cfg now labels (e # es) rows =
     (case parseLokiPushTimestamp pe (if jeTimestamp e = [] then jeTime e else jeTimestamp e) of
        Inl err \<Rightarrow> Inl err
      | Inr ts \<Rightarrow> entriesLoop pe cfg now labels es (rows @ [lokiInsertRow pe cfg now (length rows) labels [] ts (jeLine e)]))"

fun rowsFromLokiPushRequest :: "'re pushEngine \<Rightarrow> Config \<Rightarrow> int \<Rightarrow> lokiPushStream list \<Rightarrow> lokiLogInsertRow list \<Rightarrow> pushError + lokiLogInsertRow list" where
  "rowsFromLokiPushRequest pe cfg now [] rows = Inr rows"
| "rowsFromLokiPushRequest pe cfg now (s # ss) rows =
     (case (if jsStream s = [] \<and> jsLabels s \<noteq> [] then parseLokiLabelString pe (jsLabels s) else Inr (jsStream s)) of
        Inl e \<Rightarrow> Inl e
      | Inr labels \<Rightarrow> (case valuesLoop pe cfg now labels (jsValues s) rows of
          Inl e \<Rightarrow> Inl e
        | Inr rows1 \<Rightarrow> (case entriesLoop pe cfg now labels (jsEntries s) rows1 of
            Inl e \<Rightarrow> Inl e
          | Inr rows2 \<Rightarrow> rowsFromLokiPushRequest pe cfg now ss rows2)))"

section \<open>Numbers and times\<close>

lemma natDec_digitBytes: "natDec n \<noteq> [] \<and> list_all digitByte (natDec n)"
proof (induction n rule: natDec.induct)
  case (1 n)
  have d: "k < 10 \<Longrightarrow> digitByte (char_of (48 + k))" for k :: nat by (simp add: digitByte_def)
  show ?case using 1 d [of n] d [of "n mod 10"] by (subst natDec.simps) auto
qed

lemma natDec_value: "foldl (\<lambda>acc d. acc * 10 + digitVal d) 0 (natDec n) = int n"
proof (induction n rule: natDec.induct)
  case (1 n)
  have d: "k < 10 \<Longrightarrow> digitVal (char_of (48 + k)) = int k" for k :: nat by (simp add: digitVal_def)
  show ?case
  proof (cases "n < 10")
    case False
    then have "foldl (\<lambda>acc d. acc * 10 + digitVal d) 0 (natDec n) = int (n div 10) * 10 + int (n mod 10)"
      using 1 d [of "n mod 10"] by (subst natDec.simps) (simp del: of_nat_mod of_nat_div)
    also have "int (n div 10) * 10 + int (n mod 10) = int n" by presburger
    finally show ?thesis .
  qed (use d [of n] in \<open>simp add: natDec.simps\<close>)
qed

lemma digit_ink: "digitByte c \<Longrightarrow> inkByte c \<and> c \<noteq> dquote \<and> c \<noteq> CHR ''-'' \<and> c \<noteq> CHR ''+''"
proof -
  assume "digitByte c"
  then have "code c \<in> {48..57}" by (auto simp: digitByte_def Let_def)
  then have "\<not> isSpaceRune (code c) \<and> code c < 0x80 \<and> code c \<noteq> code dquote \<and> code c \<noteq> code (CHR ''-'') \<and> code c \<noteq> code (CHR ''+'')"
    by (auto simp: isSpaceRune_def)
  then show ?thesis by (auto simp: inkByte_def)
qed

lemma parseInt10_intDec: "in_i64 i \<Longrightarrow> parseInt10 (intDec i) = Some i"
proof (cases "i < 0")
  case True
  moreover assume "in_i64 i"
  ultimately show ?thesis using natDec_digitBytes [of "nat (- i)"] natDec_value [of "nat (- i)"]
    by (simp add: parseInt10_def intDec_def Let_def)
next
  case False
  moreover assume "in_i64 i"
  moreover obtain c cs where c: "natDec (nat i) = c # cs" using natDec_digitBytes [of "nat i"] by (cases "natDec (nat i)") auto
  moreover have "c \<noteq> CHR ''-''" "c \<noteq> CHR ''+''" using natDec_digitBytes [of "nat i"] digit_ink [of c] by (auto simp: c)
  ultimately show ?thesis using natDec_digitBytes [of "nat i"] natDec_value [of "nat i"]
    by (simp add: parseInt10_def intDec_def Let_def)
qed

lemma intDec_ends: "intDec i \<noteq> [] \<and> inkByte (hd (intDec i)) \<and> inkByte (last (intDec i)) \<and> hd (intDec i) \<noteq> dquote \<and> last (intDec i) \<noteq> dquote"
proof -
  have minus: "inkByte (CHR ''-'')" "CHR ''-'' \<noteq> dquote" by (simp_all add: inkByte_def isSpaceRune_def)
  have dec: "natDec n \<noteq> [] \<and> inkByte (hd (natDec n)) \<and> inkByte (last (natDec n)) \<and> hd (natDec n) \<noteq> dquote \<and> last (natDec n) \<noteq> dquote" for n
    using natDec_digitBytes [of n] digit_ink by (auto simp: list_all_iff)
  show ?thesis using dec [of "nat (- i)"] dec [of "nat i"] minus by (simp add: intDec_def)
qed

lemma trimByte_tight: "s \<noteq> [] \<Longrightarrow> hd s \<noteq> c \<Longrightarrow> last s \<noteq> c \<Longrightarrow> trimByte c s = s"
proof -
  assume s: "s \<noteq> []" "hd s \<noteq> c" "last s \<noteq> c"
  have "dropWhile (\<lambda>d. d = c) s = s" using s by (cases s) auto
  moreover have "dropWhile (\<lambda>d. d = c) (rev s) = rev s" using s by (cases s rule: rev_cases) auto
  ultimately show ?thesis by (simp add: trimByte_def)
qed

lemma goUnix_nanos: "in_i64 ns \<Longrightarrow> goUnix 0 ns = ns"
proof -
  assume ns: "in_i64 ns"
  let ?n = "ns sdiv 1000000000"
  have q: "ns = ?n * 1000000000 + ns smod 1000000000" using sdiv_mult_smod_eq [of ns 1000000000] by simp
  have r: "\<bar>ns smod 1000000000\<bar> < 1000000000" by (simp add: signed_modulo_int_def abs_mult abs_sgn_eq)
  have n: "\<bar>?n\<bar> < 2 ^ 40"
    using q r ns by (auto simp: in_i64_def abs_less_iff)
  then have w: "in_i64 ?n" "in_i64 (?n - 1)" "in_i64 (?n + 62135596800)" "in_i64 (?n - 1 + 62135596800)"
    by (simp_all add: in_i64_def abs_less_iff)
  have rem: "ns - ?n * 1000000000 = ns smod 1000000000" using q by simp
  have "in_i64 (62135596800 :: int)" by (simp add: in_i64_def)
  then show ?thesis using q w by (simp add: goUnix_def Let_def rem)
qed

lemma parse_nanos: "in_i64 ns \<Longrightarrow> parseLokiPushTimestamp pe (intDec ns) = Inr ns"
  using intDec_ends [of ns]
  by (simp add: parseLokiPushTimestamp_def Let_def trimSpace_tight trimByte_tight parseInt10_intDec goUnix_nanos)


section \<open>Both forms\<close>

text \<open>The same request in JSON: each entry is an array of the time in nanoseconds, the line and the metadata.\<close>

definition jsonStream :: "gomap \<Rightarrow> pushedEntry list \<Rightarrow> lokiPushStream" where
  "jsonStream labels es = \<lparr>jsStream = labels, jsLabels = [], jsValues = map (\<lambda>((sec, nsec), line, metadata).
     [JString (intDec (sec * 1000000000 + nsec)), JString line, JObject (map (\<lambda>(k, v). (k, JString v)) metadata)]) es, jsEntries = []\<rparr>"

lemma json_rows:
  assumes "\<And>s. peSprint pe (JString s) = s" "\<And>s. s \<in> set streams \<Longrightarrow> list_all pushedEntry_ok (snd s)"
  shows "rowsFromLokiPushRequest pe cfg now (map (\<lambda>s. jsonStream (labelsOf s) (snd s)) streams) rows
    = Inr (pushedRows pe cfg now rows (map (\<lambda>s. (labelsOf s, pushedEntries (snd s))) streams))"
  using assms(2)
proof (induction streams arbitrary: rows)
  case (Cons s ss)
  have vals: "valuesLoop pe cfg now labels (jsValues (jsonStream labels es)) rows = Inr (entryRows pe cfg now (labels, pushedEntries es) rows)"
    if "list_all pushedEntry_ok es" for labels es rows
    using that
  proof (induction es arbitrary: rows)
    case (Cons e es)
    obtain sec nsec line metadata where e: "e = ((sec, nsec), line, metadata)" by (metis prod.collapse)
    then have "parseLokiPushTimestamp pe (intDec (sec * 1000000000 + nsec)) = Inr (sec * 1000000000 + nsec)"
      using Cons.prems by (intro parse_nanos) (simp add: pushedEntry_ok_def)
    moreover have "map (\<lambda>(k, v). (k, peSprint pe v)) (map (\<lambda>(k, v). (k, JString v)) metadata) = metadata"
      by (induction metadata) (auto simp: assms(1))
    ultimately show ?case using Cons by (simp add: jsonStream_def e assms(1) valueMetadata_def entryRows_def pushedEntries_def)
  qed (simp add: jsonStream_def entryRows_def pushedEntries_def)
  have s: "jsStream (jsonStream l es) = l" "jsLabels (jsonStream l es) = []" "jsEntries (jsonStream l es) = []" for l es
    by (simp_all add: jsonStream_def)
  show ?case using Cons vals [of "snd s" "labelsOf s" rows] by (simp add: s pushedRows_def)
qed (simp add: pushedRows_def)

text \<open>C30. Both forms of a push store what was sent: whether a request comes as protobuf or as JSON, it is decoded to one row for
  each entry, in the order of the request, made of the labels of its stream and of exactly the time, the line and
  the metadata of the entry, whatever bytes the line and the metadata hold.\<close>

theorem push_forms_agree:
  assumes "length (encodePush streams) < 2 ^ 64" "\<And>s. s \<in> set streams \<Longrightarrow> list_all pushedEntry_ok (snd s)"
    and "\<And>s. s \<in> set streams \<Longrightarrow> parseLokiLabelString pe (fst s) = Inr (labelsOf s)" "\<And>s. peSprint pe (JString s) = s"
  shows "decodeLokiPushProto pe cfg now (encodePush streams)
      = Inr (pushedRows pe cfg now [] (map (\<lambda>s. (labelsOf s, pushedEntries (snd s))) streams))
    \<and> rowsFromLokiPushRequest pe cfg now (map (\<lambda>s. jsonStream (labelsOf s) (snd s)) streams) []
      = Inr (pushedRows pe cfg now [] (map (\<lambda>s. (labelsOf s, pushedEntries (snd s))) streams))"
  using protobuf_rows [OF assms(1-3)] json_rows [OF assms(4,2)] by blast

definition demoJSON :: "unit pushEngine" where
  "demoJSON = demoPush\<lparr>peSprint := (\<lambda>v. case v of JString s \<Rightarrow> s | _ \<Rightarrow> [])\<rparr>"

theorem push_forms_agree_witness:
  "\<forall>cfg. decodeLokiPushProto demoJSON cfg 7 (encodePush [('' {} '', [((1, 5), ''x'', [(''k'', ''v'')]), ((2, 0), [], [])])])
      = Inr [lokiInsertRow demoJSON cfg 7 0 [] [(''k'', ''v'')] 1000000005 ''x'', lokiInsertRow demoJSON cfg 7 1 [] [] 2000000000 []]
    \<and> rowsFromLokiPushRequest demoJSON cfg 7 [jsonStream [] [((1, 5), ''x'', [(''k'', ''v'')]), ((2, 0), [], [])]] []
      = Inr [lokiInsertRow demoJSON cfg 7 0 [] [(''k'', ''v'')] 1000000005 ''x'', lokiInsertRow demoJSON cfg 7 1 [] [] 2000000000 []]"
proof
  fix cfg
  let ?e = "[((1, 5), ''x'', [(''k'', ''v'')]), ((2, 0), [], [])] :: pushedEntry list"
  have len: "length (encodePush [('' {} '', ?e)]) < 2 ^ 64"
    by (simp add: encodePush_def encodeField_def streamFields_def entryFields_def encodeTimestamp_def encodeLabelPair_def encodeBytes_def
        fieldKey_def wire_type_defs encodeVarint.simps)
  have "trimSpace '' {} '' = ''{}''"
    by (simp add: logql_eval)
  then have labels: "parseLokiLabelString demoJSON '' {} '' = Inr []"
    by (simp add: parseLokiLabelString_def hasPrefix_def hasSuffix_def parseLogQLMatchers_def)
  have sprint: "peSprint demoJSON (JString s) = s" for s by (simp add: demoJSON_def)
  show "decodeLokiPushProto demoJSON cfg 7 (encodePush [('' {} '', ?e)])
      = Inr [lokiInsertRow demoJSON cfg 7 0 [] [(''k'', ''v'')] 1000000005 ''x'', lokiInsertRow demoJSON cfg 7 1 [] [] 2000000000 []]
    \<and> rowsFromLokiPushRequest demoJSON cfg 7 [jsonStream [] ?e] []
      = Inr [lokiInsertRow demoJSON cfg 7 0 [] [(''k'', ''v'')] 1000000005 ''x'', lokiInsertRow demoJSON cfg 7 1 [] [] 2000000000 []]"
    using push_forms_agree [OF len, of demoJSON "\<lambda>_. []" cfg 7] labels sprint
    by (simp add: pushedEntry_ok_def pushedEntries_def in_i64_def pushedRows_def entryRows_def del: rowsFromLokiPushRequest.simps)
qed

end
