(* ===== verification/LokiInsert.thy ===== *)
theory LokiInsert
  imports LokiRow LogQLPush "HOL-Library.Product_Lexorder" "HOL-Library.List_Lexorder"
begin

text \<open>
  Storing pushed log rows (src/internal/snuffle/loki_api.go, insertLokiLogRows to
  insertSnuffleLogStreamStats): the columns of every insert, the streams, stream labels and minute
  statistics of the native layout, and their order. ClickHouse is the parameter \<open>store\<close>, the execution of
  an insert on a world of any type; times are nanoseconds.
\<close>

section \<open>Inserts\<close>

text \<open>A nil map is the empty list, so the loops that replace nil maps leave the columns as they are.\<close>

definition insertPostHogLokiLogRows :: "Config \<Rightarrow> lokiLogInsertRow list \<Rightarrow> nativeInsert option option" where
  "insertPostHogLokiLogRows cfg rows = do {
     sql \<leftarrow> insertInto cfg (LogsTable cfg) (''team_id, original_expiry_timestamp, uuid, trace_id, span_id, trace_flags, timestamp, observed_timestamp, body, ''
       @ ''severity_text, severity_number, service_name, resource_attributes, instrumentation_scope, event_name, attributes_map_str'');
     Some (Some \<lparr>niSync = False, niSQL = sql, niColumns = [I32s (map ilTeamID rows), I64s (map ilExpiry rows), Strs (map ilUUID rows),
        Strs (map ilTraceID rows), Strs (map ilSpanID rows), I32s (map ilTraceFlags rows), I64s (map ilTimestamp rows),
        I64s (map ilObserved rows), Strs (map ilBody rows), Strs (map ilSeverityText rows), I32s (map ilSeverityNumber rows),
        Strs (map ilServiceName rows), Maps (map ilResource rows), Strs (map ilScope rows), Strs (map ilEventName rows),
        Maps (map ilAttributes rows)], niCount = length rows\<rparr>) }"

text \<open>One row for each team and stream, the first.\<close>

definition logStreamKey :: "lokiLogInsertRow \<Rightarrow> string" where
  "logStreamKey r = intDec (ilTeamID r) @ '':'' @ formatUint (ilStreamID r)"

fun uniqueStreams :: "string list \<Rightarrow> lokiLogInsertRow list \<Rightarrow> lokiLogInsertRow list" where
  "uniqueStreams seen [] = []"
| "uniqueStreams seen (r # rows) = (if logStreamKey r \<in> set seen then uniqueStreams seen rows
     else r # uniqueStreams (logStreamKey r # seen) rows)"

definition insertSnuffleLogStreams :: "Config \<Rightarrow> int \<Rightarrow> lokiLogInsertRow list \<Rightarrow> nativeInsert option option" where
  "insertSnuffleLogStreams cfg now rows = (let unique = uniqueStreams [] rows in do {
     sql \<leftarrow> insertInto cfg (LogStreamsTable cfg) ''team_id, stream_id, labels, resource_attributes, updated_at'';
     Some (Some \<lparr>niSync = False, niSQL = sql, niColumns = [I32s (map ilTeamID unique), U64s (map ilStreamID unique),
        Maps (map ilStreamLabels unique), Maps (map ilResource unique), I64s (replicate (length unique) now)],
        niCount = length unique\<rparr>) })"

text \<open>The rows of the label index: team, stream, name and value, in the order by which they are sorted.\<close>

type_synonym streamLabelRow = "int \<times> u64 \<times> string \<times> string"

definition streamLabelKey :: "streamLabelRow \<Rightarrow> string" where
  "streamLabelKey l = (case l of (team, stream, name, v) \<Rightarrow>
     intDec team @ [CHR 0x00] @ name @ [CHR 0x00] @ v @ [CHR 0x00] @ formatUint stream)"

fun addStreamLabels :: "string list \<Rightarrow> streamLabelRow list \<Rightarrow> streamLabelRow list" where
  "addStreamLabels seen [] = []"
| "addStreamLabels seen ((team, stream, name, v) # ls) =
     (if name = [] \<or> v = [] \<or> streamLabelKey (team, stream, name, v) \<in> set seen then addStreamLabels seen ls
      else (team, stream, name, v) # addStreamLabels (streamLabelKey (team, stream, name, v) # seen) ls)"

definition labelsOfRow :: "lokiLogInsertRow \<Rightarrow> streamLabelRow list" where
  "labelsOfRow r = map (\<lambda>(name, v). (ilTeamID r, ilStreamID r, name, v))
     (ilStreamLabels r @ filter (\<lambda>kv. fst kv \<notin> fst ` set (ilStreamLabels r)) (ilResource r))"

definition streamLabelRows :: "lokiLogInsertRow list \<Rightarrow> streamLabelRow list" where
  "streamLabelRows rows = sort (addStreamLabels [] (concat (map labelsOfRow rows)))"

definition insertSnuffleLogStreamLabels :: "Config \<Rightarrow> lokiLogInsertRow list \<Rightarrow> nativeInsert option option" where
  "insertSnuffleLogStreamLabels cfg rows = (if LogStreamLabelsTable cfg = [] \<or> rows = [] then Some None
     else let labels = streamLabelRows rows in if labels = [] then Some None
     else do {
       sql \<leftarrow> insertInto cfg (LogStreamLabelsTable cfg) ''team_id, label_name, label_value, stream_id'';
       Some (Some \<lparr>niSync = False, niSQL = sql, niColumns = [I32s (map fst labels), Strs (map (fst \<circ> snd \<circ> snd) labels),
          Strs (map (snd \<circ> snd \<circ> snd) labels), U64s (map (fst \<circ> snd) labels)], niCount = length labels\<rparr>) })"

definition insertSnuffleLogEvents :: "Config \<Rightarrow> lokiLogInsertRow list \<Rightarrow> nativeInsert option option" where
  "insertSnuffleLogEvents cfg rows = do {
     sql \<leftarrow> insertInto cfg (LogsTable cfg) ''team_id, timestamp, expires_at, stream_id, observed_ns, body, fields'';
     Some (Some \<lparr>niSync = False, niSQL = sql, niColumns = [I32s (map ilTeamID rows), I64s (map ilTimestamp rows),
        I64s (map ilExpiry rows), U64s (map ilStreamID rows), I64s (map (wrap64 \<circ> ilObserved) rows), Strs (map ilBody rows),
        Maps (map ilFields rows)], niCount = length rows\<rparr>) }"

text \<open>timestamp.Truncate(time.Minute): the start of the minute, counted from year 1.\<close>

definition minuteOf :: "int \<Rightarrow> int" where
  "minuteOf ts = ts - (ts + 62135596800 * 1000000000) mod 60000000000"

type_synonym statsKey = "int \<times> int \<times> u64"

definition rowStatsKey :: "lokiLogInsertRow \<Rightarrow> statsKey" where
  "rowStatsKey r = (ilTeamID r, minuteOf (ilTimestamp r), ilStreamID r)"

text \<open>The counters of the lines and of their bytes, in uint64, by key.\<close>

definition addStats :: "lokiLogInsertRow \<Rightarrow> (statsKey \<times> u64 \<times> u64) list \<Rightarrow> (statsKey \<times> u64 \<times> u64) list" where
  "addStats r = AList.map_default (rowStatsKey r) (1, of_nat (length (ilBody r)))
     (\<lambda>(lines, bytes). (lines + 1, bytes + of_nat (length (ilBody r))))"

definition streamStats :: "lokiLogInsertRow list \<Rightarrow> (statsKey \<times> u64 \<times> u64) list" where
  "streamStats rows = sort_key fst (fold addStats rows [])"

definition insertSnuffleLogStreamStats :: "Config \<Rightarrow> lokiLogInsertRow list \<Rightarrow> nativeInsert option option" where
  "insertSnuffleLogStreamStats cfg rows = (if LogStreamStatsTable cfg = [] \<or> rows = [] then Some None
     else let stats = streamStats rows in do {
       sql \<leftarrow> insertInto cfg (LogStreamStatsTable cfg) ''team_id, bucket, stream_id, log_count, byte_count'';
       Some (Some \<lparr>niSync = False, niSQL = sql, niColumns = [I32s (map (fst \<circ> fst) stats), I64s (map (fst \<circ> snd \<circ> fst) stats),
          U64s (map (snd \<circ> snd \<circ> fst) stats), U64s (map (fst \<circ> snd) stats), U64s (map (snd \<circ> snd) stats)], niCount = length stats\<rparr>) })"

text \<open>The inserts one after another; an error ends them, and None is a panic.\<close>

fun runLogInserts :: "('w \<Rightarrow> nativeInsert \<Rightarrow> string option \<times> 'w) \<Rightarrow> 'w \<Rightarrow> nativeInsert option option list \<Rightarrow> (string option \<times> 'w) option" where
  "runLogInserts store w [] = Some (None, w)"
| "runLogInserts store w (build # builds) = (case build of
     None \<Rightarrow> None
   | Some None \<Rightarrow> runLogInserts store w builds
   | Some (Some i) \<Rightarrow> (case store w i of
       (Some e, w') \<Rightarrow> Some (Some e, w')
     | (None, w') \<Rightarrow> runLogInserts store w' builds))"

definition insertSnuffleLokiLogRows ::
  "('w \<Rightarrow> nativeInsert \<Rightarrow> string option \<times> 'w) \<Rightarrow> Config \<Rightarrow> int \<Rightarrow> 'w \<Rightarrow> lokiLogInsertRow list \<Rightarrow> (string option \<times> 'w) option" where
  "insertSnuffleLokiLogRows store cfg now w rows =
     (if LogStreamsTable cfg = [] then Some (Some ''snuffle log schema requires CH_LOG_STREAMS_TABLE'', w)
      else runLogInserts store w [insertSnuffleLogStreams cfg now rows, insertSnuffleLogStreamLabels cfg rows,
        insertSnuffleLogEvents cfg rows, insertSnuffleLogStreamStats cfg rows])"

definition insertLokiLogRows ::
  "('w \<Rightarrow> nativeInsert \<Rightarrow> string option \<times> 'w) \<Rightarrow> Config \<Rightarrow> int \<Rightarrow> 'w \<Rightarrow> lokiLogInsertRow list \<Rightarrow> (string option \<times> 'w) option" where
  "insertLokiLogRows store cfg now w rows =
     (if rows = [] then Some (None, w)
      else if postHogLogSchemaLayout cfg then runLogInserts store w [insertPostHogLokiLogRows cfg rows]
      else insertSnuffleLokiLogRows store cfg now w rows)"

section \<open>The statistics\<close>

lemma sort_key_pairs: "sort_key fst (map (\<lambda>k. (k, g k)) ks) = map (\<lambda>k. (k, g k)) (sort ks)"
proof -
  have "insort_key fst (k, g k) (map (\<lambda>k. (k, g k)) xs) = map (\<lambda>k. (k, g k)) (insort k xs)" for k xs
    by (induction xs) simp_all
  then show ?thesis by (induction ks) simp_all
qed

lemma stats_group:
  "g \<noteq> [] \<Longrightarrow> buildGroup (\<lambda>r. (1, of_nat (length (ilBody r)))) (\<lambda>r (lines, bytes). (lines + 1, bytes + of_nat (length (ilBody r)))) g
   = (of_nat (length g) :: u64, of_nat (sum_list (map (length \<circ> ilBody) g)) :: u64)"
proof (induction g rule: rev_induct)
  case (snoc r g)
  then show ?case by (cases "g = []") (simp_all add: buildGroup_snoc, simp add: buildGroup_def)
qed simp

text \<open>C34. The minute statistics of a push are exact: there is one entry for every minute and stream of its rows, in order, with the
  number of their lines and of the bytes of these lines (in uint64).\<close>

theorem stats_count_rows:
  "streamStats rows = map (\<lambda>k. (k, of_nat (length (filter (\<lambda>r. rowStatsKey r = k) rows)),
      of_nat (sum_list (map (length \<circ> ilBody) (filter (\<lambda>r. rowStatsKey r = k) rows)))))
    (sorted_list_of_set (rowStatsKey ` set rows))"
proof -
  let ?g = "\<lambda>k. (of_nat (length (filter (\<lambda>r. rowStatsKey r = k) rows)) :: u64, of_nat (sum_list (map (length \<circ> ilBody) (filter (\<lambda>r. rowStatsKey r = k) rows))) :: u64)"
  have "fold addStats rows [] = map (\<lambda>k. (k, ?g k)) (firsts (map rowStatsKey rows))"
    unfolding addStats_def fold_map_default
  proof (intro map_cong refl)
    fix k assume "k \<in> set (firsts (map rowStatsKey rows))"
    then have "filter (\<lambda>r. rowStatsKey r = k) rows \<noteq> []" by (auto simp: filter_empty_conv)
    from stats_group [OF this]
    show "(k, buildGroup (\<lambda>r. (1, of_nat (length (ilBody r)))) (\<lambda>r (lines, bytes). (lines + 1, bytes + of_nat (length (ilBody r))))
        (filter (\<lambda>r. rowStatsKey r = k) rows)) = (k, ?g k)" by simp
  qed
  moreover have "sort (firsts (map rowStatsKey rows)) = sorted_list_of_set (rowStatsKey ` set rows)"
    using sorted_list_of_set_sort_remdups [of "firsts (map rowStatsKey rows)"] by (simp add: distinct_remdups_id)
  ultimately show ?thesis by (simp add: streamStats_def sort_key_pairs)
qed

section \<open>The streams\<close>

lemma natDec_inj: "natDec m = natDec n \<longleftrightarrow> m = n"
  by (metis decNat_natDec option.inject)

lemma formatUint_inj: "formatUint a = formatUint b \<longleftrightarrow> a = b"
  by (simp add: formatUint_def natDec_inj unsigned_word_eqI word_unat_eq_iff)

lemma logStreamKey_inj: "ilTeamID r = ilTeamID r' \<Longrightarrow> logStreamKey r = logStreamKey r' \<longleftrightarrow> ilStreamID r = ilStreamID r'"
  by (simp add: logStreamKey_def formatUint_inj)

lemma uniqueStreams_keys:
  "distinct (map logStreamKey (uniqueStreams seen rows))
   \<and> set (map logStreamKey (uniqueStreams seen rows)) = logStreamKey ` set rows - set seen \<and> set (uniqueStreams seen rows) \<subseteq> set rows"
proof (induction rows arbitrary: seen)
  case (Cons r rows)
  then show ?case using Cons [of seen] Cons [of "logStreamKey r # seen"] by auto
qed simp


definition demoEvent :: "u64 \<Rightarrow> gomap \<Rightarrow> string \<Rightarrow> lokiLogInsertRow" where
  "demoEvent i labels line = \<lparr>ilTeamID = 7, ilExpiry = 0, ilUUID = [], ilTraceID = [], ilSpanID = [], ilTraceFlags = 0, ilTimestamp = 5,
     ilObserved = 6, ilBody = line, ilSeverityText = [], ilSeverityNumber = 9, ilServiceName = [], ilResource = [(''host'', ''h1'')], ilScope = [],
     ilEventName = [], ilAttributes = [], ilStreamID = i, ilStreamLabels = labels, ilFields = []\<rparr>"

definition demoEvents :: "lokiLogInsertRow list" where
  "demoEvents = [demoEvent 1 [(''app'', ''web'')] ''x'', demoEvent 2 [(''app'', ''api''), (''host'', ''h2'')] ''y'', demoEvent 1 [(''app'', ''web'')] ''z'']"


section \<open>The label index\<close>

lemma streamLabelKey_inj:
  assumes "CHR 0x00 \<notin> set name \<union> set v" "CHR 0x00 \<notin> set name' \<union> set v'"
  shows "streamLabelKey (team, stream, name, v) = streamLabelKey (team, stream', name', v') \<longleftrightarrow> (stream, name, v) = (stream', name', v')"
proof
  assume "streamLabelKey (team, stream, name, v) = streamLabelKey (team, stream', name', v')"
  then have eq: "name @ CHR 0x00 # (v @ CHR 0x00 # formatUint stream) = name' @ CHR 0x00 # (v' @ CHR 0x00 # formatUint stream')"
    by (simp add: streamLabelKey_def)
  have 1: "name = name' \<and> v @ CHR 0x00 # formatUint stream = v' @ CHR 0x00 # formatUint stream'"
    using assms by (intro split_first [OF _ _ eq]) auto
  then have "v = v' \<and> formatUint stream = formatUint stream'"
    using assms by (intro split_first [where e = "CHR 0x00"]) auto
  with 1 show "(stream, name, v) = (stream', name', v')" by (simp add: formatUint_inj)
qed simp

lemma addStreamLabels_spec:
  assumes "\<forall>(t, i, name, v)\<in>set ls. t = team \<and> CHR 0x00 \<notin> set name \<union> set v"
    and "\<forall>(t, i, name, v)\<in>set old. t = team \<and> CHR 0x00 \<notin> set name \<union> set v"
  shows "distinct (addStreamLabels (map streamLabelKey old) ls)
    \<and> set (addStreamLabels (map streamLabelKey old) ls) = {(t, i, name, v) \<in> set ls. name \<noteq> [] \<and> v \<noteq> []} - set old"
  using assms
proof (induction ls arbitrary: old)
  case (Cons l ls)
  obtain t i name v where l: "l = (t, i, name, v)" by (metis prod.collapse)
  have seen: "streamLabelKey l \<in> set (map streamLabelKey old) \<longleftrightarrow> l \<in> set old"
  proof
    assume "streamLabelKey l \<in> set (map streamLabelKey old)"
    then obtain m where m: "m \<in> set old" "streamLabelKey m = streamLabelKey l" by auto
    obtain t' i' name' v' where m': "m = (t', i', name', v')" by (metis prod.collapse)
    have "t = team" "CHR 0x00 \<notin> set name \<union> set v" "t' = team" "CHR 0x00 \<notin> set name' \<union> set v'"
      using Cons.prems m(1) by (auto simp: l m')
    then have "m = l" using m(2) streamLabelKey_inj [of name' v' name v team i' i] by (simp add: l m')
    then show "l \<in> set old" using m(1) by simp
  qed (use image_eqI in \<open>auto\<close>)
  have rest: "\<forall>(t, i, name, v)\<in>set ls. t = team \<and> CHR 0x00 \<notin> set name \<union> set v"
    and new: "\<forall>(t, i, name, v)\<in>set (l # old). t = team \<and> CHR 0x00 \<notin> set name \<union> set v"
    using Cons.prems by auto
  show ?case
  proof (cases "name = [] \<or> v = [] \<or> l \<in> set old")
    case True
    then have "addStreamLabels (map streamLabelKey old) (l # ls) = addStreamLabels (map streamLabelKey old) ls"
      using seen by (auto simp: l)
    then show ?thesis using Cons.IH [OF rest Cons.prems(2)] True by (auto simp: l)
  next
    case False
    then have "addStreamLabels (map streamLabelKey old) (l # ls) = l # addStreamLabels (map streamLabelKey (l # old)) ls"
      using seen by (simp add: l)
    then show ?thesis using Cons.IH [OF rest new] False by (auto simp: l)
  qed
qed auto

text \<open>The labels that the index has for a row.\<close>

definition indexedLabel :: "lokiLogInsertRow \<Rightarrow> string \<Rightarrow> string \<Rightarrow> bool" where
  "indexedLabel r name v \<longleftrightarrow> (name, v) \<in> set (ilStreamLabels r) \<or> ((name, v) \<in> set (ilResource r) \<and> name \<notin> fst ` set (ilStreamLabels r))"

lemma streamLabelRows_spec:
  assumes "\<forall>r\<in>set rows. ilTeamID r = team"
    and "\<forall>r\<in>set rows. \<forall>(name, v)\<in>set (ilStreamLabels r) \<union> set (ilResource r). CHR 0x00 \<notin> set name \<union> set v"
  shows "distinct (streamLabelRows rows)
    \<and> ((t, i, name, v) \<in> set (streamLabelRows rows) \<longleftrightarrow> t = team \<and> name \<noteq> [] \<and> v \<noteq> [] \<and> (\<exists>r\<in>set rows. ilStreamID r = i \<and> indexedLabel r name v))"
proof -
  let ?ls = "concat (map labelsOfRow rows)"
  have "\<forall>(t, i, name, v)\<in>set ?ls. t = team \<and> CHR 0x00 \<notin> set name \<union> set v"
    using assms by (fastforce simp: labelsOfRow_def)
  from addStreamLabels_spec [OF this, of "[]"]
  have "distinct (addStreamLabels [] ?ls)" "set (addStreamLabels [] ?ls) = {(t, i, name, v) \<in> set ?ls. name \<noteq> [] \<and> v \<noteq> []}"
    by simp_all
  moreover have "(t, i, name, v) \<in> set ?ls \<longleftrightarrow> t = team \<and> (\<exists>r\<in>set rows. ilStreamID r = i \<and> indexedLabel r name v)"
    using assms(1) by (auto simp: labelsOfRow_def indexedLabel_def image_iff)
  ultimately show ?thesis by (auto simp: streamLabelRows_def)
qed

text \<open>The statistics have an entry for every minute and stream of the rows.\<close>

lemma streamStats_keys: "fst ` set (streamStats rows) = rowStatsKey ` set rows"
proof -
  have key: "fst ` set (AList.map_default k v f al) = insert k (fst ` set al)" for k v f and al :: "(statsKey \<times> u64 \<times> u64) list"
    by (induction al) auto
  have "fst ` set (fold addStats rows al) = rowStatsKey ` set rows \<union> fst ` set al" for al
    by (induction rows arbitrary: al) (auto simp: addStats_def key)
  from this [of "[]"] show ?thesis by (simp add: streamStats_def)
qed

text \<open>The label index of the native layout is complete: after a push of one team it holds, sorted and without duplicates, exactly the
  non-empty stream labels of the rows and those of their resource attributes whose name is not a stream label,
  each with its stream, provided that no name or value contains a zero byte.\<close>

theorem label_index_complete:
  assumes "\<forall>r\<in>set rows. ilTeamID r = team"
    and "\<forall>r\<in>set rows. \<forall>(name, v)\<in>set (ilStreamLabels r) \<union> set (ilResource r). CHR 0x00 \<notin> set name \<union> set v"
  shows "sorted (streamLabelRows rows) \<and> distinct (streamLabelRows rows)
    \<and> ((t, i, name, v) \<in> set (streamLabelRows rows) \<longleftrightarrow> t = team \<and> name \<noteq> [] \<and> v \<noteq> []
      \<and> (\<exists>r\<in>set rows. ilStreamID r = i
           \<and> ((name, v) \<in> set (ilStreamLabels r) \<or> ((name, v) \<in> set (ilResource r) \<and> name \<notin> fst ` set (ilStreamLabels r)))))"
  using streamLabelRows_spec [OF assms] by (simp add: streamLabelRows_def indexedLabel_def)

theorem label_index_complete_witness:
  "sorted (streamLabelRows demoEvents) \<and> (7, 2, ''host'', ''h2'') \<in> set (streamLabelRows demoEvents)
    \<and> (7, 2, ''host'', ''h1'') \<notin> set (streamLabelRows demoEvents) \<and> (7, 1, ''host'', ''h1'') \<in> set (streamLabelRows demoEvents)"
proof -
  have "\<forall>r\<in>set demoEvents. ilTeamID r = 7"
    "\<forall>r\<in>set demoEvents. \<forall>(name, v)\<in>set (ilStreamLabels r) \<union> set (ilResource r). CHR 0x00 \<notin> set name \<union> set v"
    by (simp_all add: demoEvents_def demoEvent_def)
  from label_index_complete [OF this] show ?thesis
    by (simp add: demoEvents_def demoEvent_def)
qed

end
