(* ===== verification/LokiApi.thy ===== *)
theory LokiApi
  imports LokiDecode LokiInsert LogQLFetch
begin

text \<open>
  The endpoints of the Loki API (src/internal/snuffle/loki_api.go; the parameters also in api.go,
  parseAPITime to parseLimit): the parameters of a request, the instant and the range query, the names and the
  values of labels, the series, and the push. A handler is a function from a request to what it writes: the data of a
  success or the status, type and message of an error; None is a panic. ClickHouse, the clock and
  time.Parse are fields of \<open>lokiEnv\<close>, and the reading of the form of a request is its outcome.
\<close>

section \<open>Requests and responses\<close>

datatype apiError = ApiErr string "string list" | LogErr logQLError | StoreErr string

datatype lokiReply =
    ReplyStreams "logStreamResult list"
  | ReplyVector "logMetricVectorResult list"
  | ReplyMatrix "logMetricMatrixResult list"
  | ReplyNames "string list"
  | ReplySeries "gomap list"
  | ReplyError nat string apiError
  | ReplyNotFound

text \<open>The path, and what ParseForm gives: an error or the values of each parameter.\<close>

record lokiRequest =
  rqPath :: string
  rqForm :: "string + (string \<times> string list) list"

record 're lokiEnv =
  leEvaluator :: "'re evaluator"
  leSql :: "'re sqlEngine"
  leNow :: int
  leRFC3339 :: "string \<Rightarrow> int option"
  leRows :: logStore
  leMetric :: "string \<Rightarrow> string + metricSQLRow list"
  leTexts :: "string \<Rightarrow> string + string list"
  leStreams :: "string \<Rightarrow> string + (gomap \<times> gomap) list"

definition formValues :: "(string \<times> string list) list \<Rightarrow> string \<Rightarrow> string list" where
  "formValues form key = (case map_of form key of None \<Rightarrow> [] | Some vs \<Rightarrow> vs)"

text \<open>r.Form.Get\<close>

definition formGet :: "(string \<times> string list) list \<Rightarrow> string \<Rightarrow> string" where
  "formGet form key = (case formValues form key of [] \<Rightarrow> [] | v # _ \<Rightarrow> v)"

definition badData :: "apiError \<Rightarrow> lokiReply option" where
  "badData e = Some (ReplyError 400 ''bad_data'' e)"

definition executionError :: "apiError \<Rightarrow> lokiReply option" where
  "executionError e = Some (ReplyError 422 ''execution'' e)"

section \<open>Parameters\<close>

text \<open>math.Modf of a float: its integer and its fractional part.\<close>

definition goModf :: "f64 \<Rightarrow> f64 \<times> f64" where
  "goModf x = (if isNaN x \<or> isInf x then (x, goNaN)
     else let m = int (fMantissa x * 2 ^ fExponent x div 2 ^ 1074); i = fOfInt (if fSign x then - m else m) in (i, fSub x i))"

text \<open>A time in nanoseconds; the zero fallback is None.\<close>

definition parseAPITime :: "(string \<Rightarrow> int option) \<Rightarrow> string \<Rightarrow> int option \<Rightarrow> apiError + int" where
  "parseAPITime rfc value fallback =
     (if value = [] then (case fallback of None \<Rightarrow> Inl (ApiErr ''missing timestamp'' []) | Some t \<Rightarrow> Inr t)
      else case parseFloat value of
        Some parsed \<Rightarrow> (let (seconds, frac) = goModf parsed in Inr (goUnix (fToInt64 seconds) (fToInt64 (fMul frac (fOfInt 1000000000)))))
      | None \<Rightarrow> (case rfc value of Some t \<Rightarrow> Inr t | None \<Rightarrow> Inl (ApiErr ''cannot parse timestamp %q'' [value])))"

definition parseLokiQueryTime :: "(string \<Rightarrow> int option) \<Rightarrow> string \<Rightarrow> int option \<Rightarrow> apiError + int" where
  "parseLokiQueryTime rfc value fallback =
     (if value = [] then (case fallback of None \<Rightarrow> Inl (ApiErr ''missing timestamp'' []) | Some t \<Rightarrow> Inr t)
      else case parseInt10 value of
        Some ns \<Rightarrow> (if 11 < length (dropWhile ((=) CHR ''-'') value) then Inr (goUnix 0 ns) else parseAPITime rfc value fallback)
      | None \<Rightarrow> parseAPITime rfc value fallback)"

definition sixHours :: int where
  "sixHours = 6 * 3600 * 1000000000"

definition parseLokiStartEnd :: "(string \<Rightarrow> int option) \<Rightarrow> int \<Rightarrow> (string \<times> string list) list \<Rightarrow> apiError + (int \<times> int)" where
  "parseLokiStartEnd rfc now form =
     (case parseLokiQueryTime rfc (formGet form ''start'') (Some (now - sixHours)) of Inl e \<Rightarrow> Inl e
      | Inr start \<Rightarrow> (case parseLokiQueryTime rfc (formGet form ''end'') (Some now) of Inl e \<Rightarrow> Inl e
        | Inr end \<Rightarrow> Inr (start, end)))"

definition parseLimit :: "string \<Rightarrow> apiError + int" where
  "parseLimit value = (if value = [] then Inr 0
     else case goAtoi value of None \<Rightarrow> Inl (ApiErr ''invalid limit %q'' [value])
       | Some limit \<Rightarrow> if limit < 0 then Inl (ApiErr ''invalid limit %q'' [value]) else Inr limit)"

definition parseLimitDefault :: "string \<Rightarrow> int \<Rightarrow> apiError + int" where
  "parseLimitDefault value fallback = (if value = [] then Inr fallback else parseLimit value)"

definition parseStepSeconds :: "string \<Rightarrow> apiError + int" where
  "parseStepSeconds value = (case parseFloat value of
     Some seconds \<Rightarrow> if fLess (mkFloat False 0) seconds then Inr (fToInt64 (fMul seconds (fOfInt 1000000000)))
       else Inl (ApiErr ''invalid step %q'' [value])
   | None \<Rightarrow> Inl (ApiErr ''invalid step %q'' [value]))"

definition parseStep :: "string \<Rightarrow> apiError + int" where
  "parseStep value = (if value = [] then Inl (ApiErr ''missing step parameter'' [])
     else case goParseDuration value of
       Some parsed \<Rightarrow> if 0 < parsed then Inr parsed else parseStepSeconds value
     | None \<Rightarrow> parseStepSeconds value)"

definition parseStepDefault :: "string \<Rightarrow> int \<Rightarrow> apiError + int" where
  "parseStepDefault value fallback = (if value = [] then Inr fallback else parseStep value)"

definition lokiDirection :: "string \<Rightarrow> string" where
  "lokiDirection value = (if toLower value = ''forward'' then ''forward'' else ''backward'')"

section \<open>Queries\<close>

text \<open>The answer of a log selector and of a metric query evaluated in memory.\<close>

definition streamReply :: "'re lokiEnv \<Rightarrow> Config \<Rightarrow> 're logQLSelector \<Rightarrow> int \<Rightarrow> int \<Rightarrow> int \<Rightarrow> string \<Rightarrow> lokiReply option" where
  "streamReply le cfg s startNS endNS limit direction =
     (case queryLogQLRows (leRows le) cfg (evEngine (leEvaluator le)) s startNS endNS limit direction of
        None \<Rightarrow> None
      | Some (Inl e) \<Rightarrow> executionError (LogErr e)
      | Some (Inr rows) \<Rightarrow> Some (ReplyStreams (logStreamResults rows limit direction)))"

definition metricReply :: "'re lokiEnv \<Rightarrow> Config \<Rightarrow> 're logQLExpr \<Rightarrow> int \<times> int \<Rightarrow> (logRow list \<Rightarrow> lokiReply option) \<Rightarrow> lokiReply option" where
  "metricReply le cfg e bounds answer =
     (case queryLogQLMetricRows (leRows le) cfg (evEngine (leEvaluator le)) e (fst bounds) (snd bounds) of
        None \<Rightarrow> None
      | Some (Inl err) \<Rightarrow> executionError (LogErr err)
      | Some (Inr rows) \<Rightarrow> answer rows)"

definition instantReply :: "'re lokiEnv \<Rightarrow> Config \<Rightarrow> 're logQLExpr \<Rightarrow> int \<Rightarrow> int \<Rightarrow> string \<Rightarrow> lokiReply option" where
  "instantReply le cfg e ts limit direction = (case e of
     LogSelector s \<Rightarrow> streamReply le cfg s (wrap64 (ts - sixHours)) (wrap64 ts) limit direction
   | _ \<Rightarrow> (case tryLogQLInstantMetricSQL (leMetric le) cfg (leSql le) e (wrap64 ts) of
       Some None \<Rightarrow> None
     | Some (Some (Inl err)) \<Rightarrow> executionError (StoreErr err)
     | Some (Some (Inr vec)) \<Rightarrow> Some (ReplyVector vec)
     | None \<Rightarrow> metricReply le cfg e (logQLMetricFetchBounds e (wrap64 ts) (wrap64 ts))
         (\<lambda>rows. map_option ReplyVector (evaluateLogQLInstantMetric (leEvaluator le) e rows (wrap64 ts)))))"

definition handleLokiQuery :: "'re lokiEnv \<Rightarrow> Config \<Rightarrow> lokiRequest \<Rightarrow> lokiReply option" where
  "handleLokiQuery le cfg rq = (case rqForm rq of Inl e \<Rightarrow> badData (ApiErr e []) | Inr form \<Rightarrow>
     let query = formGet form ''query'' in
     if query = [] then badData (ApiErr ''missing query parameter'' [])
     else case parseLokiQueryTime (leRFC3339 le) (formGet form ''time'') (Some (leNow le)) of Inl e \<Rightarrow> badData e
     | Inr ts \<Rightarrow> (case parseLimitDefault (formGet form ''limit'') 100 of Inl e \<Rightarrow> badData e
     | Inr limit \<Rightarrow> (case parseLogQL (enCompile (evEngine (leEvaluator le))) query of Inl e \<Rightarrow> badData (LogErr e)
     | Inr e \<Rightarrow> instantReply le cfg e ts limit (lokiDirection (formGet form ''direction'')))))"

definition maxRangePushdownPoints :: nat where
  "maxRangePushdownPoints = 11000"

text \<open>A range query; the number of points divides by the step, and panics when the step is zero.\<close>

definition rangeReply :: "'re lokiEnv \<Rightarrow> Config \<Rightarrow> 're logQLExpr \<Rightarrow> int \<Rightarrow> int \<Rightarrow> int \<Rightarrow> int \<Rightarrow> string \<Rightarrow> lokiReply option" where
  "rangeReply le cfg e start end step limit direction = (case e of
     LogSelector s \<Rightarrow> streamReply le cfg s (wrap64 start) (wrap64 end) limit direction
   | _ \<Rightarrow> (case alignLogQLMetricRange start end step of Inl err \<Rightarrow> badData (LogErr err)
     | Inr (metricStart, metricEnd) \<Rightarrow>
         if metricStart \<le> metricEnd \<and> step = 0 then None
         else if maxRangePushdownPoints < logQLRangePoints metricStart metricEnd step
         then badData (ApiErr ''exceeded maximum resolution of %d points per timeseries; decrease the query resolution (step)'' [natDec maxRangePushdownPoints])
         else (case tryLogQLRangeMetricSQL (leMetric le) cfg (leSql le) e metricStart metricEnd step of
           Some None \<Rightarrow> None
         | Some (Some (Inl err)) \<Rightarrow> executionError (StoreErr err)
         | Some (Some (Inr m)) \<Rightarrow> Some (ReplyMatrix m)
         | None \<Rightarrow> metricReply le cfg e (logQLMetricFetchBounds e metricStart metricEnd)
             (\<lambda>rows. map_option ReplyMatrix (evaluateLogQLRangeMetric (leEvaluator le) e rows metricStart metricEnd step)))))"

definition handleLokiQueryRange :: "'re lokiEnv \<Rightarrow> Config \<Rightarrow> lokiRequest \<Rightarrow> lokiReply option" where
  "handleLokiQueryRange le cfg rq = (case rqForm rq of Inl e \<Rightarrow> badData (ApiErr e []) | Inr form \<Rightarrow>
     let query = formGet form ''query'' in
     if query = [] then badData (ApiErr ''missing query parameter'' [])
     else case parseLokiQueryTime (leRFC3339 le) (formGet form ''start'') None of Inl e \<Rightarrow> badData (ApiErr ''invalid start: %w'' [])
     | Inr start \<Rightarrow> (case parseLokiQueryTime (leRFC3339 le) (formGet form ''end'') None of Inl e \<Rightarrow> badData (ApiErr ''invalid end: %w'' [])
     | Inr end \<Rightarrow>
       if end < start then badData (ApiErr ''end timestamp must not be before start time'' [])
       else (case parseStepDefault (formGet form ''step'') 60000000000 of Inl e \<Rightarrow> badData e
     | Inr step \<Rightarrow> (case parseLimitDefault (formGet form ''limit'') 100 of Inl e \<Rightarrow> badData e
     | Inr limit \<Rightarrow> (case parseLogQL (enCompile (evEngine (leEvaluator le))) query of Inl e \<Rightarrow> badData (LogErr e)
     | Inr e \<Rightarrow> rangeReply le cfg e start end step limit (lokiDirection (formGet form ''direction'')))))))"

section \<open>Labels\<close>

definition logQLSnuffleActiveStreamsSQL :: "Config \<Rightarrow> int \<Rightarrow> int \<Rightarrow> string option" where
  "logQLSnuffleActiveStreamsSQL cfg startNS endNS = do {
     stats \<leftarrow> tableName (CHDatabase cfg) (LogStreamStatsTable cfg);
     Some (''(SELECT team_id, stream_id FROM '' @ stats @ '' WHERE '' @ teamFilter cfg @ '' AND bucket >= toStartOfMinute('' @ chTimeNanos startNS
       @ '') AND bucket <= toStartOfMinute('' @ chTimeNanos endNS @ '') GROUP BY team_id, stream_id ORDER BY team_id, stream_id)'') }"

definition logQLSnuffleStreamsTableSQL :: "Config \<Rightarrow> int \<Rightarrow> int \<Rightarrow> string option" where
  "logQLSnuffleStreamsTableSQL cfg startNS endNS =
     (if postHogLogSchemaLayout cfg \<or> LogStreamStatsTable cfg = [] then tableName (CHDatabase cfg) (LogStreamsTable cfg)
      else do { streams \<leftarrow> tableName (CHDatabase cfg) (LogStreamsTable cfg);
        active \<leftarrow> logQLSnuffleActiveStreamsSQL cfg startNS endNS;
        Some (''(SELECT streams.team_id AS team_id, streams.stream_id AS stream_id, streams.labels AS labels, streams.resource_attributes AS resource_attributes, streams.service_name AS service_name, streams.severity_text AS severity_text FROM ''
          @ streams @ '' AS streams ANY INNER JOIN '' @ active @ '' AS active USING (team_id, stream_id))'') })"

definition logQLSnuffleLabelValuesFromIndexSQL :: "Config \<Rightarrow> string \<Rightarrow> int \<Rightarrow> int \<Rightarrow> int \<Rightarrow> string option" where
  "logQLSnuffleLabelValuesFromIndexSQL cfg name startNS endNS limit = do {
     stats \<leftarrow> tableName (CHDatabase cfg) (LogStreamStatsTable cfg);
     labels \<leftarrow> tableName (CHDatabase cfg) (LogStreamLabelsTable cfg);
     Some (''SELECT DISTINCT labels.label_value AS label_value FROM '' @ stats @ '' AS stats ANY INNER JOIN (SELECT team_id, stream_id, label_value FROM ''
       @ labels @ '' WHERE '' @ teamFilter cfg @ '' AND '' @ logQLSnuffleStreamLabelKeyCondition ''label_name'' name
       @ '') AS labels USING (team_id, stream_id) WHERE '' @ teamFilter cfg @ '' AND bucket >= toStartOfMinute('' @ chTimeNanos startNS
       @ '') AND bucket <= toStartOfMinute('' @ chTimeNanos endNS @ '') AND labels.label_value != '' @ sqlString [] @ '' ORDER BY label_value''
       @ sqlLimit limit @ logQLSnuffleFullSortingMergeJoinSettings cfg) }"

text \<open>The names that every response of the label endpoint has.\<close>

definition builtinLabelNames :: "string list" where
  "builtinLabelNames = [''service_name'', ''service.name'', ''level'', ''severity_text'', ''trace_id'', ''span_id'', ''detected_level'']"

text \<open>The condition under which there is a table of names or values to ask.\<close>

definition hasLabelTable :: "Config \<Rightarrow> bool" where
  "hasLabelTable cfg \<longleftrightarrow> LogAttributesTable cfg \<noteq> [] \<or> (\<not> postHogLogSchemaLayout cfg \<and> LogStreamsTable cfg \<noteq> [])"

definition attributeFilters :: "Config \<Rightarrow> string \<Rightarrow> int \<Rightarrow> int \<Rightarrow> string" where
  "attributeFilters cfg key startNS endNS = teamFilter cfg @ key
     @ '' AND time_bucket >= toStartOfInterval('' @ chTimeNanos startNS @ '', toIntervalMinute(10)) AND time_bucket <= toStartOfInterval(''
     @ chTimeNanos endNS @ '', toIntervalMinute(10)) AND attribute_type IN ('' @ sqlString ''log'' @ '', '' @ sqlString ''resource'' @ '')''"

definition labelNamesSQL :: "Config \<Rightarrow> int \<Rightarrow> int \<Rightarrow> int \<Rightarrow> string option" where
  "labelNamesSQL cfg startNS endNS limit =
     (if postHogLogSchemaLayout cfg then do {
        attributes \<leftarrow> tableName (CHDatabase cfg) (LogAttributesTable cfg);
        Some (''SELECT DISTINCT attribute_key FROM '' @ attributes @ '' WHERE '' @ attributeFilters cfg [] startNS endNS
          @ '' ORDER BY attribute_key'' @ sqlLimit limit) }
      else do {
        streams \<leftarrow> logQLSnuffleStreamsTableSQL cfg startNS endNS;
        Some (''SELECT DISTINCT label_name FROM (SELECT label.1 AS label_name FROM '' @ streams @ '' ARRAY JOIN labels AS label WHERE '' @ teamFilter cfg
          @ '' UNION ALL SELECT attribute.1 AS label_name FROM '' @ streams @ '' ARRAY JOIN resource_attributes AS attribute WHERE '' @ teamFilter cfg
          @ '') ORDER BY label_name'' @ sqlLimit limit) })"

definition handleLokiLabels :: "'re lokiEnv \<Rightarrow> Config \<Rightarrow> lokiRequest \<Rightarrow> lokiReply option" where
  "handleLokiLabels le cfg rq = (case rqForm rq of Inl e \<Rightarrow> badData (ApiErr e []) | Inr form \<Rightarrow>
     (case parseLokiStartEnd (leRFC3339 le) (leNow le) form of Inl e \<Rightarrow> badData e
      | Inr (start, end) \<Rightarrow> (case parseLimit (formGet form ''limit'') of Inl e \<Rightarrow> badData e
      | Inr limit \<Rightarrow>
          if hasLabelTable cfg then (case labelNamesSQL cfg (wrap64 start) (wrap64 end) limit of None \<Rightarrow> None
            | Some sql \<Rightarrow> (case leTexts le sql of
                Inl e \<Rightarrow> executionError (StoreErr e)
              | Inr found \<Rightarrow> Some (ReplyNames (sortedLimited (set builtinLabelNames \<union> (\<lambda>n. trimSuffix n ''__str'') ` set found) limit))))
          else Some (ReplyNames (sortedLimited (set builtinLabelNames) limit)))))"

text \<open>The query of a core column of the PostHog layout.\<close>

definition coreColumn :: "string \<Rightarrow> string option" where
  "coreColumn name = (if name \<in> set serviceNames then Some ''service_name''
     else if name \<in> {''level'', ''severity'', ''severity_text'', ''detected_level''} then Some ''severity_text''
     else if name \<in> {''trace_id'', ''span_id''} then quoteIdent name else None)"

definition coreValuesSQL :: "Config \<Rightarrow> string \<Rightarrow> int \<Rightarrow> int \<Rightarrow> int \<Rightarrow> string option" where
  "coreValuesSQL cfg column startNS endNS limit = do {
     logs \<leftarrow> tableName (CHDatabase cfg) (LogsTable cfg);
     Some (''SELECT DISTINCT '' @ column @ '' AS label_value FROM '' @ logs @ '' WHERE '' @ teamFilter cfg @ '' AND timestamp >= '' @ chTimeNanos startNS
       @ '' AND timestamp <= '' @ chTimeNanos endNS @ '' ORDER BY label_value'' @ sqlLimit limit) }"

text \<open>coreSQL: outside it is None when a table name panics, inside when there is no such query.\<close>

definition labelValuesCoreSQL :: "Config \<Rightarrow> string \<Rightarrow> int \<Rightarrow> int \<Rightarrow> int \<Rightarrow> string option option" where
  "labelValuesCoreSQL cfg name startNS endNS limit =
     (if postHogLogSchemaLayout cfg then
        (case (if LogsTable cfg = [] then None else coreColumn name) of None \<Rightarrow> Some None
         | Some column \<Rightarrow> map_option Some (coreValuesSQL cfg column startNS endNS limit))
      else if LogStreamsTable cfg = [] then Some None
      else if LogStreamLabelsTable cfg \<noteq> [] \<and> LogStreamStatsTable cfg \<noteq> []
      then map_option Some (logQLSnuffleLabelValuesFromIndexSQL cfg name startNS endNS limit)
      else (case logQLSnuffleStreamsTableSQL cfg startNS endNS of None \<Rightarrow> None
        | Some streams \<Rightarrow> (case coreColumn name of None \<Rightarrow> Some None
          | Some column \<Rightarrow> if name \<in> {''trace_id'', ''span_id''} then Some None
              else Some (Some (''SELECT DISTINCT '' @ column @ '' AS label_value FROM '' @ streams @ '' WHERE '' @ teamFilter cfg @ '' AND '' @ column
                @ '' != '' @ sqlString [] @ '' ORDER BY label_value'' @ sqlLimit limit)))))"

definition labelValuesSQL :: "Config \<Rightarrow> string \<Rightarrow> int \<Rightarrow> int \<Rightarrow> int \<Rightarrow> string option" where
  "labelValuesSQL cfg name startNS endNS limit =
     (if postHogLogSchemaLayout cfg then do {
        attributes \<leftarrow> tableName (CHDatabase cfg) (LogAttributesTable cfg);
        Some (''SELECT DISTINCT attribute_value FROM '' @ attributes @ '' WHERE ''
          @ attributeFilters cfg ('' AND attribute_key = '' @ sqlString name) startNS endNS @ '' ORDER BY attribute_value'' @ sqlLimit limit) }
      else do {
        streams \<leftarrow> logQLSnuffleStreamsTableSQL cfg startNS endNS;
        Some (''SELECT DISTINCT label_value FROM (SELECT label.2 AS label_value FROM '' @ streams @ '' ARRAY JOIN labels AS label WHERE '' @ teamFilter cfg
          @ '' AND '' @ logQLSnuffleStreamLabelKeyCondition ''label.1'' name @ '' UNION ALL SELECT attribute.2 AS label_value FROM '' @ streams
          @ '' ARRAY JOIN resource_attributes AS attribute WHERE '' @ teamFilter cfg @ '' AND ''
          @ logQLSnuffleStreamLabelKeyCondition ''attribute.1'' name @ '') WHERE label_value != '' @ sqlString [] @ '' ORDER BY label_value'' @ sqlLimit limit) })"

definition labelPrefix :: string where
  "labelPrefix = ''/loki/api/v1/label/''"

text \<open>The label name in a path, or None where the path is not one of a label.\<close>

definition labelOfPath :: "string \<Rightarrow> string option" where
  "labelOfPath path = (if hasPrefix path labelPrefix \<and> hasSuffix path ''/values''
     then Some (trimByte CHR ''/'' (trimSuffix (drop (length labelPrefix) path) ''/values'')) else None)"

definition valuesReply :: "'re lokiEnv \<Rightarrow> string \<Rightarrow> int \<Rightarrow> lokiReply option" where
  "valuesReply le sql limit = (case leTexts le sql of Inl e \<Rightarrow> executionError (StoreErr e)
     | Inr values \<Rightarrow> Some (ReplyNames (sortedLimited (set values - {[]}) limit)))"

definition handleLokiLabelValues :: "'re lokiEnv \<Rightarrow> Config \<Rightarrow> lokiRequest \<Rightarrow> lokiReply option" where
  "handleLokiLabelValues le cfg rq = (case labelOfPath (rqPath rq) of None \<Rightarrow> Some ReplyNotFound | Some name \<Rightarrow>
     if name = [] then badData (ApiErr ''missing label name'' [])
     else case rqForm rq of Inl e \<Rightarrow> badData (ApiErr e []) | Inr form \<Rightarrow>
     (case parseLokiStartEnd (leRFC3339 le) (leNow le) form of Inl e \<Rightarrow> badData e
      | Inr (start, end) \<Rightarrow> (case parseLimit (formGet form ''limit'') of Inl e \<Rightarrow> badData e
      | Inr limit \<Rightarrow> (case labelValuesCoreSQL cfg name (wrap64 start) (wrap64 end) limit of
            None \<Rightarrow> None
          | Some (Some sql) \<Rightarrow> valuesReply le sql limit
          | Some None \<Rightarrow> if hasLabelTable cfg
              then (case labelValuesSQL cfg name (wrap64 start) (wrap64 end) limit of None \<Rightarrow> None | Some sql \<Rightarrow> valuesReply le sql limit)
              else Some (ReplyNames [])))))"

section \<open>Series\<close>

definition copyNonEmpty :: "gomap \<Rightarrow> gomap \<Rightarrow> gomap" where
  "copyNonEmpty m out = fold (\<lambda>(k, v) out. if v \<noteq> [] then AList.update k v out else out) m out"

definition firstText :: "string list \<Rightarrow> string" where
  "firstText ts = (case filter (\<lambda>t. t \<noteq> []) ts of [] \<Rightarrow> [] | t # _ \<Rightarrow> t)"

definition snuffleStreamLabels :: "gomap \<Rightarrow> gomap \<Rightarrow> gomap" where
  "snuffleStreamLabels labels resource =
     (let out = copyNonEmpty labels (copyNonEmpty resource []);
          serviceName = firstText [labelGet out ''service_name'', labelGet out ''service.name'', labelGet resource ''service.name''];
          out = setNonEmpty [''service_name'', ''service.name''] serviceName out;
          severityText = firstText [labelGet out ''level'', labelGet out ''severity_text'', labelGet out ''detected_level''];
          out = setNonEmpty [''level'', ''severity_text'', ''detected_level''] severityText out in
      stableLabelMap out)"

definition querySnuffleLogSeries ::
  "'re lokiEnv \<Rightarrow> Config \<Rightarrow> 're logQLSelector \<Rightarrow> int \<Rightarrow> int \<Rightarrow> int \<Rightarrow> (string + gomap list) option" where
  "querySnuffleLogSeries le cfg s startNS endNS limit = do {
     streams \<leftarrow> logQLSnuffleStreamsTableSQL cfg startNS endNS;
     Some (map_sum id (map (\<lambda>(labels, resource). snuffleStreamLabels labels resource))
       (leStreams le (''SELECT labels, resource_attributes FROM '' @ streams @ '' WHERE ''
         @ joinWith '' AND '' (teamFilter cfg # map (\<lambda>m. condText (logQLStringCondition (logQLSnuffleStreamOnlyLabelValueExpr (lmName m)) (lmOp m) (lmValue m) True))
             (selMatchers s)) @ '' ORDER BY stream_id'' @ sqlLimit limit))) }"

text \<open>The series that are collected, by their key, until there are MaxSeries.\<close>

fun collectSeries :: "int \<Rightarrow> (gomap \<Rightarrow> bool) \<Rightarrow> gomap list \<Rightarrow> (string \<times> gomap) list \<Rightarrow> (string \<times> gomap) list" where
  "collectSeries maxSeries ok [] seen = seen"
| "collectSeries maxSeries ok (labels # found) seen =
     (if \<not> ok labels then collectSeries maxSeries ok found seen
      else let labels' = stableLabelMap labels; seen' = AList.update (labelsKey labels') labels' seen in
        if maxSeries \<le> int (length seen') then seen' else collectSeries maxSeries ok found seen')"

text \<open>What one match asks for: the labels of the series, or of the rows that it finds.\<close>

definition matchSeries ::
  "'re lokiEnv \<Rightarrow> Config \<Rightarrow> int \<Rightarrow> int \<Rightarrow> 're logQLSelector \<Rightarrow> (apiError + gomap list) option" where
  "matchSeries le cfg startNS endNS s =
     (if \<not> postHogLogSchemaLayout cfg \<and> LogStreamsTable cfg \<noteq> [] \<and> selStages s = []
      then map_option (map_sum StoreErr id) (querySnuffleLogSeries le cfg s startNS endNS (MaxSeries cfg))
      else map_option (\<lambda>sql. map_sum LogErr (\<lambda>cols. map rowLabels (scanLogRows cols)) (leRows le sql))
        (logQLSelectSQL cfg (evEngine (leEvaluator le)) s startNS endNS (MaxSeries cfg) ''forward''))"

fun seriesLoop :: "'re lokiEnv \<Rightarrow> Config \<Rightarrow> int \<Rightarrow> int \<Rightarrow> string list \<Rightarrow> (string \<times> gomap) list \<Rightarrow> lokiReply option" where
  "seriesLoop le cfg startNS endNS [] seen = Some (ReplySeries (sort_key labelsKey (map snd seen)))"
| "seriesLoop le cfg startNS endNS (match # matches) seen =
     (case parseLogQLSelector (enCompile (evEngine (leEvaluator le))) match of
        Inl e \<Rightarrow> badData (LogErr e)
      | Inr s \<Rightarrow> (case matchSeries le cfg startNS endNS s of
          None \<Rightarrow> None
        | Some (Inl e) \<Rightarrow> executionError e
        | Some (Inr found) \<Rightarrow> seriesLoop le cfg startNS endNS matches
            (collectSeries (MaxSeries cfg) (matchesLabels (evEngine (leEvaluator le)) s) found seen)))"

definition seriesMatches :: "(string \<times> string list) list \<Rightarrow> string list" where
  "seriesMatches form = (if formValues form ''match[]'' \<noteq> [] then formValues form ''match[]''
     else if formValues form ''match'' \<noteq> [] then formValues form ''match'' else [''{}''])"

definition handleLokiSeries :: "'re lokiEnv \<Rightarrow> Config \<Rightarrow> lokiRequest \<Rightarrow> lokiReply option" where
  "handleLokiSeries le cfg rq = (case rqForm rq of Inl e \<Rightarrow> badData (ApiErr e []) | Inr form \<Rightarrow>
     (case parseLokiStartEnd (leRFC3339 le) (leNow le) form of Inl e \<Rightarrow> badData e
      | Inr (start, end) \<Rightarrow> seriesLoop le cfg (wrap64 start) (wrap64 end) (seriesMatches form) []))"

section \<open>Sorting and limiting in two places\<close>

text \<open>The first elements of a sorted set are those with few elements before them.\<close>

lemma take_sorted_list_of_set:
  assumes "finite X"
  shows "take n (sorted_list_of_set X) = sorted_list_of_set {x \<in> X. card {y \<in> X. y < x} < n}"
proof -
  let ?xs = "sorted_list_of_set X"
  have rank: "card {y \<in> X. y < ?xs ! i} = i" if "i < length ?xs" for i
  proof -
    have "{y \<in> X. y < ?xs ! i} = set (take i ?xs)"
    proof (intro equalityI subsetI)
      fix y assume "y \<in> {y \<in> X. y < ?xs ! i}"
      then have "y \<in> set ?xs" and less: "y < ?xs ! i" using assms by auto
      then obtain j where j: "j < length ?xs" "?xs ! j = y" by (metis in_set_conv_nth)
      then have "j < i" using less sorted_nth_mono [OF sorted_sorted_list_of_set, of i j X] by (metis linorder_not_le)
      then show "y \<in> set (take i ?xs)" using j that by (auto simp: in_set_conv_nth)
    next
      fix y assume "y \<in> set (take i ?xs)"
      then obtain j where j: "j < i" "?xs ! j = y" by (auto simp: in_set_conv_nth)
      have "?xs ! j \<noteq> ?xs ! i" using j(1) that by (simp add: nth_eq_iff_index_eq)
      then have "y < ?xs ! i"
        using sorted_nth_mono [OF sorted_sorted_list_of_set, of j i X] j that by auto
      then show "y \<in> {y \<in> X. y < ?xs ! i}" using j that assms by (metis (mono_tags) mem_Collect_eq nth_mem order_less_trans set_sorted_list_of_set)
    qed
    then show ?thesis using that by (simp add: distinct_card)
  qed
  have "set (take n ?xs) = {x \<in> X. card {y \<in> X. y < x} < n}"
  proof (intro equalityI subsetI)
    fix x assume "x \<in> set (take n ?xs)"
    then obtain i where "i < n" "i < length ?xs" "x = ?xs ! i" by (auto simp: in_set_conv_nth)
    then show "x \<in> {x \<in> X. card {y \<in> X. y < x} < n}"
      using rank [of i] assms nth_mem [of i ?xs] by simp
  next
    fix x assume x: "x \<in> {x \<in> X. card {y \<in> X. y < x} < n}"
    then have "x \<in> set ?xs" using assms by simp
    then obtain i where i: "i < length ?xs" "x = ?xs ! i" by (metis in_set_conv_nth)
    then show "x \<in> set (take n ?xs)" using x rank [OF i(1)] by (auto simp: in_set_conv_nth)
  qed
  then show ?thesis
    using sorted_list_of_set.idem_if_sorted_distinct [of "take n ?xs"] by (simp add: sorted_wrt_take)
qed

lemma sortedLimited_take: "finite X \<Longrightarrow> 0 < limit \<Longrightarrow> sortedLimited X limit = take (nat limit) (sorted_list_of_set X)"
  by (simp add: sortedLimited_def Let_def)

text \<open>Limiting some of the values before they are put together with others changes nothing.\<close>

lemma sortedLimited_twice:
  assumes "finite B" "finite X"
  shows "sortedLimited (B \<union> set (sortedLimited X limit)) limit = sortedLimited (B \<union> X) limit"
proof (cases "0 < limit")
  case True
  let ?n = "nat limit" let ?Y = "B \<union> set (sortedLimited X limit)"
  have first: "set (sortedLimited X limit) = {x \<in> X. card {y \<in> X. y < x} < ?n}"
    unfolding sortedLimited_take [OF assms(2) True] take_sorted_list_of_set [OF assms(2)] using assms(2) by simp
  have many: "?n \<le> card {y \<in> ?Y. y < x}" if "x \<in> (B \<union> X) - ?Y" for x
  proof -
    have rank: "?n \<le> card {y \<in> X. y < x}" using that unfolding first by (clarsimp simp: not_less)
    also have "\<dots> \<le> card X" using assms(2) by (intro card_mono) auto
    finally have n: "card (set (take ?n (sorted_list_of_set X))) = ?n" by (simp add: distinct_card)
    have "set (take ?n (sorted_list_of_set X)) \<subseteq> {y \<in> ?Y. y < x}"
    proof
      fix y assume "y \<in> set (take ?n (sorted_list_of_set X))"
      then have y: "y \<in> X" "card {z \<in> X. z < y} < ?n" "y \<in> ?Y"
        using first assms(2) by (auto simp: take_sorted_list_of_set)
      have "\<not> x \<le> y"
      proof
        assume "x \<le> y"
        then have "card {z \<in> X. z < x} \<le> card {z \<in> X. z < y}" using assms(2) by (intro card_mono) auto
        then show False using rank y(2) by simp
      qed
      then show "y \<in> {y \<in> ?Y. y < x}" using y by simp
    qed
    from card_mono [OF _ this] show ?thesis using assms n by simp
  qed
  have sub: "?Y \<subseteq> B \<union> X" using first by auto
  have "{x \<in> ?Y. card {y \<in> ?Y. y < x} < ?n} = {x \<in> B \<union> X. card {y \<in> B \<union> X. y < x} < ?n}"
  proof (intro equalityI subsetI)
    fix x assume x: "x \<in> {x \<in> ?Y. card {y \<in> ?Y. y < x} < ?n}"
    have "y \<in> ?Y" if "y \<in> B \<union> X" "y < x" for y
    proof (rule ccontr)
      assume "y \<notin> ?Y"
      then have "?n \<le> card {z \<in> ?Y. z < y}" using many that(1) by blast
      also have "\<dots> \<le> card {z \<in> ?Y. z < x}" using that(2) assms by (intro card_mono) auto
      finally show False using x by simp
    qed
    then have "{y \<in> B \<union> X. y < x} = {y \<in> ?Y. y < x}" using sub by blast
    then show "x \<in> {x \<in> B \<union> X. card {y \<in> B \<union> X. y < x} < ?n}" using x sub by auto
  next
    fix x assume x: "x \<in> {x \<in> B \<union> X. card {y \<in> B \<union> X. y < x} < ?n}"
    have le: "card {y \<in> ?Y. y < x} \<le> card {y \<in> B \<union> X. y < x}" using sub assms by (intro card_mono) auto
    then have "x \<in> ?Y" using many [of x] x by fastforce
    then show "x \<in> {x \<in> ?Y. card {y \<in> ?Y. y < x} < ?n}" using x le by simp
  qed
  moreover have "finite ?Y" "finite (B \<union> X)" using assms by simp_all
  ultimately show ?thesis by (simp only: sortedLimited_take True take_sorted_list_of_set)
qed (use assms in \<open>simp add: sortedLimited_def\<close>)

section \<open>The names and values of labels\<close>

lemma sortedLimited_sub: "finite X \<Longrightarrow> set (sortedLimited X limit) \<subseteq> X"
  by (auto simp: sortedLimited_def Let_def dest: in_set_takeD)

lemma sortedLimited_again:
  assumes "finite X" "[] \<notin> X"
  shows "sortedLimited (set (sortedLimited X limit) - {[]}) limit = sortedLimited X limit"
proof -
  have "set (sortedLimited X limit) - {[]} = set (sortedLimited X limit)" using sortedLimited_sub [OF assms(1)] assms(2) by blast
  then show ?thesis using sortedLimited_twice [of "{}" X limit] assms(1) by simp
qed

text \<open>In the native layout the answer for the label names is the first \<open>limit\<close> names of the built-in ones and
  all those of the streams, although ClickHouse returns only its first \<open>limit\<close> names: limiting before and after the
  union is limiting once.\<close>

theorem label_names_limited:
  assumes "rqForm rq = Inr form" "parseLokiStartEnd (leRFC3339 le) (leNow le) form = Inr (start, end)" "parseLimit (formGet form ''limit'') = Inr limit"
    and "\<not> postHogLogSchemaLayout cfg" "LogStreamsTable cfg \<noteq> []" "labelNamesSQL cfg (wrap64 start) (wrap64 end) limit = Some sql"
    and "finite found" "\<forall>n\<in>found. \<not> hasSuffix n ''__str''" "leTexts le sql = Inr (sortedLimited found limit)"
  shows "handleLokiLabels le cfg rq = Some (ReplyNames (sortedLimited (set builtinLabelNames \<union> found) limit))"
proof -
  have sub: "set (sortedLimited found limit) \<subseteq> found" by (rule sortedLimited_sub [OF assms(7)])
  have "(\<lambda>n. trimSuffix n ''__str'') ` set (sortedLimited found limit) = set (sortedLimited found limit)"
    using sub assms(8) by (intro image_cong [of _ _ _ "\<lambda>n. n", simplified]) (auto simp: trimSuffix_def)
  then show ?thesis
    using assms sortedLimited_twice [of "set builtinLabelNames" found limit]
    by (simp add: handleLokiLabels_def hasLabelTable_def)
qed

text \<open>The label names that the condition on the index accepts, and the values that it finds.\<close>

definition streamKeyNames :: "string \<Rightarrow> string set" where
  "streamKeyNames name = (if name \<in> set serviceNames then set serviceNames
     else if name \<in> set severityNames then {''level'', ''severity_text'', ''detected_level''} else {name})"

definition indexedValues :: "streamLabelRow set \<Rightarrow> statsKey set \<Rightarrow> int \<Rightarrow> string set \<Rightarrow> int \<Rightarrow> int \<Rightarrow> string set" where
  "indexedValues labelRows active team wanted lo hi = {v. v \<noteq> [] \<and> (\<exists>i n bucket. (team, i, n, v) \<in> labelRows \<and> n \<in> wanted
     \<and> (team, bucket, i) \<in> active \<and> minuteOf lo \<le> bucket \<and> bucket \<le> minuteOf hi)}"


definition demoEnv :: "string list \<Rightarrow> unit lokiEnv" where
  "demoEnv texts = \<lparr>leEvaluator = demoEvaluator, leSql = demoSqlEngine, leNow = 0, leRFC3339 = (\<lambda>_. None), leRows = (\<lambda>_. Inr []),
     leMetric = (\<lambda>_. Inr []), leTexts = (\<lambda>_. Inr texts), leStreams = (\<lambda>_. Inr [])\<rparr>"

definition demoForm :: "(string \<times> string list) list" where
  "demoForm = [(''start'', [''100000000000'']), (''end'', [''200000000000'']), (''limit'', [''2''])]"

definition demoLokiRequest :: "string \<Rightarrow> (string \<times> string list) list \<Rightarrow> lokiRequest" where
  "demoLokiRequest path form = \<lparr>rqPath = path, rqForm = Inr form\<rparr>"

lemma demoForm_times:
  "parseLokiQueryTime rfc ''100000000000'' d = Inr 100000000000" "parseLokiQueryTime rfc ''200000000000'' d = Inr 200000000000"
  by (simp_all add: parseLokiQueryTime_def parseInt10_def digitVal_def digitByte_def in_i64_def goUnix_def wrap64_id signed_divide_int_def Let_def)

lemma demoForm_range: "parseLokiStartEnd rfc now demoForm = Inr (100000000000, 200000000000)"
  by (simp add: parseLokiStartEnd_def demoForm_def formGet_def formValues_def demoForm_times)

lemma demoForm_limit: "parseLimit (formGet demoForm ''limit'') = Inr 2"
  by (simp add: demoForm_def formGet_def formValues_def parseLimit_def goAtoi_def digitByte_def in_i64_def Let_def)

lemma demoLogs_snuffle: "\<not> postHogLogSchemaLayout (demoLogs ''current'')"
proof -
  have "toLower (trimSpace ''current'') = ''current''"
    by (simp add: trimSpace_def toLower_def runes_ascii isSpaceRune_def lowerRune_def encodeRune_def char_of_def bit_0)
  then show ?thesis by (simp add: postHogLogSchemaLayout_def storageLogSchemaLayout_def demoLogs_def Let_def)
qed

lemma demo_tables: "tableName ''default'' ''log_streams'' \<noteq> None" "tableName ''default'' ''log_stream_labels'' \<noteq> None"
  "tableName ''default'' ''log_stream_stats'' \<noteq> None"
  by (simp_all add: tableName_def quoteIdent_def identifierRE_def isLetter_def isDigit_def)

lemma demo_streamsTable: "\<exists>sql. logQLSnuffleStreamsTableSQL (demoLogs ''current'') lo hi = Some sql"
  using demo_tables demoLogs_snuffle
  by (auto simp: logQLSnuffleStreamsTableSQL_def logQLSnuffleActiveStreamsSQL_def demoLogs_def)

theorem label_names_limited_witness:
  "handleLokiLabels (demoEnv (sortedLimited {''app'', ''zone''} 2)) (demoLogs ''current'') (demoLokiRequest [] demoForm)
     = Some (ReplyNames (sortedLimited (set builtinLabelNames \<union> {''app'', ''zone''}) 2))"
proof -
  obtain sql where sql: "labelNamesSQL (demoLogs ''current'') (wrap64 100000000000) (wrap64 200000000000) 2 = Some sql"
    using demo_streamsTable [of "wrap64 100000000000" "wrap64 200000000000"] demoLogs_snuffle by (auto simp: labelNamesSQL_def)
  show ?thesis
    by (rule label_names_limited [OF _ demoForm_range demoForm_limit demoLogs_snuffle _ sql])
      (simp_all add: demoLokiRequest_def demoLogs_def demoEnv_def hasSuffix_def)
qed


section \<open>A step below a nanosecond\<close>

text \<open>Rounding a ratio whose size is known, without dividing numbers of a thousand bits.\<close>

lemma lastPlace_eq:
  assumes "0 < d" "d * 2 ^ (53 + u) \<le> n" "n < d * 2 ^ (54 + u)"
  shows "lastPlace n d = Suc u"
proof -
  let ?q = "n div d"
  have q: "2 ^ (53 + u) \<le> ?q" "?q < 2 ^ (54 + u)"
    using assms by (simp_all add: less_eq_div_iff_mult_less_eq div_less_iff_less_mult mult.commute)
  have "(2::nat) ^ 53 \<le> 2 ^ (53 + u)" by (rule power_increasing) auto
  then have big: "\<not> ?q < 2 ^ 53" using q(1) by linarith
  have qi: "(2::int) ^ (53 + u) \<le> int ?q" "int ?q < 2 ^ (54 + u)"
    using q by (metis of_nat_le_iff of_nat_numeral of_nat_power, metis of_nat_less_iff of_nat_numeral of_nat_power)
  have "bitlen (int ?q) = int (54 + u)"
    using bitlen_le_iff_power [of "int ?q" "54 + u"] bitlen_ge_iff_power [of "int (54 + u)" "int ?q"] qi
    by (simp add: order_antisym nat_add_distrib)
  then show ?thesis using big by (simp add: lastPlace_def Let_def)
qed

lemma nearestEven_scale: "0 < k \<Longrightarrow> nearestEven (n * k) (d * k) = nearestEven n d"
proof -
  assume k: "0 < k"
  have "(d * k < 2 * (n mod d * k)) = (d < 2 * (n mod d))" "(2 * (n mod d * k) = d * k) = (2 * (n mod d) = d)"
    using k by (simp_all add: mult.assoc [symmetric])
  then show ?thesis using k by (simp add: nearestEven_def Let_def mod_mult_mult2)
qed

lemma roundBits_scaled:
  assumes "0 < b" "n = a * 2 ^ p" "d * 2 ^ Suc u = b * 2 ^ p" "b * 2 ^ 52 \<le> a" "a < b * 2 ^ 53"
  shows "roundBits n d = min fInfBits (Suc u * 2 ^ 52 + nearestEven a b)"
proof -
  have d: "0 < d" using assms(1,3) by (cases d) auto
  have 52: "d * 2 ^ (53 + u) = (b * 2 ^ 52) * 2 ^ p"
    using arg_cong [OF assms(3), of "\<lambda>x. x * 2 ^ 52"] by (simp add: power_add algebra_simps)
  have 53: "d * 2 ^ (54 + u) = (b * 2 ^ 53) * 2 ^ p"
    using arg_cong [OF assms(3), of "\<lambda>x. x * 2 ^ 53"] by (simp add: power_add algebra_simps)
  have "lastPlace n d = Suc u"
    by (rule lastPlace_eq [OF d]; unfold 52 53 assms(2))
      (use assms(4,5) in \<open>auto intro: mult_right_mono mult_strict_right_mono\<close>)
  then show ?thesis using assms(2,3) by (simp only: roundBits_def Let_def nearestEven_scale zero_less_power zero_less_numeral)
qed

lemma tiny_float: "parseFloat ''1e-10'' = Some 0x3DDB7CDFD9D7BDBB"
proof -
  have "roundBits (2 ^ 1074) (10 ^ 10) = min fInfBits (Suc 987 * 2 ^ 52 + nearestEven (2 ^ 86) (10 ^ 10))"
    by (rule roundBits_scaled [where p = 988]) (simp_all flip: power_add)
  then have "fRound False (1 * 2 ^ 1074) (10 ^ 10) = 0x3DDB7CDFD9D7BDBB"
    by (simp only: fRound_def mkFloat_def mult_1) (simp add: nearestEven_def fInfBits_def Let_def)
  then show ?thesis
    by (simp add: parseFloat_def specialFloat_def lowerAscii_def digitIn_def digitValue_def parseExponent_def Let_def scaleRound_def isInf_def fMagnitude_def fInfBits_def del: mult_1 power_numeral) simp
qed

lemma one_rounded: "fRound False (2 ^ 1074) 1 = 0x3FF0000000000000"
proof -
  have "roundBits (2 ^ 1074) 1 = min fInfBits (Suc 1021 * 2 ^ 52 + nearestEven (2 ^ 52) 1)"
    by (rule roundBits_scaled [where p = 1022]) (simp_all flip: power_add)
  then show ?thesis
    by (simp only: fRound_def mkFloat_def) (simp add: nearestEven_def fInfBits_def Let_def)
qed

lemma one_as_float: "fOfInt 1 = 0x3FF0000000000000"
  using one_rounded by (simp add: fOfInt_def del: power_numeral)

lemma one_float: "parseFloat ''1'' = Some 0x3FF0000000000000"
proof -
  have "fRound False (1 * 10 ^ nat 0 * 2 ^ 1074) 1 = 0x3FF0000000000000"
    using one_rounded by (simp only: mult_1 nat_0 power_0)
  then show ?thesis
    by (simp add: parseFloat_def specialFloat_def lowerAscii_def digitIn_def digitValue_def parseExponent_def Let_def scaleRound_def isInf_def fMagnitude_def fInfBits_def del: mult_1 power_numeral)
      simp
qed

lemma billion_float: "fOfInt 1000000000 = 0x41CDCD6500000000"
proof -
  have "roundBits (10 ^ 9 * 2 ^ 1074) 1 = min fInfBits (Suc 1050 * 2 ^ 52 + nearestEven (10 ^ 9 * 2 ^ 23) 1)"
    by (rule roundBits_scaled [where p = 1051]) (simp_all add: mult.assoc flip: power_add)
  then have "fRound False (10 ^ 9 * 2 ^ 1074) 1 = 0x41CDCD6500000000"
    by (simp only: fRound_def mkFloat_def) (simp add: nearestEven_def fInfBits_def Let_def)
  moreover have "nat \<bar>1000000000\<bar> = 10 ^ 9" by simp
  ultimately show ?thesis unfolding fOfInt_def by simp
qed

lemma tiny_nanos: "fToInt64 (fMul 0x3DDB7CDFD9D7BDBB 0x41CDCD6500000000) = 0"
proof -
  let ?A = "7737125245533627 * 8388608000000000 :: nat"
  have "roundBits (?A * 2 ^ (988 + 1051)) (2 ^ 1074) = min fInfBits (Suc 1017 * 2 ^ 52 + nearestEven ?A (2 ^ 53))"
    by (rule roundBits_scaled [where p = 2039]) (simp_all flip: power_add)
  then have "fRound False (7737125245533627 * 8388608000000000 * 2 ^ (988 + 1051)) (2 ^ 1074) = 0x3FB999999999999A"
    by (simp only: fRound_def mkFloat_def) (simp add: nearestEven_def fInfBits_def Let_def)
  moreover have "fMantissa 0x3DDB7CDFD9D7BDBB = 7737125245533627" "fExponent 0x3DDB7CDFD9D7BDBB = 988" "\<not> isNaN 0x3DDB7CDFD9D7BDBB"
    "\<not> isInf 0x3DDB7CDFD9D7BDBB" "\<not> fSign 0x3DDB7CDFD9D7BDBB"
    "fMantissa 0x41CDCD6500000000 = 8388608000000000" "fExponent 0x41CDCD6500000000 = 1051" "\<not> isNaN 0x41CDCD6500000000"
    "\<not> isInf 0x41CDCD6500000000" "\<not> fSign 0x41CDCD6500000000"
    by (simp_all add: isNaN_def isInf_def fMagnitude_def fInfBits_def fSign_def fMantissa_def fExponent_def Let_def)
  ultimately have "fMul 0x3DDB7CDFD9D7BDBB 0x41CDCD6500000000 = 0x3FB999999999999A"
    by (simp only: fMul_def Let_def) simp
  then show ?thesis
    by (simp add: fToInt64_def Let_def isNaN_def isInf_def fMagnitude_def fInfBits_def fSign_def fMantissa_def fExponent_def in_i64_def)
qed

lemma tiny_no_duration: "goParseDuration ''1e-10'' = None"
  by (simp add: goParseDuration_def Let_def durationLoop.simps durationNumber_def unitByte_def durationUnits_def)

lemma tiny_step: "parseStepDefault ''1e-10'' d = Inr 0"
proof -
  have "fLess (mkFloat False 0) 0x3DDB7CDFD9D7BDBB"
    by (simp add: fLess_def fKey_def mkFloat_def isNaN_def fMagnitude_def fInfBits_def fSign_def)
  then show ?thesis
    by (simp add: parseStepDefault_def parseStep_def parseStepSeconds_def tiny_no_duration tiny_float billion_float tiny_nanos)
qed


section \<open>The answer of a metric query\<close>

lemma rangePointsLoop_cong:
  "\<forall>t\<in>set ts. evaluateLogQLMetricAt ev e rows t = evaluateLogQLMetricAt ev e rows' t
    \<Longrightarrow> rangePointsLoop ev e rows ts series = rangePointsLoop ev e rows' ts series"
  by (induction ts arbitrary: series) (simp_all split: option.splits)

lemma rangePointsLoop_total:
  "(\<And>t. evaluateLogQLMetricAt ev e rows t \<noteq> None) \<Longrightarrow> rangePointsLoop ev e rows ts series \<noteq> None"
  by (induction ts arbitrary: series) (auto split: option.splits)

lemma rangeMetric_total:
  "(\<And>t. evaluateLogQLMetricAt ev e rows t \<noteq> None) \<Longrightarrow> \<exists>m. evaluateLogQLRangeMetric ev e rows startNS endNS step = Some m"
  using rangePointsLoop_total [of ev e rows] by (fastforce simp: evaluateLogQLRangeMetric_def Let_def)

lemma gridTimes_within:
  assumes "0 < step" "in_i64 startNS" "in_i64 endNS" "t \<in> set (gridTimes startNS endNS step)"
  shows "startNS \<le> t \<and> t \<le> endNS"
proof -
  let ?q = "(endNS - startNS) div step"
  obtain i where i: "i < logQLRangePoints startNS endNS step" "t = wrap64 (startNS + int i * step)"
    using assms(4) by (auto simp: gridTimes_def)
  then have le: "startNS \<le> endNS" by (auto simp: logQLRangePoints_def split: if_splits)
  then have q: "0 \<le> ?q" using assms(1) by (simp add: pos_imp_zdiv_nonneg_iff)
  have "(?q + 1) mod 2 ^ 64 \<le> ?q + 1" using q by (intro zmod_le_nonneg_dividend) simp
  then have "int i \<le> ?q" using i(1) assms(1) le by (simp add: logQLRangePoints_def)
  then have "int i * step \<le> ?q * step" using assms(1) by (intro mult_right_mono) auto
  also have "\<dots> \<le> endNS - startNS"
    using assms(1) by (metis mult_div_mod_eq pos_mod_sign le_add_same_cancel1 mult.commute)
  finally have "startNS + int i * step \<le> endNS" by simp
  moreover have "0 \<le> int i * step" using assms(1) by simp
  ultimately show ?thesis using i(2) assms(2,3) by (simp add: wrap64_id in_i64_def)
qed



section \<open>The filter of the series\<close>

text \<open>The stream labels of a row as lokiInsertRow writes them: each alias has the value of the others.\<close>

definition aliasesAgree :: "(string \<rightharpoonup> string) \<Rightarrow> bool" where
  "aliasesAgree M \<longleftrightarrow> M ''service_name'' = M ''service.name'' \<and> M ''level'' = M ''severity_text'' \<and> M ''severity_text'' = M ''detected_level''
     \<and> M ''severity'' = None \<and> (\<forall>v\<in>ran M. v \<noteq> [])"

lemma writtenKeys_aliases:
  "''severity'' \<notin> writtenKeys k" "''service_name'' \<in> writtenKeys k \<longleftrightarrow> ''service.name'' \<in> writtenKeys k"
  "''level'' \<in> writtenKeys k \<longleftrightarrow> ''severity_text'' \<in> writtenKeys k" "''severity_text'' \<in> writtenKeys k \<longleftrightarrow> ''detected_level'' \<in> writtenKeys k"
  by (auto simp: writtenKeys_def serviceAliases_def severityAliases_def)

lemma aliasesAgree_add:
  assumes "aliasesAgree M" "snd kv \<noteq> []"
  shows "aliasesAgree (absAdd kv M)"
proof -
  have "\<forall>w\<in>ran (absAdd kv M). w \<noteq> []" using assms by (auto simp: aliasesAgree_def absAdd_def ran_def)
  then show ?thesis using assms(1) by (simp only: aliasesAgree_def absAdd_def writtenKeys_aliases) simp
qed

lemma aliasesAgree_fold: "aliasesAgree (map_of m) \<Longrightarrow> \<forall>kv\<in>set kvs. snd kv \<noteq> [] \<Longrightarrow> aliasesAgree (map_of (fold addSnuffleLogLabel kvs m))"
  by (induction kvs arbitrary: m) (simp_all add: map_of_addSnuffleLogLabel aliasesAgree_add)

lemma distinct_addLabels: "distinct (map fst m) \<Longrightarrow> distinct (map fst (fold addSnuffleLogLabel kvs m))"
proof (induction kvs arbitrary: m)
  case (Cons kv kvs)
  have "distinct (map fst (addSnuffleLogLabel kv m))"
    using Cons.prems by (cases kv) (simp add: addSnuffleLogLabel_def distinct_update)
  then show ?case using Cons.IH by simp
qed simp

lemma aliasesAgree_stable: "aliasesAgree (map_of m) \<Longrightarrow> aliasesAgree (map_of (stableLabelMap m))"
  by (auto simp: aliasesAgree_def map_of_stable hasPrefix_def ran_def split: if_splits)

lemma distinct_resource: "distinct (map fst (fst (snd st))) \<Longrightarrow> distinct (map fst (fst (snd (metadataLoop kvs st))))"
  by (induction kvs st rule: metadataLoop.induct) (auto simp: distinct_update split: option.splits)

lemma pushed_stream:
  assumes "rangesOnce pe" "\<forall>(k, v)\<in>set labels. v \<noteq> []" and r_def: "r = lokiInsertRow pe cfg now n labels metadata ts line"
  shows "aliasesAgree (map_of (ilStreamLabels r))" "distinct (map fst (ilStreamLabels r))" "distinct (map fst (ilResource r))"
proof -
  let ?base = "fold addSnuffleLogLabel (peRange pe n labels) []"
  have "set (peRange pe n labels) = set labels" using assms(1) by (metis rangesOnce_def set_mset_mset)
  then have "aliasesAgree (map_of ?base)" by (intro aliasesAgree_fold) (use assms(2) in \<open>auto simp: aliasesAgree_def ran_def\<close>)
  moreover have "distinct (map fst ?base)" by (rule distinct_addLabels) simp
  moreover obtain p resource fs where parts: "metadataLoop (peRange pe n metadata) (fold addLabel (peRange pe n labels) noParts, [], []) = (p, resource, fs)"
    by (metis prod.collapse)
  ultimately have M: "\<exists>m. ilStreamLabels r = stableLabelMap m \<and> aliasesAgree (map_of m) \<and> distinct (map fst m)"
    using distinct_addLabels [of _ "[_]"]
    by (auto simp: r_def lokiInsertRow_def parts finishRow_def Let_def map_of_addSnuffleLogLabel intro!: exI aliasesAgree_add)
  then show "aliasesAgree (map_of (ilStreamLabels r))" by (auto simp: aliasesAgree_stable)
  from M show "distinct (map fst (ilStreamLabels r))" by (auto simp: stableLabelMap_def distinct_map_filter)
  have "distinct (map fst resource)"
    using distinct_resource [of "(fold addLabel (peRange pe n labels) noParts, [], [])" "peRange pe n metadata"] parts by simp
  then show "distinct (map fst (ilResource r))" by (simp add: r_def lokiInsertRow_def parts finishRow_def Let_def)
qed

lemma map_of_copyNonEmpty:
  "distinct (map fst m) \<Longrightarrow> map_of (copyNonEmpty m out) k = (case map_of m k of Some v \<Rightarrow> if v = [] then map_of out k else Some v | None \<Rightarrow> map_of out k)"
proof (induction m arbitrary: out)
  case (Cons kv m)
  obtain j v where kv: "kv = (j, v)" by (cases kv)
  have step: "copyNonEmpty (kv # m) out = copyNonEmpty m (if v \<noteq> [] then AList.update j v out else out)" by (simp add: copyNonEmpty_def kv)
  have "j = k \<Longrightarrow> map_of m k = None" using Cons.prems by (auto simp: kv map_of_eq_None_iff)
  then show ?case unfolding step using Cons by (auto simp: kv update_conv' split: option.splits)
qed (simp add: copyNonEmpty_def)

lemma labelGet_copies:
  assumes "distinct (map fst L)" "distinct (map fst R)"
  shows "labelGet (copyNonEmpty L (copyNonEmpty R [])) k = (if labelGet L k \<noteq> [] then labelGet L k else labelGet R k)"
  using assms by (cases "map_of L k"; cases "map_of R k") (simp_all add: labelGet_def map_of_copyNonEmpty)

lemma labelGet_setNonEmpty: "labelGet (setNonEmpty ks v m) k = (if v \<noteq> [] \<and> k \<in> set ks then v else labelGet m k)"
  by (simp add: labelGet_def map_of_setNonEmpty)

text \<open>The names that a resource attribute must not have for the two readings of a label to agree.\<close>

definition streamNames :: "string set" where
  "streamNames = {''service_name'', ''level'', ''severity'', ''severity_text'', ''detected_level'', ''trace_id'', ''span_id''}"

lemma series_labels:
  assumes "aliasesAgree (map_of L)" "distinct (map fst L)" "distinct (map fst R)" "fst ` set R \<inter> streamNames = {}"
    and "k \<noteq> []" "\<not> hasPrefix k ''__''"
  shows "labelGet (snuffleStreamLabels L R) k =
    (if k \<in> set serviceNames then (if labelGet L ''service_name'' \<noteq> [] then labelGet L ''service_name'' else labelGet R ''service.name'')
     else if k = ''severity'' then [] else if labelGet L k \<noteq> [] then labelGet L k else labelGet R k)"
proof -
  define out where "out = copyNonEmpty L (copyNonEmpty R [])"
  have out: "labelGet out k = (if labelGet L k \<noteq> [] then labelGet L k else labelGet R k)" for k
    unfolding out_def by (rule labelGet_copies [OF assms(2,3)])
  have none: "labelGet R n = []" if "n \<in> streamNames" for n
  proof -
    have "map_of R n = None" using that assms(4) by (auto simp: map_of_eq_None_iff)
    then show ?thesis by (simp add: labelGet_def)
  qed
  have R: "labelGet R ''service_name'' = []" "labelGet R ''level'' = []" "labelGet R ''severity'' = []" "labelGet R ''severity_text'' = []" "labelGet R ''detected_level'' = []"
    by (simp_all add: none streamNames_def)
  have L: "labelGet L ''service.name'' = labelGet L ''service_name''" "labelGet L ''severity_text'' = labelGet L ''level''"
    "labelGet L ''detected_level'' = labelGet L ''level''" "labelGet L ''severity'' = []"
    using assms(1) by (simp_all add: aliasesAgree_def labelGet_def)
  define s where "s = firstText [labelGet out ''service_name'', labelGet out ''service.name'', labelGet R ''service.name'']"
  define t where "t = firstText [labelGet (setNonEmpty [''service_name'', ''service.name''] s out) ''level'',
    labelGet (setNonEmpty [''service_name'', ''service.name''] s out) ''severity_text'', labelGet (setNonEmpty [''service_name'', ''service.name''] s out) ''detected_level'']"
  have s: "s = (if labelGet L ''service_name'' \<noteq> [] then labelGet L ''service_name'' else labelGet R ''service.name'')"
    by (simp add: s_def firstText_def out L R)
  have t: "t = labelGet L ''level''" by (simp add: t_def firstText_def labelGet_setNonEmpty out L R)
  have "labelGet (snuffleStreamLabels L R) k
      = labelGet (setNonEmpty [''level'', ''severity_text'', ''detected_level''] t (setNonEmpty [''service_name'', ''service.name''] s out)) k"
    unfolding snuffleStreamLabels_def Let_def out_def [symmetric] s_def [symmetric] t_def [symmetric]
    using assms(5,6) by (simp add: labelGet_def map_of_stable)
  also have "\<dots> = (if k \<in> set serviceNames then s else if k = ''severity'' then [] else if labelGet L k \<noteq> [] then labelGet L k else labelGet R k)"
  proof -
    consider "k = ''service_name''" | "k = ''service.name''" | "k = ''level''" | "k = ''severity_text''" | "k = ''detected_level''" | "k = ''severity''"
      | "k \<notin> set serviceNames" "k \<notin> set severityNames" by (auto simp: serviceNames_def severityNames_def)
    then show ?thesis
    proof cases
      case 7
      then show ?thesis by (simp add: labelGet_setNonEmpty out serviceNames_def severityNames_def)
    qed (simp_all add: labelGet_setNonEmpty out L R t serviceNames_def s)
  qed
  finally show ?thesis by (simp only: s)
qed

lemma stream_value:
  assumes "aliasesAgree (map_of L)" "distinct (map fst L)" "distinct (map fst R)" "fst ` set R \<inter> streamNames = {}"
    and "name \<noteq> []" "\<not> hasPrefix name ''__''" "rowMap q ''labels'' = L" "rowMap q ''resource_attributes'' = R"
  shows "logQLMatcherLabelValue (snuffleStreamLabels L R) name = sqlValue q (logQLSnuffleStreamOnlyLabelValueExpr name)"
proof -
  note get = series_labels [OF assms(1-4)]
  have direct: "logQLMatcherLabelValue m n = (if n \<in> set serviceNames then firstNonEmpty m [n, ''service_name'', ''service.name'']
      else if n \<in> set severityNames then firstNonEmpty m [n, ''level'', ''severity_text'', ''detected_level'', ''severity''] else labelGet m n)" for m n
    by (simp add: logQLMatcherLabelValue_def labelGet_def)
  have none: "map_of R n = None" if "n \<in> streamNames" for n
    using that assms(4) by (auto simp: map_of_eq_None_iff)
  have full: "labelGet L n = (case map_of L n of Some v \<Rightarrow> v | None \<Rightarrow> [])" "map_of L n = Some v \<Longrightarrow> v \<noteq> []" for n v
    using assms(1) by (auto simp: labelGet_def aliasesAgree_def ran_def split: option.splits)
  have serviceSql: "sqlValue q (IfHas ''labels'' ''service_name'' (IfHas ''labels'' ''service.name'' (MapAt ''resource_attributes'' ''service.name'')))
      = (if labelGet L ''service_name'' \<noteq> [] then labelGet L ''service_name'' else labelGet R ''service.name'')"
    using assms(1) full(2) [of "''service.name''"] by (cases "map_of L ''service.name''") (simp_all add: assms(7,8) labelGet_def aliasesAgree_def)
  have severitySql: "sqlValue q (FirstOf ''labels'' [''level'', ''severity_text'', ''detected_level''] EmptyText) = labelGet L ''level''"
    using assms(1) by (cases "map_of L ''detected_level''") (simp_all add: assms(7,8) labelGet_def aliasesAgree_def)
  have L: "labelGet L ''severity_text'' = labelGet L ''level''" "labelGet L ''detected_level'' = labelGet L ''level''"
    using assms(1) by (simp_all add: aliasesAgree_def labelGet_def)
  have R: "labelGet R n = []" if "n \<in> streamNames" for n using none [OF that] by (simp add: labelGet_def)
  have plain: "\<not> hasPrefix n ''__''" if "n \<in> set serviceNames \<union> set severityNames" for n
    using that by (auto simp: serviceNames_def severityNames_def hasPrefix_def)
  consider (service) "name \<in> set serviceNames" | (severity) "name \<in> set severityNames" | (ids) "name \<in> {''trace_id'', ''span_id''}"
    | (other) "name \<notin> set serviceNames" "name \<notin> set severityNames" "name \<notin> {''trace_id'', ''span_id''}" by blast
  then show ?thesis
  proof cases
    case service
    then have "logQLSnuffleStreamOnlyLabelValueExpr name = IfHas ''labels'' ''service_name'' (IfHas ''labels'' ''service.name'' (MapAt ''resource_attributes'' ''service.name''))"
      by (simp add: logQLSnuffleStreamOnlyLabelValueExpr_def)
    moreover have "logQLMatcherLabelValue (snuffleStreamLabels L R) name = (if labelGet L ''service_name'' \<noteq> [] then labelGet L ''service_name'' else labelGet R ''service.name'')"
      using service get [OF assms(5,6)] get [of "''service_name''"] get [of "''service.name''"] plain
      by (simp add: direct serviceNames_def)
    ultimately show ?thesis by (simp only: serviceSql)
  next
    case severity
    then have "logQLSnuffleStreamOnlyLabelValueExpr name = FirstOf ''labels'' [''level'', ''severity_text'', ''detected_level''] EmptyText"
      by (auto simp: logQLSnuffleStreamOnlyLabelValueExpr_def serviceNames_def severityNames_def)
    moreover have get: "labelGet (snuffleStreamLabels L R) ''level'' = labelGet L ''level''" "labelGet (snuffleStreamLabels L R) ''severity'' = []"
      "labelGet (snuffleStreamLabels L R) ''severity_text'' = labelGet L ''level''" "labelGet (snuffleStreamLabels L R) ''detected_level'' = labelGet L ''level''"
      using plain by (simp_all add: get serviceNames_def severityNames_def L R streamNames_def)
    have "logQLMatcherLabelValue (snuffleStreamLabels L R) name = labelGet L ''level''"
    proof -
      from severity consider "name = ''level''" | "name = ''severity''" | "name = ''severity_text''" | "name = ''detected_level''"
        by (auto simp: severityNames_def)
      then show ?thesis by cases (simp_all add: direct get serviceNames_def severityNames_def)
    qed
    ultimately show ?thesis by (simp only: severitySql)
  next
    case ids
    then have "logQLSnuffleStreamOnlyLabelValueExpr name = MapAt ''labels'' name" "name \<notin> set serviceNames" "name \<notin> set severityNames" "name \<noteq> ''severity''" "name \<in> streamNames"
      by (auto simp: logQLSnuffleStreamOnlyLabelValueExpr_def serviceNames_def severityNames_def streamNames_def)
    then show ?thesis by (simp add: direct get [OF assms(5,6)] R assms(7))
  next
    case other
    then have "logQLSnuffleStreamOnlyLabelValueExpr name = IfHas ''labels'' name (MapAt ''resource_attributes'' name)" "name \<noteq> ''severity''"
      by (auto simp: logQLSnuffleStreamOnlyLabelValueExpr_def severityNames_def)
    then show ?thesis
      using other full(2) [of name] by (cases "map_of L name") (simp_all add: direct get [OF assms(5,6)] assms(7,8) labelGet_def [of L])
  qed
qed



lemma collectSeries_again:
  "collectSeries maxSeries ok (replicate k labels) [(labelsKey (stableLabelMap labels), stableLabelMap labels)]
     = [(labelsKey (stableLabelMap labels), stableLabelMap labels)]"
  by (induction k) (simp_all add: Let_def)

text \<open>C40. In the PostHog layout the series are read off the first MaxSeries log rows of the range, not off the first
  MaxSeries series: when the oldest rows all belong to one stream, the answer has that stream alone, whatever other
  streams the range has.\<close>

theorem series_limit_counts_rows:
  assumes "postHogLogSchemaLayout cfg" "parseLogQLSelector (enCompile (evEngine (leEvaluator le))) match = Inr s"
    and "MaxSeries cfg = int n" "0 < n" "logQLSelectSQL cfg (evEngine (leEvaluator le)) s startNS endNS (int n) ''forward'' = Some sql"
    and "leRows le sql = Inr (take n (replicate n c @ others))" "matchesLabels (evEngine (leEvaluator le)) s (rowLabels (scanLogRow c))"
  shows "seriesLoop le cfg startNS endNS [match] [] = Some (ReplySeries [stableLabelMap (rowLabels (scanLogRow c))])"
proof -
  obtain k where k: "n = Suc k" using assms(4) by (cases n) auto
  have found: "matchSeries le cfg startNS endNS s = Some (Inr (replicate n (rowLabels (scanLogRow c))))"
    using assms(1,3,5,6) by (simp add: matchSeries_def scanLogRows_def comp_def map_replicate_const)
  have "collectSeries (int n) (matchesLabels (evEngine (leEvaluator le)) s) (replicate n (rowLabels (scanLogRow c))) []
      = [(labelsKey (stableLabelMap (rowLabels (scanLogRow c))), stableLabelMap (rowLabels (scanLogRow c)))]"
    using assms(7) by (simp add: k Let_def collectSeries_again)
  then show ?thesis by (simp add: assms(2,3) found)
qed

section \<open>Pushes\<close>

text \<open>A push request: its method, its content type, and what reading its body as snappy or as JSON gives.\<close>

record lokiPushCall =
  pcMethod :: string
  pcContentType :: string
  pcSnappy :: "pushError + bytes"
  pcJSON :: "pushError + lokiPushStream list"

definition decodeLokiPushRows :: "'re pushEngine \<Rightarrow> Config \<Rightarrow> int \<Rightarrow> lokiPushCall \<Rightarrow> pushError + lokiLogInsertRow list" where
  "decodeLokiPushRows pe cfg now pc =
     (if toLower (trimSpace (takeWhile (\<lambda>c. c \<noteq> CHR '';'') (pcContentType pc))) = ''application/x-protobuf''
      then (case pcSnappy pc of Inl e \<Rightarrow> Inl e | Inr decoded \<Rightarrow> decodeLokiPushProto pe cfg now decoded)
      else (case pcJSON pc of Inl e \<Rightarrow> Inl e | Inr streams \<Rightarrow> rowsFromLokiPushRequest pe cfg now streams []))"

datatype pushReply = PushOK | PushFailed nat string "pushError option" "string option"

text \<open>The reply and the store after it; None is a panic.\<close>

definition handleLokiPush ::
  "('w \<Rightarrow> nativeInsert \<Rightarrow> string option \<times> 'w) \<Rightarrow> 're pushEngine \<Rightarrow> Config \<Rightarrow> int \<Rightarrow> 'w \<Rightarrow> lokiPushCall \<Rightarrow> (pushReply \<times> 'w) option" where
  "handleLokiPush store pe cfg now w pc =
     (if pcMethod pc \<noteq> ''POST'' then Some (PushFailed 405 ''bad_method'' None (Some ''method not allowed''), w)
      else if LogsTable cfg = [] then Some (PushFailed 503 ''unavailable'' None (Some ''CH_LOGS_TABLE is empty''), w)
      else case decodeLokiPushRows pe cfg now pc of
        Inl e \<Rightarrow> Some (PushFailed 400 ''bad_data'' (Some e) None, w)
      | Inr rows \<Rightarrow> map_option (\<lambda>(err, w'). (case err of Some e \<Rightarrow> PushFailed 503 ''execution'' None (Some e) | None \<Rightarrow> PushOK, w'))
          (insertLokiLogRows store cfg now w rows))"

text \<open>A store that keeps the inserts it accepts, and refuses some.\<close>

definition recorder :: "(nativeInsert \<Rightarrow> string option) \<Rightarrow> nativeInsert list \<Rightarrow> nativeInsert \<Rightarrow> string option \<times> nativeInsert list" where
  "recorder refuse w i = (case refuse i of Some e \<Rightarrow> (Some e, w) | None \<Rightarrow> (None, w @ [i]))"

lemma recorded:
  "runLogInserts (recorder refuse) w builds = Some (None, w')
    \<Longrightarrow> None \<notin> set builds \<and> w' = w @ concat (map (\<lambda>b. case b of Some (Some i) \<Rightarrow> [i] | _ \<Rightarrow> []) builds)"
proof (induction builds arbitrary: w)
  case (Cons b bs)
  consider "b = None" | "b = Some None" | i where "b = Some (Some i)" by (metis option.exhaust)
  then show ?case
  proof cases
    case (3 i)
    show ?thesis
    proof (cases "refuse i")
      case None
      then have step: "recorder refuse w i = (None, w @ [i])" by (simp add: recorder_def)
      have "runLogInserts (recorder refuse) (w @ [i]) bs = Some (None, w')" using Cons.prems by (simp add: 3 step)
      from Cons.IH [OF this] show ?thesis by (simp add: 3)
    next
      case (Some e)
      then have "recorder refuse w i = (Some e, w)" by (simp add: recorder_def)
      then show ?thesis using Cons.prems by (simp add: 3)
    qed
  qed (use Cons in simp_all)
qed simp

lemma accepting: "None \<notin> set builds \<Longrightarrow> \<exists>w'. runLogInserts (recorder (\<lambda>_. None)) w builds = Some (None, w')"
proof (induction builds arbitrary: w)
  case (Cons b bs)
  have step: "recorder (\<lambda>_. None) w i = (None, w @ [i])" for w i by (simp add: recorder_def)
  show ?case using Cons by (cases b; cases "the b") (auto simp: step)
qed simp

text \<open>C38. A push of the native layout is acknowledged only when everything is stored: after a reply without an error
  the request was decoded, and either it has no lines or the store has accepted its streams, then its label index,
  then its lines and then its statistics, in this order, with nothing else.\<close>

theorem acknowledged_pushes_are_stored:
  assumes "handleLokiPush (recorder refuse) pe cfg now w pc = Some (PushOK, w')" "\<not> postHogLogSchemaLayout cfg"
  shows "\<exists>rows. decodeLokiPushRows pe cfg now pc = Inr rows \<and> (rows = [] \<and> w' = w
    \<or> (\<exists>s e labels stats. insertSnuffleLogStreams cfg now rows = Some (Some s) \<and> insertSnuffleLogEvents cfg rows = Some (Some e)
        \<and> insertSnuffleLogStreamLabels cfg rows = Some labels \<and> insertSnuffleLogStreamStats cfg rows = Some stats
        \<and> w' = w @ [s] @ case_option [] (\<lambda>i. [i]) labels @ [e] @ case_option [] (\<lambda>i. [i]) stats))"
proof -
  obtain rows where rows: "decodeLokiPushRows pe cfg now pc = Inr rows" "insertLokiLogRows (recorder refuse) cfg now w rows = Some (None, w')"
    using assms(1) by (auto simp: handleLokiPush_def split: if_splits sum.splits option.splits)
  have streams: "insertSnuffleLogStreams cfg now rows \<noteq> Some None" "insertSnuffleLogEvents cfg rows \<noteq> Some None"
    by (auto simp: insertSnuffleLogStreams_def insertSnuffleLogEvents_def Let_def split: bind_splits)
  show ?thesis
  proof (cases "rows = []")
    case True
    then show ?thesis using rows by (simp add: insertLokiLogRows_def)
  next
    case False
    then have run: "runLogInserts (recorder refuse) w [insertSnuffleLogStreams cfg now rows, insertSnuffleLogStreamLabels cfg rows,
        insertSnuffleLogEvents cfg rows, insertSnuffleLogStreamStats cfg rows] = Some (None, w')"
      using rows(2) assms(2) by (auto simp: insertLokiLogRows_def insertSnuffleLokiLogRows_def split: if_splits)
    from recorded [OF run] streams rows(1) show ?thesis
      by (auto split: option.splits)
  qed
qed

definition demoCall :: lokiPushCall where
  "demoCall = \<lparr>pcMethod = ''POST'', pcContentType = [], pcSnappy = Inr [], pcJSON = Inr [\<lparr>jsStream = [(''app'', ''web'')], jsLabels = [],
     jsValues = [], jsEntries = [\<lparr>jeTimestamp = ''5'', jeTime = [], jeLine = ''x''\<rparr>]\<rparr>]\<rparr>"

lemma demoCall_rows:
  "decodeLokiPushRows demoPush (demoLogs ''current'') 7 demoCall = Inr [lokiInsertRow demoPush (demoLogs ''current'') 7 0 [(''app'', ''web'')] [] 5 ''x'']"
proof -
  have "trimSpace ''5'' = ''5''" by (simp add: logql_eval)
  then have "parseLokiPushTimestamp demoPush ''5'' = Inr 5"
    by (simp add: parseLokiPushTimestamp_def trimByte_def parseInt10_def digitVal_def digitByte_def in_i64_def goUnix_def wrap64_id Let_def)
  moreover have "toLower (trimSpace []) = []" by (simp add: trimSpace_def toLower_def runes_ascii)
  ultimately show ?thesis by (simp add: decodeLokiPushRows_def demoCall_def)
qed

theorem acknowledged_pushes_are_stored_witness:
  "\<exists>w' s e labels stats. handleLokiPush (recorder (\<lambda>_. None)) demoPush (demoLogs ''current'') 7 [] demoCall = Some (PushOK, w')
    \<and> w' = [s] @ case_option [] (\<lambda>i. [i]) labels @ [e] @ case_option [] (\<lambda>i. [i]) stats"
proof -
  define rows where "rows = [lokiInsertRow demoPush (demoLogs ''current'') 7 0 [(''app'', ''web'')] [] 5 ''x'']"
  have decoded: "decodeLokiPushRows demoPush (demoLogs ''current'') 7 demoCall = Inr rows" "rows \<noteq> []"
    by (simp_all add: demoCall_rows rows_def)
  have tables: "insertInto (demoLogs ''current'') ''log_streams'' cols \<noteq> None" "insertInto (demoLogs ''current'') ''logs'' cols \<noteq> None"
    "insertInto (demoLogs ''current'') ''log_stream_labels'' cols \<noteq> None" "insertInto (demoLogs ''current'') ''log_stream_stats'' cols \<noteq> None" for cols
    by (simp_all add: insertInto_def) (simp_all add: demoLogs_def tableName_def quoteIdent_def identifierRE_def isLetter_def isDigit_def)
  have names: "LogStreamsTable (demoLogs ''current'') = ''log_streams''" "LogsTable (demoLogs ''current'') = ''logs''"
    "LogStreamLabelsTable (demoLogs ''current'') = ''log_stream_labels''" "LogStreamStatsTable (demoLogs ''current'') = ''log_stream_stats''"
    by (simp_all add: demoLogs_def)
  have bound: "a \<bind> (\<lambda>x. Some (f x)) \<noteq> None" if "a \<noteq> None" for a :: "string option" and f :: "string \<Rightarrow> nativeInsert option"
    using that by auto
  have "insertSnuffleLogStreams (demoLogs ''current'') 7 rows \<noteq> None" "insertSnuffleLogEvents (demoLogs ''current'') rows \<noteq> None"
    unfolding insertSnuffleLogStreams_def insertSnuffleLogEvents_def names Let_def by (rule bound, rule tables)+
  moreover have "insertSnuffleLogStreamLabels (demoLogs ''current'') rows \<noteq> None" "insertSnuffleLogStreamStats (demoLogs ''current'') rows \<noteq> None"
    unfolding insertSnuffleLogStreamLabels_def insertSnuffleLogStreamStats_def names Let_def
    by (simp_all add: bound [OF tables(3)] bound [OF tables(4)] del: not_None_eq)
  ultimately have "None \<notin> set [insertSnuffleLogStreams (demoLogs ''current'') 7 rows, insertSnuffleLogStreamLabels (demoLogs ''current'') rows,
      insertSnuffleLogEvents (demoLogs ''current'') rows, insertSnuffleLogStreamStats (demoLogs ''current'') rows]"
    by (simp del: not_None_eq)
  from accepting [OF this, of "[]"] obtain w' where
    "runLogInserts (recorder (\<lambda>_. None)) [] [insertSnuffleLogStreams (demoLogs ''current'') 7 rows, insertSnuffleLogStreamLabels (demoLogs ''current'') rows,
      insertSnuffleLogEvents (demoLogs ''current'') rows, insertSnuffleLogStreamStats (demoLogs ''current'') rows] = Some (None, w')" by blast
  then have ack: "handleLokiPush (recorder (\<lambda>_. None)) demoPush (demoLogs ''current'') 7 [] demoCall = Some (PushOK, w')"
    using decoded demoLogs_snuffle
    by (simp add: handleLokiPush_def insertLokiLogRows_def insertSnuffleLokiLogRows_def names demoCall_def del: runLogInserts.simps)
  from acknowledged_pushes_are_stored [OF ack demoLogs_snuffle] decoded
  have "\<exists>s e labels stats. w' = [s] @ case_option [] (\<lambda>i. [i]) labels @ [e] @ case_option [] (\<lambda>i. [i]) stats" by auto
  with ack show ?thesis by blast
qed

theorem series_limit_counts_rows_witness:
  "seriesLoop (demoEnv []\<lparr>leRows := \<lambda>_. Inr (take 1 (replicate 1 storedDemo @ [storedDemo\<lparr>colService := ''api''\<rparr>]))\<rparr>)
      (demoLogs ''posthog''\<lparr>MaxSeries := 1\<rparr>) 0 9 [''{}''] [] = Some (ReplySeries [stableLabelMap (rowLabels (scanLogRow storedDemo))])"
proof -
  let ?cfg = "demoLogs ''posthog''\<lparr>MaxSeries := 1\<rparr>"
  have layout: "postHogLogSchemaLayout ?cfg" using demoLogs_posthog by (simp add: postHogLogSchemaLayout_def)
  have parsed: "parseLogQLSelector re ''{}'' = Inr \<lparr>selMatchers = [], selStages = []\<rparr>" for re :: "string \<Rightarrow> unit option"
    by (simp add: logql_eval)
  have "tableName ''default'' ''logs'' \<noteq> None"
    by (simp add: tableName_def quoteIdent_def identifierRE_def isLetter_def isDigit_def)
  then obtain sql where sql: "logQLSelectSQL ?cfg demoLogEngine \<lparr>selMatchers = [], selStages = []\<rparr> 0 9 (int 1) ''forward'' = Some sql"
    using layout by (auto simp: logQLSelectSQL_def logQLRawSelectSQL_def rawSelect_def Let_def demoLogs_def)
  have engine: "evEngine (leEvaluator (demoEnv [])) = demoLogEngine"
    by (simp add: demoEnv_def demoEvaluator_def)
  show ?thesis
    by (rule series_limit_counts_rows [where s = "\<lparr>selMatchers = [], selStages = []\<rparr>" and n = 1 and sql = sql])
      (simp_all add: layout parsed engine sql [simplified] matchesLabels_def del: replicate.simps)
qed

end
