(* ===== verification/Spec2Isabelle.thy ===== *)
theory Spec2Isabelle
  imports Prelude ProtoWire FastIndex RemoteIdentity FastDecode GoText RemoteBatch FastBatch SqlText MatcherSql SeriesSql SqlShape PostHogSql RemoteInsert SeriesLock LogQLText LogQLEval LogQLSql LogQLWindow LogQLPush LogQLFetch LokiRow LokiDecode LokiInsert LokiApi
begin

text \<open>
  A verification development for Snuffle, the Go service that offers the APIs of Prometheus and of Loki over
  ClickHouse. All paths are under src/internal/snuffle/.

  \<^bold>\<open>The program.\<close> A request of remote write is decoded and turned into a batch of series, samples,
  histograms, exemplars and metadata (remote.go, with a fast path in remote_fast.go), whose rows are inserted into
  ClickHouse. PromQL selectors become conditions and queries (sample_predicates.go, storage.go, fastpath.go,
  posthog_storage.go), in one of two table layouts (schema_layout.go). A push of logs becomes rows, streams, a label
  index and statistics (loki_api.go). A LogQL query is parsed and evaluated in memory on fetched rows (logql.go), or
  computed by ClickHouse alone (logql_sql.go); the handlers of loki_api.go choose.

  \<^bold>\<open>Conventions.\<close> A Go string or byte slice is a list of bytes, a uint64 the type \<open>u64\<close>, an int64 an integer with its
  wrap-around written out (\<open>wrap64\<close>), a float64 its bit pattern, a time its nanoseconds since 1970. A Go map is an
  association list with distinct keys. Errors are left values of sums; a panic (an invalid table name, an index out of
  range, a division by zero) is None. What is outside the repository is a parameter: ClickHouse as the answer to a query
  text or the outcome of an insert, compiled regular expressions, encoding/json beyond strings, text/template,
  hashes, compression, the clock and the order in which a map is ranged. What a theorem assumes of them is a
  hypothesis of it.

  \<^bold>\<open>Theories, by part of the program.\<close>

  \<^item> Text and numbers. \<open>Prelude\<close>: bytes, int64, lists, collections of rules. \<open>GoText\<close>: UTF-8, Go and JSON quoting, the
    JSON writers of logql.go, read back by a specification reader. \<open>Float64\<close>: rounding, arithmetic and
    parsing of float64.

  \<^item> Remote write. \<open>ProtoWire\<close>: the wire reader; its locale of cursor readers gives progress, locality and bounds.
    \<open>FastIndex\<close>: the open-addressing index, an implementation of the locale of a map. \<open>RemoteIdentity\<close>: series
    ids, slow and fast. \<open>FastDecode\<close>: labels and samples against the wire format. \<open>RemoteBatch\<close>: the reference
    builder; the envelope of time ranges, the bucketing of samples, the rejected requests. \<open>FastBatch\<close>: the fast
    builder refines the reference. \<open>RemoteInsert\<close>: which series are new, the columns and order of the inserts.
    \<open>SeriesLock\<close>: requests that interleave, as a step relation; a series is registered once, every request ends.

  \<^item> Queries of metrics. \<open>SqlText\<close>: literals, identifiers, id batches, and a lexer as their specification.
    \<open>MatcherSql\<close>: matchers and the conditions made of them, exact or, where they are not, shown so.
    \<open>SeriesSql\<close>: series and sample queries, the union of exact selectors by bit masks. \<open>SqlShape\<close>: the token
    structure of whole queries is independent of the values of a request. \<open>PostHogSql\<close>: the PostHog layout.

  \<^item> LogQL. \<open>LogQLScan\<close> and \<open>LogQLParse\<close>: scanners and parser; \<open>LogQLSound\<close> and \<open>LogQLText\<close>: it terminates,
    and what it makes of printed and of awkward queries. \<open>LogQLRow\<close>: matchers, stages and parsers on a row.
    \<open>LogStreams\<close>: columns to rows, the lean scan against the full one, the stream response. \<open>LogQLEval\<close>: range
    aggregations, aggregations and binary operations. \<open>LogQLSql\<close>: the emitted queries, as text and as meaning;
    \<open>LogQLPush\<close>: the pushed conditions against the selector in memory; \<open>LogQLWindow\<close>: the windows of the queries
    in SQL against those in memory. \<open>LogQLFetch\<close>: how many rows and which range are fetched.

  \<^item> Loki API. \<open>LokiRow\<close>: the row of a pushed line, its severity, labels and stream. \<open>LokiDecode\<close>: the protobuf
    and the JSON form. \<open>LokiInsert\<close>: the inserts of a push. \<open>LokiApi\<close>: the handlers, their parameters and errors.

  \<^bold>\<open>What is shown across parts.\<close> The fast path of remote write builds the batch of the reference path or hands the request
  back. A stored series or stream is there before, or with, the data that refers to it, and an acknowledged push is stored
  completely. Labels that are pushed are found again by queries of rows, of label values and of series. A range query
  evaluated in memory on the fetched rows is the evaluation on the whole table. Emitted SQL reads back as intended.

  \<^bold>\<open>Where the code does not do what it means to.\<close> Some theorems prove a defect on its exact conditions: a negated regular
  expression with a literal prefix loses series, rows of two selectors are counted twice, an operand with a smaller offset
  loses rows, a NaN quantile and a step below a nanosecond panic, a sum of three terms is rejected, two spellings of a label
  split a stream, the limit of the series of the PostHog layout counts log rows.

  \<^bold>\<open>Bounds and fuel.\<close> Loops over bytes are recursions on the remaining input with proved termination. The LogQL
  parser takes as fuel the length of its input plus one; \<open>parser_terminates\<close> shows that it never runs out. The probe loops of the index
  and the lock are partial; that they end is proved. The fetch loop of log rows ends because its limit grows.

  \<^bold>\<open>Not modelled.\<close> The iterators and the engine adapter of storage.go, the recognition of PromQL trees in the
  fast paths, native histograms and the MetricsQL rewrites: they work on the data types of the Prometheus and
  MetricsQL libraries call by call, so that a model would be one of those libraries. HTTP routing, authentication,
  compression, TLS, logging, metrics and query tags are glue around the modelled handlers. Messages of errors are kept
  as their format and arguments; timing in messages is left out.
\<close>

end
